(* ===== verification/Prelude.thy ===== *)
theory Prelude
  imports Main
begin

text \<open>
  Shared vocabulary of the development: the error-or-value combinator that renders
  a thrown JavaScript exception (the surrounding storage transaction is then rolled
  back, so an exception carries no state), the named collections that the component
  theories extend, and generic facts on lists and options.
\<close>

section \<open>Collections\<close>

named_theorems cell_simps "reads and writes of a cell's storage"
named_theorems handler_defs "definitions of the event handlers"

section \<open>Exceptions\<close>

text \<open>\<open>bindE\<close> sequences two computations that may throw; \<open>ensure\<close> throws unless
  its condition holds; \<open>require\<close> unwraps an optional value or throws.\<close>

definition bindE :: "'e + 'a \<Rightarrow> ('a \<Rightarrow> 'e + 'b) \<Rightarrow> 'e + 'b" where
  "bindE m f = (case m of Inl e \<Rightarrow> Inl e | Inr x \<Rightarrow> f x)"

definition ensure :: "bool \<Rightarrow> 'e \<Rightarrow> 'e + unit" where
  "ensure b e = (if b then Inr () else Inl e)"

definition require :: "'a option \<Rightarrow> 'e \<Rightarrow> 'e + 'a" where
  "require x e = (case x of None \<Rightarrow> Inl e | Some y \<Rightarrow> Inr y)"

lemma bindE_simps [simp]:
  "bindE (Inl e) f = Inl e"
  "bindE (Inr x) f = f x"
  by (simp_all add: bindE_def)

lemma bindE_eq_Inr: "bindE m f = Inr y \<longleftrightarrow> (\<exists>x. m = Inr x \<and> f x = Inr y)"
  by (cases m) simp_all

lemma bindE_eq_Inl: "bindE m f = Inl e \<longleftrightarrow> m = Inl e \<or> (\<exists>x. m = Inr x \<and> f x = Inl e)"
  by (cases m) simp_all

lemma ensure_eq_Inr [simp]: "ensure b e = Inr u \<longleftrightarrow> b"
  by (simp add: ensure_def)

lemma ensure_True [simp]: "ensure True e = Inr ()"
  by (simp add: ensure_def)

lemma ensure_False [simp]: "ensure False e = Inl e"
  by (simp add: ensure_def)

lemma ensure_eq_Inl [simp]: "ensure b e = Inl e' \<longleftrightarrow> \<not> b \<and> e' = e"
  by (auto simp add: ensure_def)

lemma require_eq_Inr [simp]: "require x e = Inr y \<longleftrightarrow> x = Some y"
  by (simp add: require_def split: option.splits)

lemma require_simps [simp]:
  "require None e = Inl e"
  "require (Some y) e = Inr y"
  by (simp_all add: require_def)

lemmas bindE_split = bindE_eq_Inr bindE_eq_Inl

section \<open>Conditions on results\<close>

text \<open>\<open>on_result r Q\<close>: if \<open>r\<close> does not throw, its value satisfies \<open>Q\<close>.  The rules push it through
  the combinators, so that a handler's postcondition is computed by simplification.\<close>

definition on_result :: "'e + 'a \<Rightarrow> ('a \<Rightarrow> bool) \<Rightarrow> bool" where
  "on_result r Q = (case r of Inl _ \<Rightarrow> True | Inr x \<Rightarrow> Q x)"

lemma on_result_simps [simp]:
  "on_result (Inl e) Q" "on_result (Inr x) Q = Q x"
  "on_result (bindE m f) Q = on_result m (\<lambda>x. on_result (f x) Q)"
  "on_result (ensure b e) R = (b \<longrightarrow> R ())"
  "on_result (require y e) Q = (\<forall>x. y = Some x \<longrightarrow> Q x)"
  "on_result (if b then r else r') Q = (if b then on_result r Q else on_result r' Q)"
  by (auto simp: on_result_def bindE_def ensure_def require_def split: sum.splits option.splits)

lemma on_result_True [simp]: "on_result r (\<lambda>_. True)"
  by (cases r) simp_all

lemma on_resultI: "(\<And>x. Q x) \<Longrightarrow> on_result r Q"
  by (cases r) simp_all

lemma on_resultD: "on_result r Q \<Longrightarrow> r = Inr x \<Longrightarrow> Q x"
  by simp

lemma on_result_mono: "on_result r P \<Longrightarrow> (\<And>x. P x \<Longrightarrow> Q x) \<Longrightarrow> on_result r Q"
  by (cases r) simp_all

section \<open>Lists\<close>

lemma prefix_append_iff: "take (length p) s = p \<longleftrightarrow> (\<exists>r. s = p @ r)"
  by (metis append_eq_conv_conj append_take_drop_id)

lemma take_length_append [simp]: "take (length p) (p @ r) = p"
  by simp

text \<open>A list cut into pages of at most \<open>n\<close> elements, as loops over \<open>slice(offset, offset + n)\<close>
  visit it.\<close>

function pages :: "nat \<Rightarrow> 'a list \<Rightarrow> 'a list list" where
  "pages n xs = (if xs = [] then [] else take (max 1 n) xs # pages n (drop (max 1 n) xs))"
  by pat_completeness auto
termination by (relation "measure (\<lambda>(n, xs). length xs)") auto

declare pages.simps [simp del]

lemma pages_Nil [simp]: "pages n [] = []"
  by (simp add: pages.simps)

lemma concat_pages [simp]: "concat (pages n xs) = xs"
proof (induction n xs rule: pages.induct)
  case (1 n xs)
  then show ?case by (cases "xs = []") (simp_all add: pages.simps [of n xs])
qed

lemma pages_bounded: "0 < n \<Longrightarrow> p \<in> set (pages n xs) \<Longrightarrow> p \<noteq> [] \<and> length p \<le> n"
proof (induction n xs rule: pages.induct)
  case (1 n xs)
  then show ?case by (cases "xs = []") (auto simp: pages.simps [of n xs] max_def split: if_splits)
qed

lemma fold_pages: "fold (\<lambda>page s. fold f page s) (pages n xs) s = fold f xs s"
proof -
  have "fold (\<lambda>page s. fold f page s) ps s = fold f (concat ps) s" for ps
    by (induction ps arbitrary: s) simp_all
  then show ?thesis by simp
qed

text \<open>The \<open>??\<close> operator: a default for an undefined value.\<close>

definition nullish :: "'a option \<Rightarrow> 'a \<Rightarrow> 'a" where
  "nullish x d = (case x of None \<Rightarrow> d | Some y \<Rightarrow> y)"

lemma nullish_simps [simp]: "nullish None d = d" "nullish (Some y) d = y"
  by (simp_all add: nullish_def)

end
