(* ===== verification/JsStd.thy ===== *)
theory JsStd
  imports Prelude
begin

text \<open>
  The part of the JavaScript standard library the modelled code calls: dynamic values,
  number and date formatting, \<open>encodeURIComponent\<close> and \<open>Number.isSafeInteger\<close>.
  Strings are lists of \<open>char\<close>, read as UTF-8 bytes; times are epoch milliseconds.
\<close>

section \<open>Dynamic values\<close>

text \<open>
  A value of type \<open>unknown\<close>. \<open>JNum\<close> is a number with an integral value; \<open>JFrac\<close> stands
  for every other number (a fraction, \<open>NaN\<close> or an infinity): the code only ever asks
  whether such a number is a safe integer, and it is not.  \<open>JDate None\<close> is an invalid date.
\<close>

datatype js =
    JUndefined
  | JNull
  | JBool bool
  | JNum int
  | JFrac
  | JStr string
  | JBytes "nat list"
  | JDate "int option"
  | JArr "js list"
  | JObj "(string \<times> js) list"

fun js_object :: "js \<Rightarrow> bool" where
  "js_object (JObj _) = True"
| "js_object (JArr _) = True"
| "js_object (JBytes _) = True"
| "js_object (JDate _) = True"
| "js_object _ = False"

text \<open>Property read on an object; anything else has no own property of interest.\<close>

fun js_prop :: "js \<Rightarrow> string \<Rightarrow> js" where
  "js_prop (JObj fs) k = nullish (map_of fs k) JUndefined"
| "js_prop _ _ = JUndefined"

definition max_safe_integer :: int where
  "max_safe_integer = 9007199254740991"

definition safe_int :: "int \<Rightarrow> bool" where
  "safe_int n \<longleftrightarrow> - max_safe_integer \<le> n \<and> n \<le> max_safe_integer"

text \<open>\<open>Math.ceil(a / b)\<close> on the millisecond quantities of the code (far below \<open>2^53\<close>, so the
  floating-point quotient is never rounded across an integer).\<close>

definition ceil_div :: "int \<Rightarrow> int \<Rightarrow> int" where
  "ceil_div a b = - ((- a) div b)"

lemma ceil_div_bounds:
  assumes "0 < b"
  shows "a \<le> b * ceil_div a b" "b * ceil_div a b < a + b"
proof -
  have e: "b * ((- a) div b) + (- a) mod b = - a"
    by (rule mult_div_mod_eq)
  have "0 \<le> (- a) mod b" "(- a) mod b < b"
    using assms by (simp_all only: pos_mod_sign pos_mod_bound)
  then show "a \<le> b * ceil_div a b" "b * ceil_div a b < a + b"
    using e unfolding ceil_div_def mult_minus_right by linarith+
qed

text \<open>Truthiness of an optional string.\<close>

definition truthy :: "string option \<Rightarrow> bool" where
  "truthy x \<longleftrightarrow> (case x of None \<Rightarrow> False | Some s \<Rightarrow> s \<noteq> [])"

lemma truthy_simps [simp]: "\<not> truthy None" "truthy (Some s) \<longleftrightarrow> s \<noteq> []"
  by (simp_all add: truthy_def)

section \<open>Decimal strings\<close>

definition digit_char :: "nat \<Rightarrow> char" where
  "digit_char d = char_of (48 + d)"

fun dec_nat :: "nat \<Rightarrow> string" where
  "dec_nat n = (if n < 10 then [digit_char n] else dec_nat (n div 10) @ [digit_char (n mod 10)])"

declare dec_nat.simps [simp del]

definition dec_int :: "int \<Rightarrow> string" where
  "dec_int n = (if n < 0 then ''-'' @ dec_nat (nat (- n)) else dec_nat (nat n))"

definition pad_start :: "nat \<Rightarrow> char \<Rightarrow> string \<Rightarrow> string" where
  "pad_start w c s = replicate (w - length s) c @ s"

section \<open>\<open>Date.prototype.toISOString\<close>\<close>

text \<open>The proleptic Gregorian date of a day number (days since 1970-01-01), by the usual
  era/day-of-era computation; \<open>div\<close> and \<open>mod\<close> round downwards, as the algorithm needs.\<close>

definition civil_of_days :: "int \<Rightarrow> int \<times> int \<times> int" where
  "civil_of_days d =
     (let z = d + 719468; era = z div 146097; doe = z mod 146097;
          yoe = (doe - doe div 1460 + doe div 36524 - doe div 146096) div 365;
          doy = doe - (365 * yoe + yoe div 4 - yoe div 100);
          mp = (5 * doy + 2) div 153;
          day = doy - (153 * mp + 2) div 5 + 1;
          month = (if mp < 10 then mp + 3 else mp - 9)
      in (yoe + era * 400 + (if month \<le> 2 then 1 else 0), month, day))"

definition pad_dec :: "nat \<Rightarrow> int \<Rightarrow> string" where
  "pad_dec w n = pad_start w (CHR ''0'') (dec_int n)"

definition iso_year :: "int \<Rightarrow> string" where
  "iso_year y =
     (if 0 \<le> y \<and> y \<le> 9999 then pad_dec 4 y
      else if y < 0 then ''-'' @ pad_dec 6 (- y) else ''+'' @ pad_dec 6 y)"

definition iso_string :: "int \<Rightarrow> string" where
  "iso_string t =
     (let (y, mo, d) = civil_of_days (t div 86400000); ms = t mod 86400000
      in iso_year y @ ''-'' @ pad_dec 2 mo @ ''-'' @ pad_dec 2 d @ ''T'' @
         pad_dec 2 (ms div 3600000) @ '':'' @ pad_dec 2 (ms div 60000 mod 60) @ '':'' @
         pad_dec 2 (ms div 1000 mod 60) @ ''.'' @ pad_dec 3 (ms mod 1000) @ ''Z'')"

section \<open>\<open>encodeURIComponent\<close>\<close>

definition uri_unreserved :: "char \<Rightarrow> bool" where
  "uri_unreserved c \<longleftrightarrow>
     (let n = (of_char c :: nat) in
        (48 \<le> n \<and> n \<le> 57) \<or> (65 \<le> n \<and> n \<le> 90) \<or> (97 \<le> n \<and> n \<le> 122) \<or>
        c \<in> set ''-_.!~*'' \<or> n = 39 \<or> n = 40 \<or> n = 41)"

definition hex_digit :: "nat \<Rightarrow> char" where
  "hex_digit d = (if d < 10 then char_of (48 + d) else char_of (55 + d))"

definition uri_byte :: "char \<Rightarrow> string" where
  "uri_byte c =
     (if uri_unreserved c then [c]
      else let n = (of_char c :: nat) in [CHR ''%'', hex_digit (n div 16), hex_digit (n mod 16)])"

definition encodeURIComponent :: "string \<Rightarrow> string" where
  "encodeURIComponent s = concat (map uri_byte s)"

lemma of_char_lt_256: "(of_char c :: nat) < 256"
  by (metis nat_of_char_less_256)

lemma char_of_eq_iff: "a < 256 \<Longrightarrow> b < 256 \<Longrightarrow> (char_of (a :: nat) = char_of b) = (a = b)"
  by (metis (no_types, lifting) char_of_mod_256 mod_less of_char_of)

lemma hex_digit_inj: "a < 16 \<Longrightarrow> b < 16 \<Longrightarrow> (hex_digit a = hex_digit b) = (a = b)"
  by (auto simp: hex_digit_def char_of_eq_iff split: if_splits)

lemma nibble_lt_16: "(of_char c :: nat) div 16 < 16"
  by (rule less_mult_imp_div_less) (use of_char_lt_256 [of c] in linarith)

lemma percent_not_unreserved: "\<not> uri_unreserved (CHR ''%'')"
  by (simp add: uri_unreserved_def)

lemma uri_byte_not_Nil: "uri_byte c \<noteq> []"
  by (simp add: uri_byte_def Let_def)

text \<open>The encoding of one byte is a prefix code, so whole strings are encoded injectively:
  storage keys built from two different names never coincide.\<close>

lemma uri_byte_prefix_code:
  assumes "uri_byte c @ r = uri_byte d @ r'"
  shows "c = d \<and> r = r'"
proof -
  have esc: "uri_byte c = [c]" if "uri_unreserved c" for c
    using that by (simp add: uri_byte_def)
  consider "uri_unreserved c" "uri_unreserved d" | "uri_unreserved c" "\<not> uri_unreserved d"
    | "\<not> uri_unreserved c" "uri_unreserved d" | "\<not> uri_unreserved c" "\<not> uri_unreserved d"
    by blast
  then show ?thesis
  proof cases
    case 1
    then show ?thesis using assms by (simp add: esc)
  next
    case 2
    then show ?thesis using assms percent_not_unreserved
      by (auto simp: esc uri_byte_def Let_def)
  next
    case 3
    then show ?thesis using assms percent_not_unreserved
      by (auto simp: esc uri_byte_def Let_def)
  next
    case 4
    then have d: "hex_digit ((of_char c :: nat) div 16) = hex_digit (of_char d div 16)"
      and m: "hex_digit ((of_char c :: nat) mod 16) = hex_digit (of_char d mod 16)"
      and r: "r = r'"
      using assms by (simp_all add: uri_byte_def Let_def)
    have "(of_char c :: nat) div 16 = of_char d div 16"
      using d nibble_lt_16 by (subst (asm) hex_digit_inj) auto
    moreover have "(of_char c :: nat) mod 16 = of_char d mod 16"
      using m by (subst (asm) hex_digit_inj) auto
    ultimately have "(of_char c :: nat) = of_char d"
      by (metis div_mult_mod_eq)
    then show ?thesis using r by simp
  qed
qed

lemma encodeURIComponent_inj: "encodeURIComponent s = encodeURIComponent t \<longleftrightarrow> s = t"
proof
  show "encodeURIComponent s = encodeURIComponent t \<Longrightarrow> s = t"
  proof (induction s arbitrary: t)
    case Nil
    then show ?case by (cases t) (auto simp: encodeURIComponent_def uri_byte_not_Nil)
  next
    case (Cons c s)
    then obtain d t' where t: "t = d # t'"
      by (cases t) (auto simp: encodeURIComponent_def uri_byte_not_Nil)
    have "uri_byte c @ encodeURIComponent s = uri_byte d @ encodeURIComponent t'"
      using Cons.prems t by (simp add: encodeURIComponent_def)
    then have "c = d \<and> encodeURIComponent s = encodeURIComponent t'"
      by (rule uri_byte_prefix_code)
    with Cons.IH t show ?case by simp
  qed
qed simp

text \<open>An encoded string contains no separator: the code joins encoded names with a colon.\<close>

lemma hex_digit_code: "d < 16 \<Longrightarrow> (of_char (hex_digit d) :: nat) \<in> {48..57} \<union> {65..70}"
  by (auto simp: hex_digit_def)

lemma encodeURIComponent_no_colon: "CHR '':'' \<notin> set (encodeURIComponent s)"
proof -
  have u: "\<not> uri_unreserved (CHR '':'')"
    by (simp add: uri_unreserved_def)
  have h: "hex_digit d \<noteq> CHR '':''" if "d < 16" for d
    using hex_digit_code [OF that] by auto
  have "CHR '':'' \<notin> set (uri_byte c)" for c
    using u h [OF nibble_lt_16 [of c]] h [of "of_char c mod 16"]
    by (auto simp: uri_byte_def Let_def)
  then show ?thesis by (auto simp: encodeURIComponent_def)
qed

lemma colon_split:
  "CHR '':'' \<notin> set a \<Longrightarrow> CHR '':'' \<notin> set b \<Longrightarrow>
   (a @ CHR '':'' # r = b @ CHR '':'' # r') = (a = b \<and> r = r')"
proof (induction a arbitrary: b)
  case Nil
  then show ?case by (cases b) auto
next
  case (Cons x a)
  then show ?case by (cases b) auto
qed

end
