(* ===== verification/KeyStore.thy ===== *)
theory KeyStore
  imports JsStd "HOL-Library.List_Lexorder" "HOL-Library.Char_ord"
begin

text \<open>
  The storage of one Durable Object cell as the repository's own in-process fleet
  implements it (\<open>src/testing/fake-cell.ts\<close>): string keys, opaque values, listing in
  lexicographic key order under a prefix, inclusive/exclusive bounds, a direction and a
  limit.  A transaction is a function from store to store: its writes are visible to its
  own reads, they take effect together when it returns, and none does when it throws.

  The laws that the cells rely on are the locale \<open>key_value\<close>; \<open>kv\<close> is its
  interpretation on the model's sorted association lists.
\<close>

type_synonym 'v kv = "(string \<times> 'v) list"

section \<open>Operations\<close>

definition kv_get :: "string \<Rightarrow> 'v kv \<Rightarrow> 'v option" where
  "kv_get k s = map_of s k"

fun kv_put :: "string \<Rightarrow> 'v \<Rightarrow> 'v kv \<Rightarrow> 'v kv" where
  "kv_put k v [] = [(k, v)]"
| "kv_put k v ((k', v') # s) =
     (if k < k' then (k, v) # (k', v') # s
      else if k = k' then (k, v) # s
      else (k', v') # kv_put k v s)"

definition kv_del :: "string \<Rightarrow> 'v kv \<Rightarrow> 'v kv" where
  "kv_del k s = filter (\<lambda>(k', _). k' \<noteq> k) s"

definition kv_put_all :: "(string \<times> 'v) list \<Rightarrow> 'v kv \<Rightarrow> 'v kv" where
  "kv_put_all es s = fold (\<lambda>(k, v). kv_put k v) es s"

definition kv_del_all :: "string list \<Rightarrow> 'v kv \<Rightarrow> 'v kv" where
  "kv_del_all ks s = fold kv_del ks s"

text \<open>The multi-key delete answers how many keys it removed.\<close>

fun kv_del_count :: "string list \<Rightarrow> 'v kv \<Rightarrow> nat" where
  "kv_del_count [] s = 0"
| "kv_del_count (k # ks) s =
     (if kv_get k s = None then kv_del_count ks s else Suc (kv_del_count ks (kv_del k s)))"

record kv_query =
  q_prefix :: string
  q_start :: "string option"
  q_start_after :: "string option"
  q_end :: "string option"
  q_limit :: "nat option"
  q_reverse :: bool

definition prefix_query :: "string \<Rightarrow> kv_query" where
  "prefix_query p = \<lparr>q_prefix = p, q_start = None, q_start_after = None, q_end = None,
     q_limit = None, q_reverse = False\<rparr>"

definition has_prefix :: "string \<Rightarrow> string \<Rightarrow> bool" where
  "has_prefix p k \<longleftrightarrow> take (length p) k = p"

definition in_query :: "kv_query \<Rightarrow> string \<Rightarrow> bool" where
  "in_query q k \<longleftrightarrow> has_prefix (q_prefix q) k
     \<and> (case q_start q of None \<Rightarrow> True | Some b \<Rightarrow> b \<le> k)
     \<and> (case q_start_after q of None \<Rightarrow> True | Some b \<Rightarrow> b < k)
     \<and> (case q_end q of None \<Rightarrow> True | Some b \<Rightarrow> k < b)"

definition take_limit :: "nat option \<Rightarrow> 'a list \<Rightarrow> 'a list" where
  "take_limit l xs = (case l of None \<Rightarrow> xs | Some n \<Rightarrow> take n xs)"

definition kv_list :: "kv_query \<Rightarrow> 'v kv \<Rightarrow> (string \<times> 'v) list" where
  "kv_list q s =
     (let r = filter (\<lambda>(k, _). in_query q k) s
      in take_limit (q_limit q) (if q_reverse q then rev r else r))"

definition kv_wf :: "'v kv \<Rightarrow> bool" where
  "kv_wf s \<longleftrightarrow> sorted_wrt (<) (map fst s)"

section \<open>The interface and its laws\<close>

locale key_value =
  fixes get :: "string \<Rightarrow> 's \<Rightarrow> 'v option"
    and put :: "string \<Rightarrow> 'v \<Rightarrow> 's \<Rightarrow> 's"
    and del :: "string \<Rightarrow> 's \<Rightarrow> 's"
    and wf_store :: "'s \<Rightarrow> bool"
  assumes get_put: "get k' (put k v s) = (if k' = k then Some v else get k' s)"
    and get_del: "get k' (del k s) = (if k' = k then None else get k' s)"
    and wf_put: "wf_store s \<Longrightarrow> wf_store (put k v s)"
    and wf_del: "wf_store s \<Longrightarrow> wf_store (del k s)"
begin

lemma get_fold_del: "get k' (fold del ks s) = (if k' \<in> set ks then None else get k' s)"
  by (induction ks arbitrary: s) (auto simp: get_del)

lemma get_fold_put:
  "get k' (fold (\<lambda>(k, v). put k v) es s) =
     (case map_of (rev es) k' of None \<Rightarrow> get k' s | Some v \<Rightarrow> Some v)"
  by (induction es arbitrary: s) (auto simp: get_put map_add_def split: option.splits)

lemma wf_fold_del: "wf_store s \<Longrightarrow> wf_store (fold del ks s)"
  by (induction ks arbitrary: s) (auto simp: wf_del)

lemma wf_fold_put: "wf_store s \<Longrightarrow> wf_store (fold (\<lambda>(k, v). put k v) es s)"
  by (induction es arbitrary: s) (auto simp: wf_put)

lemma put_put_get: "get k'' (put k v (put k v' s)) = get k'' (put k v s)"
  by (simp add: get_put)

end

section \<open>The association list provides it\<close>

lemma kv_get_put: "kv_get k' (kv_put k v s) = (if k' = k then Some v else kv_get k' s)"
  by (induction k v s rule: kv_put.induct) (auto simp: kv_get_def)

lemma kv_get_del: "kv_get k' (kv_del k s) = (if k' = k then None else kv_get k' s)"
  by (induction s) (auto simp: kv_get_def kv_del_def)

lemma set_kv_put: "fst ` set (kv_put k v s) = insert k (fst ` set s)"
  by (induction k v s rule: kv_put.induct) auto

lemma kv_wf_put: "kv_wf s \<Longrightarrow> kv_wf (kv_put k v s)"
proof (induction k v s rule: kv_put.induct)
  case (1 k v)
  then show ?case by (simp add: kv_wf_def)
next
  case (2 k v k' v' s)
  have tail: "\<forall>x \<in> fst ` set s. k' < x" and s: "kv_wf s"
    using 2(2) by (auto simp: kv_wf_def)
  consider "k < k'" | "k = k'" | "k' < k" by fastforce
  then show ?case
  proof cases
    case 1
    then show ?thesis using 2(2) by (auto simp: kv_wf_def)
  next
    case b: 2
    then show ?thesis using 2(2) by (simp add: kv_wf_def)
  next
    case 3
    then have "kv_wf (kv_put k v s)" using 2(1) s by auto
    moreover have "\<forall>x \<in> fst ` set (kv_put k v s). k' < x"
      using tail 3 by (simp add: set_kv_put)
    ultimately show ?thesis using 3 by (auto simp: kv_wf_def)
  qed
qed

lemma kv_wf_filter: "kv_wf s \<Longrightarrow> kv_wf (filter P s)"
  unfolding kv_wf_def by (induction s) auto

lemma kv_wf_del: "kv_wf s \<Longrightarrow> kv_wf (kv_del k s)"
  by (simp add: kv_del_def kv_wf_filter)

interpretation kv: key_value kv_get kv_put kv_del kv_wf
  by unfold_locales (simp_all add: kv_get_put kv_get_del kv_wf_put kv_wf_del)

declare kv_get_put [simp, cell_simps] kv_get_del [simp, cell_simps]

lemma kv_get_put_all:
  "kv_get k (kv_put_all es s) =
     (case map_of (rev es) k of None \<Rightarrow> kv_get k s | Some v \<Rightarrow> Some v)"
  by (simp add: kv_put_all_def kv.get_fold_put)

lemma kv_get_del_all [simp, cell_simps]:
  "kv_get k (kv_del_all ks s) = (if k \<in> set ks then None else kv_get k s)"
  by (simp add: kv_del_all_def kv.get_fold_del)

lemma kv_wf_del_all: "kv_wf s \<Longrightarrow> kv_wf (kv_del_all ks s)"
  by (simp add: kv_del_all_def kv.wf_fold_del)

lemma kv_wf_put_all: "kv_wf s \<Longrightarrow> kv_wf (kv_put_all es s)"
  by (simp add: kv_put_all_def kv.wf_fold_put)

lemmas kv_wf_intros = kv_wf_put kv_wf_del kv_wf_del_all kv_wf_put_all

lemma kv_get_Nil [simp]: "kv_get k [] = None"
  by (simp add: kv_get_def)

section \<open>Batched access\<close>

text \<open>The storage takes at most 128 keys per call; longer key lists go page by page.\<close>

definition storage_batch_size :: nat where "storage_batch_size = 128"

definition getMany :: "string list \<Rightarrow> 'v kv \<Rightarrow> (string \<times> 'v) list" where
  "getMany ks s =
     concat (map (List.map_filter (\<lambda>k. map_option (Pair k) (kv_get k s))) (pages storage_batch_size ks))"

definition deleteMany :: "string list \<Rightarrow> 'v kv \<Rightarrow> nat \<times> 'v kv" where
  "deleteMany ks s =
     fold (\<lambda>page (n, s). (n + kv_del_count page s, kv_del_all page s)) (pages storage_batch_size ks) (0, s)"

definition putStorageEntries :: "(string \<times> 'v) list \<Rightarrow> 'v kv \<Rightarrow> 'v kv" where
  "putStorageEntries es s = fold kv_put_all (pages storage_batch_size es) s"

lemma map_filter_concat:
  "concat (map (List.map_filter f) xss) = List.map_filter f (concat xss)"
  by (induction xss) (simp_all add: List.map_filter_def)

text \<open>The batches are invisible: the answers are those of one unbounded call.\<close>

lemma map_filter_Pair_lookup:
  "map_of (List.map_filter (\<lambda>k. map_option (Pair k) (f k)) ks) k = (if k \<in> set ks then f k else None)"
  by (induction ks) (auto simp: List.map_filter_simps split: option.splits)

lemma getMany_lookup: "map_of (getMany ks s) k = (if k \<in> set ks then kv_get k s else None)"
  by (simp add: getMany_def map_filter_concat map_filter_Pair_lookup)

lemma kv_del_count_append:
  "kv_del_count (ks @ ks') s = kv_del_count ks s + kv_del_count ks' (kv_del_all ks s)"
proof (induction ks arbitrary: s)
  case Nil
  then show ?case by (simp add: kv_del_all_def)
next
  case (Cons k ks)
  have "kv_del k s = s" if "kv_get k s = None"
    using that by (force simp: kv_get_def kv_del_def map_of_eq_None_iff filter_id_conv)
  then show ?case using Cons.IH [of s] Cons.IH [of "kv_del k s"]
    by (cases "kv_get k s") (simp_all add: kv_del_all_def)
qed

lemma kv_del_all_append: "kv_del_all (ks @ ks') s = kv_del_all ks' (kv_del_all ks s)"
  by (simp add: kv_del_all_def)

lemma deleteMany_eq [simp]: "deleteMany ks s = (kv_del_count ks s, kv_del_all ks s)"
proof -
  have "fold (\<lambda>page (n, s). (n + kv_del_count page s, kv_del_all page s)) ps (n, s)
      = (n + kv_del_count (concat ps) s, kv_del_all (concat ps) s)" for ps n
    by (induction ps arbitrary: n s)
      (simp_all add: kv_del_count_append kv_del_all_append, simp add: kv_del_all_def)
  then show ?thesis by (simp add: deleteMany_def)
qed

lemma putStorageEntries_eq [simp]: "putStorageEntries es s = kv_put_all es s"
proof -
  have "fold kv_put_all ps s = fold (\<lambda>page s. fold (\<lambda>(k, v). kv_put k v) page s) ps s" for ps
    by (induction ps arbitrary: s) (simp_all add: kv_put_all_def)
  then show ?thesis by (simp add: putStorageEntries_def fold_pages kv_put_all_def)
qed

section \<open>Listing\<close>

lemma kv_wf_distinct: "kv_wf s \<Longrightarrow> distinct (map fst s)"
  unfolding kv_wf_def by (induction s) auto

lemma kv_get_iff_mem: "kv_wf s \<Longrightarrow> kv_get k s = Some v \<longleftrightarrow> (k, v) \<in> set s"
  using kv_wf_distinct [of s] by (simp add: kv_get_def)

lemma set_take_limit: "set (take_limit l xs) \<subseteq> set xs"
  by (auto simp: take_limit_def split: option.splits dest: in_set_takeD)

lemma kv_list_subset: "set (kv_list q s) \<subseteq> {(k, v) \<in> set s. in_query q k}"
  by (auto simp: kv_list_def Let_def take_limit_def split: option.splits if_splits
      dest: in_set_takeD)

lemma kv_list_get: "kv_wf s \<Longrightarrow> (k, v) \<in> set (kv_list q s) \<Longrightarrow> kv_get k s = Some v"
  using kv_list_subset [of q s] by (auto simp: kv_get_iff_mem)

lemma kv_list_in_query: "(k, v) \<in> set (kv_list q s) \<Longrightarrow> in_query q k"
  using kv_list_subset [of q s] by auto

lemma kv_list_prefix: "(k, v) \<in> set (kv_list q s) \<Longrightarrow> has_prefix (q_prefix q) k"
  using kv_list_in_query by (fastforce simp: in_query_def)

text \<open>A page that comes back shorter than its limit holds everything the query selects.\<close>

lemma kv_list_complete:
  assumes "q_limit q = Some n" and "length (kv_list q s) < n"
  shows "set (kv_list q s) = {(k, v) \<in> set s. in_query q k}"
proof -
  let ?r = "filter (\<lambda>(k, _). in_query q k) s"
  have "length (take n (if q_reverse q then rev ?r else ?r)) < n"
    using assms by (simp add: kv_list_def take_limit_def Let_def)
  then have "length ?r < n" by (simp split: if_splits)
  then show ?thesis using assms by (auto simp: kv_list_def take_limit_def Let_def)
qed

lemma has_prefix_append [simp]: "has_prefix p (p @ r)"
  by (simp add: has_prefix_def)

lemma has_prefix_iff: "has_prefix p k \<longleftrightarrow> (\<exists>r. k = p @ r)"
  by (simp add: has_prefix_def prefix_append_iff)

end
