(* ===== verification/Lifecycle.thy ===== *)
theory Lifecycle
  imports JsStd
begin

text \<open>
  The protocol bounds (\<open>src/lifecycle.ts\<close>) and the integer and deadline validators
  (\<open>src/validation.ts\<close>) every queue and lease computation goes through.  Queue
  deadlines are epoch milliseconds below \<open>10^13\<close>, so that thirteen decimal digits
  order them lexicographically.
\<close>

section \<open>Bounds\<close>

definition max_queue_timestamp_ms :: int where "max_queue_timestamp_ms = 9999999999999"
definition max_queue_delay_seconds :: int where
  "max_queue_delay_seconds = max_queue_timestamp_ms div 1000"

definition max_fleet_rpc_timeout_ms :: int where "max_fleet_rpc_timeout_ms = 5 * 60 * 1000"
definition fleet_idempotent_attempts :: int where "fleet_idempotent_attempts = 3"
definition fleet_retry_backoff_max_ms :: int where "fleet_retry_backoff_max_ms = 900"
definition max_idempotent_rpc_lifetime_ms :: int where
  "max_idempotent_rpc_lifetime_ms =
     fleet_idempotent_attempts * max_fleet_rpc_timeout_ms + fleet_retry_backoff_max_ms"
definition max_run_index_publication_lifetime_ms :: int where
  "max_run_index_publication_lifetime_ms =
     max_fleet_rpc_timeout_ms + max_idempotent_rpc_lifetime_ms"
definition queue_claim_stale_ms :: int where "queue_claim_stale_ms = 15 * 60 * 1000"
definition queue_alarm_edge_ms :: int where "queue_alarm_edge_ms = 1"
definition max_queue_derived_deadline_headroom_ms :: int where
  "max_queue_derived_deadline_headroom_ms = queue_claim_stale_ms + queue_alarm_edge_ms"
definition max_queue_schedule_timestamp_ms :: int where
  "max_queue_schedule_timestamp_ms =
     max_queue_timestamp_ms - max_queue_derived_deadline_headroom_ms"
definition catalog_fence_grace_ms :: int where
  "catalog_fence_grace_ms = max_run_index_publication_lifetime_ms"
definition hook_claim_lease_ms :: int where
  "hook_claim_lease_ms =
     (fleet_idempotent_attempts * 2 + 1) * max_fleet_rpc_timeout_ms
     + fleet_retry_backoff_max_ms * 2"
definition lifecycle_compaction_batch :: nat where "lifecycle_compaction_batch = 128"
definition lifecycle_compaction_retry_ms :: int where "lifecycle_compaction_retry_ms = 1000"
definition hook_takeover_settle_ms :: int where
  "hook_takeover_settle_ms = max_fleet_rpc_timeout_ms"

lemmas bound_defs = max_queue_timestamp_ms_def max_queue_delay_seconds_def
  max_fleet_rpc_timeout_ms_def fleet_idempotent_attempts_def fleet_retry_backoff_max_ms_def
  max_idempotent_rpc_lifetime_ms_def max_run_index_publication_lifetime_ms_def
  queue_claim_stale_ms_def queue_alarm_edge_ms_def max_queue_derived_deadline_headroom_ms_def
  max_queue_schedule_timestamp_ms_def catalog_fence_grace_ms_def hook_claim_lease_ms_def
  lifecycle_compaction_batch_def lifecycle_compaction_retry_ms_def hook_takeover_settle_ms_def

section \<open>Integer validators\<close>

datatype setting_error = Setting_Out_Of_Range

fun isSafeInteger :: "js \<Rightarrow> bool" where
  "isSafeInteger (JNum n) = safe_int n"
| "isSafeInteger _ = False"

text \<open>Numeric comparison with an already checked integer; only reached on \<open>JNum\<close>.\<close>

fun js_int :: "js \<Rightarrow> int" where
  "js_int (JNum n) = n"
| "js_int _ = 0"

fun isRecord :: "js \<Rightarrow> bool" where
  "isRecord (JObj _) = True"
| "isRecord (JBytes _) = True"
| "isRecord (JDate _) = True"
| "isRecord _ = False"

definition isNonNegativeSafeInteger :: "js \<Rightarrow> bool" where
  "isNonNegativeSafeInteger v \<longleftrightarrow> isSafeInteger v \<and> 0 \<le> js_int v"

definition isPositiveSafeInteger :: "js \<Rightarrow> bool" where
  "isPositiveSafeInteger v \<longleftrightarrow> isSafeInteger v \<and> 0 < js_int v"

definition boundedIntegerOption :: "js \<Rightarrow> int \<Rightarrow> int \<Rightarrow> int \<Rightarrow> setting_error + int" where
  "boundedIntegerOption v fallback lo hi =
     (if v = JUndefined then Inr fallback
      else if \<not> isSafeInteger v \<or> js_int v < lo \<or> js_int v > hi then Inl Setting_Out_Of_Range
      else Inr (js_int v))"

definition digit_of :: "char \<Rightarrow> nat option" where
  "digit_of c = (let n = (of_char c :: nat) in if 48 \<le> n \<and> n \<le> 57 then Some (n - 48) else None)"

fun parse_digits :: "nat \<Rightarrow> string \<Rightarrow> nat option" where
  "parse_digits acc [] = Some acc"
| "parse_digits acc (c # s) =
     (case digit_of c of None \<Rightarrow> None | Some d \<Rightarrow> parse_digits (10 * acc + d) s)"

text \<open>\<open>/^\d+$/\<close> and \<open>Number\<close>: a value past \<open>2^53\<close> is rounded by \<open>Number\<close> but stays
  unsafe, so the exact value decides the same way.\<close>

definition parse_unsigned :: "string \<Rightarrow> js" where
  "parse_unsigned s =
     (if s = [] then JFrac else case parse_digits 0 s of None \<Rightarrow> JFrac | Some n \<Rightarrow> JNum (int n))"

fun strictIntegerSetting :: "js \<Rightarrow> int \<Rightarrow> int \<Rightarrow> int \<Rightarrow> setting_error + int" where
  "strictIntegerSetting JUndefined fallback lo hi = Inr fallback"
| "strictIntegerSetting raw fallback lo hi =
     (let v = (case raw of JStr s \<Rightarrow> parse_unsigned s | _ \<Rightarrow> raw)
      in if \<not> isSafeInteger v \<or> js_int v < lo \<or> js_int v > hi then Inl Setting_Out_Of_Range
         else Inr (js_int v))"

section \<open>Queue deadlines\<close>

definition isValidQueueDelaySeconds :: "js \<Rightarrow> int \<Rightarrow> bool" where
  "isValidQueueDelaySeconds v minimum \<longleftrightarrow>
     isSafeInteger v \<and> minimum \<le> js_int v \<and> js_int v \<le> max_queue_delay_seconds"

definition checkedQueueTimestampAdd :: "js \<Rightarrow> js \<Rightarrow> js \<Rightarrow> int option" where
  "checkedQueueTimestampAdd timestampMs offsetMs requiredHeadroomMs =
     (if \<not> isNonNegativeSafeInteger timestampMs \<or> \<not> isNonNegativeSafeInteger offsetMs
         \<or> \<not> isNonNegativeSafeInteger requiredHeadroomMs then None
      else
        let timestamp = js_int timestampMs; offset = js_int offsetMs in
        if timestamp > max_queue_timestamp_ms \<or> offset > max_queue_timestamp_ms - timestamp
        then None
        else
          let result = timestamp + offset in
          if js_int requiredHeadroomMs \<le> max_queue_timestamp_ms - result then Some result
          else None)"

definition queueDelayDeadline :: "int \<Rightarrow> js \<Rightarrow> int \<Rightarrow> int \<Rightarrow> int option" where
  "queueDelayDeadline now delaySeconds minimum requiredHeadroomMs =
     (if \<not> isNonNegativeSafeInteger (JNum now) \<or> \<not> isValidQueueDelaySeconds delaySeconds minimum
      then None
      else checkedQueueTimestampAdd (JNum now) (JNum (js_int delaySeconds * 1000))
             (JNum requiredHeadroomMs))"

section \<open>Facts\<close>

lemma js_int_safe: "isSafeInteger v \<Longrightarrow> v = JNum (js_int v) \<and> safe_int (js_int v)"
  by (cases v) auto

lemma isNonNegativeSafeInteger_iff:
  "isNonNegativeSafeInteger v \<longleftrightarrow> (\<exists>n. v = JNum n \<and> 0 \<le> n \<and> n \<le> max_safe_integer)"
  by (cases v) (auto simp: isNonNegativeSafeInteger_def safe_int_def max_safe_integer_def)

lemma isPositiveSafeInteger_iff:
  "isPositiveSafeInteger v \<longleftrightarrow> (\<exists>n. v = JNum n \<and> 0 < n \<and> n \<le> max_safe_integer)"
  by (cases v) (auto simp: isPositiveSafeInteger_def safe_int_def max_safe_integer_def)

lemma checkedQueueTimestampAdd_iff:
  "checkedQueueTimestampAdd (JNum t) (JNum off) (JNum h) = Some r \<longleftrightarrow>
     0 \<le> t \<and> 0 \<le> off \<and> 0 \<le> h \<and> r = t + off \<and> r + h \<le> max_queue_timestamp_ms"
  by (auto simp: checkedQueueTimestampAdd_def isNonNegativeSafeInteger_iff Let_def
      max_queue_timestamp_ms_def max_safe_integer_def)

lemma queueDelayDeadline_iff:
  "queueDelayDeadline now d lo h = Some r \<longleftrightarrow>
     0 \<le> now \<and> 0 \<le> h \<and>
     (\<exists>n. d = JNum n \<and> lo \<le> n \<and> 0 \<le> n \<and> r = now + n * 1000 \<and> r + h \<le> max_queue_timestamp_ms)"
  (is "?L = ?R")
proof
  assume ?L
  then have now: "isNonNegativeSafeInteger (JNum now)" and d: "isValidQueueDelaySeconds d lo"
    and r: "checkedQueueTimestampAdd (JNum now) (JNum (js_int d * 1000)) (JNum h) = Some r"
    by (auto simp: queueDelayDeadline_def split: if_splits)
  from d have "d = JNum (js_int d)" and "lo \<le> js_int d"
    by (auto simp: isValidQueueDelaySeconds_def dest: js_int_safe)
  with r show ?R by (auto simp: checkedQueueTimestampAdd_iff)
next
  assume ?R
  then obtain n where "0 \<le> now" "0 \<le> h" "d = JNum n" "lo \<le> n" "0 \<le> n" "r = now + n * 1000"
    "r + h \<le> max_queue_timestamp_ms" by blast
  then show ?L
    by (auto simp: queueDelayDeadline_def isNonNegativeSafeInteger_iff isValidQueueDelaySeconds_def
        checkedQueueTimestampAdd_iff safe_int_def bound_defs max_safe_integer_def)
qed

end
