(* ===== verification/WorldTypes.thy ===== *)
theory WorldTypes
  imports KeyStore Lifecycle
begin

text \<open>
  The data a run cell stores and exchanges: the Workflow entities as the code builds them,
  the retention and queue records, and one datatype \<open>rval\<close> of everything that can sit
  under a key of a run cell's storage.  Optional fields are \<open>option\<close>; user payloads are
  dynamic \<open>js\<close> values; dates are epoch milliseconds.

  The \<open>@workflow/world\<close> package is not part of this repository: what the code calls of it
  (status predicates, slot/event-id conversion, attribute validation, the zod schemas'
  \<open>parse\<close>) is the record \<open>world_api\<close>, passed to every definition that uses it.
\<close>

section \<open>Workflow entities\<close>

datatype run_status = Pending | Running | Completed | Failed | Cancelled

datatype step_status = Step_Pending | Step_Running | Step_Completed | Step_Failed

datatype wait_status = Wait_Waiting | Wait_Completed

record owner =
  own_run :: string
  own_hook :: string

record claimed_from =
  cf_run :: string
  cf_hook :: string
  cf_workflow :: "string option"
  cf_deployment :: "string option"
  cf_spec :: "int option"

record structured_error =
  se_message :: string
  se_stack :: "string option"
  se_code :: "string option"

record wf_run =
  run_id :: string
  run_deployment :: string
  run_name :: string
  run_spec :: "int option"
  run_exec_ctx :: "js option"
  run_attrs :: "(string \<times> js) list"
  run_enc_key :: "js option"
  run_input :: "js option"
  run_state :: run_status
  run_output :: "js option"
  run_error :: "structured_error option"
  run_started_at :: "int option"
  run_completed_at :: "int option"
  run_created_at :: int
  run_updated_at :: int
  run_expired_at :: "int option"

record step =
  step_run :: string
  step_id :: string
  step_name :: string
  step_state :: step_status
  step_input :: "js option"
  step_output :: "js option"
  step_error :: "js option"
  step_attempt :: nat
  step_started_at :: "int option"
  step_completed_at :: "int option"
  step_retry_after :: "int option"
  step_created_at :: int
  step_updated_at :: int
  step_spec :: "int option"

record hook =
  hook_run :: string
  hook_id :: string
  hook_token :: string
  hook_metadata :: "js option"
  hook_created_at :: int
  hook_spec :: "int option"
  hook_is_webhook :: bool
  hook_is_system :: "bool option"
  hook_retention :: "int option"
  hook_claimed_from :: "claimed_from option"

record wait =
  wait_id :: string
  wait_run :: string
  wait_state :: wait_status
  wait_resume_at :: "int option"
  wait_created_at :: int
  wait_updated_at :: int
  wait_completed_at :: "int option"
  wait_spec :: "int option"

section \<open>Events\<close>

record run_init =
  ri_deployment :: string
  ri_workflow :: string
  ri_input :: "js option"
  ri_exec_ctx :: "js option"
  ri_attrs :: "(string \<times> js) list option"
  ri_allow_reserved :: "bool option"
  ri_enc_key :: "js option"

text \<open>The optional bootstrap data of a \<open>run_started\<close> request (resilient start).\<close>

record run_hint =
  rh_deployment :: "string option"
  rh_workflow :: "string option"
  rh_input :: "js option"
  rh_exec_ctx :: "js option"
  rh_attrs :: "(string \<times> js) list option"
  rh_allow_reserved :: "bool option"
  rh_enc_key :: "js option"

datatype attr_writer = Workflow_Writer | Other_Writer

record attr_set =
  as_changes :: "(string \<times> js) list"
  as_writer :: attr_writer
  as_allow_reserved :: "bool option"

record step_init =
  si_name :: string
  si_workflow :: "string option"
  si_input :: "js option"

record step_hint =
  sh_name :: "string option"
  sh_workflow :: "string option"
  sh_input :: "js option"

record hook_init =
  hi_token :: string
  hi_metadata :: "js option"
  hi_is_webhook :: "bool option"
  hi_is_system :: "bool option"
  hi_retention :: "int option"
  hi_force :: bool
  hi_force_claimed_from :: "claimed_from option"

record hook_dispose =
  hd_token :: string
  hd_claimed_by :: "owner option"

record hook_conflict =
  hc_token :: string
  hc_run :: string
  hc_victim_spec_version :: bool

text \<open>An event's type together with its correlation id and its data.\<close>

datatype event_body =
    RunCreated run_init
  | RunStarted "run_hint option"
  | RunCompleted "js option"
  | RunFailed js "string option"
  | RunCancelled
  | AttrSet "string option" attr_set
  | StepCreated string step_init
  | StepStarted string "step_hint option"
  | StepCompleted string "js option"
  | StepFailed string "js option"
  | StepRetrying string "js option" "int option"
  | HookCreated string hook_init
  | HookReceived string "js option"
  | HookDisposed string "hook_dispose option"
  | HookConflict string hook_conflict
  | WaitCreated string "int option"
  | WaitCompleted string "int option"

record event =
  ev_body :: event_body
  ev_run :: string
  ev_id :: string
  ev_created_at :: int
  ev_occurred_at :: "int option"
  ev_resume_id :: "string option"
  ev_spec :: "int option"

section \<open>Markers and claims kept by a run cell\<close>

record hook_ref =
  hr_hook :: string
  hr_token :: string

record hook_force_claim =
  fc_token :: string
  fc_claimed_by :: owner

record hook_resume_claim =
  rc_hook :: string
  rc_event :: string
  rc_digest :: "string option"

record claim_cancellation =
  cc_hook :: string
  cc_token :: "string option"
  cc_canceled_at :: int

section \<open>Retention records\<close>

datatype cleanup_phase =
  Ph_Retained | Ph_Index | Ph_Streams | Ph_Queues | Ph_Payload | Ph_Tombstoned

datatype cleanup_reason = Terminal_Retention | Maximum_Age | Manual

record cleanup_record =
  cl_run :: string
  cl_workflow :: string
  cl_created_at :: int
  cl_status :: "run_status option"
  cl_completed_at :: "int option"
  cl_terminal_status :: "run_status option"
  cl_reason :: "cleanup_reason option"
  cl_due_at :: int
  cl_phase :: cleanup_phase
  cl_generation :: nat
  cl_attempts :: nat
  cl_last_error :: "string option"
  cl_last_attempt_at :: "int option"
  cl_tombstoned_at :: "int option"
  cl_deleted_payload_keys :: nat
  cl_deleted_streams :: nat
  cl_deleted_queue_payloads :: nat

record run_tombstone =
  tb_run :: string
  tb_status :: "run_status option"
  tb_completed_at :: "int option"
  tb_terminal_status :: "run_status option"
  tb_expired_at :: int
  tb_tombstoned_at :: int
  tb_cleanup :: cleanup_record

datatype terminal_phase = Tc_Hooks | Tc_Markers | Tc_Waits

record terminal_cleanup =
  tc_run :: string
  tc_phase :: terminal_phase
  tc_generation :: nat
  tc_attempts :: nat
  tc_last_error :: "string option"
  tc_last_attempt_at :: "int option"

datatype run_lifecycle = Life_Active | Life_Terminal | Life_Expired | Life_Missing

section \<open>Queue records\<close>

record inflight_claim =
  ic_message :: string
  ic_expires_at :: int
  ic_retry_at :: "int option"

record queue_reservation =
  qr_message :: string
  qr_expires_at :: int
  qr_pending :: bool

record run_queue_claim =
  rq_reservation :: "queue_reservation option"
  rq_claim :: "inflight_claim option"

record payload_registration =
  qp_message :: string
  qp_key :: string
  qp_orphan_expires_at :: int

record payload_orphan =
  qo_message :: string
  qo_run :: string
  qo_key :: string
  qo_expires_at :: int
  qo_generation :: nat
  qo_deleting :: bool

section \<open>Stored values\<close>

datatype rval =
    VRun wf_run
  | VEvent event
  | VStep step
  | VHook hook
  | VWait wait
  | VStr string
  | VHookRef hook_ref
  | VForced hook_force_claim
  | VResume hook_resume_claim
  | VCancel claim_cancellation
  | VSeq nat
  | VCleanup cleanup_record
  | VTombstone run_tombstone
  | VTerminal terminal_cleanup
  | VQueueClaim run_queue_claim
  | VInflight inflight_claim
  | VReservation queue_reservation
  | VPayload payload_registration
  | VOrphan payload_orphan

section \<open>The \<open>@workflow/world\<close> package\<close>

record world_api =
  spec_current :: int
  terminal_run :: "run_status \<Rightarrow> bool"
  terminal_step :: "step_status \<Rightarrow> bool"
  child_creation :: "event_body \<Rightarrow> bool"
  slot_to_event_id :: "nat \<Rightarrow> string"
  event_id_to_slot :: "string \<Rightarrow> nat option"
  max_events_per_run :: nat
  attr_changes_ok :: "(string \<times> js) list \<Rightarrow> string list option \<Rightarrow> bool option \<Rightarrow> bool"
  apply_attr_changes :: "(string \<times> js) list \<Rightarrow> (string \<times> js) list \<Rightarrow> (string \<times> js) list"
  parse_run :: "wf_run \<Rightarrow> wf_run option"
  parse_step :: "step \<Rightarrow> step option"
  parse_hook :: "hook \<Rightarrow> hook option"
  parse_wait :: "wait \<Rightarrow> wait option"
  parse_event :: "event \<Rightarrow> event option"

text \<open>
  What the code relies on of the package, as named hypotheses.  \<open>terminal_specs\<close>: exactly
  the final statuses are terminal.  \<open>slots_ok\<close>: distinct log positions have distinct event
  ids.  \<open>schemas_ok\<close>: parsing a typed entity either throws or returns it.
  \<open>child_creation_ok\<close>: creating a step, hook or wait counts as creating a child entity.
\<close>

definition terminal_specs :: "world_api \<Rightarrow> bool" where
  "terminal_specs W \<longleftrightarrow>
     (\<forall>s. terminal_run W s \<longleftrightarrow> s \<in> {Completed, Failed, Cancelled}) \<and>
     (\<forall>s. terminal_step W s \<longleftrightarrow> s \<in> {Step_Completed, Step_Failed})"

definition slots_ok :: "world_api \<Rightarrow> bool" where
  "slots_ok W \<longleftrightarrow> inj (slot_to_event_id W)"

definition schemas_ok :: "world_api \<Rightarrow> bool" where
  "schemas_ok W \<longleftrightarrow>
     (\<forall>x y. parse_run W x = Some y \<longrightarrow> y = x) \<and> (\<forall>x y. parse_step W x = Some y \<longrightarrow> y = x) \<and>
     (\<forall>x y. parse_hook W x = Some y \<longrightarrow> y = x) \<and> (\<forall>x y. parse_wait W x = Some y \<longrightarrow> y = x) \<and>
     (\<forall>x y. parse_event W x = Some y \<longrightarrow> y = x)"

definition child_creation_ok :: "world_api \<Rightarrow> bool" where
  "child_creation_ok W \<longleftrightarrow>
     (\<forall>c d. child_creation W (StepCreated c d)) \<and> (\<forall>c d. child_creation W (HookCreated c d)) \<and>
     (\<forall>c r. child_creation W (WaitCreated c r))"

lemma schemas_okD:
  assumes "schemas_ok W"
  shows "parse_run W r = Some r' \<Longrightarrow> r' = r" "parse_step W s = Some s' \<Longrightarrow> s' = s"
    "parse_hook W h = Some h' \<Longrightarrow> h' = h" "parse_wait W w = Some w' \<Longrightarrow> w' = w"
    "parse_event W e = Some e' \<Longrightarrow> e' = e"
  using assms by (auto simp: schemas_ok_def)

lemma terminal_specsD:
  assumes "terminal_specs W"
  shows "terminal_run W s \<longleftrightarrow> s \<in> {Completed, Failed, Cancelled}"
    "terminal_step W t \<longleftrightarrow> t \<in> {Step_Completed, Step_Failed}"
  using assms by (auto simp: terminal_specs_def)

lemma slots_okD: "slots_ok W \<Longrightarrow> slot_to_event_id W m = slot_to_event_id W n \<longleftrightarrow> m = n"
  by (auto simp: slots_ok_def inj_def)

end
