(* ===== verification/ApplyEvent.thy ===== *)
theory ApplyEvent
  imports WorldTypes
begin

text \<open>
  The transactional event-application core (\<open>src/apply-event.ts\<close>): the guards in the
  order the code checks them, one handler per event type, the forced-takeover halves that
  share the store, and the event-page completion.  A handler works on \<open>est\<close>: the cell's
  keys and the event counter its \<open>nextEventId\<close> closure advances.  A thrown exception is
  \<open>Inl\<close>; a refused event is the value \<open>Failure\<close>, returned with the state reached so far.
  Human-readable messages are left out; every field a caller branches on is kept.
\<close>

section \<open>Keys\<close>

text \<open>Every key of a run cell is one of these prefixes followed by an identifier (empty for
  the singleton records).  No prefix extends another, so keys of different kinds never meet.\<close>

datatype space =
    Sp_Run
  | Sp_Event
  | Sp_Step
  | Sp_Hook
  | Sp_Wait
  | Sp_Step_Created
  | Sp_Hook_Created
  | Sp_Hook_Event
  | Sp_Hook_Released
  | Sp_Hook_Cancelled
  | Sp_Attr_Event
  | Sp_Hook_Resume
  | Sp_Hook_Forced
  | Sp_Event_Seq
  | Sp_Cleanup
  | Sp_Tombstone
  | Sp_Hook_Marker
  | Sp_Terminal
  | Sp_Queue_Payload
  | Sp_Queue_Claim
  | Sp_Queue_Scope
  | Sp_Queue_Orphan
  | Sp_Reservation
  | Sp_Inflight

fun space_prefix :: "space \<Rightarrow> string" where
  "space_prefix Sp_Run = ''run''"
| "space_prefix Sp_Event = ''event:''"
| "space_prefix Sp_Step = ''step:''"
| "space_prefix Sp_Hook = ''hook:''"
| "space_prefix Sp_Wait = ''wait:''"
| "space_prefix Sp_Step_Created = ''stepcreated:''"
| "space_prefix Sp_Hook_Created = ''hookcreated:''"
| "space_prefix Sp_Hook_Event = ''hookevent:''"
| "space_prefix Sp_Hook_Released = ''hookreleased:''"
| "space_prefix Sp_Hook_Cancelled = ''hookclaimcancelled:''"
| "space_prefix Sp_Attr_Event = ''attrevent:''"
| "space_prefix Sp_Hook_Resume = ''hookresume:''"
| "space_prefix Sp_Hook_Forced = ''hookforced:''"
| "space_prefix Sp_Event_Seq = ''event_sequence''"
| "space_prefix Sp_Cleanup = ''retention:cleanup''"
| "space_prefix Sp_Tombstone = ''retention:tombstone''"
| "space_prefix Sp_Hook_Marker = ''retention:hook:''"
| "space_prefix Sp_Terminal = ''terminal:cleanup''"
| "space_prefix Sp_Queue_Payload = ''queue-payload:''"
| "space_prefix Sp_Queue_Claim = ''queue-claim:''"
| "space_prefix Sp_Queue_Scope = ''queue-claim-scope''"
| "space_prefix Sp_Queue_Orphan = ''queue-orphan''"
| "space_prefix Sp_Reservation = ''queue-reservation''"
| "space_prefix Sp_Inflight = ''claim''"

definition key :: "space \<Rightarrow> string \<Rightarrow> string" where
  "key p i = space_prefix p @ i"

abbreviation run_key :: string where "run_key \<equiv> key Sp_Run []"
abbreviation event_key :: "string \<Rightarrow> string" where "event_key \<equiv> key Sp_Event"
abbreviation step_key :: "string \<Rightarrow> string" where "step_key \<equiv> key Sp_Step"
abbreviation hook_key :: "string \<Rightarrow> string" where "hook_key \<equiv> key Sp_Hook"
abbreviation wait_key :: "string \<Rightarrow> string" where "wait_key \<equiv> key Sp_Wait"
abbreviation hook_event_key :: "string \<Rightarrow> string" where "hook_event_key \<equiv> key Sp_Hook_Event"
abbreviation hook_release_key :: "string \<Rightarrow> string" where
  "hook_release_key \<equiv> key Sp_Hook_Released"
abbreviation attr_event_key :: "string \<Rightarrow> string" where "attr_event_key \<equiv> key Sp_Attr_Event"
abbreviation hook_resume_key :: "string \<Rightarrow> string" where
  "hook_resume_key \<equiv> key Sp_Hook_Resume"
abbreviation hook_forced_key :: "string \<Rightarrow> string" where
  "hook_forced_key \<equiv> key Sp_Hook_Forced"

definition hookClaimCancellationKey :: "string \<Rightarrow> string" where
  "hookClaimCancellationKey claimId = key Sp_Hook_Cancelled (encodeURIComponent claimId)"

definition creationIndexKey :: "space \<Rightarrow> int \<Rightarrow> string \<Rightarrow> string" where
  "creationIndexKey p createdAt i = key p (iso_string createdAt @ '':'' @ i)"

abbreviation step_index_key :: "step \<Rightarrow> string" where
  "step_index_key x \<equiv> creationIndexKey Sp_Step_Created (step_created_at x) (step_id x)"
abbreviation hook_index_key :: "hook \<Rightarrow> string" where
  "hook_index_key x \<equiv> creationIndexKey Sp_Hook_Created (hook_created_at x) (hook_id x)"

lemma space_prefix_code: "take (length (space_prefix p)) (space_prefix q @ i) = space_prefix p \<Longrightarrow> p = q"
  by (cases p; cases q; simp)

declare space_prefix.simps [simp del]

lemma key_has_prefix [simp]: "has_prefix (space_prefix p) (key q i) \<longleftrightarrow> p = q"
  using space_prefix_code by (auto simp: has_prefix_def key_def)

lemma key_eq_iff [simp]: "key p i = key q j \<longleftrightarrow> p = q \<and> i = j"
  by (metis has_prefix_append key_def key_has_prefix same_append_eq)

lemma has_prefix_key: "has_prefix (space_prefix p) k \<longleftrightarrow> (\<exists>i. k = key p i)"
  by (simp add: has_prefix_iff key_def)

lemma hookClaimCancellationKey_eq_iff [simp]:
  "hookClaimCancellationKey a = hookClaimCancellationKey b \<longleftrightarrow> a = b"
  by (simp add: hookClaimCancellationKey_def encodeURIComponent_inj)

lemma derived_key_apart [simp]:
  "hookClaimCancellationKey a = key p i \<longleftrightarrow> p = Sp_Hook_Cancelled \<and> i = encodeURIComponent a"
  "key p i = hookClaimCancellationKey a \<longleftrightarrow> p = Sp_Hook_Cancelled \<and> i = encodeURIComponent a"
  "creationIndexKey q t j = key p i \<longleftrightarrow> p = q \<and> i = iso_string t @ '':'' @ j"
  "key p i = creationIndexKey q t j \<longleftrightarrow> p = q \<and> i = iso_string t @ '':'' @ j"
  "has_prefix (space_prefix p) (hookClaimCancellationKey a) \<longleftrightarrow> p = Sp_Hook_Cancelled"
  "has_prefix (space_prefix p) (creationIndexKey q t j) \<longleftrightarrow> p = q"
  by (auto simp: hookClaimCancellationKey_def creationIndexKey_def)

section \<open>Typed reads\<close>

fun as_run :: "rval \<Rightarrow> wf_run option" where "as_run (VRun x) = Some x" | "as_run _ = None"
fun as_event :: "rval \<Rightarrow> event option" where "as_event (VEvent x) = Some x" | "as_event _ = None"
fun as_step :: "rval \<Rightarrow> step option" where "as_step (VStep x) = Some x" | "as_step _ = None"
fun as_hook :: "rval \<Rightarrow> hook option" where "as_hook (VHook x) = Some x" | "as_hook _ = None"
fun as_wait :: "rval \<Rightarrow> wait option" where "as_wait (VWait x) = Some x" | "as_wait _ = None"
fun as_str :: "rval \<Rightarrow> string option" where "as_str (VStr x) = Some x" | "as_str _ = None"
fun as_hook_ref :: "rval \<Rightarrow> hook_ref option" where
  "as_hook_ref (VHookRef x) = Some x" | "as_hook_ref _ = None"
fun as_forced :: "rval \<Rightarrow> hook_force_claim option" where
  "as_forced (VForced x) = Some x" | "as_forced _ = None"
fun as_resume :: "rval \<Rightarrow> hook_resume_claim option" where
  "as_resume (VResume x) = Some x" | "as_resume _ = None"

definition get_run :: "rval kv \<Rightarrow> wf_run option" where
  "get_run s = Option.bind (kv_get run_key s) as_run"
definition get_event :: "string \<Rightarrow> rval kv \<Rightarrow> event option" where
  "get_event i s = Option.bind (kv_get (event_key i) s) as_event"
definition get_step :: "string \<Rightarrow> rval kv \<Rightarrow> step option" where
  "get_step i s = Option.bind (kv_get (step_key i) s) as_step"
definition get_hook :: "string \<Rightarrow> rval kv \<Rightarrow> hook option" where
  "get_hook i s = Option.bind (kv_get (hook_key i) s) as_hook"
definition get_wait :: "string \<Rightarrow> rval kv \<Rightarrow> wait option" where
  "get_wait i s = Option.bind (kv_get (wait_key i) s) as_wait"
definition get_resume :: "string \<Rightarrow> rval kv \<Rightarrow> hook_resume_claim option" where
  "get_resume i s = Option.bind (kv_get (hook_resume_key i) s) as_resume"
definition get_release :: "string \<Rightarrow> rval kv \<Rightarrow> hook_ref option" where
  "get_release i s = Option.bind (kv_get (hook_release_key i) s) as_hook_ref"
definition get_forced :: "string \<Rightarrow> rval kv \<Rightarrow> hook_force_claim option" where
  "get_forced i s = Option.bind (kv_get (hook_forced_key i) s) as_forced"
definition get_hook_event :: "string \<Rightarrow> rval kv \<Rightarrow> string option" where
  "get_hook_event i s = Option.bind (kv_get (hook_event_key i) s) as_str"

lemmas getter_defs = get_run_def get_event_def get_step_def get_hook_def get_wait_def
  get_resume_def get_release_def get_forced_def get_hook_event_def

section \<open>Requests and outcomes\<close>

record apply_ctx =
  c_run :: string
  c_body :: event_body
  c_spec :: "int option"
  c_occurred_at :: "int option"
  c_resume_id :: "string option"
  c_resume_digest :: "string option"
  c_skip_preload :: bool
  c_preload_events :: bool
  c_since_cursor :: "string option"
  c_event_count :: "nat option"
  c_token_holder :: "owner option"
  c_hook_claim_id :: "string option"
  c_claimed_from :: "claimed_from option"
  c_force_refused :: bool
  c_cleanup :: js
  c_now :: int
  c_defer_cleanup :: bool

datatype apply_failure =
    Run_Not_Found
  | Step_Not_Found
  | Hook_Not_Found
  | Hook_Force_Claimed string owner
  | Wait_Not_Found
  | Entity_Conflict
  | Hook_Claim_Cancelled
  | Run_Expired
  | Too_Early int
  | Run_Not_Supported "int option"

record success =
  so_event :: "event option"
  so_run :: "wf_run option"
  so_step :: "step option"
  so_hook :: "hook option"
  so_wait :: "wait option"
  so_step_created :: bool
  so_released :: "hook_ref list"
  so_run_created :: "(string \<times> int) option"
  so_hook_to_index :: "hook option"
  so_events :: "event list option"
  so_cursor :: "string option"
  so_has_more :: "bool option"
  so_max_events :: "nat option"
  so_index_expires :: "int option"
  so_replay_run :: "wf_run option"

datatype outcome = Failure apply_failure | Success success

definition ok :: success where
  "ok = \<lparr>so_event = None, so_run = None, so_step = None, so_hook = None, so_wait = None,
     so_step_created = False, so_released = [], so_run_created = None, so_hook_to_index = None,
     so_events = None, so_cursor = None, so_has_more = None, so_max_events = None,
     so_index_expires = None, so_replay_run = None\<rparr>"

datatype apply_exn = Schema_Rejected | Attributes_Rejected | Bad_Request | Deadline_Out_Of_Range

record est =
  es_kv :: "rval kv"
  es_seq :: nat

type_synonym applied = "apply_exn + outcome \<times> est"

section \<open>Helpers\<close>

text \<open>\<open>compact\<close> turns a null field into an absent one (top level only).\<close>

fun compact_js :: "js option \<Rightarrow> js option" where
  "compact_js (Some JNull) = None"
| "compact_js (Some JUndefined) = None"
| "compact_js v = v"

definition compact_run :: "wf_run \<Rightarrow> wf_run" where
  "compact_run r = r\<lparr>run_exec_ctx := compact_js (run_exec_ctx r),
     run_enc_key := compact_js (run_enc_key r), run_input := compact_js (run_input r),
     run_output := compact_js (run_output r)\<rparr>"

text \<open>Steps are compacted with their \<open>error\<close> restored afterwards.\<close>

definition compact_step :: "step \<Rightarrow> step" where
  "compact_step x = x\<lparr>step_input := compact_js (step_input x),
     step_output := compact_js (step_output x)\<rparr>"

fun readStringProp :: "js \<Rightarrow> string \<Rightarrow> string option" where
  "readStringProp v k = (case js_prop v k of JStr s \<Rightarrow> Some s | _ \<Rightarrow> None)"

definition or_else :: "'a option \<Rightarrow> 'a option \<Rightarrow> 'a option" where
  "or_else x y = (case x of None \<Rightarrow> y | Some _ \<Rightarrow> x)"

definition toStructuredError :: "js \<Rightarrow> string option \<Rightarrow> structured_error" where
  "toStructuredError err code =
     \<lparr>se_message = (case err of JStr s \<Rightarrow> s
        | _ \<Rightarrow> nullish (readStringProp err ''message'') ''Unknown error''),
      se_stack = readStringProp err ''stack'',
      se_code = or_else code (readStringProp err ''code'')\<rparr>"

text \<open>What \<open>buildEvent\<close> leaves out of the stored record.\<close>

fun strip_body :: "event_body \<Rightarrow> event_body" where
  "strip_body (RunStarted _) = RunStarted None"
| "strip_body (StepStarted c (Some d)) = StepStarted c (Some (d\<lparr>sh_input := None\<rparr>))"
| "strip_body b = b"

fun is_hook_received :: "event_body \<Rightarrow> bool" where
  "is_hook_received (HookReceived _ _) = True" | "is_hook_received _ = False"

definition eventRecord :: "world_api \<Rightarrow> apply_ctx \<Rightarrow> int \<Rightarrow> event_body \<Rightarrow> nat \<Rightarrow> event" where
  "eventRecord W ctx spec body slot =
     \<lparr>ev_body = strip_body body, ev_run = c_run ctx, ev_id = slot_to_event_id W slot,
      ev_created_at = c_now ctx, ev_occurred_at = c_occurred_at ctx,
      ev_resume_id = (if is_hook_received body then c_resume_id ctx else None),
      ev_spec = Some spec\<rparr>"

definition buildEvent ::
    "world_api \<Rightarrow> apply_ctx \<Rightarrow> int \<Rightarrow> event_body \<Rightarrow> est \<Rightarrow> apply_exn + event \<times> est" where
  "buildEvent W ctx spec body s =
     bindE (require (parse_event W (eventRecord W ctx spec body (Suc (es_seq s)))) Schema_Rejected)
       (\<lambda>e. Inr (e, s\<lparr>es_seq := Suc (es_seq s)\<rparr>))"

definition put_kv :: "string \<Rightarrow> rval \<Rightarrow> est \<Rightarrow> est" where
  "put_kv k v s = s\<lparr>es_kv := kv_put k v (es_kv s)\<rparr>"

definition del_kv :: "string \<Rightarrow> est \<Rightarrow> est" where
  "del_kv k s = s\<lparr>es_kv := kv_del k (es_kv s)\<rparr>"

definition putEvent :: "event \<Rightarrow> est \<Rightarrow> est" where
  "putEvent e s = put_kv (event_key (ev_id e)) (VEvent e) s"

text \<open>\<open>releaseAllHooks\<close> and \<open>releaseAllWaits\<close>: the Durable Object defers them to its alarm.\<close>

definition listed_hooks :: "rval kv \<Rightarrow> hook list" where
  "listed_hooks s = List.map_filter as_hook (map snd (kv_list (prefix_query (space_prefix Sp_Hook)) s))"

definition releaseAllHooks :: "bool \<Rightarrow> est \<Rightarrow> hook_ref list \<times> est" where
  "releaseAllHooks deferred s =
     (if deferred then ([], s)
      else let hooks = listed_hooks (es_kv s) in
        (map (\<lambda>h. \<lparr>hr_hook = hook_id h, hr_token = hook_token h\<rparr>) hooks,
         s\<lparr>es_kv := snd (deleteMany
             (concat (map (\<lambda>h. [hook_key (hook_id h), hook_index_key h]) hooks)) (es_kv s))\<rparr>))"

definition releaseAllWaits :: "bool \<Rightarrow> est \<Rightarrow> est" where
  "releaseAllWaits deferred s =
     (if deferred then s
      else s\<lparr>es_kv := snd (deleteMany
        (map fst (kv_list (prefix_query (space_prefix Sp_Wait)) (es_kv s))) (es_kv s))\<rparr>)"

section \<open>Reads by prefix and by creation time\<close>

definition page_query :: "string \<Rightarrow> string option \<Rightarrow> bool \<Rightarrow> nat \<Rightarrow> kv_query" where
  "page_query prefix cursor desc limit =
     (let b = (if truthy cursor then map_option (\<lambda>c. prefix @ c) cursor else None) in
      \<lparr>q_prefix = prefix, q_start = None, q_start_after = (if desc then None else b),
       q_end = (if desc then b else None), q_limit = Some (limit + 1), q_reverse = desc\<rparr>)"

definition listByPrefix ::
    "(rval \<Rightarrow> 'a option) \<Rightarrow> ('a \<Rightarrow> string) \<Rightarrow> string \<Rightarrow> nat \<Rightarrow> string option \<Rightarrow> bool
      \<Rightarrow> rval kv \<Rightarrow> 'a list \<times> string option \<times> bool" where
  "listByPrefix dec getId prefix limit cursor desc s =
     (let vals = List.map_filter dec (map snd (kv_list (page_query prefix cursor desc limit) s));
          hasMore = limit < length vals; page = take limit vals
      in (page, (if hasMore \<and> page \<noteq> [] then Some (getId (last page)) else None), hasMore))"

definition listEventLog :: "nat \<Rightarrow> string option \<Rightarrow> bool \<Rightarrow> rval kv \<Rightarrow> event list \<times> string option \<times> bool" where
  "listEventLog = listByPrefix as_event ev_id (space_prefix Sp_Event)"

definition listByCreationTime ::
    "(rval \<Rightarrow> 'a option) \<Rightarrow> string \<Rightarrow> string \<Rightarrow> int \<Rightarrow> string option \<Rightarrow> bool
      \<Rightarrow> rval kv \<Rightarrow> 'a list \<times> string option \<times> bool" where
  "listByCreationTime dec indexPrefix entityPrefix requested cursor desc s =
     (let limit = nat (min 1000 (max 1 requested));
          entries = kv_list (page_query indexPrefix cursor desc limit) s;
          page = take limit entries;
          keys = map (\<lambda>(_, v). entityPrefix @ nullish (as_str v) []) page;
          hasMore = limit < length entries;
          entities = getMany keys s
      in (List.map_filter (\<lambda>k. Option.bind (map_of entities k) dec) keys,
          (if hasMore \<and> page \<noteq> [] then Some (drop (length indexPrefix) (fst (last page))) else None),
          hasMore))"

end
