(* ===== verification/EventHandlers.thy ===== *)
theory EventHandlers
  imports ApplyEvent
begin

text \<open>
  \<open>applyEvent\<close> of \<open>src/apply-event.ts\<close>, split at its own section comments: the resilient
  start, the guards (run state, step state, hook ordering), and one handler per case of the
  final switch, composed by \<open>applyEvent\<close> in the code's order.
\<close>

section \<open>Event kinds\<close>

fun is_run_started :: "event_body \<Rightarrow> bool" where
  "is_run_started (RunStarted _) = True" | "is_run_started _ = False"
fun is_run_created :: "event_body \<Rightarrow> bool" where
  "is_run_created (RunCreated _) = True" | "is_run_created _ = False"
fun is_attr_set :: "event_body \<Rightarrow> bool" where
  "is_attr_set (AttrSet _ _) = True" | "is_attr_set _ = False"
fun is_step_started :: "event_body \<Rightarrow> bool" where
  "is_step_started (StepStarted _ _) = True" | "is_step_started _ = False"

text \<open>\<open>run_completed\<close>, \<open>run_failed\<close>, \<open>run_cancelled\<close>.\<close>

fun is_run_finish :: "event_body \<Rightarrow> bool" where
  "is_run_finish (RunCompleted _) = True"
| "is_run_finish (RunFailed _ _) = True"
| "is_run_finish RunCancelled = True"
| "is_run_finish _ = False"

text \<open>\<open>step_completed\<close> and \<open>step_retrying\<close> skip the run read altogether, as does
  \<open>run_created\<close>.\<close>

fun skip_run_validation :: "event_body \<Rightarrow> bool" where
  "skip_run_validation (RunCreated _) = True"
| "skip_run_validation (StepCompleted _ _) = True"
| "skip_run_validation (StepRetrying _ _ _) = True"
| "skip_run_validation _ = False"

fun step_event_id :: "event_body \<Rightarrow> string option" where
  "step_event_id (StepStarted c _) = Some c"
| "step_event_id (StepCompleted c _) = Some c"
| "step_event_id (StepFailed c _) = Some c"
| "step_event_id (StepRetrying c _ _) = Some c"
| "step_event_id _ = None"

section \<open>Creating a run\<close>

definition newRun :: "apply_ctx \<Rightarrow> int \<Rightarrow> run_init \<Rightarrow> wf_run" where
  "newRun ctx spec d = compact_run
     \<lparr>run_id = c_run ctx, run_deployment = ri_deployment d, run_name = ri_workflow d,
      run_spec = Some spec, run_exec_ctx = ri_exec_ctx d, run_attrs = nullish (ri_attrs d) [],
      run_enc_key = ri_enc_key d, run_input = ri_input d, run_state = Pending, run_output = None,
      run_error = None, run_started_at = None, run_completed_at = None,
      run_created_at = c_now ctx, run_updated_at = c_now ctx, run_expired_at = None\<rparr>"

text \<open>The bootstrap data a queue message must carry to create its run.\<close>

fun bootstrap_init :: "event_body \<Rightarrow> run_init option" where
  "bootstrap_init (RunStarted (Some h)) =
     (if truthy (rh_deployment h) \<and> truthy (rh_workflow h) \<and> rh_input h \<noteq> None
      then Some \<lparr>ri_deployment = the (rh_deployment h), ri_workflow = the (rh_workflow h),
             ri_input = rh_input h, ri_exec_ctx = rh_exec_ctx h, ri_attrs = rh_attrs h,
             ri_allow_reserved = rh_allow_reserved h, ri_enc_key = rh_enc_key h\<rparr>
      else None)"
| "bootstrap_init _ = None"

definition resilientStart ::
    "world_api \<Rightarrow> apply_ctx \<Rightarrow> int \<Rightarrow> wf_run option \<Rightarrow> est
      \<Rightarrow> apply_exn + wf_run option \<times> (string \<times> int) option \<times> est" where
  "resilientStart W ctx spec cur s =
     (case (cur, bootstrap_init (c_body ctx)) of
        (None, Some d) \<Rightarrow>
          bindE (ensure (attr_changes_ok W (nullish (ri_attrs d) []) None (ri_allow_reserved d))
                   Attributes_Rejected) (\<lambda>_.
          bindE (require (parse_run W (newRun ctx spec d)) Schema_Rejected) (\<lambda>r.
          bindE (buildEvent W ctx spec (RunCreated d) s) (\<lambda>(e, s).
          Inr (Some r, Some (ri_workflow d, c_now ctx),
               putEvent e (put_kv run_key (VRun r) s)))))
      | _ \<Rightarrow> Inr (cur, None, s))"

section \<open>Guards\<close>

text \<open>The terminal-run guard answers, or (\<open>None\<close>) lets the event through.\<close>

definition terminalRunGuard ::
    "world_api \<Rightarrow> apply_ctx \<Rightarrow> int \<Rightarrow> wf_run option \<Rightarrow> est \<Rightarrow> applied option" where
  "terminalRunGuard W ctx spec cur s =
     (case cur of
        None \<Rightarrow> None
      | Some r \<Rightarrow>
          if \<not> terminal_run W (run_state r) then None
          else if c_body ctx = RunCancelled \<and> run_state r = Cancelled then
            Some (bindE (buildEvent W ctx spec (c_body ctx) s) (\<lambda>(e, s).
              Inr (Success (ok\<lparr>so_event := Some e, so_run := Some r\<rparr>), putEvent e s)))
          else if is_run_started (c_body ctx) then Some (Inr (Failure Run_Expired, s))
          else if is_run_finish (c_body ctx) then Some (Inr (Failure Entity_Conflict, s))
          else if child_creation W (c_body ctx) then Some (Inr (Failure Entity_Conflict, s))
          else if is_attr_set (c_body ctx) then Some (Inr (Failure Entity_Conflict, s))
          else None)"

text \<open>The step guard fails, or passes on the step entity it read (\<open>validatedStep\<close>).\<close>

definition stepGuard ::
    "world_api \<Rightarrow> event_body \<Rightarrow> wf_run option \<Rightarrow> rval kv \<Rightarrow> apply_failure + step option" where
  "stepGuard W body cur s =
     (case step_event_id body of
        None \<Rightarrow> Inr None
      | Some cid \<Rightarrow>
          let lazy = is_step_started body \<and> child_creation W body; found = get_step cid s in
          if found = None \<and> \<not> lazy then Inl Step_Not_Found
          else if found \<noteq> None \<and> lazy then Inl Entity_Conflict
          else if (case found of None \<Rightarrow> False | Some x \<Rightarrow> terminal_step W (step_state x))
          then Inl Entity_Conflict
          else if (case (cur, found) of
                     (Some r, Some x) \<Rightarrow>
                       terminal_run W (run_state r) \<and> step_state x \<noteq> Step_Running
                   | _ \<Rightarrow> False)
          then Inl Run_Expired
          else Inr found)"

definition hookResumeGuard :: "apply_ctx \<Rightarrow> rval kv \<Rightarrow> outcome option" where
  "hookResumeGuard ctx s =
     (case c_body ctx of
        HookReceived cid _ \<Rightarrow>
          if \<not> truthy (c_resume_id ctx) then None
          else (case get_resume (the (c_resume_id ctx)) s of
                  None \<Rightarrow> None
                | Some claim \<Rightarrow>
                    if rc_hook claim \<noteq> cid then Some (Failure Entity_Conflict)
                    else if truthy (rc_digest claim) \<and> truthy (c_resume_digest ctx)
                            \<and> rc_digest claim \<noteq> c_resume_digest ctx
                    then Some (Failure Entity_Conflict)
                    else (case get_event (rc_event claim) s of
                            None \<Rightarrow> None
                          | Some e \<Rightarrow>
                              (case ev_body e of
                                 HookReceived c _ \<Rightarrow>
                                   if c = rc_hook claim \<and> ev_resume_id e = c_resume_id ctx
                                   then Some (Success (ok\<lparr>so_event := Some e\<rparr>))
                                   else Some (Failure Entity_Conflict)
                               | _ \<Rightarrow> Some (Failure Entity_Conflict))))
      | _ \<Rightarrow> None)"

definition hookOrderGuard ::
    "world_api \<Rightarrow> apply_ctx \<Rightarrow> wf_run option \<Rightarrow> rval kv \<Rightarrow> outcome option" where
  "hookOrderGuard W ctx cur s =
     (case c_body ctx of
        HookDisposed cid _ \<Rightarrow>
          if cid = [] \<or> get_hook cid s \<noteq> None then None
          else (case get_release cid s of
                  Some released \<Rightarrow> Some (Success (ok\<lparr>so_released := [released]\<rparr>))
                | None \<Rightarrow> Some (Failure Hook_Not_Found))
      | HookReceived cid _ \<Rightarrow>
          if cid = [] then None
          else if get_hook cid s = None then
            (case get_forced cid s of
               Some f \<Rightarrow> Some (Failure (Hook_Force_Claimed (fc_token f) (fc_claimed_by f)))
             | None \<Rightarrow> Some (Failure Hook_Not_Found))
          else if (case cur of None \<Rightarrow> False | Some r \<Rightarrow> terminal_run W (run_state r))
          then Some (Failure Hook_Not_Found)
          else None
      | _ \<Rightarrow> None)"

section \<open>Handlers: the run\<close>

text \<open>Most handlers end the same way: build the event, then write entity and event.\<close>

definition commitRun ::
    "world_api \<Rightarrow> apply_ctx \<Rightarrow> int \<Rightarrow> wf_run \<Rightarrow> est \<Rightarrow> apply_exn + wf_run \<times> event \<times> est" where
  "commitRun W ctx spec r s =
     bindE (require (parse_run W (compact_run r)) Schema_Rejected) (\<lambda>r.
     bindE (buildEvent W ctx spec (c_body ctx) s) (\<lambda>(e, s).
     Inr (r, e, putEvent e (put_kv run_key (VRun r) s))))"

definition onRunCreated :: "world_api \<Rightarrow> apply_ctx \<Rightarrow> int \<Rightarrow> run_init \<Rightarrow> est \<Rightarrow> applied" where
  "onRunCreated W ctx spec d s =
     (case get_run (es_kv s) of
        Some existing \<Rightarrow> Inr (Success (ok\<lparr>so_run := Some existing\<rparr>), s)
      | None \<Rightarrow>
          bindE (ensure (attr_changes_ok W (nullish (ri_attrs d) []) None (ri_allow_reserved d))
                   Attributes_Rejected) (\<lambda>_.
          bindE (commitRun W ctx spec (newRun ctx spec d) s) (\<lambda>(r, e, s).
          Inr (Success (ok\<lparr>so_event := Some e, so_run := Some r,
                 so_run_created := Some (ri_workflow d, c_now ctx)\<rparr>), s))))"

definition preloadEvents :: "world_api \<Rightarrow> apply_ctx \<Rightarrow> success \<Rightarrow> rval kv \<Rightarrow> success" where
  "preloadEvents W ctx out s =
     (if c_skip_preload ctx then out
      else let (evs, cur, more) = listEventLog (max_events_per_run W) None False s in
        out\<lparr>so_events := Some evs, so_cursor := cur, so_has_more := Some more\<rparr>)"

definition onRunStarted ::
    "world_api \<Rightarrow> apply_ctx \<Rightarrow> int \<Rightarrow> wf_run option \<Rightarrow> (string \<times> int) option \<Rightarrow> est \<Rightarrow> applied"
where
  "onRunStarted W ctx spec cur boot s =
     (case cur of
        None \<Rightarrow> Inr (Failure Run_Not_Found, s)
      | Some r \<Rightarrow>
          if run_state r = Running then
            Inr (Success (preloadEvents W ctx
                   (ok\<lparr>so_run := Some r, so_max_events := Some (max_events_per_run W)\<rparr>)
                   (es_kv s)), s)
          else
            bindE (commitRun W ctx spec
                (r\<lparr>run_state := Running, run_output := None, run_error := None,
                   run_completed_at := None,
                   run_started_at := Some (nullish (run_started_at r) (c_now ctx)),
                   run_updated_at := c_now ctx\<rparr>) s) (\<lambda>(r, e, s).
            Inr (Success (preloadEvents W ctx
                   (ok\<lparr>so_event := Some e, so_run := Some r, so_run_created := boot,
                      so_max_events := Some (max_events_per_run W)\<rparr>) (es_kv s)), s)))"

text \<open>\<open>run_completed\<close>, \<open>run_failed\<close> and \<open>run_cancelled\<close> share the cleanup of hooks and waits.\<close>

definition finishRun ::
    "world_api \<Rightarrow> apply_ctx \<Rightarrow> int \<Rightarrow> wf_run \<Rightarrow> est \<Rightarrow> applied" where
  "finishRun W ctx spec r s =
     bindE (commitRun W ctx spec
         (r\<lparr>run_completed_at := Some (c_now ctx), run_updated_at := c_now ctx\<rparr>) s)
       (\<lambda>(r, e, s).
         let (released, s) = releaseAllHooks (c_defer_cleanup ctx) s;
             s = releaseAllWaits (c_defer_cleanup ctx) s
         in Inr (Success (ok\<lparr>so_event := Some e, so_run := Some r, so_released := released\<rparr>), s))"

definition onRunCompleted ::
    "world_api \<Rightarrow> apply_ctx \<Rightarrow> int \<Rightarrow> wf_run option \<Rightarrow> js option \<Rightarrow> est \<Rightarrow> applied" where
  "onRunCompleted W ctx spec cur output s =
     (case cur of None \<Rightarrow> Inr (Failure Run_Not_Found, s)
      | Some r \<Rightarrow> finishRun W ctx spec
          (r\<lparr>run_state := Completed, run_output := output, run_error := None\<rparr>) s)"

definition onRunFailed ::
    "world_api \<Rightarrow> apply_ctx \<Rightarrow> int \<Rightarrow> wf_run option \<Rightarrow> js \<Rightarrow> string option \<Rightarrow> est \<Rightarrow> applied" where
  "onRunFailed W ctx spec cur err code s =
     (case cur of None \<Rightarrow> Inr (Failure Run_Not_Found, s)
      | Some r \<Rightarrow> finishRun W ctx spec
          (r\<lparr>run_state := Failed, run_output := None,
             run_error := Some (toStructuredError err (or_else code (readStringProp err ''code'')))\<rparr>) s)"

definition onRunCancelled :: "world_api \<Rightarrow> apply_ctx \<Rightarrow> int \<Rightarrow> wf_run option \<Rightarrow> est \<Rightarrow> applied" where
  "onRunCancelled W ctx spec cur s =
     (case cur of None \<Rightarrow> Inr (Failure Run_Not_Found, s)
      | Some r \<Rightarrow> finishRun W ctx spec
          (r\<lparr>run_state := Cancelled, run_output := None, run_error := None\<rparr>) s)"

definition attr_marker :: "string option \<Rightarrow> attr_set \<Rightarrow> string option" where
  "attr_marker cid d =
     (if truthy cid \<and> as_writer d = Workflow_Writer then Some (attr_event_key (the cid)) else None)"

definition onAttrSet ::
    "world_api \<Rightarrow> apply_ctx \<Rightarrow> int \<Rightarrow> wf_run option \<Rightarrow> string option \<Rightarrow> attr_set \<Rightarrow> est \<Rightarrow> applied"
where
  "onAttrSet W ctx spec cur cid d s =
     (case cur of
        None \<Rightarrow> Inr (Failure Run_Not_Found, s)
      | Some r \<Rightarrow>
          bindE (ensure (attr_changes_ok W (as_changes d) (Some (map fst (run_attrs r)))
                   (as_allow_reserved d)) Attributes_Rejected) (\<lambda>_.
          case attr_marker cid d of
            None \<Rightarrow>
              bindE (commitRun W ctx spec
                  (r\<lparr>run_attrs := apply_attr_changes W (run_attrs r) (as_changes d),
                     run_updated_at := c_now ctx\<rparr>) s) (\<lambda>(r, e, s).
              Inr (Success (ok\<lparr>so_event := Some e, so_run := Some r\<rparr>), s))
          | Some mk \<Rightarrow>
              if kv_get mk (es_kv s) \<noteq> None then Inr (Failure Entity_Conflict, s)
              else
                bindE (require (parse_run W (compact_run
                    (r\<lparr>run_attrs := apply_attr_changes W (run_attrs r) (as_changes d),
                       run_updated_at := c_now ctx\<rparr>))) Schema_Rejected) (\<lambda>r.
                bindE (buildEvent W ctx spec (c_body ctx) s) (\<lambda>(e, s).
                Inr (Success (ok\<lparr>so_event := Some e, so_run := Some r\<rparr>),
                     putEvent e (put_kv mk (VStr (ev_id e)) (put_kv run_key (VRun r) s)))))))"

section \<open>Handlers: steps\<close>

definition newStep :: "apply_ctx \<Rightarrow> int \<Rightarrow> string \<Rightarrow> string \<Rightarrow> js option \<Rightarrow> step" where
  "newStep ctx spec cid name input = compact_step
     \<lparr>step_run = c_run ctx, step_id = cid, step_name = name, step_state = Step_Pending,
      step_input = input, step_output = None, step_error = None, step_attempt = 0,
      step_started_at = None, step_completed_at = None, step_retry_after = None,
      step_created_at = c_now ctx, step_updated_at = c_now ctx, step_spec = Some spec\<rparr>"

definition put_new_step :: "string \<Rightarrow> step \<Rightarrow> est \<Rightarrow> est" where
  "put_new_step cid x s =
     put_kv (step_index_key x) (VStr (step_id x)) (put_kv (step_key cid) (VStep x) s)"

definition onStepCreated ::
    "world_api \<Rightarrow> apply_ctx \<Rightarrow> int \<Rightarrow> string \<Rightarrow> step_init \<Rightarrow> est \<Rightarrow> applied" where
  "onStepCreated W ctx spec cid d s =
     (if get_step cid (es_kv s) \<noteq> None then Inr (Failure Entity_Conflict, s)
      else
        bindE (require (parse_step W (newStep ctx spec cid (si_name d) (si_input d))) Schema_Rejected)
          (\<lambda>x.
        bindE (buildEvent W ctx spec (c_body ctx) s) (\<lambda>(e, s).
        Inr (Success (ok\<lparr>so_event := Some e, so_step := Some x\<rparr>),
             putEvent e (put_new_step cid x s)))))"

text \<open>A lazy \<open>step_started\<close> first creates its step, journaling \<open>step_created\<close>.\<close>

definition lazyStep ::
    "world_api \<Rightarrow> apply_ctx \<Rightarrow> int \<Rightarrow> string \<Rightarrow> step_hint option \<Rightarrow> step option \<Rightarrow> est
      \<Rightarrow> apply_exn + step option \<times> bool \<times> est" where
  "lazyStep W ctx spec cid hint found s =
     (case (found, hint) of
        (None, Some h) \<Rightarrow>
          if sh_input h \<noteq> None \<and> truthy (sh_name h) then
            bindE (require (parse_step W (newStep ctx spec cid (the (sh_name h)) (sh_input h)))
                     Schema_Rejected) (\<lambda>x.
            bindE (buildEvent W ctx spec
                (StepCreated cid \<lparr>si_name = the (sh_name h), si_workflow = sh_workflow h,
                   si_input = sh_input h\<rparr>) s) (\<lambda>(e, s).
            Inr (Some x, True, putEvent e (put_new_step cid x s))))
          else Inr (None, False, s)
      | _ \<Rightarrow> Inr (found, False, s))"

definition startedStep :: "apply_ctx \<Rightarrow> step \<Rightarrow> step" where
  "startedStep ctx x = compact_step
     (x\<lparr>step_state := Step_Running,
        step_started_at := Some (nullish (step_started_at x) (c_now ctx)),
        step_attempt := step_attempt x + 1, step_retry_after := None,
        step_updated_at := c_now ctx\<rparr>)"

definition onStepStarted ::
    "world_api \<Rightarrow> apply_ctx \<Rightarrow> int \<Rightarrow> string \<Rightarrow> step_hint option \<Rightarrow> step option \<Rightarrow> est \<Rightarrow> applied"
where
  "onStepStarted W ctx spec cid hint found s =
     bindE (lazyStep W ctx spec cid hint found s) (\<lambda>(cur, created, s).
       case cur of
         None \<Rightarrow> Inr (Failure Step_Not_Found, s)
       | Some x \<Rightarrow>
           if (case step_retry_after x of None \<Rightarrow> False | Some t \<Rightarrow> c_now ctx < t)
           then Inr (Failure (Too_Early (ceil_div (the (step_retry_after x) - c_now ctx) 1000)), s)
           else
             bindE (require (parse_step W (startedStep ctx x)) Schema_Rejected) (\<lambda>x.
             bindE (buildEvent W ctx spec (c_body ctx) s) (\<lambda>(e, s).
             Inr (Success (ok\<lparr>so_event := Some e, so_step := Some x, so_step_created := created\<rparr>),
                  putEvent e (put_kv (step_key cid) (VStep x) s)))))"

definition commitStep ::
    "world_api \<Rightarrow> apply_ctx \<Rightarrow> int \<Rightarrow> string \<Rightarrow> step option \<Rightarrow> (step \<Rightarrow> step) \<Rightarrow> est \<Rightarrow> applied" where
  "commitStep W ctx spec cid found f s =
     (case found of
        None \<Rightarrow> Inr (Failure Step_Not_Found, s)
      | Some x \<Rightarrow>
          bindE (require (parse_step W (f x)) Schema_Rejected) (\<lambda>x.
          bindE (buildEvent W ctx spec (c_body ctx) s) (\<lambda>(e, s).
          Inr (Success (ok\<lparr>so_event := Some e, so_step := Some x\<rparr>),
               putEvent e (put_kv (step_key cid) (VStep x) s)))))"

definition completedStep :: "apply_ctx \<Rightarrow> js option \<Rightarrow> step \<Rightarrow> step" where
  "completedStep ctx result x = compact_step
     (x\<lparr>step_state := Step_Completed, step_output := result,
        step_completed_at := Some (c_now ctx), step_updated_at := c_now ctx\<rparr>)"

definition failedStep :: "apply_ctx \<Rightarrow> js option \<Rightarrow> step \<Rightarrow> step" where
  "failedStep ctx err x =
     x\<lparr>step_state := Step_Failed, step_error := err, step_completed_at := Some (c_now ctx),
       step_updated_at := c_now ctx\<rparr>"

definition retryingStep :: "apply_ctx \<Rightarrow> js option \<Rightarrow> int option \<Rightarrow> step \<Rightarrow> step" where
  "retryingStep ctx err retryAfter x =
     x\<lparr>step_state := Step_Pending, step_error := err, step_retry_after := retryAfter,
       step_updated_at := c_now ctx\<rparr>"

end
