(* ===== verification/HookHandlers.thy ===== *)
theory HookHandlers
  imports EventHandlers
begin

text \<open>
  The hook, wait and default cases of \<open>applyEvent\<close>, the composition of all guards and
  handlers, the two halves of a forced hook takeover that run against the same store
  (\<open>applyForcedHookDisposal\<close> in the victim's cell, \<open>resolveForcedHookClaim\<close> in the claimer's),
  and \<open>finalizeEventPage\<close>.
\<close>

section \<open>Hooks\<close>

definition hookConflictBody :: "apply_ctx \<Rightarrow> string \<Rightarrow> hook_init \<Rightarrow> owner \<Rightarrow> event_body" where
  "hookConflictBody ctx hookId d holder =
     HookConflict hookId \<lparr>hc_token = hi_token d, hc_run = own_run holder,
       hc_victim_spec_version = (hi_force d \<and> c_force_refused ctx)\<rparr>"

definition newHook :: "apply_ctx \<Rightarrow> int \<Rightarrow> string \<Rightarrow> hook_init \<Rightarrow> hook" where
  "newHook ctx spec hookId d =
     \<lparr>hook_run = c_run ctx, hook_id = hookId, hook_token = hi_token d,
      hook_metadata = compact_js (hi_metadata d), hook_created_at = c_now ctx,
      hook_spec = Some spec, hook_is_webhook = nullish (hi_is_webhook d) False,
      hook_is_system = hi_is_system d, hook_retention = hi_retention d,
      hook_claimed_from = (if hi_force d then c_claimed_from ctx else None)\<rparr>"

text \<open>The journaled data carries \<open>forceClaimedFrom\<close> only as this World writes it.\<close>

definition hookCreatedBody :: "apply_ctx \<Rightarrow> string \<Rightarrow> hook_init \<Rightarrow> event_body" where
  "hookCreatedBody ctx hookId d =
     HookCreated hookId (d\<lparr>hi_force_claimed_from := (if hi_force d then c_claimed_from ctx else None)\<rparr>)"

definition onHookCreated ::
    "world_api \<Rightarrow> apply_ctx \<Rightarrow> int \<Rightarrow> string \<Rightarrow> hook_init \<Rightarrow> est \<Rightarrow> applied" where
  "onHookCreated W ctx spec hookId d s =
     (if truthy (c_hook_claim_id ctx)
         \<and> kv_get (hookClaimCancellationKey (the (c_hook_claim_id ctx))) (es_kv s) \<noteq> None
      then Inr (Failure Hook_Claim_Cancelled, s)
      else if (case c_token_holder ctx of None \<Rightarrow> False
               | Some holder \<Rightarrow> own_run holder \<noteq> c_run ctx \<or> own_hook holder \<noteq> hookId)
      then
        bindE (buildEvent W ctx spec
            (hookConflictBody ctx hookId d (the (c_token_holder ctx))) s) (\<lambda>(e, s).
        Inr (Success (ok\<lparr>so_event := Some e\<rparr>), putEvent e s))
      else if kv_get (hook_event_key hookId) (es_kv s) \<noteq> None then
        (case get_hook hookId (es_kv s) of
           Some existing \<Rightarrow>
             if c_token_holder ctx = None \<and> hook_token existing = hi_token d
             then Inr (Success (ok\<lparr>so_hook := Some existing, so_hook_to_index := Some existing\<rparr>), s)
             else Inr (Failure Entity_Conflict, s)
         | None \<Rightarrow> Inr (Failure Entity_Conflict, s))
      else
        bindE (require (parse_hook W (newHook ctx spec hookId d)) Schema_Rejected) (\<lambda>h.
        bindE (buildEvent W ctx spec (hookCreatedBody ctx hookId d) s) (\<lambda>(e, s).
        Inr (Success (ok\<lparr>so_event := Some e, so_hook := Some h, so_hook_to_index := Some h\<rparr>),
             putEvent e
               (put_kv (hook_event_key hookId) (VStr (ev_id e))
                 (put_kv (hook_index_key h) (VStr (hook_id h))
                   (put_kv (hook_key hookId) (VHook h) s)))))))"

definition hook_ref_of :: "hook \<Rightarrow> hook_ref" where
  "hook_ref_of h = \<lparr>hr_hook = hook_id h, hr_token = hook_token h\<rparr>"

definition removeHook :: "string \<Rightarrow> hook \<Rightarrow> est \<Rightarrow> est" where
  "removeHook hookId h s =
     put_kv (hook_release_key (hook_id h)) (VHookRef (hook_ref_of h))
       (del_kv (hook_index_key h) (del_kv (hook_key hookId) s))"

definition onHookDisposed :: "world_api \<Rightarrow> apply_ctx \<Rightarrow> int \<Rightarrow> string \<Rightarrow> est \<Rightarrow> applied" where
  "onHookDisposed W ctx spec hookId s =
     (case get_hook hookId (es_kv s) of
        None \<Rightarrow> Inr (Failure Hook_Not_Found, s)
      | Some h \<Rightarrow>
          bindE (buildEvent W ctx spec (c_body ctx) (removeHook hookId h s)) (\<lambda>(e, s).
          Inr (Success (ok\<lparr>so_event := Some e, so_released := [hook_ref_of h]\<rparr>), putEvent e s)))"

section \<open>Waits\<close>

definition newWait :: "apply_ctx \<Rightarrow> int \<Rightarrow> string \<Rightarrow> int option \<Rightarrow> wait" where
  "newWait ctx spec cid resumeAt =
     \<lparr>wait_id = c_run ctx @ ''-'' @ cid, wait_run = c_run ctx, wait_state = Wait_Waiting,
      wait_resume_at = resumeAt, wait_created_at = c_now ctx, wait_updated_at = c_now ctx,
      wait_completed_at = None, wait_spec = Some spec\<rparr>"

definition onWaitCreated ::
    "world_api \<Rightarrow> apply_ctx \<Rightarrow> int \<Rightarrow> string \<Rightarrow> int option \<Rightarrow> est \<Rightarrow> applied" where
  "onWaitCreated W ctx spec cid resumeAt s =
     (if kv_get (wait_key cid) (es_kv s) \<noteq> None then Inr (Failure Entity_Conflict, s)
      else
        bindE (require (parse_wait W (newWait ctx spec cid resumeAt)) Schema_Rejected) (\<lambda>w.
        bindE (buildEvent W ctx spec (c_body ctx) s) (\<lambda>(e, s).
        Inr (Success (ok\<lparr>so_event := Some e, so_wait := Some w\<rparr>),
             putEvent e (put_kv (wait_key cid) (VWait w) s)))))"

definition onWaitCompleted ::
    "world_api \<Rightarrow> apply_ctx \<Rightarrow> int \<Rightarrow> string \<Rightarrow> int option \<Rightarrow> est \<Rightarrow> applied" where
  "onWaitCompleted W ctx spec cid resumeAt s =
     (case get_wait cid (es_kv s) of
        None \<Rightarrow> Inr (Failure Wait_Not_Found, s)
      | Some w \<Rightarrow>
          if wait_state w = Wait_Completed then Inr (Failure Entity_Conflict, s)
          else
            bindE (buildEvent W ctx spec (c_body ctx) s) (\<lambda>(e, s).
            bindE (require (parse_wait W
                (w\<lparr>wait_state := Wait_Completed, wait_resume_at := or_else resumeAt (wait_resume_at w),
                   wait_completed_at := Some (c_now ctx), wait_updated_at := c_now ctx\<rparr>))
                Schema_Rejected) (\<lambda>w.
            Inr (Success (ok\<lparr>so_event := Some e, so_wait := Some w\<rparr>),
                 putEvent e (put_kv (wait_key cid) (VWait w) s)))))"

section \<open>Event-only cases\<close>

definition onEventOnly :: "world_api \<Rightarrow> apply_ctx \<Rightarrow> int \<Rightarrow> est \<Rightarrow> applied" where
  "onEventOnly W ctx spec s =
     bindE (buildEvent W ctx spec (c_body ctx) s) (\<lambda>(e, s).
       let s = putEvent e s in
       case c_body ctx of
         HookReceived cid _ \<Rightarrow>
           if truthy (c_resume_id ctx) then
             Inr (Success (ok\<lparr>so_event := Some e\<rparr>),
                  put_kv (hook_resume_key (the (c_resume_id ctx)))
                    (VResume \<lparr>rc_hook = cid, rc_event = ev_id e,
                       rc_digest = (if truthy (c_resume_digest ctx) then c_resume_digest ctx
                                    else None)\<rparr>) s)
           else Inr (Success (ok\<lparr>so_event := Some e\<rparr>), s)
       | _ \<Rightarrow> Inr (Success (ok\<lparr>so_event := Some e\<rparr>), s))"

section \<open>The whole application\<close>

definition dispatchEvent ::
    "world_api \<Rightarrow> apply_ctx \<Rightarrow> int \<Rightarrow> wf_run option \<Rightarrow> (string \<times> int) option \<Rightarrow> step option
      \<Rightarrow> est \<Rightarrow> applied" where
  "dispatchEvent W ctx spec cur boot vstep s =
     (case c_body ctx of
        RunCreated d \<Rightarrow> onRunCreated W ctx spec d s
      | RunStarted _ \<Rightarrow> onRunStarted W ctx spec cur boot s
      | RunCompleted out \<Rightarrow> onRunCompleted W ctx spec cur out s
      | RunFailed err code \<Rightarrow> onRunFailed W ctx spec cur err code s
      | RunCancelled \<Rightarrow> onRunCancelled W ctx spec cur s
      | AttrSet cid d \<Rightarrow> onAttrSet W ctx spec cur cid d s
      | StepCreated cid d \<Rightarrow> onStepCreated W ctx spec cid d s
      | StepStarted cid hint \<Rightarrow> onStepStarted W ctx spec cid hint vstep s
      | StepCompleted cid r \<Rightarrow> commitStep W ctx spec cid vstep (completedStep ctx r) s
      | StepFailed cid err \<Rightarrow> commitStep W ctx spec cid vstep (failedStep ctx err) s
      | StepRetrying cid err after \<Rightarrow>
          commitStep W ctx spec cid vstep (retryingStep ctx err after) s
      | HookCreated cid d \<Rightarrow> onHookCreated W ctx spec cid d s
      | HookDisposed cid _ \<Rightarrow> onHookDisposed W ctx spec cid s
      | WaitCreated cid t \<Rightarrow> onWaitCreated W ctx spec cid t s
      | WaitCompleted cid t \<Rightarrow> onWaitCompleted W ctx spec cid t s
      | _ \<Rightarrow> onEventOnly W ctx spec s)"

definition afterBootstrap ::
    "world_api \<Rightarrow> apply_ctx \<Rightarrow> int \<Rightarrow> wf_run option \<Rightarrow> (string \<times> int) option \<Rightarrow> est \<Rightarrow> applied"
where
  "afterBootstrap W ctx spec cur boot s =
     (case terminalRunGuard W ctx spec cur s of
        Some answer \<Rightarrow> answer
      | None \<Rightarrow>
      case stepGuard W (c_body ctx) cur (es_kv s) of
        Inl f \<Rightarrow> Inr (Failure f, s)
      | Inr vstep \<Rightarrow>
      case hookResumeGuard ctx (es_kv s) of
        Some out \<Rightarrow> Inr (out, s)
      | None \<Rightarrow>
      case hookOrderGuard W ctx cur (es_kv s) of
        Some out \<Rightarrow> Inr (out, s)
      | None \<Rightarrow>
      if \<not> skip_run_validation (c_body ctx) \<and> \<not> is_run_started (c_body ctx) \<and> cur = None
      then Inr (Failure Run_Not_Found, s)
      else dispatchEvent W ctx spec cur boot vstep s)"

definition applyEvent :: "world_api \<Rightarrow> apply_ctx \<Rightarrow> est \<Rightarrow> applied" where
  "applyEvent W ctx s =
     (let spec = nullish (c_spec ctx) (spec_current W) in
      if spec \<noteq> spec_current W then Inr (Failure (Run_Not_Supported (Some spec)), s)
      else
        bindE (resilientStart W ctx spec
            (if skip_run_validation (c_body ctx) then None else get_run (es_kv s)) s)
          (\<lambda>(cur, boot, s).
            if (case cur of None \<Rightarrow> False | Some r \<Rightarrow> run_spec r \<noteq> Some (spec_current W))
            then Inr (Failure (Run_Not_Supported (run_spec (the cur))), s)
            else afterBootstrap W ctx spec cur boot s))"

section \<open>Forced takeover\<close>

record force_disposal =
  fd_hook :: string
  fd_token :: string
  fd_claimed_by :: owner

text \<open>The victim's half: the hook leaves, later deliveries are fenced, and a live run gets
  its \<open>hook_disposed\<close> row, in one transaction.\<close>

definition applyForcedHookDisposal ::
    "world_api \<Rightarrow> force_disposal \<Rightarrow> string \<Rightarrow> int \<Rightarrow> est \<Rightarrow> apply_exn + bool \<times> est" where
  "applyForcedHookDisposal W rq runId now s =
     (if kv_get (hook_forced_key (fd_hook rq)) (es_kv s) \<noteq> None then Inr (False, s)
      else case get_hook (fd_hook rq) (es_kv s) of
        None \<Rightarrow> Inr (False, s)
      | Some h \<Rightarrow>
          if hook_token h \<noteq> fd_token rq then Inr (False, s)
          else
            let s = put_kv (hook_forced_key (fd_hook rq))
                      (VForced \<lparr>fc_token = fd_token rq, fc_claimed_by = fd_claimed_by rq\<rparr>)
                      (removeHook (fd_hook rq) h s)
            in case get_run (es_kv s) of
                 None \<Rightarrow> Inr (False, s)
               | Some r \<Rightarrow>
                   if terminal_run W (run_state r) then Inr (False, s)
                   else
                     bindE (require (parse_event W
                         \<lparr>ev_body = HookDisposed (fd_hook rq)
                            (Some \<lparr>hd_token = fd_token rq, hd_claimed_by = Some (fd_claimed_by rq)\<rparr>),
                          ev_run = runId, ev_id = slot_to_event_id W (Suc (es_seq s)),
                          ev_created_at = now, ev_occurred_at = None, ev_resume_id = None,
                          ev_spec = run_spec r\<rparr>) Schema_Rejected) (\<lambda>e.
                     Inr (True, putEvent e (s\<lparr>es_seq := Suc (es_seq s)\<rparr>))))"

record forced_claim =
  fr_hook :: string
  fr_token :: string
  fr_claim :: string
  fr_victim :: owner

text \<open>The hook-creation event that the claimer's log holds for a hook id, if any.\<close>

definition created_event :: "string \<Rightarrow> rval kv \<Rightarrow> event option" where
  "created_event hookId s = Option.bind (get_hook_event hookId s) (\<lambda>i. get_event i s)"

text \<open>Whether that creation was journaled as the takeover of this very victim.\<close>

definition journaled_against :: "forced_claim \<Rightarrow> rval kv \<Rightarrow> bool" where
  "journaled_against rq s =
     (case created_event (fr_hook rq) s of
        None \<Rightarrow> False
      | Some e \<Rightarrow>
          (case ev_body e of
             HookCreated _ d \<Rightarrow>
               hi_token d = fr_token rq \<and>
               (case hi_force_claimed_from d of
                  None \<Rightarrow> False
                | Some cf \<Rightarrow> cf_run cf = own_run (fr_victim rq) \<and> cf_hook cf = own_hook (fr_victim rq))
           | _ \<Rightarrow> False))"

definition cancel_claim :: "string \<Rightarrow> claim_cancellation \<Rightarrow> rval kv \<Rightarrow> rval kv" where
  "cancel_claim claimId c s =
     kv_put (hookClaimCancellationKey (''-:'' @ claimId)) (VCancel c)
       (kv_put (hookClaimCancellationKey (claimId @ '':'' @ claimId)) (VCancel c) s)"

definition resolveForcedHookClaim ::
    "world_api \<Rightarrow> forced_claim \<Rightarrow> int \<Rightarrow> rval kv \<Rightarrow> (bool \<times> hook option) \<times> rval kv" where
  "resolveForcedHookClaim W rq now s =
     (if journaled_against rq s then
        ((True,
          (case (get_run s, get_hook (fr_hook rq) s) of
             (Some r, Some h) \<Rightarrow>
               if \<not> terminal_run W (run_state r) \<and> hook_token h = fr_token rq then Some h else None
           | _ \<Rightarrow> None)), s)
      else
        ((False, None),
         cancel_claim (fr_claim rq)
           \<lparr>cc_hook = fr_hook rq, cc_token = Some (fr_token rq), cc_canceled_at = now\<rparr> s))"

section \<open>Completing the event page\<close>

definition attachHookReplayPreload :: "world_api \<Rightarrow> success \<Rightarrow> rval kv \<Rightarrow> success" where
  "attachHookReplayPreload W out s =
     (case get_run s of
        None \<Rightarrow> out
      | Some r \<Rightarrow>
          if run_started_at r = None \<or> run_state r \<noteq> Running then out
          else let (evs, _, more) = listEventLog (max_events_per_run W) None False s in
            if more \<or> evs = [] then out
            else out\<lparr>so_replay_run := Some r, so_max_events := Some (max_events_per_run W),
                     so_events := Some evs, so_cursor := Some (ev_id (last evs)),
                     so_has_more := Some False\<rparr>)"

definition finalizeSuccess :: "world_api \<Rightarrow> apply_ctx \<Rightarrow> success \<Rightarrow> rval kv \<Rightarrow> success" where
  "finalizeSuccess W ctx out s =
     (let result = (if so_run out \<noteq> None \<and> so_max_events out = None
                    then out\<lparr>so_max_events := Some (max_events_per_run W)\<rparr> else out) in
      case so_event result of
        None \<Rightarrow> result
      | Some e \<Rightarrow>
          if c_preload_events ctx \<and> is_hook_received (ev_body e)
          then attachHookReplayPreload W result s
          else if c_since_cursor ctx \<noteq> None then
            (let (evs, cur, more) = listEventLog 100 (c_since_cursor ctx) False s in
             result\<lparr>so_events := Some evs, so_cursor := cur, so_has_more := Some more\<rparr>)
          else case (c_event_count ctx, event_id_to_slot W (ev_id e)) of
            (Some count, Some slot) \<Rightarrow>
              if slot \<le> count + 1 then result
              else
                let skipped = slot - count - 1;
                    (evs, _, _) = listEventLog skipped
                      (if 0 < count then Some (slot_to_event_id W count) else None) False s;
                    events = filter (\<lambda>x. ev_id x < ev_id e) evs
                in result\<lparr>so_events := Some events, so_cursor := None,
                          so_has_more := Some (length events < skipped)\<rparr>
          | _ \<Rightarrow> result)"

definition finalizeEventPage :: "world_api \<Rightarrow> apply_ctx \<Rightarrow> outcome \<Rightarrow> rval kv \<Rightarrow> outcome" where
  "finalizeEventPage W ctx out s =
     (case out of Failure f \<Rightarrow> Failure f | Success x \<Rightarrow> Success (finalizeSuccess W ctx x s))"

end
