(* ===== verification/RunCell.thy ===== *)
theory RunCell
  imports HookHandlers
begin

text \<open>
  The run cell (\<open>src/worker/durable-objects/WorkflowRunDO.ts\<close>): one Durable Object per workflow
  run, holding the keys of \<open>ApplyEvent\<close> and one alarm.  This theory has the records of
  \<open>src/retention.ts\<close>, the expiry fence every request passes (\<open>tombstoneFrom\<close>), the fenced reads,
  the transaction around \<open>applyEvent\<close> with its retention bookkeeping, and the requests by which
  the hook shards settle claims.  One request is one storage transaction that reads the clock
  once; an exception leaves the cell as it was.
\<close>

section \<open>The cell\<close>

record cell =
  rc_kv :: "rval kv"
  rc_alarm :: "int option"

datatype cell_exn =
    Bad_Type
  | Deadline_Overflow
  | Event_Exn apply_exn
  | Run_Schema
  | Missing_Binding
  | Orphan_Mismatch
  | Orphan_Deleting

type_synonym 'a answer = "cell_exn + 'a \<times> cell"

fun as_cleanup :: "rval \<Rightarrow> cleanup_record option" where
  "as_cleanup (VCleanup x) = Some x" | "as_cleanup _ = None"
fun as_tombstone :: "rval \<Rightarrow> run_tombstone option" where
  "as_tombstone (VTombstone x) = Some x" | "as_tombstone _ = None"
fun as_terminal :: "rval \<Rightarrow> terminal_cleanup option" where
  "as_terminal (VTerminal x) = Some x" | "as_terminal _ = None"
fun as_seq :: "rval \<Rightarrow> nat option" where
  "as_seq (VSeq x) = Some x" | "as_seq _ = None"

abbreviation cleanup_key :: string where "cleanup_key \<equiv> key Sp_Cleanup []"
abbreviation tombstone_key :: string where "tombstone_key \<equiv> key Sp_Tombstone []"
abbreviation terminal_key :: string where "terminal_key \<equiv> key Sp_Terminal []"
abbreviation seq_key :: string where "seq_key \<equiv> key Sp_Event_Seq []"
abbreviation scope_key :: string where "scope_key \<equiv> key Sp_Queue_Scope []"

definition get_cleanup :: "rval kv \<Rightarrow> cleanup_record option" where
  "get_cleanup s = Option.bind (kv_get cleanup_key s) as_cleanup"
definition get_tombstone :: "rval kv \<Rightarrow> run_tombstone option" where
  "get_tombstone s = Option.bind (kv_get tombstone_key s) as_tombstone"
definition get_terminal :: "rval kv \<Rightarrow> terminal_cleanup option" where
  "get_terminal s = Option.bind (kv_get terminal_key s) as_terminal"
definition get_seq :: "rval kv \<Rightarrow> nat" where
  "get_seq s = nullish (Option.bind (kv_get seq_key s) as_seq) 0"

definition put_cell :: "string \<Rightarrow> rval \<Rightarrow> cell \<Rightarrow> cell" where
  "put_cell k v s = s\<lparr>rc_kv := kv_put k v (rc_kv s)\<rparr>"

definition del_cell :: "string list \<Rightarrow> cell \<Rightarrow> cell" where
  "del_cell ks s = s\<lparr>rc_kv := snd (deleteMany ks (rc_kv s))\<rparr>"

definition setAlarm :: "int \<Rightarrow> cell \<Rightarrow> cell" where
  "setAlarm t s = s\<lparr>rc_alarm := Some t\<rparr>"

definition deleteAlarm :: "cell \<Rightarrow> cell" where
  "deleteAlarm s = s\<lparr>rc_alarm := None\<rparr>"

section \<open>Retention records\<close>

definition cleanupTombstone :: "cleanup_record \<Rightarrow> int \<Rightarrow> run_tombstone" where
  "cleanupTombstone c now =
     \<lparr>tb_run = cl_run c, tb_status = or_else (cl_status c) (cl_terminal_status c),
      tb_completed_at = cl_completed_at c, tb_terminal_status = cl_terminal_status c,
      tb_expired_at = cl_due_at c, tb_tombstoned_at = now,
      tb_cleanup = c\<lparr>cl_phase := Ph_Tombstoned, cl_tombstoned_at := Some now\<rparr>\<rparr>"

definition cleanupFromTombstone :: "run_tombstone \<Rightarrow> cleanup_record" where
  "cleanupFromTombstone t = tb_cleanup t"

definition hookMarkerKey :: "hook_ref \<Rightarrow> string" where
  "hookMarkerKey r =
     key Sp_Hook_Marker (encodeURIComponent (hr_hook r) @ '':'' @ encodeURIComponent (hr_token r))"

definition max_date_ms :: int where "max_date_ms = 8640000000000000"

definition retentionDeadline :: "int \<Rightarrow> int \<Rightarrow> cell_exn + int" where
  "retentionDeadline base retention =
     (if \<not> safe_int (base + retention) \<or> base + retention > max_date_ms
      then Inl Deadline_Overflow else Inr (base + retention))"

text \<open>\<open>retentionMs\<close> of an untyped request; zero means "no retention" where that is allowed.\<close>

definition validateCleanupRequest :: "js \<Rightarrow> bool \<Rightarrow> cell_exn + int" where
  "validateCleanupRequest request allowDisabled =
     (let ms = js_prop request ''retentionMs'' in
      if \<not> isRecord request then Inl Bad_Type
      else if \<not> (if allowDisabled then isNonNegativeSafeInteger ms else isPositiveSafeInteger ms)
      then Inl Bad_Type else Inr (js_int ms))"

definition cleanupRecord :: "world_api \<Rightarrow> wf_run \<Rightarrow> int \<Rightarrow> cleanup_reason \<Rightarrow> cleanup_record" where
  "cleanupRecord W r dueAt reason =
     (let terminal = terminal_run W (run_state r) in
      \<lparr>cl_run = run_id r, cl_workflow = run_name r, cl_created_at = run_created_at r,
       cl_status = Some (run_state r),
       cl_completed_at = (if terminal then run_completed_at r else None),
       cl_terminal_status = (if terminal then Some (run_state r) else None),
       cl_reason = Some reason, cl_due_at = dueAt, cl_phase = Ph_Retained, cl_generation = 0,
       cl_attempts = 0, cl_last_error = None, cl_last_attempt_at = None, cl_tombstoned_at = None,
       cl_deleted_payload_keys = 0, cl_deleted_streams = 0, cl_deleted_queue_payloads = 0\<rparr>)"

section \<open>The expiry fence\<close>

text \<open>A run is expired once its tombstone is written, and already from the moment its cleanup
  is due or under way.\<close>

definition tombstoneFrom :: "int \<Rightarrow> rval kv \<Rightarrow> run_tombstone option" where
  "tombstoneFrom now s =
     (case get_tombstone s of
        Some t \<Rightarrow> Some t
      | None \<Rightarrow>
          (case get_cleanup s of
             None \<Rightarrow> None
           | Some c \<Rightarrow>
               if cl_phase c = Ph_Retained \<and> now < cl_due_at c then None
               else Some (cleanupTombstone c (nullish (cl_tombstoned_at c) (cl_due_at c)))))"

datatype 'a run_read = Read_Ok 'a | Read_Expired run_tombstone

definition read :: "(rval kv \<Rightarrow> 'a) \<Rightarrow> int \<Rightarrow> rval kv \<Rightarrow> 'a run_read" where
  "read reader now s =
     (case tombstoneFrom now s of Some t \<Rightarrow> Read_Expired t | None \<Rightarrow> Read_Ok (reader s))"

definition readKey :: "(rval \<Rightarrow> 'a option) \<Rightarrow> string \<Rightarrow> int \<Rightarrow> rval kv \<Rightarrow> 'a option run_read" where
  "readKey dec k = read (\<lambda>s. Option.bind (kv_get k s) dec)"

definition getRun :: "int \<Rightarrow> rval kv \<Rightarrow> wf_run option run_read" where
  "getRun = readKey as_run run_key"

definition getStep :: "string \<Rightarrow> int \<Rightarrow> rval kv \<Rightarrow> step option run_read" where
  "getStep i = readKey as_step (step_key i)"

definition getEvent :: "string \<Rightarrow> int \<Rightarrow> rval kv \<Rightarrow> event option run_read" where
  "getEvent i = readKey as_event (event_key i)"

record page_params =
  pg_limit :: "nat option"
  pg_cursor :: "string option"
  pg_desc :: bool

definition listSteps ::
    "page_params \<Rightarrow> int \<Rightarrow> rval kv \<Rightarrow> (step list \<times> string option \<times> bool) run_read" where
  "listSteps p = read (listByCreationTime as_step (space_prefix Sp_Step_Created)
     (space_prefix Sp_Step) (int (nullish (pg_limit p) 20)) (pg_cursor p) (pg_desc p))"

definition listEvents ::
    "page_params \<Rightarrow> int \<Rightarrow> rval kv \<Rightarrow> (event list \<times> string option \<times> bool) run_read" where
  "listEvents p = read (listEventLog (nullish (pg_limit p) 100) (pg_cursor p) (pg_desc p))"

definition listHooks ::
    "page_params \<Rightarrow> int \<Rightarrow> rval kv \<Rightarrow> (hook list \<times> string option \<times> bool) run_read" where
  "listHooks p = read (listByCreationTime as_hook (space_prefix Sp_Hook_Created)
     (space_prefix Sp_Hook) (int (nullish (pg_limit p) 100)) (pg_cursor p) (pg_desc p))"

definition getCleanupStatus :: "rval kv \<Rightarrow> cleanup_record option" where
  "getCleanupStatus s =
     (case get_cleanup s of
        Some c \<Rightarrow> Some c
      | None \<Rightarrow> map_option cleanupFromTombstone (get_tombstone s))"

definition getLifecycleStatus :: "world_api \<Rightarrow> int \<Rightarrow> rval kv \<Rightarrow> run_lifecycle" where
  "getLifecycleStatus W now s =
     (if tombstoneFrom now s \<noteq> None then Life_Expired
      else case get_run s of
        None \<Rightarrow> Life_Missing
      | Some r \<Rightarrow> if terminal_run W (run_state r) then Life_Terminal else Life_Active)"

datatype victim = Victim_Gone run_lifecycle | Victim run_lifecycle string string "int option"

definition describeForceClaimVictim :: "world_api \<Rightarrow> int \<Rightarrow> rval kv \<Rightarrow> victim" where
  "describeForceClaimVictim W now s =
     (if tombstoneFrom now s \<noteq> None then Victim_Gone Life_Expired
      else case get_run s of
        None \<Rightarrow> Victim_Gone Life_Missing
      | Some r \<Rightarrow> Victim (if terminal_run W (run_state r) then Life_Terminal else Life_Active)
                    (run_name r) (run_deployment r) (run_spec r))"

section \<open>Applying an event\<close>

definition hook_references :: "success \<Rightarrow> hook_ref list" where
  "hook_references out =
     (case so_hook_to_index out of
        None \<Rightarrow> so_released out
      | Some h \<Rightarrow> \<lparr>hr_hook = hook_id h, hr_token = hook_token h\<rparr> # so_released out)"

text \<open>What a committed event leaves behind besides its own keys: the counter, the claim scope of
  a new run, and a marker for every hook whose indexes must one day be released.\<close>

definition recordHooks :: "nat \<Rightarrow> nat \<Rightarrow> success \<Rightarrow> rval kv \<Rightarrow> rval kv" where
  "recordHooks stored seq out s =
     (let s = (if seq \<noteq> stored then kv_put seq_key (VSeq seq) s else s);
          s = (if so_run_created out \<noteq> None then kv_put scope_key (VStr ''run'') s else s)
      in putStorageEntries (map (\<lambda>r. (hookMarkerKey r, VHookRef r)) (hook_references out)) s)"

definition is_terminal :: "world_api \<Rightarrow> success \<Rightarrow> bool" where
  "is_terminal W out \<longleftrightarrow> (case so_run out of None \<Rightarrow> False | Some r \<Rightarrow> terminal_run W (run_state r))"

text \<open>A finished run gets its retention deadline with the event that finished it.\<close>

definition scheduleRetention ::
    "world_api \<Rightarrow> int \<Rightarrow> cleanup_record option \<Rightarrow> success \<Rightarrow> cell \<Rightarrow> cell_exn + success \<times> cell" where
  "scheduleRetention W retentionMs existing out s =
     (case so_run out of
        None \<Rightarrow> Inr (out, s)
      | Some r \<Rightarrow>
          if retentionMs > 0 \<and> terminal_run W (run_state r) \<and> existing = None then
            bindE (require (run_completed_at r) Bad_Type) (\<lambda>done.
            bindE (retentionDeadline done retentionMs) (\<lambda>dueAt.
            bindE (require (parse_run W (r\<lparr>run_expired_at := Some dueAt\<rparr>)) Run_Schema) (\<lambda>r.
            Inr (out\<lparr>so_run := Some r\<rparr>,
                 setAlarm dueAt
                   (put_cell cleanup_key (VCleanup (cleanupRecord W r dueAt Terminal_Retention))
                     (put_cell run_key (VRun r) s))))))
          else Inr (out, s))"

definition scheduleTerminalCleanup :: "world_api \<Rightarrow> int \<Rightarrow> success \<Rightarrow> cell \<Rightarrow> cell" where
  "scheduleTerminalCleanup W now out s =
     (case so_run out of
        None \<Rightarrow> s
      | Some r \<Rightarrow>
          if terminal_run W (run_state r) then
            setAlarm (now + 1)
              (if get_terminal (rc_kv s) \<noteq> None then s
               else put_cell terminal_key (VTerminal
                 \<lparr>tc_run = run_id r, tc_phase = Tc_Hooks, tc_generation = 0, tc_attempts = 0,
                  tc_last_error = None, tc_last_attempt_at = None\<rparr>) s)
          else s)"

definition eventStore :: "rval kv \<Rightarrow> est" where
  "eventStore s = \<lparr>es_kv = s, es_seq = get_seq s\<rparr>"

definition commitEvent ::
    "world_api \<Rightarrow> apply_ctx \<Rightarrow> int \<Rightarrow> success \<Rightarrow> est \<Rightarrow> cell \<Rightarrow> outcome answer" where
  "commitEvent W ctx retentionMs out e s =
     bindE (scheduleRetention W retentionMs (get_cleanup (rc_kv s)) out
         (s\<lparr>rc_kv := recordHooks (get_seq (rc_kv s)) (es_seq e) out (es_kv e)\<rparr>)) (\<lambda>(out, s).
       let s = scheduleTerminalCleanup W (c_now ctx) out s;
           out = (if so_run out \<noteq> None
                  then out\<lparr>so_index_expires := Some (c_now ctx + max_run_index_publication_lifetime_ms)\<rparr>
                  else out)
       in Inr (finalizeEventPage W ctx (Success out) (rc_kv s), s))"

definition cellApplyEvent ::
    "world_api \<Rightarrow> string option \<Rightarrow> apply_ctx \<Rightarrow> int \<Rightarrow> cell \<Rightarrow> outcome answer" where
  "cellApplyEvent W name ctx now s =
     bindE (ensure (name = None \<or> name = Some (c_run ctx)) Bad_Type) (\<lambda>_.
     bindE (if c_cleanup ctx = JUndefined then Inr 0 else validateCleanupRequest (c_cleanup ctx) True)
       (\<lambda>retentionMs.
       if tombstoneFrom now (rc_kv s) \<noteq> None then Inr (Failure Run_Expired, s)
       else
         let ctx = ctx\<lparr>c_now := now, c_defer_cleanup := True\<rparr> in
         case applyEvent W ctx (eventStore (rc_kv s)) of
           Inl e \<Rightarrow> Inl (Event_Exn e)
         | Inr (Failure f, e) \<Rightarrow> Inr (Failure f, s\<lparr>rc_kv := es_kv e\<rparr>)
         | Inr (Success out, e) \<Rightarrow> commitEvent W ctx retentionMs out e s))"

section \<open>Settling hook claims\<close>

fun js_str :: "js \<Rightarrow> string option" where
  "js_str (JStr s) = Some s"
| "js_str _ = None"

definition isNonEmptyString :: "js \<Rightarrow> bool" where
  "isNonEmptyString v \<longleftrightarrow> truthy (js_str v)"

text \<open>The claim protocol's ids arrive as untyped values where the code checks them.\<close>

abbreviation the_str :: "js \<Rightarrow> string" where
  "the_str v \<equiv> nullish (js_str v) []"

definition resolveHookTokenClaim ::
    "string \<Rightarrow> string \<Rightarrow> string \<Rightarrow> int \<Rightarrow> cell \<Rightarrow> bool \<times> cell" where
  "resolveHookTokenClaim hookId token claimId now s =
     (if tombstoneFrom now (rc_kv s) \<noteq> None then (False, s)
      else if map_option hook_token (get_hook hookId (rc_kv s)) = Some token then (True, s)
      else (False, put_cell (hookClaimCancellationKey claimId)
             (VCancel \<lparr>cc_hook = hookId, cc_token = Some token, cc_canceled_at = now\<rparr>) s))"

definition optional_string :: "js \<Rightarrow> bool" where
  "optional_string v \<longleftrightarrow> v = JUndefined \<or> js_str v \<noteq> None"

definition resolveExpiredHookClaim ::
    "world_api \<Rightarrow> js \<Rightarrow> js \<Rightarrow> js \<Rightarrow> int \<Rightarrow> cell \<Rightarrow> hook option answer" where
  "resolveExpiredHookClaim W hookId claimId token now s =
     bindE (ensure (isNonEmptyString hookId \<and> isNonEmptyString claimId \<and> optional_string token) Bad_Type)
       (\<lambda>_.
       if tombstoneFrom now (rc_kv s) \<noteq> None then Inr (None, s)
       else if (case get_run (rc_kv s) of None \<Rightarrow> False | Some r \<Rightarrow> terminal_run W (run_state r))
       then Inr (None, s)
       else
         (case get_hook (the_str hookId) (rc_kv s) of
            Some h \<Rightarrow>
              if js_str token = None \<or> js_str token = Some (hook_token h) then Inr (Some h, s)
              else Inr (None, s\<lparr>rc_kv := cancel_claim (the_str claimId)
                     \<lparr>cc_hook = the_str hookId, cc_token = js_str token, cc_canceled_at = now\<rparr> (rc_kv s)\<rparr>)
          | None \<Rightarrow> Inr (None, s\<lparr>rc_kv := cancel_claim (the_str claimId)
                     \<lparr>cc_hook = the_str hookId, cc_token = js_str token, cc_canceled_at = now\<rparr> (rc_kv s)\<rparr>)))"

definition getCommittedHook ::
    "world_api \<Rightarrow> js \<Rightarrow> js \<Rightarrow> int \<Rightarrow> rval kv \<Rightarrow> cell_exn + hook option" where
  "getCommittedHook W hookId token now s =
     bindE (ensure (isNonEmptyString hookId \<and> optional_string token) Bad_Type) (\<lambda>_.
       if tombstoneFrom now s \<noteq> None then Inr None
       else
         (case (get_run s, get_hook (the_str hookId) s) of
            (Some r, Some h) \<Rightarrow>
              if terminal_run W (run_state r) then Inr None
              else if js_str token \<noteq> None \<and> js_str token \<noteq> Some (hook_token h) then Inr None
              else Inr (Some h)
          | _ \<Rightarrow> Inr None))"

definition forceDisposeHook ::
    "world_api \<Rightarrow> string \<Rightarrow> force_disposal \<Rightarrow> int \<Rightarrow> cell \<Rightarrow> bool answer" where
  "forceDisposeHook W runId rq now s =
     bindE (ensure (fd_hook rq \<noteq> [] \<and> fd_token rq \<noteq> [] \<and> own_run (fd_claimed_by rq) \<noteq> []
         \<and> own_hook (fd_claimed_by rq) \<noteq> []) Bad_Type) (\<lambda>_.
       if tombstoneFrom now (rc_kv s) \<noteq> None then Inr (False, s)
       else
         case applyForcedHookDisposal W rq runId now (eventStore (rc_kv s)) of
           Inl e \<Rightarrow> Inl (Event_Exn e)
         | Inr (journaled, e) \<Rightarrow>
             Inr (journaled, s\<lparr>rc_kv :=
               (if es_seq e \<noteq> get_seq (rc_kv s) then kv_put seq_key (VSeq (es_seq e)) (es_kv e)
                else es_kv e)\<rparr>))"

definition cellResolveForcedHookClaim ::
    "world_api \<Rightarrow> forced_claim \<Rightarrow> int \<Rightarrow> cell \<Rightarrow> (bool \<times> hook option) answer" where
  "cellResolveForcedHookClaim W rq now s =
     bindE (ensure (fr_hook rq \<noteq> [] \<and> fr_token rq \<noteq> [] \<and> fr_claim rq \<noteq> []
         \<and> own_run (fr_victim rq) \<noteq> [] \<and> own_hook (fr_victim rq) \<noteq> []) Bad_Type) (\<lambda>_.
       if tombstoneFrom now (rc_kv s) \<noteq> None then Inr ((False, None), s)
       else
         let (answer, kv) = resolveForcedHookClaim W rq now (rc_kv s)
         in Inr (answer, s\<lparr>rc_kv := kv\<rparr>))"

end
