(* ===== verification/QueueCells.thy ===== *)
theory QueueCells
  imports RunCell
begin

text \<open>
  Queue idempotency in Durable Object cells (\<open>WorkflowRunDO.ts\<close>).  A claim has a producer side, the
  reservation of one message id per idempotency key, and a consumer side, the in-flight lease of
  one delivery.  Runs created by this version keep their claims in the run's own cell, one key
  per claim name; older ones use a cell per claim, with two keys and an alarm.  The run cell also
  registers payload objects, and a cell per message remembers payloads that lost their run.
\<close>

section \<open>Stored claim state\<close>

fun as_queue_claim :: "rval \<Rightarrow> run_queue_claim option" where
  "as_queue_claim (VQueueClaim x) = Some x" | "as_queue_claim _ = None"
fun as_inflight :: "rval \<Rightarrow> inflight_claim option" where
  "as_inflight (VInflight x) = Some x" | "as_inflight _ = None"
fun as_reservation :: "rval \<Rightarrow> queue_reservation option" where
  "as_reservation (VReservation x) = Some x" | "as_reservation _ = None"
fun as_payload :: "rval \<Rightarrow> payload_registration option" where
  "as_payload (VPayload x) = Some x" | "as_payload _ = None"
fun as_orphan :: "rval \<Rightarrow> payload_orphan option" where
  "as_orphan (VOrphan x) = Some x" | "as_orphan _ = None"

abbreviation claim_key :: string where "claim_key \<equiv> key Sp_Inflight []"
abbreviation reservation_key :: string where "reservation_key \<equiv> key Sp_Reservation []"
abbreviation orphan_key :: string where "orphan_key \<equiv> key Sp_Queue_Orphan []"

definition runQueueClaimKey :: "string \<Rightarrow> string" where
  "runQueueClaimKey claimName = key Sp_Queue_Claim claimName"

definition queuePayloadRegistryKey :: "string \<Rightarrow> string" where
  "queuePayloadRegistryKey messageId = key Sp_Queue_Payload messageId"

definition get_queue_claim :: "string \<Rightarrow> rval kv \<Rightarrow> run_queue_claim option" where
  "get_queue_claim k s = Option.bind (kv_get k s) as_queue_claim"
definition get_inflight :: "rval kv \<Rightarrow> inflight_claim option" where
  "get_inflight s = Option.bind (kv_get claim_key s) as_inflight"
definition get_reservation :: "rval kv \<Rightarrow> queue_reservation option" where
  "get_reservation s = Option.bind (kv_get reservation_key s) as_reservation"
definition get_orphan :: "rval kv \<Rightarrow> payload_orphan option" where
  "get_orphan s = Option.bind (kv_get orphan_key s) as_orphan"
definition get_payload :: "string \<Rightarrow> rval kv \<Rightarrow> payload_registration option" where
  "get_payload m s = Option.bind (kv_get (queuePayloadRegistryKey m) s) as_payload"

definition no_claim :: run_queue_claim where
  "no_claim = \<lparr>rq_reservation = None, rq_claim = None\<rparr>"

definition queue_reservation_grace_ms :: int where
  "queue_reservation_grace_ms = 5 * 24 * 60 * 60 * 1000"

section \<open>Requests\<close>

text \<open>One record for the parameters of all claim requests; each handler checks the fields it
  uses, and a missing parameter object reads as undefined fields.\<close>

record queue_rq =
  qq_claim :: js
  qq_message :: js
  qq_expires :: js
  qq_retry :: js
  qq_stale :: js
  qq_pending :: js
  qq_reservation_expires :: js

definition validRunQueueClaimName :: "js \<Rightarrow> bool" where
  "validRunQueueClaimName v \<longleftrightarrow>
     (case js_str v of None \<Rightarrow> False | Some n \<Rightarrow> has_prefix ''claim:'' n)"

fun optional_bool :: "js \<Rightarrow> bool" where
  "optional_bool JUndefined = True"
| "optional_bool (JBool _) = True"
| "optional_bool _ = False"

definition optional_deadline :: "js \<Rightarrow> bool" where
  "optional_deadline v \<longleftrightarrow> v = JUndefined \<or> isNonNegativeSafeInteger v"

datatype reserve_answer =
    Res_Expired
  | Res_Cell_Scope
  | Res_Admitted string
  | Res_Held string bool

datatype claim_answer = Cl_Expired | Cl_Claimed | Cl_Busy "int option"

section \<open>Shared conditions\<close>

text \<open>A live reservation blocks another message, and blocks its own message while that message's
  publication is being announced anew.\<close>

definition reservation_blocks :: "int \<Rightarrow> string \<Rightarrow> bool \<Rightarrow> queue_reservation \<Rightarrow> bool" where
  "reservation_blocks now m pending r \<longleftrightarrow> now < qr_expires_at r \<and> (qr_message r \<noteq> m \<or> pending)"

definition new_reservation ::
    "queue_reservation option \<Rightarrow> string \<Rightarrow> int \<Rightarrow> bool \<Rightarrow> queue_reservation" where
  "new_reservation existing m expiresAt pending =
     \<lparr>qr_message = m,
      qr_expires_at = max (case existing of None \<Rightarrow> 0 | Some r \<Rightarrow> qr_expires_at r) expiresAt,
      qr_pending = pending\<rparr>"

text \<open>A delivery proves that a pending publication reached the broker.\<close>

definition proven_reservation :: "int \<Rightarrow> string \<Rightarrow> queue_reservation \<Rightarrow> queue_reservation option" where
  "proven_reservation now m r =
     (if qr_pending r \<and> qr_message r = m
      then Some \<lparr>qr_message = m, qr_expires_at = max (qr_expires_at r) (now + queue_reservation_grace_ms),
                 qr_pending = False\<rparr>
      else None)"

text \<open>What a live in-flight claim answers to a delivery: \<open>None\<close> lets it through.\<close>

definition claim_refusal :: "int \<Rightarrow> string \<Rightarrow> inflight_claim option \<Rightarrow> int option option" where
  "claim_refusal now m existing =
     (case existing of
        None \<Rightarrow> None
      | Some c \<Rightarrow>
          if ic_expires_at c \<le> now then None
          else if ic_message c \<noteq> m then Some None
          else (case ic_retry_at c of
                  None \<Rightarrow> Some (Some (ic_expires_at c))
                | Some t \<Rightarrow> if now < t then Some (Some t) else None))"

definition held_claim :: "inflight_claim \<Rightarrow> int \<Rightarrow> int \<Rightarrow> inflight_claim" where
  "held_claim c retryAt expiresAt =
     c\<lparr>ic_retry_at := Some retryAt, ic_expires_at := max (ic_expires_at c) expiresAt\<rparr>"

definition extended_reservation ::
    "string \<Rightarrow> js \<Rightarrow> queue_reservation option \<Rightarrow> queue_reservation option" where
  "extended_reservation m until r =
     (case r of
        None \<Rightarrow> None
      | Some x \<Rightarrow>
          if qr_message x = m \<and> until \<noteq> JUndefined \<and> qr_expires_at x < js_int until
          then Some (x\<lparr>qr_expires_at := js_int until\<rparr>) else None)"

section \<open>Run-scoped claims\<close>

definition getQueueAdmission :: "int \<Rightarrow> rval kv \<Rightarrow> bool" where
  "getQueueAdmission now s \<longleftrightarrow> tombstoneFrom now s = None"

definition reserveRunQueueMessage :: "queue_rq \<Rightarrow> int \<Rightarrow> cell \<Rightarrow> reserve_answer answer" where
  "reserveRunQueueMessage rq now s =
     bindE (ensure (validRunQueueClaimName (qq_claim rq) \<and> isNonEmptyString (qq_message rq)
         \<and> isNonNegativeSafeInteger (qq_expires rq) \<and> optional_bool (qq_pending rq)) Bad_Type) (\<lambda>_.
       if tombstoneFrom now (rc_kv s) \<noteq> None then Inr (Res_Expired, s)
       else if kv_get scope_key (rc_kv s) \<noteq> Some (VStr ''run'') then Inr (Res_Cell_Scope, s)
       else
         let k = runQueueClaimKey (the_str (qq_claim rq)); m = the_str (qq_message rq);
             pending = (qq_pending rq = JBool True);
             state = nullish (get_queue_claim k (rc_kv s)) no_claim;
             existing = rq_reservation state
         in if (case existing of None \<Rightarrow> False | Some r \<Rightarrow> reservation_blocks now m pending r)
            then Inr (Res_Held (qr_message (the existing)) (qr_pending (the existing)), s)
            else Inr (Res_Admitted m, put_cell k (VQueueClaim (state\<lparr>rq_reservation :=
                   Some (new_reservation existing m (js_int (qq_expires rq)) pending)\<rparr>)) s))"

definition confirmRunQueueMessagePublication :: "queue_rq \<Rightarrow> cell \<Rightarrow> unit answer" where
  "confirmRunQueueMessagePublication rq s =
     bindE (ensure (validRunQueueClaimName (qq_claim rq) \<and> isNonEmptyString (qq_message rq)
         \<and> isNonNegativeSafeInteger (qq_expires rq)) Bad_Type) (\<lambda>_.
       let k = runQueueClaimKey (the_str (qq_claim rq)); m = the_str (qq_message rq) in
       case get_queue_claim k (rc_kv s) of
         None \<Rightarrow> Inr ((), s)
       | Some state \<Rightarrow>
           if map_option qr_message (rq_reservation state) \<noteq> Some m then Inr ((), s)
           else Inr ((), put_cell k (VQueueClaim (state\<lparr>rq_reservation :=
                  Some (new_reservation (rq_reservation state) m (js_int (qq_expires rq)) False)\<rparr>)) s))"

definition claimRunQueueMessage :: "queue_rq \<Rightarrow> int \<Rightarrow> cell \<Rightarrow> claim_answer answer" where
  "claimRunQueueMessage rq now s =
     bindE (ensure (validRunQueueClaimName (qq_claim rq) \<and> isNonEmptyString (qq_message rq)
         \<and> isPositiveSafeInteger (qq_stale rq)) Bad_Type) (\<lambda>_.
       if tombstoneFrom now (rc_kv s) \<noteq> None then Inr (Cl_Expired, s)
       else
         let k = runQueueClaimKey (the_str (qq_claim rq)); m = the_str (qq_message rq);
             state = nullish (get_queue_claim k (rc_kv s)) no_claim;
             proven = Option.bind (rq_reservation state) (proven_reservation now m);
             (state, s) = (if proven = None then (state, s)
               else let state = state\<lparr>rq_reservation := proven\<rparr> in (state, put_cell k (VQueueClaim state) s))
         in case claim_refusal now m (rq_claim state) of
              Some retryAt \<Rightarrow> Inr (Cl_Busy retryAt, s)
            | None \<Rightarrow> Inr (Cl_Claimed, put_cell k (VQueueClaim (state\<lparr>rq_claim :=
                Some \<lparr>ic_message = m, ic_expires_at = now + js_int (qq_stale rq), ic_retry_at = None\<rparr>\<rparr>)) s))"

definition holdRunQueueMessage :: "queue_rq \<Rightarrow> cell \<Rightarrow> bool answer" where
  "holdRunQueueMessage rq s =
     bindE (ensure (validRunQueueClaimName (qq_claim rq) \<and> isNonEmptyString (qq_message rq)
         \<and> isNonNegativeSafeInteger (qq_retry rq) \<and> isNonNegativeSafeInteger (qq_expires rq)
         \<and> optional_deadline (qq_reservation_expires rq)) Bad_Type) (\<lambda>_.
       let k = runQueueClaimKey (the_str (qq_claim rq)); m = the_str (qq_message rq);
           state = nullish (get_queue_claim k (rc_kv s)) no_claim
       in case rq_claim state of
            None \<Rightarrow> Inr (False, s)
          | Some c \<Rightarrow>
              if ic_message c \<noteq> m then Inr (False, s)
              else
                let next = state\<lparr>rq_claim :=
                      Some (held_claim c (js_int (qq_retry rq)) (js_int (qq_expires rq)))\<rparr>;
                    ext = extended_reservation m (qq_reservation_expires rq) (rq_reservation state)
                in Inr (True, put_cell k (VQueueClaim
                     (if ext = None then next else next\<lparr>rq_reservation := ext\<rparr>)) s))"

definition store_claim :: "string \<Rightarrow> run_queue_claim \<Rightarrow> cell \<Rightarrow> cell" where
  "store_claim k state s =
     (if rq_reservation state \<noteq> None \<or> rq_claim state \<noteq> None then put_cell k (VQueueClaim state) s
      else s\<lparr>rc_kv := kv_del k (rc_kv s)\<rparr>)"

definition releaseRunQueueMessage :: "queue_rq \<Rightarrow> cell \<Rightarrow> unit answer" where
  "releaseRunQueueMessage rq s =
     bindE (ensure (validRunQueueClaimName (qq_claim rq) \<and> js_str (qq_message rq) \<noteq> None) Bad_Type) (\<lambda>_.
       let k = runQueueClaimKey (the_str (qq_claim rq)) in
       case get_queue_claim k (rc_kv s) of
         None \<Rightarrow> Inr ((), s)
       | Some state \<Rightarrow>
           if map_option ic_message (rq_claim state) \<noteq> js_str (qq_message rq) then Inr ((), s)
           else Inr ((), store_claim k (state\<lparr>rq_claim := None\<rparr>) s))"

definition completeRunQueueMessage :: "queue_rq \<Rightarrow> cell \<Rightarrow> unit answer" where
  "completeRunQueueMessage rq s =
     bindE (ensure (validRunQueueClaimName (qq_claim rq) \<and> js_str (qq_message rq) \<noteq> None) Bad_Type) (\<lambda>_.
       let k = runQueueClaimKey (the_str (qq_claim rq)); m = js_str (qq_message rq) in
       case get_queue_claim k (rc_kv s) of
         None \<Rightarrow> Inr ((), s)
       | Some state \<Rightarrow>
           Inr ((), store_claim k
             \<lparr>rq_reservation = (if map_option qr_message (rq_reservation state) = m then None
                else rq_reservation state),
              rq_claim = (if map_option ic_message (rq_claim state) = m then None
                else rq_claim state)\<rparr> s))"

definition abandonRunQueueMessageReservation :: "queue_rq \<Rightarrow> cell \<Rightarrow> unit answer" where
  "abandonRunQueueMessageReservation rq s =
     bindE (ensure (validRunQueueClaimName (qq_claim rq) \<and> isNonEmptyString (qq_message rq)) Bad_Type) (\<lambda>_.
       let k = runQueueClaimKey (the_str (qq_claim rq)) in
       case get_queue_claim k (rc_kv s) of
         None \<Rightarrow> Inr ((), s)
       | Some state \<Rightarrow>
           if map_option qr_message (rq_reservation state) \<noteq> js_str (qq_message rq) then Inr ((), s)
           else Inr ((), store_claim k (state\<lparr>rq_reservation := None\<rparr>) s))"

section \<open>Claim cells\<close>

text \<open>The alarm of a claim cell is the earliest expiry of what it holds.\<close>

definition earliest :: "int option \<Rightarrow> int option \<Rightarrow> int option" where
  "earliest a b =
     (case (a, b) of (None, _) \<Rightarrow> b | (_, None) \<Rightarrow> a | (Some x, Some y) \<Rightarrow> Some (min x y))"

definition armAt :: "int option \<Rightarrow> cell \<Rightarrow> cell" where
  "armAt t s = (case t of None \<Rightarrow> deleteAlarm s | Some t \<Rightarrow> setAlarm t s)"

definition reserveQueueMessage :: "queue_rq \<Rightarrow> int \<Rightarrow> cell \<Rightarrow> reserve_answer answer" where
  "reserveQueueMessage rq now s =
     bindE (ensure (isNonEmptyString (qq_message rq) \<and> isNonNegativeSafeInteger (qq_expires rq)
         \<and> optional_bool (qq_pending rq)) Bad_Type) (\<lambda>_.
       let m = the_str (qq_message rq); pending = (qq_pending rq = JBool True);
           existing = get_reservation (rc_kv s);
           due = (\<lambda>t. min t (nullish (map_option ic_expires_at (get_inflight (rc_kv s))) t))
       in if (case existing of None \<Rightarrow> False | Some r \<Rightarrow> reservation_blocks now m pending r)
          then Inr (Res_Held (qr_message (the existing)) (qr_pending (the existing)),
                    setAlarm (due (qr_expires_at (the existing))) s)
          else
            let r = new_reservation existing m (js_int (qq_expires rq)) pending
            in Inr (Res_Admitted m,
                    setAlarm (due (qr_expires_at r)) (put_cell reservation_key (VReservation r) s)))"

definition confirmQueueMessagePublication :: "queue_rq \<Rightarrow> cell \<Rightarrow> unit answer" where
  "confirmQueueMessagePublication rq s =
     bindE (ensure (isNonEmptyString (qq_message rq) \<and> isNonNegativeSafeInteger (qq_expires rq)) Bad_Type)
       (\<lambda>_.
       let m = the_str (qq_message rq); existing = get_reservation (rc_kv s);
           due = (\<lambda>t. min t (nullish (map_option ic_expires_at (get_inflight (rc_kv s))) t))
       in if map_option qr_message existing \<noteq> Some m then Inr ((), s)
          else
            let r = new_reservation existing m (js_int (qq_expires rq)) False
            in Inr ((), setAlarm (due (qr_expires_at r)) (put_cell reservation_key (VReservation r) s)))"

definition completeQueueMessage :: "js \<Rightarrow> cell \<Rightarrow> unit answer" where
  "completeQueueMessage messageId s =
     bindE (ensure (isNonEmptyString messageId) Bad_Type) (\<lambda>_.
       let r = get_reservation (rc_kv s); c = get_inflight (rc_kv s);
           (r, s) = (if map_option qr_message r = js_str messageId
                     then (None, s\<lparr>rc_kv := kv_del reservation_key (rc_kv s)\<rparr>) else (r, s));
           (c, s) = (if map_option ic_message c = js_str messageId
                     then (None, s\<lparr>rc_kv := kv_del claim_key (rc_kv s)\<rparr>) else (c, s))
       in Inr ((), armAt (earliest (map_option qr_expires_at r) (map_option ic_expires_at c)) s))"

definition abandonQueueMessageReservation :: "js \<Rightarrow> cell \<Rightarrow> unit answer" where
  "abandonQueueMessageReservation messageId s =
     bindE (ensure (isNonEmptyString messageId) Bad_Type) (\<lambda>_.
       if map_option qr_message (get_reservation (rc_kv s)) \<noteq> js_str messageId then Inr ((), s)
       else Inr ((), armAt (map_option ic_expires_at (get_inflight (rc_kv s)))
              (s\<lparr>rc_kv := kv_del reservation_key (rc_kv s)\<rparr>)))"

definition claimInflight :: "queue_rq \<Rightarrow> int \<Rightarrow> cell \<Rightarrow> claim_answer answer" where
  "claimInflight rq now s =
     bindE (ensure (isNonEmptyString (qq_message rq) \<and> isPositiveSafeInteger (qq_stale rq)) Bad_Type) (\<lambda>_.
       let m = the_str (qq_message rq);
           proven = Option.bind (get_reservation (rc_kv s)) (proven_reservation now m);
           r = (if proven = None then get_reservation (rc_kv s) else proven);
           s' = (case proven of None \<Rightarrow> s | Some p \<Rightarrow> put_cell reservation_key (VReservation p) s);
           expiresAt = now + js_int (qq_stale rq)
       in case claim_refusal now m (get_inflight (rc_kv s)) of
            Some retryAt \<Rightarrow> Inr (Cl_Busy retryAt, s')
          | None \<Rightarrow>
              Inr (Cl_Claimed,
                setAlarm (min expiresAt (nullish (map_option qr_expires_at r) expiresAt))
                  (put_cell claim_key (VInflight
                    \<lparr>ic_message = m, ic_expires_at = expiresAt, ic_retry_at = None\<rparr>) s')))"

definition holdInflight :: "queue_rq \<Rightarrow> cell \<Rightarrow> bool answer" where
  "holdInflight rq s =
     bindE (ensure (isNonEmptyString (qq_message rq)
         \<and> isNonNegativeSafeInteger (qq_retry rq) \<and> isNonNegativeSafeInteger (qq_expires rq)
         \<and> optional_deadline (qq_reservation_expires rq)) Bad_Type) (\<lambda>_.
       case get_inflight (rc_kv s) of
         None \<Rightarrow> Inr (False, s)
       | Some c \<Rightarrow>
           let m = the_str (qq_message rq) in
           if ic_message c \<noteq> m then Inr (False, s)
           else
             let c = held_claim c (js_int (qq_retry rq)) (js_int (qq_expires rq));
                 ext = extended_reservation m (qq_reservation_expires rq) (get_reservation (rc_kv s));
                 r = (if ext = None then get_reservation (rc_kv s) else ext);
                 s = put_cell claim_key (VInflight c) s;
                 s = (case ext of None \<Rightarrow> s | Some x \<Rightarrow> put_cell reservation_key (VReservation x) s)
             in Inr (True, setAlarm
                  (min (ic_expires_at c) (nullish (map_option qr_expires_at r) (ic_expires_at c))) s))"

definition releaseInflight :: "string option \<Rightarrow> cell \<Rightarrow> cell" where
  "releaseInflight messageId s =
     (case get_inflight (rc_kv s) of
        None \<Rightarrow> s
      | Some c \<Rightarrow>
          if messageId \<noteq> None \<and> messageId \<noteq> Some (ic_message c) then s
          else armAt (map_option qr_expires_at (get_reservation (rc_kv s)))
                 (s\<lparr>rc_kv := kv_del claim_key (rc_kv s)\<rparr>))"

text \<open>The alarm of a claim cell: expired entries leave, the rest is waited for.\<close>

definition expireClaims :: "int \<Rightarrow> cell \<Rightarrow> cell" where
  "expireClaims now s =
     (let c = get_inflight (rc_kv s); r = get_reservation (rc_kv s);
          (c, s) = (case c of
                      Some x \<Rightarrow> if ic_expires_at x \<le> now
                                then (None, s\<lparr>rc_kv := kv_del claim_key (rc_kv s)\<rparr>) else (c, s)
                    | None \<Rightarrow> (c, s));
          (r, s) = (case r of
                      Some x \<Rightarrow> if qr_expires_at x \<le> now
                                then (None, s\<lparr>rc_kv := kv_del reservation_key (rc_kv s)\<rparr>) else (r, s)
                    | None \<Rightarrow> (r, s))
      in armAt (earliest (map_option ic_expires_at c) (map_option qr_expires_at r)) s)"

section \<open>Payload objects\<close>

definition registerQueuePayload :: "js \<Rightarrow> js \<Rightarrow> js \<Rightarrow> int \<Rightarrow> cell \<Rightarrow> bool answer" where
  "registerQueuePayload messageId objectKey orphanExpiresAt now s =
     bindE (ensure (isNonEmptyString messageId \<and> isNonEmptyString objectKey
         \<and> isNonNegativeSafeInteger orphanExpiresAt) Bad_Type) (\<lambda>_.
       if tombstoneFrom now (rc_kv s) \<noteq> None then Inr (False, s)
       else Inr (True, put_cell (queuePayloadRegistryKey (the_str messageId))
              (VPayload \<lparr>qp_message = the_str messageId, qp_key = the_str objectKey,
                 qp_orphan_expires_at = js_int orphanExpiresAt\<rparr>) s))"

definition finalizeQueuePayload :: "js \<Rightarrow> int \<Rightarrow> rval kv \<Rightarrow> cell_exn + bool" where
  "finalizeQueuePayload messageId now s =
     bindE (ensure (isNonEmptyString messageId) Bad_Type) (\<lambda>_.
       Inr (tombstoneFrom now s = None \<and> get_payload (the_str messageId) s \<noteq> None))"

definition unregisterQueuePayload :: "js \<Rightarrow> cell \<Rightarrow> unit answer" where
  "unregisterQueuePayload messageId s =
     bindE (ensure (isNonEmptyString messageId) Bad_Type) (\<lambda>_.
       Inr ((), s\<lparr>rc_kv := kv_del (queuePayloadRegistryKey (the_str messageId)) (rc_kv s)\<rparr>))"

definition scheduleQueuePayloadOrphan :: "js \<Rightarrow> js \<Rightarrow> js \<Rightarrow> js \<Rightarrow> cell \<Rightarrow> unit answer" where
  "scheduleQueuePayloadOrphan messageId runId objectKey expiresAt s =
     bindE (ensure (isNonEmptyString messageId \<and> isNonEmptyString runId \<and> isNonEmptyString objectKey
         \<and> isNonNegativeSafeInteger expiresAt) Bad_Type) (\<lambda>_.
       let existing = get_orphan (rc_kv s) in
       bindE (ensure (case existing of None \<Rightarrow> True | Some o1 \<Rightarrow> qo_message o1 = the_str messageId)
         Orphan_Mismatch) (\<lambda>_.
       bindE (ensure (case existing of None \<Rightarrow> True | Some o1 \<Rightarrow> \<not> qo_deleting o1) Orphan_Deleting) (\<lambda>_.
       let t = max (nullish (map_option qo_expires_at existing) 0) (js_int expiresAt)
       in Inr ((), setAlarm t (put_cell orphan_key (VOrphan
            \<lparr>qo_message = the_str messageId, qo_run = the_str runId, qo_key = the_str objectKey,
             qo_expires_at = t, qo_generation = nullish (map_option qo_generation existing) 0 + 1,
             qo_deleting = False\<rparr>) s)))))"

definition cancelQueuePayloadOrphan :: "js \<Rightarrow> cell \<Rightarrow> unit answer" where
  "cancelQueuePayloadOrphan messageId s =
     bindE (ensure (isNonEmptyString messageId) Bad_Type) (\<lambda>_.
       if map_option qo_message (get_orphan (rc_kv s)) \<noteq> js_str messageId then Inr ((), s)
       else Inr ((), deleteAlarm (s\<lparr>rc_kv := kv_del orphan_key (rc_kv s)\<rparr>)))"

end
