(* ===== verification/RetentionCell.thy ===== *)
theory RetentionCell
  imports QueueCells
begin

text \<open>
  The retention state machine of a run cell (\<open>WorkflowRunDO.ts\<close>): scheduling and enforcing a
  deadline, the bounded cleanup pages an alarm drives, terminal hook and wait disposal, and the
  failure backoff.  A page that calls other cells is cut where the code awaits them: it reads
  a snapshot, makes its calls through the record \<open>fleet\<close> (an entry \<open>Some\<close> message is a call that
  throws), and commits in a transaction that first compares phase and generation with the
  record the page started from, since other requests may have run in between.
\<close>

section \<open>Page sizes\<close>

definition payload_delete_batch :: nat where "payload_delete_batch = storage_batch_size"
definition hook_marker_page_size :: nat where "hook_marker_page_size = 64"
definition terminal_hook_page_size :: nat where "terminal_hook_page_size = 64"
definition terminal_wait_page_size :: nat where "terminal_wait_page_size = storage_batch_size"
definition streams_per_cleanup_page :: nat where "streams_per_cleanup_page = 16"
definition stream_chunks_per_cleanup_page :: int where "stream_chunks_per_cleanup_page = 256"
definition stream_bytes_per_cleanup_page :: int where
  "stream_bytes_per_cleanup_page = 16 * 1024 * 1024"
definition queue_payloads_per_cleanup_page :: nat where
  "queue_payloads_per_cleanup_page = storage_batch_size"
definition cleanup_retry_max_ms :: int where "cleanup_retry_max_ms = 60 * 60 * 1000"

lemmas page_size_defs = payload_delete_batch_def hook_marker_page_size_def
  terminal_hook_page_size_def terminal_wait_page_size_def streams_per_cleanup_page_def
  stream_chunks_per_cleanup_page_def stream_bytes_per_cleanup_page_def
  queue_payloads_per_cleanup_page_def storage_batch_size_def

section \<open>The other cells\<close>

record stream_expiry =
  se_done :: bool
  se_chunks :: int
  se_bytes :: int

record fleet =
  fl_release :: "string \<Rightarrow> hook_ref list \<Rightarrow> string option"
  fl_expire_run :: "string \<Rightarrow> hook_ref list \<Rightarrow> int \<Rightarrow> string option"
  fl_expire_registry :: "string \<Rightarrow> int \<Rightarrow> nat \<Rightarrow> string + string list"
  fl_expire_stream :: "string \<Rightarrow> string \<Rightarrow> int \<Rightarrow> int \<Rightarrow> int \<Rightarrow> string + stream_expiry"
  fl_finalize_registry :: "string \<Rightarrow> string list \<Rightarrow> string + nat \<times> bool"
  fl_delete_objects :: "string list \<Rightarrow> string option"
  fl_unregister :: "string \<Rightarrow> string \<Rightarrow> string option"

definition attempt :: "string option \<Rightarrow> string + unit" where
  "attempt r = (case r of None \<Rightarrow> Inr () | Some e \<Rightarrow> Inl e)"

section \<open>Scheduling\<close>

definition scheduleCleanup :: "world_api \<Rightarrow> js \<Rightarrow> int \<Rightarrow> cell \<Rightarrow> cleanup_record option answer" where
  "scheduleCleanup W request now s =
     bindE (validateCleanupRequest request False) (\<lambda>retentionMs.
       case get_cleanup (rc_kv s) of
         Some c \<Rightarrow> Inr (Some c, s)
       | None \<Rightarrow>
           if get_tombstone (rc_kv s) \<noteq> None then Inr (None, s)
           else case get_run (rc_kv s) of
             None \<Rightarrow> Inr (None, s)
           | Some r \<Rightarrow>
               if \<not> terminal_run W (run_state r) then Inr (None, s)
               else
                 bindE (require (run_completed_at r) Bad_Type) (\<lambda>done.
                 bindE (retentionDeadline done retentionMs) (\<lambda>dueAt.
                 bindE (require (parse_run W (r\<lparr>run_expired_at := Some dueAt\<rparr>)) Run_Schema) (\<lambda>r.
                 let c = cleanupRecord W r dueAt Manual
                 in Inr (Some c,
                      setAlarm (if get_terminal (rc_kv s) \<noteq> None \<or> dueAt \<le> now then now + 1 else dueAt)
                        (put_cell cleanup_key (VCleanup c) (put_cell run_key (VRun r) s)))))))"

datatype enforce_answer =
    En_Missing
  | En_Not_Due
  | En_Scheduled cleanup_record
  | En_Expired cleanup_record

definition shorten_cleanup :: "world_api \<Rightarrow> wf_run \<Rightarrow> int \<Rightarrow> cleanup_record \<Rightarrow> cleanup_record" where
  "shorten_cleanup W r dueAt c =
     (let terminal = terminal_run W (run_state r) in
      c\<lparr>cl_status := Some (run_state r),
        cl_completed_at := (if terminal then run_completed_at r else None),
        cl_terminal_status := (if terminal then Some (run_state r) else None),
        cl_reason := Some Maximum_Age, cl_due_at := dueAt, cl_generation := cl_generation c + 1\<rparr>)"

text \<open>The transaction of \<open>enforceRetention\<close>: an old run gets its deadline, or an earlier one.\<close>

definition enforceDeadline ::
    "world_api \<Rightarrow> js \<Rightarrow> js \<Rightarrow> int \<Rightarrow> cell \<Rightarrow> enforce_answer answer" where
  "enforceDeadline W request scheduledTime now s =
     bindE (validateCleanupRequest request False) (\<lambda>retentionMs.
     bindE (ensure (isNonNegativeSafeInteger scheduledTime) Bad_Type) (\<lambda>_.
       case get_tombstone (rc_kv s) of
         Some t \<Rightarrow> Inr (En_Expired (cleanupFromTombstone t), s)
       | None \<Rightarrow>
       case get_run (rc_kv s) of
         None \<Rightarrow> Inr (En_Missing, s)
       | Some r \<Rightarrow>
           bindE (retentionDeadline (run_created_at r) retentionMs) (\<lambda>dueAt.
             if js_int scheduledTime < dueAt then Inr (En_Not_Due, s)
             else
               bindE (case get_cleanup (rc_kv s) of
                        None \<Rightarrow>
                          bindE (require (parse_run W (r\<lparr>run_expired_at := Some dueAt\<rparr>)) Run_Schema) (\<lambda>r'.
                          let c = cleanupRecord W r dueAt Maximum_Age
                          in Inr (c, put_cell cleanup_key (VCleanup c) (put_cell run_key (VRun r') s)))
                      | Some c \<Rightarrow>
                          if cl_phase c = Ph_Retained \<and> dueAt < cl_due_at c then
                            bindE (require (parse_run W (r\<lparr>run_expired_at := Some dueAt\<rparr>)) Run_Schema) (\<lambda>r'.
                            let c = shorten_cleanup W r dueAt c
                            in Inr (c, put_cell cleanup_key (VCleanup c) (put_cell run_key (VRun r') s)))
                          else Inr (c, s))
                 (\<lambda>(c, s). Inr (if cl_due_at c \<le> now then En_Expired c else En_Scheduled c,
                                setAlarm (now + 1) s)))))"

text \<open>The transaction of \<open>cleanupNow\<close>: the deadline becomes this moment.\<close>

definition expireNow :: "world_api \<Rightarrow> int \<Rightarrow> cell \<Rightarrow> cell_exn + cell" where
  "expireNow W now s =
     (case get_cleanup (rc_kv s) of
        None \<Rightarrow> Inr s
      | Some c \<Rightarrow>
          if cl_phase c = Ph_Tombstoned then Inr s
          else
            bindE (case get_run (rc_kv s) of
                     None \<Rightarrow> Inr s
                   | Some r \<Rightarrow>
                       bindE (require (parse_run W (r\<lparr>run_expired_at := Some now\<rparr>)) Run_Schema) (\<lambda>r.
                       Inr (put_cell run_key (VRun r) s))) (\<lambda>s.
            Inr (setAlarm (now + 1) (put_cell cleanup_key
              (VCleanup (c\<lparr>cl_due_at := now, cl_generation := cl_generation c + 1\<rparr>)) s))))"

definition rearmCleanup :: "int \<Rightarrow> cell \<Rightarrow> cleanup_record option \<times> cell" where
  "rearmCleanup now s =
     (let c = get_cleanup (rc_kv s) in
      (c,
       if get_terminal (rc_kv s) \<noteq> None then setAlarm (now + 1) s
       else case c of
         None \<Rightarrow> deleteAlarm s
       | Some x \<Rightarrow> if cl_phase x = Ph_Tombstoned then deleteAlarm s
                   else setAlarm (max (now + 1) (cl_due_at x)) s))"

section \<open>Guarded writes of the two records\<close>

text \<open>A page may only commit on the record it started from.\<close>

definition same_cleanup :: "cleanup_record \<Rightarrow> cell \<Rightarrow> cleanup_record option" where
  "same_cleanup expected s =
     (case get_cleanup (rc_kv s) of
        None \<Rightarrow> None
      | Some c \<Rightarrow> if cl_phase c = cl_phase expected \<and> cl_generation c = cl_generation expected
                  then Some c else None)"

definition same_terminal :: "terminal_cleanup \<Rightarrow> cell \<Rightarrow> terminal_cleanup option" where
  "same_terminal expected s =
     (case get_terminal (rc_kv s) of
        None \<Rightarrow> None
      | Some t \<Rightarrow> if tc_phase t = tc_phase expected \<and> tc_generation t = tc_generation expected
                  then Some t else None)"

definition advance_cleanup :: "cleanup_phase \<Rightarrow> cleanup_record \<Rightarrow> cleanup_record" where
  "advance_cleanup p c =
     c\<lparr>cl_phase := p, cl_generation := cl_generation c + 1, cl_attempts := 0, cl_last_error := None\<rparr>"

definition advance_terminal :: "terminal_phase \<Rightarrow> terminal_cleanup \<Rightarrow> terminal_cleanup" where
  "advance_terminal p t =
     t\<lparr>tc_phase := p, tc_generation := tc_generation t + 1, tc_attempts := 0, tc_last_error := None\<rparr>"

definition setCleanupPhase :: "cleanup_record \<Rightarrow> cleanup_phase \<Rightarrow> int \<Rightarrow> cell \<Rightarrow> cell" where
  "setCleanupPhase expected p continueAt s =
     (case same_cleanup expected s of
        None \<Rightarrow> s
      | Some c \<Rightarrow> setAlarm continueAt (put_cell cleanup_key (VCleanup (advance_cleanup p c)) s))"

text \<open>Exponential backoff: one second doubled per attempt, at most an hour.\<close>

definition cleanup_delay :: "nat \<Rightarrow> int" where
  "cleanup_delay attempts = min cleanup_retry_max_ms (1000 * 2 ^ min (attempts - 1) 12)"

definition recordCleanupFailure :: "string \<Rightarrow> cleanup_record \<Rightarrow> int \<Rightarrow> cell \<Rightarrow> cell" where
  "recordCleanupFailure err expected now s =
     (case same_cleanup expected s of
        None \<Rightarrow> s
      | Some c \<Rightarrow>
          if cl_phase c = Ph_Tombstoned then s
          else setAlarm (now + cleanup_delay (cl_attempts c + 1))
            (put_cell cleanup_key (VCleanup
              (c\<lparr>cl_generation := cl_generation c + 1, cl_attempts := cl_attempts c + 1,
                 cl_last_error := Some err, cl_last_attempt_at := Some now\<rparr>)) s))"

definition recordTerminalCleanupFailure :: "string \<Rightarrow> terminal_cleanup \<Rightarrow> int \<Rightarrow> cell \<Rightarrow> cell" where
  "recordTerminalCleanupFailure err expected now s =
     (case same_terminal expected s of
        None \<Rightarrow> s
      | Some t \<Rightarrow>
          setAlarm (now + cleanup_delay (tc_attempts t + 1))
            (put_cell terminal_key (VTerminal
              (t\<lparr>tc_generation := tc_generation t + 1, tc_attempts := tc_attempts t + 1,
                 tc_last_error := Some err, tc_last_attempt_at := Some now\<rparr>)) s))"

section \<open>Listing a page\<close>

text \<open>The first \<open>n\<close> entries under a prefix, and whether they are all (one more is asked for).\<close>

definition list_page :: "string \<Rightarrow> nat \<Rightarrow> rval kv \<Rightarrow> (string \<times> rval) list \<times> bool" where
  "list_page p n s =
     (let entries = kv_list (prefix_query p\<lparr>q_limit := Some (n + 1)\<rparr>) s
      in (take n entries, length entries \<le> n))"

definition refs_of :: "(string \<times> rval) list \<Rightarrow> hook_ref list" where
  "refs_of entries = List.map_filter (\<lambda>(_, v). as_hook_ref v) entries"

definition hooks_of :: "(string \<times> rval) list \<Rightarrow> hook list" where
  "hooks_of entries = List.map_filter (\<lambda>(_, v). as_hook v) entries"

definition hook_keys :: "hook list \<Rightarrow> string list" where
  "hook_keys hooks = concat (map (\<lambda>h. [hook_key (hook_id h), hook_index_key h]) hooks)"

section \<open>Terminal cleanup\<close>

text \<open>Deletion of the record re-arms the alarm for retention, if there is any.\<close>

definition finishTerminal :: "int \<Rightarrow> cell \<Rightarrow> cell" where
  "finishTerminal now s =
     (let s = s\<lparr>rc_kv := kv_del terminal_key (rc_kv s)\<rparr> in
      case get_cleanup (rc_kv s) of
        None \<Rightarrow> deleteAlarm s
      | Some c \<Rightarrow> if cl_phase c = Ph_Tombstoned then deleteAlarm s
                  else setAlarm (max (now + 1) (cl_due_at c)) s)"

text \<open>Each reference once, at its first position, as the keys of a \<open>Map\<close>.\<close>

definition distinct_refs :: "hook_ref list \<Rightarrow> hook_ref list" where
  "distinct_refs refs = rev (remdups (rev refs))"

definition commitSmallTerminal ::
    "terminal_cleanup \<Rightarrow> hook list \<Rightarrow> string list \<Rightarrow> int \<Rightarrow> cell \<Rightarrow> bool \<times> cell" where
  "commitSmallTerminal t hooks markers now s =
     (case same_terminal t s of
        None \<Rightarrow> (True, s)
      | Some _ \<Rightarrow>
          let (waits, all) = list_page (space_prefix Sp_Wait) terminal_wait_page_size (rc_kv s) in
          if \<not> all then (False, s)
          else (True, finishTerminal now (del_cell (hook_keys hooks @ markers @ map fst waits) s)))"

definition completeSmallTerminalCleanup ::
    "fleet \<Rightarrow> terminal_cleanup \<Rightarrow> int \<Rightarrow> cell \<Rightarrow> string + bool \<times> cell" where
  "completeSmallTerminalCleanup F t now s =
     (let (hooks, allHooks) = list_page (space_prefix Sp_Hook) terminal_hook_page_size (rc_kv s);
          (markers, allMarkers) = list_page (space_prefix Sp_Hook_Marker) hook_marker_page_size (rc_kv s);
          refs = distinct_refs (map hook_ref_of (hooks_of hooks) @ refs_of markers)
      in if \<not> allHooks \<or> \<not> allMarkers then Inr (False, s)
         else
           bindE (if refs = [] then Inr () else attempt (fl_release F (tc_run t) refs)) (\<lambda>_.
           Inr (commitSmallTerminal t (hooks_of hooks) (map fst markers) now s)))"

definition commitTerminalHooks ::
    "terminal_cleanup \<Rightarrow> hook list \<Rightarrow> bool \<Rightarrow> int \<Rightarrow> cell \<Rightarrow> cell" where
  "commitTerminalHooks t hooks all now s =
     (case same_terminal t s of
        None \<Rightarrow> s
      | Some cur \<Rightarrow> setAlarm (now + 1)
          (put_cell terminal_key (VTerminal (advance_terminal (if all then Tc_Markers else Tc_Hooks) cur))
            (del_cell (hook_keys hooks) s)))"

definition deleteTerminalHookPage ::
    "fleet \<Rightarrow> terminal_cleanup \<Rightarrow> int \<Rightarrow> cell \<Rightarrow> string + cell" where
  "deleteTerminalHookPage F t now s =
     (let (entries, all) = list_page (space_prefix Sp_Hook) terminal_hook_page_size (rc_kv s);
          hooks = hooks_of entries
      in bindE (attempt (fl_release F (tc_run t) (map hook_ref_of hooks))) (\<lambda>_.
         Inr (commitTerminalHooks t hooks all now s)))"

definition commitTerminalMarkers ::
    "terminal_cleanup \<Rightarrow> string list \<Rightarrow> bool \<Rightarrow> int \<Rightarrow> cell \<Rightarrow> cell" where
  "commitTerminalMarkers t ks all now s =
     (case same_terminal t s of
        None \<Rightarrow> s
      | Some cur \<Rightarrow> setAlarm (now + 1)
          (put_cell terminal_key (VTerminal (advance_terminal (if all then Tc_Waits else Tc_Markers) cur))
            (del_cell ks s)))"

definition deleteTerminalHookMarkerPage ::
    "fleet \<Rightarrow> terminal_cleanup \<Rightarrow> int \<Rightarrow> cell \<Rightarrow> string + cell" where
  "deleteTerminalHookMarkerPage F t now s =
     (let (entries, all) = list_page (space_prefix Sp_Hook_Marker) hook_marker_page_size (rc_kv s)
      in bindE (attempt (fl_release F (tc_run t) (refs_of entries))) (\<lambda>_.
         Inr (commitTerminalMarkers t (map fst entries) all now s)))"

definition deleteTerminalWaitPage :: "terminal_cleanup \<Rightarrow> int \<Rightarrow> cell \<Rightarrow> cell" where
  "deleteTerminalWaitPage t now s =
     (case same_terminal t s of
        None \<Rightarrow> s
      | Some cur \<Rightarrow>
          let (entries, all) = list_page (space_prefix Sp_Wait) terminal_wait_page_size (rc_kv s);
              s = del_cell (map fst entries) s
          in if \<not> all
             then setAlarm (now + 1)
               (put_cell terminal_key (VTerminal (advance_terminal (tc_phase cur) cur)) s)
             else finishTerminal now s)"

definition executeTerminalCleanup ::
    "fleet \<Rightarrow> terminal_cleanup \<Rightarrow> int \<Rightarrow> cell \<Rightarrow> string + cell" where
  "executeTerminalCleanup F t now s =
     (case tc_phase t of
        Tc_Hooks \<Rightarrow>
          bindE (completeSmallTerminalCleanup F t now s) (\<lambda>(finished, s).
            if finished then Inr s else deleteTerminalHookPage F t now s)
      | Tc_Markers \<Rightarrow> deleteTerminalHookMarkerPage F t now s
      | Tc_Waits \<Rightarrow> Inr (deleteTerminalWaitPage t now s))"

section \<open>Retention pages\<close>

definition commitIndexPage ::
    "cleanup_record \<Rightarrow> string list \<Rightarrow> bool \<Rightarrow> int \<Rightarrow> cell \<Rightarrow> cell" where
  "commitIndexPage c markers all now s =
     (case get_cleanup (rc_kv s) of
        None \<Rightarrow> s
      | Some cur \<Rightarrow>
          if cl_phase cur \<noteq> Ph_Index \<or> cl_generation cur \<noteq> cl_generation c then s
          else setAlarm (now + 1)
            (put_cell cleanup_key
              (VCleanup (advance_cleanup (if all then Ph_Streams else Ph_Index) cur))
              (del_cell markers s)))"

definition deleteIndexPage :: "fleet \<Rightarrow> cleanup_record \<Rightarrow> int \<Rightarrow> cell \<Rightarrow> string + cell" where
  "deleteIndexPage F c now s =
     (let (entries, all) = list_page (space_prefix Sp_Hook_Marker) hook_marker_page_size (rc_kv s)
      in bindE (attempt (fl_expire_run F (cl_run c) (refs_of entries) (cl_due_at c))) (\<lambda>_.
         Inr (commitIndexPage c (map fst entries) all now s)))"

text \<open>One stream after the other, until the page's budget of chunks or bytes is used up; the
  answer names the streams that are completely deleted.\<close>

fun expireStreams ::
    "fleet \<Rightarrow> string \<Rightarrow> int \<Rightarrow> string list \<Rightarrow> int \<Rightarrow> int \<Rightarrow> string + string list" where
  "expireStreams F runId at [] chunks bytes = Inr []"
| "expireStreams F runId at (n # ns) chunks bytes =
     (if chunks \<le> 0 \<or> bytes \<le> 0 then Inr []
      else
        bindE (fl_expire_stream F n runId at chunks bytes) (\<lambda>r.
        bindE (expireStreams F runId at ns (chunks - se_chunks r) (bytes - se_bytes r)) (\<lambda>rest.
        Inr (if se_done r then n # rest else rest))))"

definition commitStreamPage :: "cleanup_record \<Rightarrow> nat \<Rightarrow> bool \<Rightarrow> int \<Rightarrow> cell \<Rightarrow> cell" where
  "commitStreamPage c deleted all now s =
     (case get_cleanup (rc_kv s) of
        None \<Rightarrow> s
      | Some cur \<Rightarrow>
          if cl_phase cur \<noteq> Ph_Streams \<or> cl_generation cur \<noteq> cl_generation c then s
          else setAlarm (now + 1)
            (put_cell cleanup_key
              (VCleanup (advance_cleanup (if all then Ph_Queues else Ph_Streams)
                 (cur\<lparr>cl_deleted_streams := deleted\<rparr>))) s))"

definition deleteStreamPage :: "fleet \<Rightarrow> cleanup_record \<Rightarrow> int \<Rightarrow> cell \<Rightarrow> string + cell" where
  "deleteStreamPage F c now s =
     bindE (fl_expire_registry F (cl_run c) (cl_due_at c) streams_per_cleanup_page) (\<lambda>streams.
     bindE (expireStreams F (cl_run c) (cl_due_at c) streams stream_chunks_per_cleanup_page
         stream_bytes_per_cleanup_page) (\<lambda>completed.
     bindE (fl_finalize_registry F (cl_run c) completed) (\<lambda>(deleted, all).
     Inr (commitStreamPage c deleted all now s))))"

definition payloads_of :: "(string \<times> rval) list \<Rightarrow> payload_registration list" where
  "payloads_of entries = List.map_filter (\<lambda>(_, v). as_payload v) entries"

definition commitQueuePage ::
    "cleanup_record \<Rightarrow> string list \<Rightarrow> bool \<Rightarrow> int \<Rightarrow> cell \<Rightarrow> cell" where
  "commitQueuePage c ks all now s =
     (case get_cleanup (rc_kv s) of
        None \<Rightarrow> s
      | Some cur \<Rightarrow>
          if cl_phase cur \<noteq> Ph_Queues \<or> cl_generation cur \<noteq> cl_generation c then s
          else setAlarm (now + 1)
            (put_cell cleanup_key
              (VCleanup (advance_cleanup (if all then Ph_Payload else Ph_Queues)
                 (cur\<lparr>cl_deleted_queue_payloads := cl_deleted_queue_payloads cur + length ks\<rparr>)))
              (del_cell ks s)))"

definition deleteQueuePage :: "fleet \<Rightarrow> cleanup_record \<Rightarrow> int \<Rightarrow> cell \<Rightarrow> string + cell" where
  "deleteQueuePage F c now s =
     (let (entries, all) =
            list_page (space_prefix Sp_Queue_Payload) queue_payloads_per_cleanup_page (rc_kv s)
      in bindE (if entries = [] then Inr ()
                else attempt (fl_delete_objects F (map qp_key (payloads_of entries)))) (\<lambda>_.
         Inr (commitQueuePage c (map fst entries) all now s)))"

text \<open>The last phase deletes every key but the two records; the tombstone is written with the
  first batch, the cleanup record leaves with the last.\<close>

definition payload_keys :: "rval kv \<Rightarrow> string list" where
  "payload_keys s =
     take payload_delete_batch (filter (\<lambda>k. k \<noteq> cleanup_key \<and> k \<noteq> tombstone_key)
       (map fst (kv_list (prefix_query []\<lparr>q_limit := Some (payload_delete_batch + 3)\<rparr>) s)))"

definition deletePayloadBatch :: "int \<Rightarrow> cell \<Rightarrow> cell" where
  "deletePayloadBatch now s =
     (case get_cleanup (rc_kv s) of
        None \<Rightarrow> s
      | Some c \<Rightarrow>
          if cl_phase c \<noteq> Ph_Payload then s
          else
            let ks = payload_keys (rc_kv s);
                s = del_cell ks (put_cell tombstone_key (VTombstone (cleanupTombstone c now)) s)
            in if ks \<noteq> [] then
                 setAlarm (now + 1)
                   (put_cell cleanup_key (VCleanup
                     (c\<lparr>cl_deleted_payload_keys := cl_deleted_payload_keys c + length ks,
                        cl_generation := cl_generation c + 1, cl_last_error := None\<rparr>)) s)
               else
                 let final = c\<lparr>cl_phase := Ph_Tombstoned, cl_generation := cl_generation c + 1,
                       cl_attempts := 0, cl_last_error := None, cl_tombstoned_at := Some now\<rparr>;
                     s = put_cell tombstone_key (VTombstone (cleanupTombstone final now)) s
                 in deleteAlarm (s\<lparr>rc_kv := kv_del cleanup_key (rc_kv s)\<rparr>))"

definition executeCleanup :: "fleet \<Rightarrow> cleanup_record \<Rightarrow> int \<Rightarrow> cell \<Rightarrow> string + cell" where
  "executeCleanup F c now s =
     (case cl_phase c of
        Ph_Retained \<Rightarrow>
          if now < cl_due_at c then Inr (setAlarm (cl_due_at c) s)
          else Inr (setCleanupPhase c Ph_Index (now + 1) s)
      | Ph_Index \<Rightarrow> deleteIndexPage F c now s
      | Ph_Streams \<Rightarrow> deleteStreamPage F c now s
      | Ph_Queues \<Rightarrow> deleteQueuePage F c now s
      | Ph_Payload \<Rightarrow> Inr (deletePayloadBatch now s)
      | Ph_Tombstoned \<Rightarrow> Inr s)"

section \<open>Orphaned payloads\<close>

definition leaseOrphan :: "int \<Rightarrow> cell \<Rightarrow> payload_orphan option \<times> cell" where
  "leaseOrphan now s =
     (case get_orphan (rc_kv s) of
        None \<Rightarrow> (None, s)
      | Some x \<Rightarrow>
          if now < qo_expires_at x then (None, setAlarm (qo_expires_at x) s)
          else if qo_deleting x then (Some x, s)
          else
            let x = x\<lparr>qo_generation := qo_generation x + 1, qo_deleting := True\<rparr>
            in (Some x, put_cell orphan_key (VOrphan x) s))"

definition finishOrphan :: "payload_orphan \<Rightarrow> cell \<Rightarrow> cell" where
  "finishOrphan leased s =
     (case get_orphan (rc_kv s) of
        None \<Rightarrow> s
      | Some x \<Rightarrow>
          if qo_message x \<noteq> qo_message leased \<or> qo_generation x \<noteq> qo_generation leased \<or> \<not> qo_deleting x
          then s
          else deleteAlarm (s\<lparr>rc_kv := kv_del orphan_key (rc_kv s)\<rparr>))"

section \<open>The alarm\<close>

datatype plan =
    Plan_Orphan
  | Plan_Claims
  | Plan_Cleanup cleanup_record
  | Plan_Terminal terminal_cleanup
  | Plan_Idle

text \<open>Which work the cell has, in the order of the code: orphan, claims, due retention,
  terminal disposal, retention still waiting.\<close>

definition planCleanup :: "int \<Rightarrow> rval kv \<Rightarrow> plan" where
  "planCleanup now s =
     (if get_orphan s \<noteq> None then Plan_Orphan
      else if get_inflight s \<noteq> None \<or> get_reservation s \<noteq> None then Plan_Claims
      else
        case (get_cleanup s, get_terminal s) of
          (Some c, Some t) \<Rightarrow>
            if cl_phase c \<noteq> Ph_Tombstoned \<and> cl_due_at c \<le> now then Plan_Cleanup c else Plan_Terminal t
        | (Some c, None) \<Rightarrow> if cl_phase c = Ph_Tombstoned then Plan_Idle else Plan_Cleanup c
        | (None, Some t) \<Rightarrow> Plan_Terminal t
        | (None, None) \<Rightarrow> Plan_Idle)"

text \<open>The orphan branch lets an exception through, with its lease committed; all other failures
  are recorded with a retry time.  Only the cells named after a message id hold an orphan, and
  those get no retention requests, so \<open>enforceRetention\<close> and \<open>cleanupNow\<close> never meet one.  Bindings
  to the other cells and to the object store are taken to be configured.\<close>

definition executeScheduledCleanupPage :: "fleet \<Rightarrow> int \<Rightarrow> cell \<Rightarrow> string option \<times> cell" where
  "executeScheduledCleanupPage F now s =
     (case planCleanup now (rc_kv s) of
        Plan_Orphan \<Rightarrow>
          (case leaseOrphan now s of
             (None, s) \<Rightarrow> (None, s)
           | (Some x, s) \<Rightarrow>
               (case fl_delete_objects F [qo_key x] of
                  Some e \<Rightarrow> (Some e, s)
                | None \<Rightarrow>
                    (case fl_unregister F (qo_run x) (qo_message x) of
                       Some e \<Rightarrow> (Some e, s)
                     | None \<Rightarrow> (None, finishOrphan x s))))
      | Plan_Claims \<Rightarrow> (None, expireClaims now s)
      | Plan_Cleanup c \<Rightarrow>
          (case executeCleanup F c now s of
             Inl e \<Rightarrow> (None, recordCleanupFailure e c now s)
           | Inr s' \<Rightarrow> (None, s'))
      | Plan_Terminal t \<Rightarrow>
          (case executeTerminalCleanup F t now s of
             Inl e \<Rightarrow> (None, recordTerminalCleanupFailure e t now s)
           | Inr s' \<Rightarrow> (None, s'))
      | Plan_Idle \<Rightarrow> (None, deleteAlarm s))"

text \<open>The platform clears an alarm before it runs the handler.\<close>

definition alarm :: "fleet \<Rightarrow> int \<Rightarrow> cell \<Rightarrow> string option \<times> cell" where
  "alarm F now s = executeScheduledCleanupPage F now (deleteAlarm s)"

section \<open>Enforcement with its first pages\<close>

definition indexPagePending :: "rval kv \<Rightarrow> bool" where
  "indexPagePending s \<longleftrightarrow>
     (case get_cleanup s of None \<Rightarrow> False | Some c \<Rightarrow> cl_phase c \<in> {Ph_Retained, Ph_Index})"

fun indexPages :: "nat \<Rightarrow> fleet \<Rightarrow> int \<Rightarrow> cell \<Rightarrow> cell" where
  "indexPages 0 F now s = s"
| "indexPages (Suc n) F now s =
     (if indexPagePending (rc_kv s) then indexPages n F now (snd (executeScheduledCleanupPage F now s))
      else s)"

definition enforceRetention ::
    "world_api \<Rightarrow> fleet \<Rightarrow> js \<Rightarrow> js \<Rightarrow> int \<Rightarrow> cell \<Rightarrow> enforce_answer answer" where
  "enforceRetention W F request scheduledTime now s =
     bindE (enforceDeadline W request scheduledTime now s) (\<lambda>(r, s).
       case r of
         En_Scheduled c \<Rightarrow>
           let s = indexPages 2 F now s in Inr (En_Scheduled (nullish (getCleanupStatus (rc_kv s)) c), s)
       | En_Expired c \<Rightarrow>
           let s = indexPages 2 F now s in Inr (En_Expired (nullish (getCleanupStatus (rc_kv s)) c), s)
       | _ \<Rightarrow> Inr (r, s))"

definition cleanupNow ::
    "world_api \<Rightarrow> fleet \<Rightarrow> js \<Rightarrow> int \<Rightarrow> cell \<Rightarrow> cleanup_record option answer" where
  "cleanupNow W F request now s =
     bindE (validateCleanupRequest request False) (\<lambda>_.
     bindE (if get_cleanup (rc_kv s) \<noteq> None then Inr s
            else bindE (scheduleCleanup W request now s) (\<lambda>(_, s). Inr s)) (\<lambda>s.
     bindE (expireNow W now s) (\<lambda>s.
       let s = snd (executeScheduledCleanupPage F now s)
       in Inr (getCleanupStatus (rc_kv s), s))))"

end
