(* ===== verification/CellSteps.thy ===== *)
theory CellSteps
  imports RetentionCell
begin

text \<open>
  All behaviour of a run cell as one transition system: the requests it serves, and the cleanup
  pages its alarm starts.  A page is two steps, \<open>beginPage\<close> (the reads and the calls to other
  cells) and \<open>commitPass\<close> (the transaction), so that any other request or page can fall between
  them; \<open>executeScheduledCleanupPage\<close> is the two in sequence.
\<close>

section \<open>Requests\<close>

datatype request =
    R_Event "string option" apply_ctx
  | R_Token_Claim string string string
  | R_Expired_Claim js js js
  | R_Force_Dispose string force_disposal
  | R_Forced_Claim forced_claim
  | R_Schedule js
  | R_Enforce js js
  | R_Expire_Now
  | R_Rearm
  | R_Reserve queue_rq
  | R_Confirm queue_rq
  | R_Claim queue_rq
  | R_Hold queue_rq
  | R_Release queue_rq
  | R_Complete queue_rq
  | R_Abandon queue_rq
  | R_Register js js js
  | R_Unregister js

definition after :: "cell \<Rightarrow> 'a answer \<Rightarrow> cell" where
  "after s r = (case r of Inl _ \<Rightarrow> s | Inr (_, s') \<Rightarrow> s')"

lemma after_simps [simp]: "after s (Inl e) = s" "after s (Inr (x, s')) = s'"
  by (simp_all add: after_def)

lemma after_cases: "after s r = s \<or> (\<exists>x. r = Inr (x, after s r))"
  by (cases r) (auto simp: after_def split: prod.splits)

fun serve :: "world_api \<Rightarrow> int \<Rightarrow> request \<Rightarrow> cell \<Rightarrow> cell" where
  "serve W now (R_Event name ctx) s = after s (cellApplyEvent W name ctx now s)"
| "serve W now (R_Token_Claim h t c) s = snd (resolveHookTokenClaim h t c now s)"
| "serve W now (R_Expired_Claim h c t) s = after s (resolveExpiredHookClaim W h c t now s)"
| "serve W now (R_Force_Dispose runId rq) s = after s (forceDisposeHook W runId rq now s)"
| "serve W now (R_Forced_Claim rq) s = after s (cellResolveForcedHookClaim W rq now s)"
| "serve W now (R_Schedule rq) s = after s (scheduleCleanup W rq now s)"
| "serve W now (R_Enforce rq t) s = after s (enforceDeadline W rq t now s)"
| "serve W now R_Expire_Now s = (case expireNow W now s of Inl _ \<Rightarrow> s | Inr s' \<Rightarrow> s')"
| "serve W now R_Rearm s = snd (rearmCleanup now s)"
| "serve W now (R_Reserve rq) s = after s (reserveRunQueueMessage rq now s)"
| "serve W now (R_Confirm rq) s = after s (confirmRunQueueMessagePublication rq s)"
| "serve W now (R_Claim rq) s = after s (claimRunQueueMessage rq now s)"
| "serve W now (R_Hold rq) s = after s (holdRunQueueMessage rq s)"
| "serve W now (R_Release rq) s = after s (releaseRunQueueMessage rq s)"
| "serve W now (R_Complete rq) s = after s (completeRunQueueMessage rq s)"
| "serve W now (R_Abandon rq) s = after s (abandonRunQueueMessageReservation rq s)"
| "serve W now (R_Register m k t) s = after s (registerQueuePayload m k t now s)"
| "serve W now (R_Unregister m) s = after s (unregisterQueuePayload m s)"

section \<open>Pages in two halves\<close>

datatype pass =
    Ps_Phase cleanup_record
  | Ps_Index cleanup_record "string list" bool
  | Ps_Streams cleanup_record nat bool
  | Ps_Queues cleanup_record "string list" bool
  | Ps_Payload cleanup_record
  | Ps_Failed cleanup_record string
  | Ps_Small terminal_cleanup "hook list" "string list"
  | Ps_Hooks terminal_cleanup "hook list" bool
  | Ps_Markers terminal_cleanup "string list" bool
  | Ps_Waits terminal_cleanup
  | Ps_Terminal_Failed terminal_cleanup string
  | Ps_Orphan payload_orphan

definition caught :: "(string \<Rightarrow> pass) \<Rightarrow> string + pass \<Rightarrow> pass" where
  "caught f r = (case r of Inl e \<Rightarrow> f e | Inr p \<Rightarrow> p)"

lemma caught_simps [simp]: "caught f (Inl e) = f e" "caught f (Inr p) = p"
  by (simp_all add: caught_def)

definition beginCleanup :: "fleet \<Rightarrow> cleanup_record \<Rightarrow> rval kv \<Rightarrow> pass" where
  "beginCleanup F c s = caught (Ps_Failed c)
     (case cl_phase c of
        Ph_Index \<Rightarrow>
          let (entries, all) = list_page (space_prefix Sp_Hook_Marker) hook_marker_page_size s
          in bindE (attempt (fl_expire_run F (cl_run c) (refs_of entries) (cl_due_at c)))
               (\<lambda>_. Inr (Ps_Index c (map fst entries) all))
      | Ph_Streams \<Rightarrow>
          bindE (fl_expire_registry F (cl_run c) (cl_due_at c) streams_per_cleanup_page) (\<lambda>streams.
          bindE (expireStreams F (cl_run c) (cl_due_at c) streams stream_chunks_per_cleanup_page
              stream_bytes_per_cleanup_page) (\<lambda>completed.
          bindE (fl_finalize_registry F (cl_run c) completed) (\<lambda>(deleted, all).
          Inr (Ps_Streams c deleted all))))
      | Ph_Queues \<Rightarrow>
          let (entries, all) = list_page (space_prefix Sp_Queue_Payload) queue_payloads_per_cleanup_page s
          in bindE (if entries = [] then Inr ()
                    else attempt (fl_delete_objects F (map qp_key (payloads_of entries))))
               (\<lambda>_. Inr (Ps_Queues c (map fst entries) all))
      | Ph_Payload \<Rightarrow> Inr (Ps_Payload c)
      | _ \<Rightarrow> Inr (Ps_Phase c))"

definition beginHookPage :: "fleet \<Rightarrow> terminal_cleanup \<Rightarrow> rval kv \<Rightarrow> pass" where
  "beginHookPage F t s = caught (Ps_Terminal_Failed t)
     (let (entries, all) = list_page (space_prefix Sp_Hook) terminal_hook_page_size s
      in bindE (attempt (fl_release F (tc_run t) (map hook_ref_of (hooks_of entries))))
           (\<lambda>_. Inr (Ps_Hooks t (hooks_of entries) all)))"

definition beginTerminal :: "fleet \<Rightarrow> terminal_cleanup \<Rightarrow> rval kv \<Rightarrow> pass" where
  "beginTerminal F t s =
     (case tc_phase t of
        Tc_Hooks \<Rightarrow>
          let (hooks, allHooks) = list_page (space_prefix Sp_Hook) terminal_hook_page_size s;
              (markers, allMarkers) = list_page (space_prefix Sp_Hook_Marker) hook_marker_page_size s;
              refs = distinct_refs (map hook_ref_of (hooks_of hooks) @ refs_of markers)
          in if \<not> allHooks \<or> \<not> allMarkers then beginHookPage F t s
             else caught (Ps_Terminal_Failed t)
               (bindE (if refs = [] then Inr () else attempt (fl_release F (tc_run t) refs))
                 (\<lambda>_. Inr (Ps_Small t (hooks_of hooks) (map fst markers))))
      | Tc_Markers \<Rightarrow> caught (Ps_Terminal_Failed t)
          (let (entries, all) = list_page (space_prefix Sp_Hook_Marker) hook_marker_page_size s
           in bindE (attempt (fl_release F (tc_run t) (refs_of entries)))
                (\<lambda>_. Inr (Ps_Markers t (map fst entries) all)))
      | Tc_Waits \<Rightarrow> Ps_Waits t)"

definition beginPage :: "fleet \<Rightarrow> int \<Rightarrow> cell \<Rightarrow> cell \<times> pass list" where
  "beginPage F now s =
     (case planCleanup now (rc_kv s) of
        Plan_Orphan \<Rightarrow>
          (case leaseOrphan now s of
             (None, s) \<Rightarrow> (s, [])
           | (Some x, s) \<Rightarrow>
               (s, if fl_delete_objects F [qo_key x] = None
                      \<and> fl_unregister F (qo_run x) (qo_message x) = None
                   then [Ps_Orphan x] else []))
      | Plan_Claims \<Rightarrow> (expireClaims now s, [])
      | Plan_Cleanup c \<Rightarrow>
          if cl_phase c = Ph_Retained \<and> now < cl_due_at c then (setAlarm (cl_due_at c) s, [])
          else (s, [beginCleanup F c (rc_kv s)])
      | Plan_Terminal t \<Rightarrow> (s, [beginTerminal F t (rc_kv s)])
      | Plan_Idle \<Rightarrow> (deleteAlarm s, []))"

text \<open>A commit may hand over to a further pass: a terminal disposal that turns out too large for
  one transaction continues page by page.\<close>

fun commitPass :: "fleet \<Rightarrow> int \<Rightarrow> pass \<Rightarrow> cell \<Rightarrow> cell \<times> pass list" where
  "commitPass F now (Ps_Phase c) s = (setCleanupPhase c Ph_Index (now + 1) s, [])"
| "commitPass F now (Ps_Index c ks all) s = (commitIndexPage c ks all now s, [])"
| "commitPass F now (Ps_Streams c n all) s = (commitStreamPage c n all now s, [])"
| "commitPass F now (Ps_Queues c ks all) s = (commitQueuePage c ks all now s, [])"
| "commitPass F now (Ps_Payload c) s = (deletePayloadBatch now s, [])"
| "commitPass F now (Ps_Failed c e) s = (recordCleanupFailure e c now s, [])"
| "commitPass F now (Ps_Small t hooks markers) s =
     (let (finished, s) = commitSmallTerminal t hooks markers now s
      in (s, if finished then [] else [beginHookPage F t (rc_kv s)]))"
| "commitPass F now (Ps_Hooks t hooks all) s = (commitTerminalHooks t hooks all now s, [])"
| "commitPass F now (Ps_Markers t ks all) s = (commitTerminalMarkers t ks all now s, [])"
| "commitPass F now (Ps_Waits t) s = (deleteTerminalWaitPage t now s, [])"
| "commitPass F now (Ps_Terminal_Failed t e) s = (recordTerminalCleanupFailure e t now s, [])"
| "commitPass F now (Ps_Orphan x) s = (finishOrphan x s, [])"

text \<open>Passes run to completion one after the other; two rounds are enough, because a pass that
  hands over hands over to one that does not.\<close>

fun commitAll :: "nat \<Rightarrow> fleet \<Rightarrow> int \<Rightarrow> cell \<times> pass list \<Rightarrow> cell" where
  "commitAll n F now (s, []) = s"
| "commitAll 0 F now (s, p # ps) = s"
| "commitAll (Suc n) F now (s, p # ps) = commitAll n F now (commitPass F now p s)"

section \<open>The transition system\<close>

record sys =
  sy_clock :: int
  sy_cell :: cell
  sy_passes :: "pass list"

text \<open>\<open>serve_request\<close>: one transaction at some later time; \<open>fire_alarm\<close>: the platform clears a due
  alarm and runs the handler; \<open>run_page\<close>: a request that runs a page itself; \<open>commit_pass\<close>: the
  second half of any page under way.\<close>

inductive cell_step :: "world_api \<Rightarrow> sys \<Rightarrow> sys \<Rightarrow> bool" for W where
  serve_request: "t \<le> now \<Longrightarrow>
     cell_step W \<lparr>sy_clock = t, sy_cell = s, sy_passes = ps\<rparr>
       \<lparr>sy_clock = now, sy_cell = serve W now rq s, sy_passes = ps\<rparr>"
| fire_alarm: "t \<le> now \<Longrightarrow> rc_alarm s = Some a \<Longrightarrow> a \<le> now \<Longrightarrow>
     beginPage F now (deleteAlarm s) = (s', new) \<Longrightarrow>
     cell_step W \<lparr>sy_clock = t, sy_cell = s, sy_passes = ps\<rparr>
       \<lparr>sy_clock = now, sy_cell = s', sy_passes = new @ ps\<rparr>"
| run_page: "t \<le> now \<Longrightarrow> beginPage F now s = (s', new) \<Longrightarrow>
     cell_step W \<lparr>sy_clock = t, sy_cell = s, sy_passes = ps\<rparr>
       \<lparr>sy_clock = now, sy_cell = s', sy_passes = new @ ps\<rparr>"
| commit_pass: "t \<le> now \<Longrightarrow> commitPass F now p s = (s', new) \<Longrightarrow>
     cell_step W \<lparr>sy_clock = t, sy_cell = s, sy_passes = ps @ p # qs\<rparr>
       \<lparr>sy_clock = now, sy_cell = s', sy_passes = new @ ps @ qs\<rparr>"

abbreviation cell_steps :: "world_api \<Rightarrow> sys \<Rightarrow> sys \<Rightarrow> bool" where
  "cell_steps W \<equiv> (cell_step W)\<^sup>*\<^sup>*"

inductive_cases cell_stepE: "cell_step W y y'"

definition fresh_sys :: "int \<Rightarrow> sys" where
  "fresh_sys t = \<lparr>sy_clock = t, sy_cell = \<lparr>rc_kv = [], rc_alarm = None\<rparr>, sy_passes = []\<rparr>"

section \<open>The two halves make a page\<close>

lemma commitAll_Nil [simp]: "commitAll n F now (s, []) = s"
  by (cases n) simp_all

lemma executeCleanup_halves:
  "\<not> (cl_phase c = Ph_Retained \<and> now < cl_due_at c) \<Longrightarrow> cl_phase c \<noteq> Ph_Tombstoned \<Longrightarrow>
   (case executeCleanup F c now s of Inl e \<Rightarrow> recordCleanupFailure e c now s | Inr s' \<Rightarrow> s') =
   commitAll (Suc n) F now (s, [beginCleanup F c (rc_kv s)])"
  by (cases "cl_phase c")
    (auto simp: executeCleanup_def beginCleanup_def deleteIndexPage_def deleteStreamPage_def
      deleteQueuePage_def attempt_def bindE_def Let_def split: sum.splits option.splits prod.splits)

lemma deleteTerminalHookPage_halves:
  "(case deleteTerminalHookPage F t now s of Inl e \<Rightarrow> recordTerminalCleanupFailure e t now s | Inr s' \<Rightarrow> s') =
   commitAll (Suc n) F now (s, [beginHookPage F t (rc_kv s)])"
  by (auto simp: deleteTerminalHookPage_def beginHookPage_def attempt_def bindE_def Let_def
      split: sum.splits option.splits prod.splits)

lemma commitSmallTerminal_refused: "commitSmallTerminal t hs ms now s = (False, s') \<Longrightarrow> s' = s"
  by (auto simp: commitSmallTerminal_def Let_def split: option.splits prod.splits if_splits)

lemma executeTerminal_halves:
  "(case executeTerminalCleanup F t now s of Inl e \<Rightarrow> recordTerminalCleanupFailure e t now s | Inr s' \<Rightarrow> s') =
   commitAll (Suc (Suc n)) F now (s, [beginTerminal F t (rc_kv s)])"
proof (cases "tc_phase t")
  case Tc_Hooks
  obtain hooks allH where h: "list_page (space_prefix Sp_Hook) terminal_hook_page_size (rc_kv s) = (hooks, allH)"
    by (cases "list_page (space_prefix Sp_Hook) terminal_hook_page_size (rc_kv s)")
  obtain markers allM where m:
    "list_page (space_prefix Sp_Hook_Marker) hook_marker_page_size (rc_kv s) = (markers, allM)"
    by (cases "list_page (space_prefix Sp_Hook_Marker) hook_marker_page_size (rc_kv s)")
  show ?thesis
  proof (cases "allH \<and> allM")
    case False
    then have "executeTerminalCleanup F t now s = deleteTerminalHookPage F t now s"
      and "beginTerminal F t (rc_kv s) = beginHookPage F t (rc_kv s)"
      using Tc_Hooks h m
      by (auto simp: executeTerminalCleanup_def completeSmallTerminalCleanup_def beginTerminal_def Let_def)
    then show ?thesis using deleteTerminalHookPage_halves by simp
  next
    case all: True
    let ?refs = "distinct_refs (map hook_ref_of (hooks_of hooks) @ refs_of markers)"
    let ?call = "if ?refs = [] then Inr () else attempt (fl_release F (tc_run t) ?refs)"
    show ?thesis
    proof (cases ?call)
      case (Inl e)
      then show ?thesis using Tc_Hooks h m all
        by (simp add: executeTerminalCleanup_def completeSmallTerminalCleanup_def beginTerminal_def Let_def)
    next
      case (Inr u)
      obtain fin s' where c: "commitSmallTerminal t (hooks_of hooks) (map fst markers) now s = (fin, s')"
        by (cases "commitSmallTerminal t (hooks_of hooks) (map fst markers) now s")
      then have "\<not> fin \<Longrightarrow> s' = s" using commitSmallTerminal_refused by simp
      then show ?thesis using Tc_Hooks h m all Inr c deleteTerminalHookPage_halves [where F = F and t = t and now = now and s = s and n = n]
        by (cases fin)
          (simp_all add: executeTerminalCleanup_def completeSmallTerminalCleanup_def beginTerminal_def Let_def)
    qed
  qed
next
  case Tc_Markers
  then show ?thesis
    by (auto simp: executeTerminalCleanup_def deleteTerminalHookMarkerPage_def beginTerminal_def
        attempt_def bindE_def Let_def split: sum.splits option.splits prod.splits)
next
  case Tc_Waits
  then show ?thesis by (simp add: executeTerminalCleanup_def beginTerminal_def)
qed

lemma planCleanup_phase: "planCleanup now s = Plan_Cleanup c \<Longrightarrow> get_cleanup s = Some c \<and> cl_phase c \<noteq> Ph_Tombstoned"
  by (auto simp: planCleanup_def split: if_splits option.splits)

lemma planCleanup_terminal: "planCleanup now s = Plan_Terminal t \<Longrightarrow> get_terminal s = Some t"
  by (auto simp: planCleanup_def split: if_splits option.splits)

text \<open>Committing right away what \<open>beginPage\<close> started is the page the code runs.\<close>

lemma page_is_begin_then_commit:
  "snd (executeScheduledCleanupPage F now s) = commitAll 2 F now (beginPage F now s)"
proof (cases "planCleanup now (rc_kv s)")
  case Plan_Orphan
  then show ?thesis
    by (auto simp: executeScheduledCleanupPage_def beginPage_def numeral_2_eq_2 split: prod.splits option.splits)
next
  case (Plan_Cleanup c)
  note c = planCleanup_phase [OF this]
  show ?thesis
  proof (cases "cl_phase c = Ph_Retained \<and> now < cl_due_at c")
    case True
    then show ?thesis using Plan_Cleanup
      by (simp add: executeScheduledCleanupPage_def beginPage_def executeCleanup_def)
  next
    case False
    then show ?thesis using executeCleanup_halves [OF False, where F = F and s = s and n = 1] c Plan_Cleanup
      by (auto simp: executeScheduledCleanupPage_def beginPage_def numeral_2_eq_2 split: sum.splits)
  qed
next
  case (Plan_Terminal t)
  then show ?thesis using executeTerminal_halves [where F = F and t = t and now = now and s = s and n = 0]
    by (auto simp: executeScheduledCleanupPage_def beginPage_def numeral_2_eq_2 split: sum.splits)
qed (simp_all add: executeScheduledCleanupPage_def beginPage_def)

end
