(* ===== verification/JournalSpec.thy ===== *)
theory JournalSpec
  imports HookHandlers
begin

text \<open>
  The abstract contract of the run cell: an event-sourced journal.  \<open>evolve_run\<close>,
  \<open>evolve_step\<close>, \<open>evolve_hook\<close> and \<open>evolve_wait\<close> say how one event changes an entity, the
  entities are the fold of the journal, and \<open>legal\<close> says which event may follow which
  journal.  Nothing here looks at the cell's storage; \<open>JournalRefine\<close> shows that
  \<open>applyEvent\<close> implements this contract.
\<close>

section \<open>One event, one entity\<close>

definition run_from :: "event \<Rightarrow> run_init \<Rightarrow> wf_run" where
  "run_from e d =
     \<lparr>run_id = ev_run e, run_deployment = ri_deployment d, run_name = ri_workflow d,
      run_spec = ev_spec e, run_exec_ctx = compact_js (ri_exec_ctx d),
      run_attrs = nullish (ri_attrs d) [],
      run_enc_key = compact_js (ri_enc_key d), run_input = compact_js (ri_input d),
      run_state = Pending, run_output = None, run_error = None, run_started_at = None,
      run_completed_at = None, run_created_at = ev_created_at e,
      run_updated_at = ev_created_at e, run_expired_at = None\<rparr>"

definition finished_run :: "int \<Rightarrow> run_status \<Rightarrow> js option \<Rightarrow> structured_error option \<Rightarrow> wf_run \<Rightarrow> wf_run"
where
  "finished_run now st out err r = compact_run
     (r\<lparr>run_state := st, run_output := out, run_error := err, run_completed_at := Some now,
        run_updated_at := now\<rparr>)"

definition change_run :: "world_api \<Rightarrow> event \<Rightarrow> wf_run \<Rightarrow> wf_run" where
  "change_run W e r =
     (let now = ev_created_at e in
      case ev_body e of
        RunStarted _ \<Rightarrow> compact_run
          (r\<lparr>run_state := Running, run_output := None, run_error := None,
             run_completed_at := None, run_started_at := Some (nullish (run_started_at r) now),
             run_updated_at := now\<rparr>)
      | RunCompleted out \<Rightarrow> finished_run now Completed out None r
      | RunFailed err code \<Rightarrow> finished_run now Failed None
          (Some (toStructuredError err (or_else code (readStringProp err ''code'')))) r
      | RunCancelled \<Rightarrow> finished_run now Cancelled None None r
      | AttrSet _ d \<Rightarrow> compact_run
          (r\<lparr>run_attrs := apply_attr_changes W (run_attrs r) (as_changes d),
             run_updated_at := now\<rparr>)
      | _ \<Rightarrow> r)"

fun evolve_run :: "world_api \<Rightarrow> event \<Rightarrow> wf_run option \<Rightarrow> wf_run option" where
  "evolve_run W e None = (case ev_body e of RunCreated d \<Rightarrow> Some (run_from e d) | _ \<Rightarrow> None)"
| "evolve_run W e (Some r) =
     Some (if terminal_run W (run_state r) then r else change_run W e r)"

definition step_from :: "event \<Rightarrow> string \<Rightarrow> step_init \<Rightarrow> step" where
  "step_from e c d =
     \<lparr>step_run = ev_run e, step_id = c, step_name = si_name d, step_state = Step_Pending,
      step_input = compact_js (si_input d), step_output = None, step_error = None,
      step_attempt = 0, step_started_at = None, step_completed_at = None,
      step_retry_after = None, step_created_at = ev_created_at e,
      step_updated_at = ev_created_at e, step_spec = ev_spec e\<rparr>"

fun evolve_step :: "string \<Rightarrow> event \<Rightarrow> step option \<Rightarrow> step option" where
  "evolve_step c e None =
     (case ev_body e of StepCreated c' d \<Rightarrow> if c' = c then Some (step_from e c d) else None
      | _ \<Rightarrow> None)"
| "evolve_step c e (Some x) = Some
     (let now = ev_created_at e in
      if step_event_id (ev_body e) \<noteq> Some c then x
      else case ev_body e of
        StepStarted _ _ \<Rightarrow> compact_step
          (x\<lparr>step_state := Step_Running,
             step_started_at := Some (nullish (step_started_at x) now),
             step_attempt := Suc (step_attempt x), step_retry_after := None,
             step_updated_at := now\<rparr>)
      | StepCompleted _ result \<Rightarrow> compact_step
          (x\<lparr>step_state := Step_Completed, step_output := result,
             step_completed_at := Some now, step_updated_at := now\<rparr>)
      | StepFailed _ err \<Rightarrow>
          x\<lparr>step_state := Step_Failed, step_error := err, step_completed_at := Some now,
            step_updated_at := now\<rparr>
      | StepRetrying _ err t \<Rightarrow>
          x\<lparr>step_state := Step_Pending, step_error := err, step_retry_after := t,
            step_updated_at := now\<rparr>
      | _ \<Rightarrow> x)"

definition hook_from :: "event \<Rightarrow> string \<Rightarrow> hook_init \<Rightarrow> hook" where
  "hook_from e c d =
     \<lparr>hook_run = ev_run e, hook_id = c, hook_token = hi_token d,
      hook_metadata = compact_js (hi_metadata d), hook_created_at = ev_created_at e,
      hook_spec = ev_spec e, hook_is_webhook = nullish (hi_is_webhook d) False,
      hook_is_system = hi_is_system d, hook_retention = hi_retention d,
      hook_claimed_from = hi_force_claimed_from d\<rparr>"

definition evolve_hook :: "string \<Rightarrow> event \<Rightarrow> hook option \<Rightarrow> hook option" where
  "evolve_hook c e h =
     (case ev_body e of
        HookCreated c' d \<Rightarrow> if c' = c then Some (hook_from e c d) else h
      | HookDisposed c' _ \<Rightarrow> if c' = c then None else h
      | _ \<Rightarrow> h)"

definition wait_from :: "event \<Rightarrow> string \<Rightarrow> int option \<Rightarrow> wait" where
  "wait_from e c t =
     \<lparr>wait_id = ev_run e @ ''-'' @ c, wait_run = ev_run e, wait_state = Wait_Waiting,
      wait_resume_at = t, wait_created_at = ev_created_at e, wait_updated_at = ev_created_at e,
      wait_completed_at = None, wait_spec = ev_spec e\<rparr>"

definition evolve_wait :: "string \<Rightarrow> event \<Rightarrow> wait option \<Rightarrow> wait option" where
  "evolve_wait c e w =
     (case ev_body e of
        WaitCreated c' t \<Rightarrow> if c' = c then Some (wait_from e c t) else w
      | WaitCompleted c' t \<Rightarrow> if c' = c then map_option (\<lambda>w. w\<lparr>wait_state := Wait_Completed,
            wait_resume_at := or_else t (wait_resume_at w),
            wait_completed_at := Some (ev_created_at e), wait_updated_at := ev_created_at e\<rparr>) w
          else w
      | _ \<Rightarrow> w)"

section \<open>The fold of a journal\<close>

definition replay_run :: "world_api \<Rightarrow> event list \<Rightarrow> wf_run option" where
  "replay_run W l = fold (evolve_run W) l None"

definition replay_step :: "string \<Rightarrow> event list \<Rightarrow> step option" where
  "replay_step c l = fold (evolve_step c) l None"

definition replay_hook :: "string \<Rightarrow> event list \<Rightarrow> hook option" where
  "replay_hook c l = fold (evolve_hook c) l None"

definition replay_wait :: "string \<Rightarrow> event list \<Rightarrow> wait option" where
  "replay_wait c l = fold (evolve_wait c) l None"

text \<open>The event that created a hook id, however the hook ended.\<close>

definition creates_hook :: "string \<Rightarrow> event \<Rightarrow> bool" where
  "creates_hook c e \<longleftrightarrow> (case ev_body e of HookCreated c' _ \<Rightarrow> c' = c | _ \<Rightarrow> False)"

definition hook_creation :: "string \<Rightarrow> event list \<Rightarrow> string option" where
  "hook_creation c l = map_option ev_id (List.find (creates_hook c) l)"

text \<open>A delivery under a resume id, and a workflow attribute write under a correlation id,
  may each happen once.\<close>

definition delivers :: "string \<Rightarrow> event \<Rightarrow> bool" where
  "delivers r e \<longleftrightarrow> is_hook_received (ev_body e) \<and> ev_resume_id e = Some r"

definition writes_attr :: "string \<Rightarrow> event \<Rightarrow> bool" where
  "writes_attr c e \<longleftrightarrow>
     (case ev_body e of AttrSet c' d \<Rightarrow> c' = Some c \<and> as_writer d = Workflow_Writer | _ \<Rightarrow> False)"

definition run_live :: "world_api \<Rightarrow> event list \<Rightarrow> bool" where
  "run_live W l \<longleftrightarrow>
     (case replay_run W l of None \<Rightarrow> False | Some r \<Rightarrow> \<not> terminal_run W (run_state r))"

lemmas replay_defs = replay_run_def replay_step_def replay_hook_def replay_wait_def

lemma replay_Nil [simp]:
  "replay_run W [] = None" "replay_step c [] = None" "replay_hook c [] = None"
  "replay_wait c [] = None" "hook_creation c [] = None"
  by (simp_all add: replay_defs hook_creation_def)

lemma replay_snoc [simp]:
  "replay_run W (l @ [e]) = evolve_run W e (replay_run W l)"
  "replay_step c (l @ [e]) = evolve_step c e (replay_step c l)"
  "replay_hook c (l @ [e]) = evolve_hook c e (replay_hook c l)"
  "replay_wait c (l @ [e]) = evolve_wait c e (replay_wait c l)"
  by (simp_all add: replay_defs)

lemma find_snoc: "List.find P (l @ [x]) =
   (case List.find P l of Some y \<Rightarrow> Some y | None \<Rightarrow> if P x then Some x else None)"
  by (induction l) auto

lemma hook_creation_snoc [simp]:
  "hook_creation c (l @ [e]) = (case hook_creation c l of Some i \<Rightarrow> Some i
     | None \<Rightarrow> if creates_hook c e then Some (ev_id e) else None)"
  by (simp add: hook_creation_def find_snoc split: option.splits)

section \<open>Which event may follow\<close>

fun step_open :: "world_api \<Rightarrow> step option \<Rightarrow> bool" where
  "step_open W None = False"
| "step_open W (Some x) = (\<not> terminal_step W (step_state x))"

text \<open>A step of a finished run only moves on when it is in flight.\<close>

definition step_usable :: "world_api \<Rightarrow> event list \<Rightarrow> string \<Rightarrow> bool" where
  "step_usable W l c \<longleftrightarrow> step_open W (replay_step c l) \<and> replay_run W l \<noteq> None \<and>
     (run_live W l \<or> map_option step_state (replay_step c l) = Some Step_Running)"

definition legal :: "world_api \<Rightarrow> event list \<Rightarrow> event \<Rightarrow> bool" where
  "legal W l e \<longleftrightarrow>
     (case ev_body e of
        RunCreated _ \<Rightarrow> replay_run W l = None
      | RunStarted _ \<Rightarrow> run_live W l \<and> map_option run_state (replay_run W l) \<noteq> Some Running
      | RunCompleted _ \<Rightarrow> run_live W l
      | RunFailed _ _ \<Rightarrow> run_live W l
      | RunCancelled \<Rightarrow> run_live W l \<or> map_option run_state (replay_run W l) = Some Cancelled
      | AttrSet c d \<Rightarrow> run_live W l \<and>
          (\<forall>k. truthy (Some k) \<and> writes_attr k e \<longrightarrow> \<not> list_ex (writes_attr k) l)
      | StepCreated c _ \<Rightarrow> run_live W l \<and> replay_step c l = None
      | StepStarted c _ \<Rightarrow> step_usable W l c \<and>
          (case Option.bind (replay_step c l) step_retry_after of None \<Rightarrow> True
           | Some t \<Rightarrow> t \<le> ev_created_at e)
      | StepCompleted c _ \<Rightarrow> step_open W (replay_step c l)
      | StepFailed c _ \<Rightarrow> step_usable W l c
      | StepRetrying c _ _ \<Rightarrow> step_open W (replay_step c l)
      | HookCreated c _ \<Rightarrow> run_live W l \<and> \<not> list_ex (creates_hook c) l
      | HookReceived c _ \<Rightarrow> replay_run W l \<noteq> None \<and>
          (c = [] \<or> run_live W l \<and> replay_hook c l \<noteq> None) \<and>
          (\<forall>k. truthy (Some k) \<and> delivers k e \<longrightarrow> \<not> list_ex (delivers k) l)
      | HookDisposed c _ \<Rightarrow> replay_run W l \<noteq> None \<and> replay_hook c l \<noteq> None
      | HookConflict _ _ \<Rightarrow> replay_run W l \<noteq> None
      | WaitCreated c _ \<Rightarrow> run_live W l \<and> replay_wait c l = None
      | WaitCompleted c _ \<Rightarrow> replay_run W l \<noteq> None \<and>
          map_option wait_state (replay_wait c l) = Some Wait_Waiting)"

inductive legal_log :: "world_api \<Rightarrow> event list \<Rightarrow> bool" for W where
  legal_Nil: "legal_log W []"
| legal_snoc: "legal_log W l \<Longrightarrow> legal W l e \<Longrightarrow> legal_log W (l @ [e])"

end
