(* ===== verification/JournalRefine.thy ===== *)
theory JournalRefine
  imports JournalSpec
begin

text \<open>
  \<open>applyEvent\<close> implements the journal contract of \<open>JournalSpec\<close>: \<open>log_inv\<close> says that the
  event keys of the store are exactly the slots 1..n, \<open>reflects\<close> that every entity key
  holds the fold of that log, \<open>cell_ok\<close> both together with the log's legality.  A handler
  either leaves the state alone or appends exactly one legal event (\<open>appended\<close>).
\<close>

section \<open>Reading a state after a write\<close>

lemma est_simps [simp, cell_simps]:
  "es_kv (put_kv k v s) = kv_put k v (es_kv s)" "es_seq (put_kv k v s) = es_seq s"
  "es_kv (del_kv k s) = kv_del k (es_kv s)" "es_seq (del_kv k s) = es_seq s"
  "es_kv (putEvent e s) = kv_put (event_key (ev_id e)) (VEvent e) (es_kv s)"
  "es_seq (putEvent e s) = es_seq s"
  by (simp_all add: put_kv_def del_kv_def putEvent_def)

lemma eventRecord_simps [simp]:
  "ev_id (eventRecord W ctx spec b n) = slot_to_event_id W n"
  "ev_body (eventRecord W ctx spec b n) = strip_body b"
  "ev_run (eventRecord W ctx spec b n) = c_run ctx"
  "ev_created_at (eventRecord W ctx spec b n) = c_now ctx"
  "ev_spec (eventRecord W ctx spec b n) = Some spec"
  "ev_resume_id (eventRecord W ctx spec b n) = (if is_hook_received b then c_resume_id ctx else None)"
  by (simp_all add: eventRecord_def)

lemma buildEvent_Inr:
  "schemas_ok W \<Longrightarrow> buildEvent W ctx spec b s = Inr (e, s') \<longleftrightarrow>
     e = eventRecord W ctx spec b (Suc (es_seq s)) \<and> parse_event W e = Some e
     \<and> s' = s\<lparr>es_seq := Suc (es_seq s)\<rparr>"
  by (auto simp: buildEvent_def bindE_eq_Inr dest: schemas_okD)

section \<open>The dense log\<close>

definition log_at :: "world_api \<Rightarrow> nat \<Rightarrow> rval kv \<Rightarrow> bool" where
  "log_at W n s \<longleftrightarrow>
     (\<forall>i. kv_get (event_key i) s \<noteq> None \<longleftrightarrow> (\<exists>k. 1 \<le> k \<and> k \<le> n \<and> i = slot_to_event_id W k)) \<and>
     (\<forall>i v. kv_get (event_key i) s = Some v \<longrightarrow> (\<exists>e. v = VEvent e \<and> ev_id e = i))"

abbreviation log_inv :: "world_api \<Rightarrow> est \<Rightarrow> bool" where
  "log_inv W s \<equiv> log_at W (es_seq s) (es_kv s)"

definition event_log :: "world_api \<Rightarrow> est \<Rightarrow> event list" where
  "event_log W s =
     List.map_filter (\<lambda>k. get_event (slot_to_event_id W k) (es_kv s)) [1..<Suc (es_seq s)]"

text \<open>\<open>s'\<close> has one more event than \<open>s\<close>; the other event keys are untouched.\<close>

definition extends :: "world_api \<Rightarrow> event \<Rightarrow> est \<Rightarrow> est \<Rightarrow> bool" where
  "extends W e s s' \<longleftrightarrow>
     es_seq s' = Suc (es_seq s) \<and> ev_id e = slot_to_event_id W (Suc (es_seq s)) \<and>
     (\<forall>i. kv_get (event_key i) (es_kv s') =
        (if i = ev_id e then Some (VEvent e) else kv_get (event_key i) (es_kv s)))"

lemma extends_log_inv: "extends W e s s' \<Longrightarrow> log_inv W s \<Longrightarrow> log_inv W s'"
proof -
  assume e: "extends W e s s'" and l: "log_inv W s"
  have "(\<exists>k. 1 \<le> k \<and> k \<le> Suc n \<and> i = slot_to_event_id W k) \<longleftrightarrow>
      i = slot_to_event_id W (Suc n) \<or> (\<exists>k. 1 \<le> k \<and> k \<le> n \<and> i = slot_to_event_id W k)" for i n
    by (auto simp: le_Suc_eq)
  then show ?thesis using e l by (auto simp: log_at_def extends_def)
qed

lemma map_filter_cong_set:
  "(\<And>x. x \<in> set xs \<Longrightarrow> f x = g x) \<Longrightarrow> List.map_filter f xs = List.map_filter g xs"
  by (induction xs) (auto simp: List.map_filter_simps split: option.splits)

lemma map_filter_snoc: "List.map_filter f (xs @ [x]) =
   List.map_filter f xs @ (case f x of None \<Rightarrow> [] | Some y \<Rightarrow> [y])"
  by (induction xs) (simp_all add: List.map_filter_simps split: option.splits)

lemma extends_event_log:
  assumes "slots_ok W" and "extends W e s s'"
  shows "event_log W s' = event_log W s @ [e]"
proof -
  have "get_event (slot_to_event_id W k) (es_kv s') = get_event (slot_to_event_id W k) (es_kv s)"
    if "k \<in> set [1..<Suc (es_seq s)]" for k
    using assms that by (auto simp: extends_def get_event_def slots_okD)
  then have "List.map_filter (\<lambda>k. get_event (slot_to_event_id W k) (es_kv s')) [1..<Suc (es_seq s)]
      = event_log W s"
    unfolding event_log_def by (intro map_filter_cong_set)
  moreover have "get_event (slot_to_event_id W (Suc (es_seq s))) (es_kv s') = Some e"
    and "[1..<Suc (es_seq s')] = [1..<Suc (es_seq s)] @ [Suc (es_seq s)]"
    using assms(2) by (simp_all add: extends_def get_event_def)
  ultimately show ?thesis
    unfolding event_log_def [of W s'] by (simp only: map_filter_snoc) simp
qed

section \<open>The entities reflect the log\<close>

definition delivers_to :: "string \<Rightarrow> string \<Rightarrow> event \<Rightarrow> bool" where
  "delivers_to k c e \<longleftrightarrow> delivers k e \<and> (\<exists>d. ev_body e = HookReceived c d)"

text \<open>Retention stamps \<open>expiredAt\<close> on a stored run without an event.\<close>

definition expiring :: "int option \<Rightarrow> wf_run option \<Rightarrow> wf_run option" where
  "expiring x r = map_option (\<lambda>r. r\<lparr>run_expired_at := x\<rparr>) r"

definition run_expiry :: "rval kv \<Rightarrow> int option" where
  "run_expiry s = Option.bind (get_run s) run_expired_at"

lemma expiring_simps [simp]:
  "expiring x None = None" "expiring x (Some r) = Some (r\<lparr>run_expired_at := x\<rparr>)"
  by (simp_all add: expiring_def)

lemma run_expiry_put [simp]:
  "run_expiry (kv_put run_key (VRun r) s) = run_expired_at r"
  "k \<noteq> run_key \<Longrightarrow> run_expiry (kv_put k v s) = run_expiry s"
  "k \<noteq> run_key \<Longrightarrow> run_expiry (kv_del k s) = run_expiry s"
  "run_key \<notin> set ks \<Longrightarrow> run_expiry (kv_del_all ks s) = run_expiry s"
  by (auto simp: run_expiry_def get_run_def)

definition reflects :: "world_api \<Rightarrow> event list \<Rightarrow> rval kv \<Rightarrow> bool" where
  "reflects W l s \<longleftrightarrow>
     kv_get run_key s = map_option VRun (expiring (run_expiry s) (replay_run W l)) \<and>
     (\<forall>c. kv_get (step_key c) s = map_option VStep (replay_step c l)) \<and>
     (\<forall>c v. kv_get (hook_key c) s = Some v \<longrightarrow> map_option VHook (replay_hook c l) = Some v) \<and>
     (\<forall>c v. kv_get (wait_key c) s = Some v \<longrightarrow> map_option VWait (replay_wait c l) = Some v) \<and>
     (run_live W l \<longrightarrow>
        (\<forall>c. kv_get (hook_key c) s = map_option VHook (replay_hook c l)) \<and>
        (\<forall>c. kv_get (wait_key c) s = map_option VWait (replay_wait c l))) \<and>
     (\<forall>c. kv_get (hook_event_key c) s = map_option VStr (hook_creation c l)) \<and>
     (\<forall>k. kv_get (attr_event_key k) s = None \<longrightarrow> \<not> list_ex (writes_attr k) l \<or> k = []) \<and>
     (\<forall>k. truthy (Some k) \<longrightarrow>
        (kv_get (hook_resume_key k) s = None \<longleftrightarrow> \<not> list_ex (delivers k) l)) \<and>
     (\<forall>k v. kv_get (hook_resume_key k) s = Some v \<longrightarrow>
        (\<exists>cl. v = VResume cl \<and> (\<exists>e \<in> set l. ev_id e = rc_event cl \<and> delivers_to k (rc_hook cl) e)))"

definition cell_ok :: "world_api \<Rightarrow> est \<Rightarrow> bool" where
  "cell_ok W s \<longleftrightarrow>
     log_inv W s \<and> legal_log W (event_log W s) \<and> reflects W (event_log W s) (es_kv s)"

definition appended :: "world_api \<Rightarrow> event \<Rightarrow> est \<Rightarrow> est \<Rightarrow> bool" where
  "appended W e s s' \<longleftrightarrow>
     extends W e s s' \<and> legal W (event_log W s) e \<and> reflects W (event_log W s @ [e]) (es_kv s')
     \<and> run_expiry (es_kv s') = run_expiry (es_kv s)"

lemma appended_ok:
  "slots_ok W \<Longrightarrow> cell_ok W s \<Longrightarrow> appended W e s s' \<Longrightarrow>
     cell_ok W s' \<and> event_log W s' = event_log W s @ [e] \<and> run_expiry (es_kv s') = run_expiry (es_kv s)"
  using extends_log_inv extends_event_log by (auto simp: cell_ok_def appended_def intro: legal_snoc)

section \<open>Steps\<close>

lemmas frame = reflects_def evolve_hook_def evolve_wait_def creates_hook_def
  writes_attr_def delivers_def run_live_def

definition entity_space :: "space \<Rightarrow> bool" where
  "entity_space p \<longleftrightarrow>
     p \<in> {Sp_Run, Sp_Step, Sp_Hook, Sp_Wait, Sp_Hook_Event, Sp_Attr_Event, Sp_Hook_Resume}"

lemma reflects_cong:
  "(\<And>p i. entity_space p \<Longrightarrow> kv_get (key p i) s' = kv_get (key p i) s) \<Longrightarrow>
     reflects W l s' = reflects W l s"
  by (simp add: reflects_def entity_space_def run_expiry_def get_run_def)

lemma reflects_other [simp]:
  "\<not> entity_space p \<Longrightarrow> reflects W l (kv_put (key p i) v s) = reflects W l s"
  "\<not> entity_space p \<Longrightarrow> reflects W l (kv_del (key p i) s) = reflects W l s"
  "\<not> entity_space p \<Longrightarrow> reflects W l (kv_put (creationIndexKey p t i) v s) = reflects W l s"
  "\<not> entity_space p \<Longrightarrow> reflects W l (kv_del (creationIndexKey p t i) s) = reflects W l s"
  by (intro reflects_cong; auto simp: creationIndexKey_def)+

lemma entity_space_simps [simp]:
  "\<not> entity_space Sp_Event" "\<not> entity_space Sp_Step_Created" "\<not> entity_space Sp_Hook_Created"
  "\<not> entity_space Sp_Hook_Released" "\<not> entity_space Sp_Hook_Forced"
  by (simp_all add: entity_space_def)

section \<open>Which entity an event is about\<close>

fun run_event :: "event_body \<Rightarrow> bool" where
  "run_event (RunCreated _) = True"
| "run_event (RunStarted _) = True"
| "run_event (RunCompleted _) = True"
| "run_event (RunFailed _ _) = True"
| "run_event RunCancelled = True"
| "run_event (AttrSet _ _) = True"
| "run_event _ = False"

fun step_subject :: "event_body \<Rightarrow> string option" where
  "step_subject (StepCreated c _) = Some c"
| "step_subject b = step_event_id b"

fun hook_subject :: "event_body \<Rightarrow> string option" where
  "hook_subject (HookCreated c _) = Some c"
| "hook_subject (HookDisposed c _) = Some c"
| "hook_subject _ = None"

fun wait_subject :: "event_body \<Rightarrow> string option" where
  "wait_subject (WaitCreated c _) = Some c"
| "wait_subject (WaitCompleted c _) = Some c"
| "wait_subject _ = None"

lemma evolve_other [simp]:
  "\<not> run_event (ev_body e) \<Longrightarrow> evolve_run W e r = r"
  "step_subject (ev_body e) \<noteq> Some c \<Longrightarrow> evolve_step c e x = x"
  "hook_subject (ev_body e) \<noteq> Some c \<Longrightarrow> evolve_hook c e h = h"
  "wait_subject (ev_body e) \<noteq> Some c \<Longrightarrow> evolve_wait c e w = w"
     apply (cases r; cases "ev_body e"; simp add: change_run_def Let_def)
    apply (cases x; cases "ev_body e"; simp add: Let_def)
   apply (cases "ev_body e"; simp add: evolve_hook_def)
  apply (cases "ev_body e"; simp add: evolve_wait_def)
  done

lemma marks_other [simp]:
  "hook_subject (ev_body e) \<noteq> Some c \<Longrightarrow> \<not> creates_hook c e"
  "\<not> is_attr_set (ev_body e) \<Longrightarrow> \<not> writes_attr k e"
  "\<not> is_hook_received (ev_body e) \<Longrightarrow> \<not> delivers k e"
  "\<not> is_hook_received (ev_body e) \<Longrightarrow> \<not> delivers_to k c' e"
  by (auto simp: creates_hook_def writes_attr_def delivers_def delivers_to_def split: event_body.splits)

lemma option_case_eta [simp]: "(case x of None \<Rightarrow> None | Some i \<Rightarrow> Some i) = x"
  by (cases x) simp_all

section \<open>Writing an entity together with its event\<close>

lemma run_live_snoc_other [simp]:
  "\<not> run_event (ev_body e) \<Longrightarrow> run_live W (l @ [e]) = run_live W l"
  by (simp add: run_live_def)

lemma reflects_append:
  assumes "reflects W l s" "\<not> run_event (ev_body e)" "step_subject (ev_body e) = None"
    "hook_subject (ev_body e) = None" "wait_subject (ev_body e) = None"
    "\<not> is_hook_received (ev_body e)"
  shows "reflects W (l @ [e]) s"
proof -
  have "\<not> is_attr_set (ev_body e)" using assms(2) by (cases "ev_body e") auto
  then show ?thesis using assms by (simp add: reflects_def)
qed

lemma reflects_step:
  assumes "reflects W l s" "step_subject (ev_body e) = Some c"
    "evolve_step c e (replay_step c l) = Some x"
  shows "reflects W (l @ [e]) (kv_put (step_key c) (VStep x) s)"
proof -
  have "\<not> run_event (ev_body e)" "hook_subject (ev_body e) = None" "wait_subject (ev_body e) = None"
    "\<not> is_attr_set (ev_body e)" "\<not> is_hook_received (ev_body e)"
    "\<And>c'. c' \<noteq> c \<Longrightarrow> step_subject (ev_body e) \<noteq> Some c'"
    using assms(2) by (cases "ev_body e"; simp)+
  then show ?thesis using assms by (auto simp: reflects_def)
qed

lemma reflects_wait:
  assumes "reflects W l s" "wait_subject (ev_body e) = Some c"
    "evolve_wait c e (replay_wait c l) = Some x"
  shows "reflects W (l @ [e]) (kv_put (wait_key c) (VWait x) s)"
proof -
  have "\<not> run_event (ev_body e)" "hook_subject (ev_body e) = None" "step_subject (ev_body e) = None"
    "\<not> is_attr_set (ev_body e)" "\<not> is_hook_received (ev_body e)"
    "\<And>c'. c' \<noteq> c \<Longrightarrow> wait_subject (ev_body e) \<noteq> Some c'"
    using assms(2) by (cases "ev_body e"; simp)+
  then show ?thesis using assms by (auto simp: reflects_def)
qed

lemma reflects_hook_created:
  assumes "reflects W l s" "ev_body e = HookCreated c d" "hook_creation c l = None"
  shows "reflects W (l @ [e]) (kv_put (hook_event_key c) (VStr (ev_id e))
           (kv_put (hook_key c) (VHook (hook_from e c d)) s))"
  using assms by (auto simp: reflects_def creates_hook_def evolve_hook_def)

lemma reflects_hook_disposed:
  assumes "reflects W l s" "ev_body e = HookDisposed c d"
  shows "reflects W (l @ [e]) (kv_del (hook_key c) s)"
  using assms by (auto simp: reflects_def creates_hook_def evolve_hook_def)

lemma reflects_received:
  assumes "reflects W l s" "ev_body e = HookReceived c d" "ev_resume_id e = Some k"
    "truthy (Some k)" "\<not> list_ex (delivers k) l"
  shows "reflects W (l @ [e]) (kv_put (hook_resume_key k)
           (VResume \<lparr>rc_hook = c, rc_event = ev_id e, rc_digest = g\<rparr>) s)"
  using assms by (auto simp: reflects_def delivers_to_def delivers_def)

lemma reflects_received_plain:
  assumes "reflects W l s" "ev_body e = HookReceived c d" "\<not> truthy (ev_resume_id e)"
  shows "reflects W (l @ [e]) s"
proof -
  have "\<not> delivers k e" if "truthy (Some k)" for k
    using assms that by (auto simp: delivers_def)
  then show ?thesis using assms by (simp add: reflects_def) blast
qed

lemma reflects_run:
  assumes "reflects W l s" "run_event (ev_body e)" "\<not> is_attr_set (ev_body e)"
    "evolve_run W e (replay_run W l) = Some r" "run_live W l \<or> l = []"
  shows "reflects W (l @ [e]) (kv_put run_key (VRun (r\<lparr>run_expired_at := x\<rparr>)) s)"
proof -
  have "step_subject (ev_body e) = None" "hook_subject (ev_body e) = None"
    "wait_subject (ev_body e) = None" "\<not> is_hook_received (ev_body e)"
    using assms(2) by (cases "ev_body e"; simp)+
  moreover have "\<forall>c. kv_get (hook_key c) s = map_option VHook (replay_hook c l)"
    "\<forall>c. kv_get (wait_key c) s = map_option VWait (replay_wait c l)"
    using assms(1,5) by (auto simp: reflects_def)
  ultimately show ?thesis using assms(1-4) unfolding reflects_def by simp
qed

lemma reflects_attr:
  assumes "reflects W l s" "ev_body e = AttrSet c d" "run_live W l"
    "evolve_run W e (replay_run W l) = Some r"
    "m = attr_marker c d"
  shows "reflects W (l @ [e])
     (let s = kv_put run_key (VRun (r\<lparr>run_expired_at := x\<rparr>)) s
      in case m of None \<Rightarrow> s | Some k \<Rightarrow> kv_put k (VStr i) s)"
proof -
  have "(case m of None \<Rightarrow> True | Some k \<Rightarrow> k = attr_event_key (the c))"
    "\<And>k. writes_attr k e \<Longrightarrow> k \<noteq> [] \<Longrightarrow> m = Some (attr_event_key k)"
    using assms by (auto simp: attr_marker_def writes_attr_def split: option.splits)
  then show ?thesis using assms by (auto simp: reflects_def split: option.splits)
qed

lemma reflects_release_one:
  assumes "reflects W l s" "\<not> run_live W l" "p \<in> {Sp_Hook, Sp_Wait, Sp_Hook_Created}"
  shows "reflects W l (kv_del (key p i) s)"
  using assms by (auto simp: reflects_def)

lemma reflects_release:
  assumes "reflects W l s" "\<not> run_live W l"
    "\<forall>k \<in> set ks. \<exists>p i. k = key p i \<and> p \<in> {Sp_Hook, Sp_Wait, Sp_Hook_Created}"
  shows "reflects W l (kv_del_all ks s)"
  using assms(3,1) unfolding kv_del_all_def
proof (induction ks arbitrary: s)
  case (Cons k ks)
  then obtain p i where "k = key p i" "p \<in> {Sp_Hook, Sp_Wait, Sp_Hook_Created}" by auto
  then show ?case using Cons assms(2) reflects_release_one by auto
qed simp

end
