(* ===== verification/ApplyRefine.thy ===== *)
theory ApplyRefine
  imports JournalRefine
begin

lemma appended_put:
  assumes "legal W (event_log W s) e" "reflects W (event_log W s @ [e]) (es_kv t)"
    "ev_id e = slot_to_event_id W (Suc (es_seq s))" "es_seq t = Suc (es_seq s)"
    "\<And>i. kv_get (event_key i) (es_kv t) = kv_get (event_key i) (es_kv s)"
    "run_expiry (es_kv t) = run_expiry (es_kv s)"
  shows "appended W e s (putEvent e t)"
  using assms by (auto simp: appended_def extends_def)

definition stepped :: "world_api \<Rightarrow> est \<Rightarrow> outcome \<Rightarrow> est \<Rightarrow> bool" where
  "stepped W s out s' \<longleftrightarrow>
     (case out of
        Failure f \<Rightarrow> s' = s
      | Success x \<Rightarrow> s' = s \<or> (\<exists>e. so_event x = Some e \<and> appended W e s s'))"

lemma cell_okD:
  assumes "cell_ok W s"
  shows "reflects W (event_log W s) (es_kv s)" "legal_log W (event_log W s)" "log_inv W s"
  using assms by (simp_all add: cell_ok_def)

lemma as_iff [simp]:
  "as_run v = Some a \<longleftrightarrow> v = VRun a" "as_event v = Some b \<longleftrightarrow> v = VEvent b"
  "as_step v = Some c \<longleftrightarrow> v = VStep c" "as_hook v = Some d \<longleftrightarrow> v = VHook d"
  "as_wait v = Some e \<longleftrightarrow> v = VWait e" "as_str v = Some f \<longleftrightarrow> v = VStr f"
  "as_hook_ref v = Some g \<longleftrightarrow> v = VHookRef g" "as_forced v = Some h \<longleftrightarrow> v = VForced h"
  "as_resume v = Some i \<longleftrightarrow> v = VResume i"
  by (cases v; simp)+

lemma bind_map_Some: "(\<And>x. g (f x) = Some x) \<Longrightarrow> Option.bind (map_option f y) g = y"
  by (cases y) simp_all

lemma reflects_getD:
  assumes "reflects W l s"
  shows "get_run s = expiring (run_expiry s) (replay_run W l)"
    "get_step c s = replay_step c l"
    "get_hook c s = Some h \<Longrightarrow> replay_hook c l = Some h"
    "get_wait c s = Some w \<Longrightarrow> replay_wait c l = Some w"
    "run_live W l \<Longrightarrow> get_hook c s = replay_hook c l"
    "run_live W l \<Longrightarrow> get_wait c s = replay_wait c l"
    "kv_get (hook_event_key c) s = map_option VStr (hook_creation c l)"
proof -
  note r = assms [unfolded reflects_def]
  show "get_run s = expiring (run_expiry s) (replay_run W l)"
    unfolding get_run_def [of s] using r by (simp only: bind_map_Some as_run.simps)
  show "get_step c s = replay_step c l"
    unfolding get_step_def using r by (simp add: bind_map_Some)
  show "replay_hook c l = Some h" if "get_hook c s = Some h"
    using r that by (cases "kv_get (hook_key c) s") (auto simp: get_hook_def simp del: as_hook.simps)
  show "replay_wait c l = Some w" if "get_wait c s = Some w"
    using r that by (cases "kv_get (wait_key c) s") (auto simp: get_wait_def)
  show "get_hook c s = replay_hook c l" if "run_live W l"
    unfolding get_hook_def using r that by (simp add: bind_map_Some)
  show "get_wait c s = replay_wait c l" if "run_live W l"
    unfolding get_wait_def using r that by (simp add: bind_map_Some)
  show "kv_get (hook_event_key c) s = map_option VStr (hook_creation c l)"
    using r by simp
qed

lemma bind_parse:
  assumes "schemas_ok W"
  shows
    "bindE (require (parse_run W r) x) f1 = Inr y \<longleftrightarrow> parse_run W r = Some r \<and> f1 r = Inr y"
    "bindE (require (parse_step W st) x) f2 = Inr y \<longleftrightarrow> parse_step W st = Some st \<and> f2 st = Inr y"
    "bindE (require (parse_hook W h) x) f3 = Inr y \<longleftrightarrow> parse_hook W h = Some h \<and> f3 h = Inr y"
    "bindE (require (parse_wait W w) x) f4 = Inr y \<longleftrightarrow> parse_wait W w = Some w \<and> f4 w = Inr y"
    "bindE (buildEvent W ctx spec b s) f5 = Inr y \<longleftrightarrow>
       (let e = eventRecord W ctx spec b (Suc (es_seq s)) in
        parse_event W e = Some e \<and> f5 (e, s\<lparr>es_seq := Suc (es_seq s)\<rparr>) = Inr y)"
  using assms by (auto simp: bindE_eq_Inr buildEvent_Inr Let_def dest: schemas_okD)

lemma bindE_assoc: "bindE (bindE m f) g = bindE m (\<lambda>x. bindE (f x) g)"
  by (cases m) simp_all

lemma bind_ensure: "bindE (ensure b x) f = Inr y \<longleftrightarrow> b \<and> f () = Inr y"
  by (cases b) simp_all

section \<open>Creation\<close>

lemma from_record [simp]:
  "step_from (eventRecord W ctx spec b n) c d = newStep ctx spec c (si_name d) (si_input d)"
  "run_from (eventRecord W ctx spec b n) i = newRun ctx spec i"
  "wait_from (eventRecord W ctx spec b n) c t = newWait ctx spec c t"
  by (simp_all add: newStep_def step_from_def compact_step_def newRun_def run_from_def
      compact_run_def newWait_def wait_from_def)

lemma from_event_record [simp]:
  "c_body ctx = b \<Longrightarrow> strip_body b = b' \<Longrightarrow> ev_body (eventRecord W ctx spec b n) = b'"
  by simp

lemma onStepCreated_refines:
  assumes W: "schemas_ok W" and s: "cell_ok W s" and live: "run_live W (event_log W s)"
    and b: "c_body ctx = StepCreated c d"
    and r: "onStepCreated W ctx spec c d s = Inr (out, s')"
  shows "stepped W s out s'"
proof (cases "get_step c (es_kv s)")
  case None
  note g = reflects_getD(2) [OF cell_okD(1) [OF s]]
  show ?thesis using r live b None
    by (auto simp: onStepCreated_def bind_parse [OF W] Let_def stepped_def put_new_step_def
        legal_def g intro!: appended_put reflects_step cell_okD(1) [OF s])
next
  case (Some a)
  then show ?thesis using r by (auto simp: onStepCreated_def stepped_def)
qed


lemma commitStep_refines:
  assumes W: "schemas_ok W" and s: "cell_ok W s"
    and f: "found = get_step c (es_kv s)"
    and legal: "\<And>e. ev_body e = strip_body (c_body ctx) \<Longrightarrow> legal W (event_log W s) e"
    and ev: "\<And>x e. ev_body e = strip_body (c_body ctx) \<Longrightarrow> ev_created_at e = c_now ctx \<Longrightarrow>
       evolve_step c e (Some x) = Some (g x)"
    and b: "step_subject (strip_body (c_body ctx)) = Some c"
    and r: "commitStep W ctx spec c found g s = Inr (out, s')"
  shows "stepped W s out s'"
proof (cases found)
  case None
  then show ?thesis using r by (auto simp: commitStep_def stepped_def)
next
  case (Some x)
  then have x: "replay_step c (event_log W s) = Some x"
    using f reflects_getD(2) [OF cell_okD(1) [OF s], of c] by simp
  show ?thesis using r Some
    by (auto simp: commitStep_def bind_parse [OF W] Let_def stepped_def x b ev
        simp del: evolve_step.simps intro!: appended_put reflects_step cell_okD(1) [OF s] legal)
qed

lemma onWaitCreated_refines:
  assumes W: "schemas_ok W" and s: "cell_ok W s" and live: "run_live W (event_log W s)"
    and b: "c_body ctx = WaitCreated c t"
    and r: "onWaitCreated W ctx spec c t s = Inr (out, s')"
  shows "stepped W s out s'"
proof (cases "kv_get (wait_key c) (es_kv s)")
  case None
  have "replay_wait c (event_log W s) = None"
    using None reflects_getD(6) [OF cell_okD(1) [OF s] live, of c] by (simp add: get_wait_def)
  then show ?thesis using r live b None
    by (auto simp: onWaitCreated_def bind_parse [OF W] Let_def stepped_def evolve_wait_def
        legal_def intro!: appended_put reflects_wait cell_okD(1) [OF s])
next
  case (Some a)
  then show ?thesis using r by (auto simp: onWaitCreated_def stepped_def)
qed

lemma onWaitCompleted_refines:
  assumes W: "schemas_ok W" and s: "cell_ok W s" and run: "replay_run W (event_log W s) \<noteq> None"
    and b: "c_body ctx = WaitCompleted c t"
    and r: "onWaitCompleted W ctx spec c t s = Inr (out, s')"
  shows "stepped W s out s'"
proof (cases "get_wait c (es_kv s)")
  case None
  then show ?thesis using r by (auto simp: onWaitCompleted_def stepped_def)
next
  case (Some w)
  have "replay_wait c (event_log W s) = Some w"
    using reflects_getD(4) [OF cell_okD(1) [OF s] Some] .
  moreover have "wait_state w \<noteq> Wait_Completed \<Longrightarrow> wait_state w = Wait_Waiting"
    by (cases "wait_state w") auto
  ultimately show ?thesis using r run b Some
    by (auto simp: onWaitCompleted_def bind_parse [OF W] Let_def stepped_def evolve_wait_def
        legal_def intro!: appended_put reflects_wait cell_okD(1) [OF s] split: if_splits)
qed

lemma onHookDisposed_refines:
  assumes W: "schemas_ok W" and s: "cell_ok W s" and run: "replay_run W (event_log W s) \<noteq> None"
    and b: "c_body ctx = HookDisposed c d"
    and r: "onHookDisposed W ctx spec c s = Inr (out, s')"
  shows "stepped W s out s'"
proof (cases "get_hook c (es_kv s)")
  case None
  then show ?thesis using r by (auto simp: onHookDisposed_def stepped_def)
next
  case (Some h)
  have "replay_hook c (event_log W s) = Some h"
    using reflects_getD(3) [OF cell_okD(1) [OF s] Some] .
  then show ?thesis using r run b Some
    by (auto simp: onHookDisposed_def bind_parse [OF W] Let_def stepped_def removeHook_def
        legal_def intro!: appended_put reflects_hook_disposed [where d = d] cell_okD(1) [OF s])
qed

definition held_elsewhere :: "apply_ctx \<Rightarrow> string \<Rightarrow> bool" where
  "held_elsewhere ctx c \<longleftrightarrow>
     (case c_token_holder ctx of None \<Rightarrow> False
      | Some holder \<Rightarrow> own_run holder \<noteq> c_run ctx \<or> own_hook holder \<noteq> c)"

lemma hook_from_record [simp]:
  "hi_force_claimed_from d' = (if hi_force d' then c_claimed_from ctx else None) \<Longrightarrow>
     hook_from (eventRecord W ctx spec b n) c d' = newHook ctx spec c d'"
  by (simp add: newHook_def hook_from_def)

lemma newHook_claimed [simp]:
  "newHook ctx spec c (d\<lparr>hi_force_claimed_from := x\<rparr>) = newHook ctx spec c d"
  by (simp add: newHook_def)

lemma onHookCreated_conflict:
  assumes W: "schemas_ok W" and s: "cell_ok W s" and live: "run_live W (event_log W s)"
    and h: "held_elsewhere ctx c" and r: "onHookCreated W ctx spec c d s = Inr (out, s')"
  shows "stepped W s out s'"
proof -
  have "replay_run W (event_log W s) \<noteq> None"
    using live by (auto simp: run_live_def split: option.splits)
  then have "legal W (event_log W s) (eventRecord W ctx spec (hookConflictBody ctx c d o1) n)"
    "reflects W (event_log W s @ [eventRecord W ctx spec (hookConflictBody ctx c d o1) n]) (es_kv s)"
    for o1 n
    by (auto simp: legal_def hookConflictBody_def intro!: reflects_append cell_okD(1) [OF s])
  then show ?thesis using r h
    by (auto simp: onHookCreated_def bind_parse [OF W] Let_def stepped_def held_elsewhere_def
        intro!: appended_put split: if_splits option.splits)
qed

lemma onHookCreated_fresh:
  assumes W: "schemas_ok W" and s: "cell_ok W s" and live: "run_live W (event_log W s)"
    and b: "c_body ctx = HookCreated c d" and h: "\<not> held_elsewhere ctx c"
    and m: "kv_get (hook_event_key c) (es_kv s) = None"
    and r: "onHookCreated W ctx spec c d s = Inr (out, s')"
  shows "stepped W s out s'"
proof -
  let ?d = "d\<lparr>hi_force_claimed_from := (if hi_force d then c_claimed_from ctx else None)\<rparr>"
  let ?e = "eventRecord W ctx spec (HookCreated c ?d) (Suc (es_seq s))"
  have n: "hook_creation c (event_log W s) = None"
    using m reflects_getD(7) [OF cell_okD(1) [OF s], of c] by simp
  then have "legal W (event_log W s) ?e"
    using live by (auto simp: legal_def hook_creation_def list_ex_iff find_None_iff)
  moreover have "reflects W (event_log W s @ [?e]) (kv_put (hook_event_key c) (VStr (ev_id ?e))
      (kv_put (hook_key c) (VHook (newHook ctx spec c d)) (es_kv s)))"
    using reflects_hook_created [OF cell_okD(1) [OF s], of ?e c ?d] n by simp
  moreover have "reflects W l (kv_put (hook_event_key c) v (kv_put (hook_index_key h) v'
      (kv_put (hook_key c) v'' t))) = reflects W l (kv_put (hook_event_key c) v
      (kv_put (hook_key c) v'' t))" for l v h v' v'' t
    by (intro reflects_cong) (auto simp: entity_space_def)
  ultimately show ?thesis using r h m
    by (auto simp: onHookCreated_def bind_parse [OF W] Let_def stepped_def held_elsewhere_def
        hookCreatedBody_def intro!: appended_put split: if_splits option.splits)
qed

lemma onHookCreated_again:
  assumes "\<not> held_elsewhere ctx c" "kv_get (hook_event_key c) (es_kv s) \<noteq> None"
    and "onHookCreated W ctx spec c d s = Inr (out, s')"
  shows "stepped W s out s'"
  using assms by (auto simp: onHookCreated_def stepped_def held_elsewhere_def
      split: if_splits option.splits)

lemma onHookCreated_refines:
  assumes "schemas_ok W" "cell_ok W s" "run_live W (event_log W s)"
    and "c_body ctx = HookCreated c d" "onHookCreated W ctx spec c d s = Inr (out, s')"
  shows "stepped W s out s'"
proof (cases "held_elsewhere ctx c")
  case True
  then show ?thesis using onHookCreated_conflict assms(1-3,5) by metis
next
  case False
  then show ?thesis using onHookCreated_again [OF False _ assms(5)]
      onHookCreated_fresh [OF assms(1-4) False _ assms(5)] by blast
qed


section \<open>Deliveries\<close>

lemma delivers_record [simp]:
  "delivers k (eventRecord W ctx spec b n) \<longleftrightarrow> is_hook_received b \<and> c_resume_id ctx = Some k"
  by (cases b rule: strip_body.cases) (auto simp: delivers_def)

lemma onEventOnly_received:
  assumes W: "schemas_ok W" and s: "cell_ok W s" and b: "c_body ctx = HookReceived c d"
    and run: "replay_run W (event_log W s) \<noteq> None"
    and hook: "c \<noteq> [] \<Longrightarrow> run_live W (event_log W s) \<and> replay_hook c (event_log W s) \<noteq> None"
    and fresh: "\<And>k. truthy (c_resume_id ctx) \<Longrightarrow> c_resume_id ctx = Some k \<Longrightarrow>
       \<not> list_ex (delivers k) (event_log W s)"
    and r: "onEventOnly W ctx spec s = Inr (out, s')"
  shows "stepped W s out s'"
proof -
  let ?e = "eventRecord W ctx spec (HookReceived c d) (Suc (es_seq s))"
  have l: "legal W (event_log W s) ?e"
    using run hook fresh by (auto simp: legal_def)
  show ?thesis
  proof (cases "c_resume_id ctx")
    case None
    then show ?thesis using r b l
      by (auto simp: onEventOnly_def bind_parse [OF W] Let_def stepped_def
          intro!: appended_put reflects_received_plain cell_okD(1) [OF s])
  next
    case (Some k)
    show ?thesis
    proof (cases "k = []")
      case True
      then show ?thesis using r b l Some
        by (auto simp: onEventOnly_def bind_parse [OF W] Let_def stepped_def
            intro!: appended_put reflects_received_plain cell_okD(1) [OF s])
    next
      case False
      let ?v = "VResume \<lparr>rc_hook = c, rc_event = ev_id ?e,
        rc_digest = (if truthy (c_resume_digest ctx) then c_resume_digest ctx else None)\<rparr>"
      have s': "s' = put_kv (hook_resume_key k) ?v (putEvent ?e (s\<lparr>es_seq := Suc (es_seq s)\<rparr>))"
        and e: "so_event (case out of Success x \<Rightarrow> x) = Some ?e" "\<exists>x. out = Success x"
        using r b Some False by (auto simp: onEventOnly_def bind_parse [OF W] Let_def)
      have "reflects W (event_log W s @ [?e]) (kv_put (hook_resume_key k) ?v (es_kv s))"
        using reflects_received [OF cell_okD(1) [OF s], of ?e c d k] Some False fresh by simp
      moreover have "reflects W l (kv_put (hook_resume_key k) v (kv_put (event_key i) w t)) =
          reflects W l (kv_put (hook_resume_key k) v t)" for l v i w t
        by (intro reflects_cong) auto
      ultimately have "appended W ?e s s'" using l
        by (simp add: s' appended_def extends_def)
      then show ?thesis using e by (auto simp: stepped_def)
    qed
  qed
qed

lemma onEventOnly_conflict:
  assumes W: "schemas_ok W" and s: "cell_ok W s" and b: "c_body ctx = HookConflict c d"
    and run: "replay_run W (event_log W s) \<noteq> None"
    and r: "onEventOnly W ctx spec s = Inr (out, s')"
  shows "stepped W s out s'"
  using r b run
    by (auto simp: onEventOnly_def bind_parse [OF W] Let_def stepped_def legal_def
       intro!: appended_put reflects_append cell_okD(1) [OF s])

section \<open>Starting a step\<close>

lemma onStepStarted_found:
  assumes W: "schemas_ok W" and s: "cell_ok W s" and b: "c_body ctx = StepStarted c h"
    and f: "step_usable W (event_log W s) c"
    and x: "replay_step c (event_log W s) = Some x"
    and early: "\<not> (case step_retry_after x of None \<Rightarrow> False | Some t \<Rightarrow> c_now ctx < t)"
    and e: "e = eventRecord W ctx spec (c_body ctx) (Suc (es_seq s))"
  shows "appended W e s
     (putEvent e (put_kv (step_key c) (VStep (startedStep ctx x)) (s\<lparr>es_seq := Suc (es_seq s)\<rparr>)))"
proof -
  obtain h' where b': "strip_body (StepStarted c h) = StepStarted c h'"
    by (cases h) auto
  show ?thesis using f x early b b' e
    by (auto simp: legal_def startedStep_def Let_def
        intro!: appended_put reflects_step cell_okD(1) [OF s] split: option.splits)
qed


definition advanced :: "world_api \<Rightarrow> est \<Rightarrow> outcome \<Rightarrow> est \<Rightarrow> bool" where
  "advanced W s out s' \<longleftrightarrow>
     (case out of
        Failure f \<Rightarrow> s' = s
      | Success x \<Rightarrow> cell_ok W s' \<and> run_expiry (es_kv s') = run_expiry (es_kv s) \<and> (\<exists>es. event_log W s' = event_log W s @ es \<and>
          (es \<noteq> [] \<longrightarrow> so_event x = Some (last es))))"

lemma stepped_advanced:
  "slots_ok W \<Longrightarrow> cell_ok W s \<Longrightarrow> stepped W s out s' \<Longrightarrow> advanced W s out s'"
  by (auto simp: stepped_def advanced_def dest: appended_ok split: outcome.splits)

lemma lazyStep_refines:
  assumes W: "schemas_ok W" "slots_ok W" and s: "cell_ok W s"
    and f: "found = replay_step c (event_log W s)"
    and live: "found = None \<Longrightarrow> run_live W (event_log W s)"
    and r: "lazyStep W ctx spec c hint found s = Inr (cur, created, s')"
  shows "cell_ok W s' \<and> cur = replay_step c (event_log W s')
    \<and> (\<exists>es. event_log W s' = event_log W s @ es) \<and> run_expiry (es_kv s') = run_expiry (es_kv s)
    \<and> (if created then run_live W (event_log W s') \<and>
          (\<exists>x. cur = Some x \<and> step_state x = Step_Pending \<and> step_retry_after x = None)
        else s' = s \<and> cur = found)"
proof (cases created)
  case False
  then have "s' = s" "cur = found"
    using r by (auto simp: lazyStep_def bind_parse [OF W(1)] Let_def split: option.splits if_splits)
  then show ?thesis using False f s by auto
next
  case True
  then obtain h where h: "hint = Some h" "found = None"
    using r by (auto simp: lazyStep_def split: option.splits if_splits)
  let ?d = "\<lparr>si_name = the (sh_name h), si_workflow = sh_workflow h, si_input = sh_input h\<rparr>"
  let ?e = "eventRecord W ctx spec (StepCreated c ?d) (Suc (es_seq s))"
  let ?x = "newStep ctx spec c (the (sh_name h)) (sh_input h)"
  have s': "s' = putEvent ?e (put_new_step c ?x (s\<lparr>es_seq := Suc (es_seq s)\<rparr>))"
    and cur: "cur = Some ?x"
    using r h True by (auto simp: lazyStep_def bind_parse [OF W(1)] Let_def split: if_splits)
  have "appended W ?e s s'"
    unfolding s' put_new_step_def using live h f
    by (auto simp: legal_def intro!: appended_put reflects_step cell_okD(1) [OF s])
  then have "cell_ok W s' \<and> event_log W s' = event_log W s @ [?e] \<and> run_expiry (es_kv s') = run_expiry (es_kv s)"
    using appended_ok W s by blast
  then show ?thesis using True cur live h f
    by (auto simp: newStep_def compact_step_def)
qed

lemma onStepStarted_refines:
  assumes W: "schemas_ok W" "slots_ok W" "terminal_specs W" and s: "cell_ok W s"
    and b: "c_body ctx = StepStarted c h"
    and f: "found = replay_step c (event_log W s)"
    and live: "found = None \<Longrightarrow> run_live W (event_log W s)"
    and usable: "found \<noteq> None \<Longrightarrow> step_usable W (event_log W s) c"
    and r: "onStepStarted W ctx spec c h found s = Inr (out, s')"
  shows "advanced W s out s'"
proof -
  obtain cur created s1 where l: "lazyStep W ctx spec c h found s = Inr (cur, created, s1)"
    using r by (auto simp: onStepStarted_def bindE_eq_Inr)
  note lazy = lazyStep_refines [OF W(1,2) s f live l]
  show ?thesis
  proof (cases cur)
    case None
    then have "s1 = s" using lazy by (cases created) auto
    then show ?thesis using r l None by (auto simp: onStepStarted_def advanced_def)
  next
    case (Some x)
    define early where
      "early = (case step_retry_after x of None \<Rightarrow> False | Some t \<Rightarrow> c_now ctx < t)"
    show ?thesis
    proof (cases early)
      case True
      then have "s1 = s" using lazy Some by (cases created) (auto simp: early_def)
      then show ?thesis using r l Some True
        by (auto simp: onStepStarted_def advanced_def early_def split: option.splits)
    next
      case False
      have u: "step_usable W (event_log W s1) c"
      proof (cases created)
        case True
        then have "run_live W (event_log W s1)" "replay_step c (event_log W s1) = Some x"
          "step_state x = Step_Pending" using lazy Some by auto
        then show ?thesis using W(3)
          by (auto simp: step_usable_def run_live_def terminal_specsD split: option.splits)
      next
        case c: False
        then have "s1 = s" "found \<noteq> None" using lazy Some by auto
        then show ?thesis using usable by simp
      qed
      let ?e = "eventRecord W ctx spec (c_body ctx) (Suc (es_seq s1))"
      have s': "s' = putEvent ?e (put_kv (step_key c) (VStep (startedStep ctx x))
            (s1\<lparr>es_seq := Suc (es_seq s1)\<rparr>))"
        and out: "out = Success (ok\<lparr>so_event := Some ?e, so_step := Some (startedStep ctx x),
            so_step_created := created\<rparr>)"
        using r l Some False
        by (auto simp: onStepStarted_def early_def bind_parse [OF W(1)] Let_def split: option.splits)
      have "appended W ?e s1 s'"
        unfolding s' using lazy u b False Some by (intro onStepStarted_found W) (auto simp: early_def)
      then have "cell_ok W s'" "event_log W s' = event_log W s1 @ [?e]"
        "run_expiry (es_kv s') = run_expiry (es_kv s1)"
        using appended_ok W lazy by blast+
      then show ?thesis using lazy by (auto simp: advanced_def out)
    qed
  qed
qed


section \<open>The run\<close>

lemma kv_list_space:
  "(k, v) \<in> set (kv_list (prefix_query (space_prefix p)) s) \<Longrightarrow> \<exists>i. k = key p i"
  by (drule kv_list_prefix) (simp add: prefix_query_def has_prefix_key)

lemma commitRun_refines:
  assumes W: "schemas_ok W" and s: "cell_ok W s"
    and legal: "\<And>e. ev_body e = strip_body (c_body ctx) \<Longrightarrow> legal W (event_log W s) e"
    and b: "run_event (c_body ctx)" "\<not> is_attr_set (c_body ctx)"
    and live: "run_live W (event_log W s) \<or> event_log W s = []"
    and ev: "\<And>n. evolve_run W (eventRecord W ctx spec (c_body ctx) n) (replay_run W (event_log W s)) = Some r0"
    and r0: "compact_run r = r0\<lparr>run_expired_at := run_expired_at r\<rparr>"
      "run_expired_at r = run_expiry (es_kv s)"
    and r: "commitRun W ctx spec r s = Inr (r', e, s')"
  shows "appended W e s s' \<and> r' = r0\<lparr>run_expired_at := run_expired_at r\<rparr> \<and> get_run (es_kv s') = Some r'"
proof -
  let ?e = "eventRecord W ctx spec (c_body ctx) (Suc (es_seq s))"
  have c: "r' = compact_run r" "e = ?e"
    "s' = putEvent ?e (put_kv run_key (VRun r') (s\<lparr>es_seq := Suc (es_seq s)\<rparr>))"
    using r by (auto simp: commitRun_def bind_parse [OF W] Let_def)
  have "run_event (strip_body (c_body ctx))" "\<not> is_attr_set (strip_body (c_body ctx))"
    using b by (cases "c_body ctx" rule: strip_body.cases; simp)+
  then have "reflects W (event_log W s @ [?e])
      (kv_put run_key (VRun (r0\<lparr>run_expired_at := run_expired_at r\<rparr>)) (es_kv s))"
    by (intro reflects_run cell_okD(1) [OF s] ev live) simp_all
  then have "appended W e s s'"
    using legal [of ?e] unfolding c by (intro appended_put) (simp_all add: r0)
  then show ?thesis by (simp add: c r0 get_run_def)
qed

lemma released_keeps:
  assumes a: "appended W e s t" and d: "\<not> run_live W (event_log W s @ [e])"
  shows "appended W e s (releaseAllWaits b (snd (releaseAllHooks b t)))"
proof -
  let ?ok = "\<lambda>u. reflects W (event_log W s @ [e]) (es_kv u) \<and> es_seq u = es_seq t \<and> run_expiry (es_kv u) = run_expiry (es_kv t) \<and>
    (\<forall>i. kv_get (event_key i) (es_kv u) = kv_get (event_key i) (es_kv t))"
  have wk: "run_key \<notin> set (map fst (kv_list (prefix_query (space_prefix Sp_Wait)) u))" for u :: "rval kv"
    by (auto dest!: kv_list_space)
  have "?ok t" using a by (simp add: appended_def)
  then have "?ok (snd (releaseAllHooks b t))"
    by (auto simp: releaseAllHooks_def Let_def creationIndexKey_def
        intro!: reflects_release [OF _ d])
  then have "?ok (releaseAllWaits b (snd (releaseAllHooks b t)))"
    unfolding releaseAllWaits_def
    by (cases b) (auto simp: run_expiry_put(4) [OF wk] dest!: kv_list_space intro!: reflects_release [OF _ d])
  then show ?thesis using a by (simp add: appended_def extends_def)
qed

lemma finishRun_refines:
  assumes W: "schemas_ok W" "terminal_specs W" and s: "cell_ok W s"
    and b: "is_run_finish (c_body ctx)"
    and live: "run_live W (event_log W s)"
    and ev: "\<And>n. evolve_run W (eventRecord W ctx spec (c_body ctx) n) (replay_run W (event_log W s)) =
       Some (compact_run (r\<lparr>run_completed_at := Some (c_now ctx), run_updated_at := c_now ctx,
          run_expired_at := x\<rparr>))"
    and exp: "run_expired_at r = run_expiry (es_kv s)"
    and fin: "run_state r \<in> {Completed, Failed, Cancelled}"
    and r: "finishRun W ctx spec r s = Inr (out, s')"
  shows "stepped W s out s'"
proof -
  let ?r = "r\<lparr>run_completed_at := Some (c_now ctx), run_updated_at := c_now ctx\<rparr>"
  obtain r' e t where c: "commitRun W ctx spec ?r s = Inr (r', e, t)"
    and s': "s' = releaseAllWaits (c_defer_cleanup ctx) (snd (releaseAllHooks (c_defer_cleanup ctx) t))"
    and out: "out = Success (ok\<lparr>so_event := Some e, so_run := Some r',
      so_released := fst (releaseAllHooks (c_defer_cleanup ctx) t)\<rparr>)"
    using r by (auto simp: finishRun_def bindE_eq_Inr Let_def case_prod_beta)
  have e: "e = eventRecord W ctx spec (c_body ctx) (Suc (es_seq s))"
    using c by (auto simp: commitRun_def bind_parse [OF W(1)] Let_def)
  have legal: "legal W (event_log W s) e" if "ev_body e = strip_body (c_body ctx)" for e
    using that b live by (cases "c_body ctx") (auto simp: legal_def)
  have "run_event (c_body ctx)" "\<not> is_attr_set (c_body ctx)" using b by (cases "c_body ctx"; simp)+
  then have "appended W e s t"
    using commitRun_refines [OF W(1) s legal _ _ _ ev _ _ c] live exp by (simp add: compact_run_def)
  moreover have "\<not> run_live W (event_log W s @ [e])"
    using ev [of "Suc (es_seq s)"] fin W(2)
    by (simp add: run_live_def e terminal_specsD compact_run_def)
  ultimately show ?thesis using released_keeps by (auto simp: stepped_def out s')
qed


text \<open>The stored run is the replayed one up to the stamp retention puts on it.\<close>

lemma stored_run:
  assumes "cell_ok W s" "get_run (es_kv s) = Some r"
  obtains r0 where "replay_run W (event_log W s) = Some r0" "r = r0\<lparr>run_expired_at := run_expired_at r\<rparr>"
proof -
  have "run_expiry (es_kv s) = run_expired_at r"
    using assms(2) by (simp add: run_expiry_def)
  then have "expiring (run_expired_at r) (replay_run W (event_log W s)) = Some r"
    using reflects_getD(1) [OF cell_okD(1) [OF assms(1)]] assms(2) by simp
  then have "\<exists>r0. replay_run W (event_log W s) = Some r0 \<and> r0\<lparr>run_expired_at := run_expired_at r\<rparr> = r"
    by (simp add: expiring_def)
  then show thesis using that by metis
qed

lemma stored_live:
  assumes "cell_ok W s" "get_run (es_kv s) = Some r"
  shows "run_live W (event_log W s) \<longleftrightarrow> \<not> terminal_run W (run_state r)"
    "replay_run W (event_log W s) \<noteq> None"
    "map_option run_state (replay_run W (event_log W s)) = Some (run_state r)"
proof -
  obtain r0 where r0: "replay_run W (event_log W s) = Some r0"
    "r = r0\<lparr>run_expired_at := run_expired_at r\<rparr>" by (rule stored_run [OF assms])
  moreover have "run_state r = run_state r0" by (subst r0(2)) simp
  ultimately show "run_live W (event_log W s) \<longleftrightarrow> \<not> terminal_run W (run_state r)"
    "replay_run W (event_log W s) \<noteq> None"
    "map_option run_state (replay_run W (event_log W s)) = Some (run_state r)"
    by (simp_all add: run_live_def)
qed

lemma compact_js_idem [simp]: "compact_js (compact_js v) = compact_js v"
  by (cases v rule: compact_js.cases) simp_all

lemma onRunFinish_refines:
  assumes W: "schemas_ok W" "terminal_specs W" and s: "cell_ok W s"
    and cur: "get_run (es_kv s) = Some r" and live: "\<not> terminal_run W (run_state r)"
  shows
    "c_body ctx = RunCompleted v \<Longrightarrow> onRunCompleted W ctx spec (Some r) v s = Inr (out, s') \<Longrightarrow>
       stepped W s out s'"
    "c_body ctx = RunFailed err code \<Longrightarrow> onRunFailed W ctx spec (Some r) err code s = Inr (out, s')
       \<Longrightarrow> stepped W s out s'"
    "c_body ctx = RunCancelled \<Longrightarrow> onRunCancelled W ctx spec (Some r) s = Inr (out, s') \<Longrightarrow>
       stepped W s out s'"
proof -
  obtain r0 where q: "replay_run W (event_log W s) = Some r0"
    "r = r0\<lparr>run_expired_at := run_expired_at r\<rparr>" by (rule stored_run [OF s cur])
  then obtain x where r0: "replay_run W (event_log W s) = Some r0" "r = r0\<lparr>run_expired_at := x\<rparr>"
    by blast
  have l: "run_live W (event_log W s)" "\<not> terminal_run W (run_state r0)"
    using stored_live(1) [OF s cur] live r0 by auto
  have ex: "run_expiry (es_kv s) = x" by (simp add: run_expiry_def cur r0)
  note fin = finishRun_refines [OF W s _ l(1), where x = "run_expired_at r0"]
  show "c_body ctx = RunCompleted v \<Longrightarrow> onRunCompleted W ctx spec (Some r) v s = Inr (out, s') \<Longrightarrow>
       stepped W s out s'"
    unfolding onRunCompleted_def option.case
    by (erule fin [rotated -1]) (auto simp: r0 ex l change_run_def finished_run_def Let_def)
  show "c_body ctx = RunFailed err code \<Longrightarrow> onRunFailed W ctx spec (Some r) err code s = Inr (out, s')
       \<Longrightarrow> stepped W s out s'"
    unfolding onRunFailed_def option.case
    by (erule fin [rotated -1]) (auto simp: r0 ex l change_run_def finished_run_def Let_def)
  show "c_body ctx = RunCancelled \<Longrightarrow> onRunCancelled W ctx spec (Some r) s = Inr (out, s') \<Longrightarrow>
       stepped W s out s'"
    unfolding onRunCancelled_def option.case
    by (erule fin [rotated -1]) (auto simp: r0 ex l change_run_def finished_run_def Let_def)
qed

lemma onRunCreated_refines:
  assumes W: "schemas_ok W" and s: "cell_ok W s" and b: "c_body ctx = RunCreated d"
    and empty: "replay_run W (event_log W s) = None \<Longrightarrow> event_log W s = []"
    and r: "onRunCreated W ctx spec d s = Inr (out, s')"
  shows "stepped W s out s'"
proof (cases "get_run (es_kv s)")
  case (Some x)
  then show ?thesis using r by (auto simp: onRunCreated_def stepped_def)
next
  case None
  then have n: "replay_run W (event_log W s) = None"
    using reflects_getD(1) [OF cell_okD(1) [OF s]] by (cases "replay_run W (event_log W s)") auto
  obtain r' e where c: "commitRun W ctx spec (newRun ctx spec d) s = Inr (r', e, s')"
    and out: "out = Success (ok\<lparr>so_event := Some e, so_run := Some r',
                 so_run_created := Some (ri_workflow d, c_now ctx)\<rparr>)"
    using r None by (auto simp: onRunCreated_def bindE_eq_Inr)
  have x: "compact_run (newRun ctx spec d) = (newRun ctx spec d)\<lparr>run_expired_at :=
      run_expired_at (newRun ctx spec d)\<rparr>" "run_expired_at (newRun ctx spec d) = run_expiry (es_kv s)"
    by (simp_all add: newRun_def compact_run_def run_expiry_def None)
  have "appended W e s s'"
    by (rule conjunct1 [OF commitRun_refines [OF W s _ _ _ _ _ x c]])
      (simp_all add: b legal_def n empty [OF n])
  then show ?thesis by (auto simp: stepped_def out)
qed


definition started_run :: "int \<Rightarrow> wf_run \<Rightarrow> wf_run" where
  "started_run now r = r\<lparr>run_state := Running, run_output := None, run_error := None,
     run_completed_at := None, run_started_at := Some (nullish (run_started_at r) now),
     run_updated_at := now\<rparr>"

lemma started_stamp:
  "x = r\<lparr>run_expired_at := y\<rparr> \<Longrightarrow>
     compact_run (started_run now x) =
       (compact_run (started_run now r))\<lparr>run_expired_at := run_expired_at (started_run now x)\<rparr>"
  "x = r\<lparr>run_expired_at := y\<rparr> \<Longrightarrow> run_expired_at (started_run now x) = y"
  by (simp_all add: compact_run_def started_run_def)

lemma onRunStarted_refines:
  assumes W: "schemas_ok W" and s: "cell_ok W s" and b: "c_body ctx = RunStarted h"
    and cur: "cur = get_run (es_kv s)"
    and live: "\<And>r. cur = Some r \<Longrightarrow> \<not> terminal_run W (run_state r)"
    and r: "onRunStarted W ctx spec cur boot s = Inr (out, s')"
  shows "stepped W s out s'"
proof (cases cur)
  case None
  then show ?thesis using r by (auto simp: onRunStarted_def stepped_def)
next
  case (Some x)
  show ?thesis
  proof (cases "run_state x = Running")
    case True
    then show ?thesis using r Some by (auto simp: onRunStarted_def stepped_def)
  next
    case False
    have g: "get_run (es_kv s) = Some x" using cur Some by simp
    have l: "run_live W (event_log W s)" "map_option run_state (replay_run W (event_log W s)) \<noteq> Some Running"
      using stored_live [OF s g] live Some False by auto
    obtain r0 where r0: "replay_run W (event_log W s) = Some r0"
      "x = r0\<lparr>run_expired_at := run_expired_at x\<rparr>" by (rule stored_run [OF s g])
    then obtain y where y: "x = r0\<lparr>run_expired_at := y\<rparr>" by blast
    have ex: "run_expiry (es_kv s) = y" by (simp add: run_expiry_def g) (simp add: y)
    let ?r = "started_run (c_now ctx) x"
    obtain r' e where c: "commitRun W ctx spec ?r s = Inr (r', e, s')"
      and out: "out = Success (preloadEvents W ctx (ok\<lparr>so_event := Some e, so_run := Some r',
          so_run_created := boot, so_max_events := Some (max_events_per_run W)\<rparr>) (es_kv s'))"
      using r Some False by (auto simp: onRunStarted_def bindE_eq_Inr started_run_def)
    have z: "compact_run ?r = (compact_run (started_run (c_now ctx) r0))\<lparr>run_expired_at := run_expired_at ?r\<rparr>"
      "run_expired_at ?r = run_expiry (es_kv s)"
      using started_stamp [OF y] ex by simp_all
    have ev: "evolve_run W (eventRecord W ctx spec (c_body ctx) n) (replay_run W (event_log W s))
        = Some (compact_run (started_run (c_now ctx) r0))" for n
      using l(1) by (simp add: b r0(1) started_run_def change_run_def Let_def run_live_def)
    have "appended W e s s'"
      by (rule conjunct1 [OF commitRun_refines [OF W s _ _ _ _ ev z c]]) (use l in \<open>simp_all add: b legal_def\<close>)
    then show ?thesis by (auto simp: stepped_def out preloadEvents_def split: prod.splits)
  qed
qed

lemma onAttrSet_refines:
  assumes W: "schemas_ok W" and s: "cell_ok W s" and b: "c_body ctx = AttrSet cid d"
    and cur: "get_run (es_kv s) = Some x" and live: "\<not> terminal_run W (run_state x)"
    and r: "onAttrSet W ctx spec (Some x) cid d s = Inr (out, s')"
  shows "stepped W s out s'"
proof (cases "\<exists>k. attr_marker cid d = Some k \<and> kv_get k (es_kv s) \<noteq> None")
  case True
  then show ?thesis using r by (auto simp: onAttrSet_def stepped_def bind_ensure)
next
  case False
  have l: "run_live W (event_log W s)" using stored_live [OF s cur] live by auto
  obtain r0 where r0: "replay_run W (event_log W s) = Some r0"
    "x = r0\<lparr>run_expired_at := run_expired_at x\<rparr>" by (rule stored_run [OF s cur])
  then obtain y where y: "x = r0\<lparr>run_expired_at := y\<rparr>" by blast
  have ex: "run_expiry (es_kv s) = y" by (simp add: run_expiry_def cur) (simp add: y)
  let ?e = "eventRecord W ctx spec (AttrSet cid d) (Suc (es_seq s))"
  let ?r = "compact_run (x\<lparr>run_attrs := apply_attr_changes W (run_attrs x) (as_changes d),
                  run_updated_at := c_now ctx\<rparr>)"
  let ?s = "put_kv run_key (VRun ?r) (s\<lparr>es_seq := Suc (es_seq s)\<rparr>)"
  have e: "evolve_run W ?e (replay_run W (event_log W s)) = Some (?r\<lparr>run_expired_at := run_expired_at r0\<rparr>)"
    using l r0(1) by (simp add: change_run_def run_live_def y Let_def compact_run_def)
  have s': "s' = (case attr_marker cid d of None \<Rightarrow> putEvent ?e ?s
      | Some k \<Rightarrow> putEvent ?e (put_kv k (VStr (ev_id ?e)) ?s))" and out: "\<exists>o1. out = Success o1 \<and> so_event o1 = Some ?e"
    using r False b by (auto simp: onAttrSet_def commitRun_def bind_ensure bindE_assoc
        bind_parse [OF W] Let_def split: option.splits)
  have "\<not> list_ex (writes_attr k) (event_log W s)"
    if "writes_attr k ?e" "k \<noteq> []" for k
    using that False cell_okD(1) [OF s]
    by (auto simp: reflects_def writes_attr_def attr_marker_def)
  then have "legal W (event_log W s) ?e" using l by (simp add: legal_def)
  moreover have q: "?r\<lparr>run_expired_at := run_expired_at r0\<rparr>\<lparr>run_expired_at := y\<rparr> = ?r"
    by (cases r0) (simp add: y compact_run_def)
  have "reflects W (event_log W s @ [?e]) (let s = kv_put run_key (VRun ?r) (es_kv s)
      in case attr_marker cid d of None \<Rightarrow> s | Some k \<Rightarrow> kv_put k (VStr (ev_id ?e)) s)"
    using reflects_attr [OF cell_okD(1) [OF s] _ l e refl, where c = cid and d = d
        and x = y and i = "ev_id ?e"]
    unfolding q by simp
  ultimately have "appended W ?e s s'"
    unfolding s' by (auto intro!: appended_put simp: attr_marker_def Let_def ex split: if_splits)
      (simp_all add: compact_run_def y)
  then show ?thesis using out by (auto simp: stepped_def)
qed


section \<open>The whole application\<close>

lemma evolve_run_Some [simp]: "evolve_run W e (Some r) \<noteq> None"
  by simp

lemma legal_log_started: "legal_log W l \<Longrightarrow> replay_run W l = None \<Longrightarrow> l = []"
proof (induction rule: legal_log.induct)
  case (legal_snoc l e)
  then have "replay_run W l = None" by (cases "replay_run W l") auto
  moreover from this have "evolve_run W e None = None" using legal_snoc.prems by simp
  ultimately have "l = []" "evolve_run W e None = None" using legal_snoc by auto
  then show ?case using legal_snoc.hyps(2)
    by (cases "ev_body e") (auto simp: legal_def run_live_def step_usable_def)
qed simp

lemma terminalRunGuard_refines:
  assumes W: "schemas_ok W" "terminal_specs W" and s: "cell_ok W s"
    and cur: "cur = None \<or> cur = get_run (es_kv s)"
    and g: "terminalRunGuard W ctx spec cur s = Some a" and r: "a = Inr (out, s')"
  shows "stepped W s out s'"
proof -
  obtain x where x: "cur = Some x" "get_run (es_kv s) = Some x"
    using g cur by (cases cur) (auto simp: terminalRunGuard_def)
  obtain r0 where r0: "replay_run W (event_log W s) = Some r0"
      "x = r0\<lparr>run_expired_at := run_expired_at x\<rparr>" by (rule stored_run [OF s x(2)])
  note l = stored_live [OF s x(2)]
  show ?thesis
  proof (cases "c_body ctx = RunCancelled \<and> run_state x = Cancelled \<and> terminal_run W (run_state x)")
    case False
    then show ?thesis using g r x(1)
      by (auto simp: terminalRunGuard_def stepped_def split: if_splits)
  next
    case True
    let ?e = "eventRecord W ctx spec RunCancelled (Suc (es_seq s))"
    have "evolve_run W ?e (replay_run W (event_log W s)) = replay_run W (event_log W s)"
      using l True r0 by (auto simp: run_live_def)
    then have "reflects W (event_log W s @ [?e]) (es_kv s)"
      using cell_okD(1) [OF s] l(1) True by (simp add: reflects_def run_live_def creates_hook_def)
    moreover have "legal W (event_log W s) ?e" using l True by (simp add: legal_def)
    ultimately show ?thesis using g r x(1) True
      by (auto simp: terminalRunGuard_def stepped_def bind_parse [OF W(1)] Let_def intro!: appended_put)
  qed
qed


definition at_dispatch ::
    "world_api \<Rightarrow> apply_ctx \<Rightarrow> wf_run option \<Rightarrow> step option \<Rightarrow> rval kv \<Rightarrow> bool" where
  "at_dispatch W ctx cur vstep s \<longleftrightarrow>
     (\<forall>r. cur = Some r \<and> terminal_run W (run_state r) \<longrightarrow>
        \<not> is_run_started (c_body ctx) \<and> \<not> is_run_finish (c_body ctx) \<and>
        \<not> child_creation W (c_body ctx) \<and> \<not> is_attr_set (c_body ctx)) \<and>
     stepGuard W (c_body ctx) cur s = Inr vstep \<and> hookResumeGuard ctx s = None \<and>
     hookOrderGuard W ctx cur s = None \<and>
     (skip_run_validation (c_body ctx) \<or> is_run_started (c_body ctx) \<or> cur \<noteq> None)"

lemma terminalRunGuard_None:
  "terminalRunGuard W ctx spec cur s = None \<Longrightarrow>
     \<forall>r. cur = Some r \<and> terminal_run W (run_state r) \<longrightarrow>
        \<not> is_run_started (c_body ctx) \<and> \<not> is_run_finish (c_body ctx) \<and>
        \<not> child_creation W (c_body ctx) \<and> \<not> is_attr_set (c_body ctx)"
  by (auto simp: terminalRunGuard_def split: if_splits)

lemma afterBootstrap_cases:
  assumes r: "afterBootstrap W ctx spec cur boot s = Inr (out, s')"
  shows "terminalRunGuard W ctx spec cur s = Some (Inr (out, s')) \<or> s' = s \<or>
    (\<exists>vstep. at_dispatch W ctx cur vstep (es_kv s) \<and>
       dispatchEvent W ctx spec cur boot vstep s = Inr (out, s'))"
proof (cases "terminalRunGuard W ctx spec cur s")
  case None
  note t = terminalRunGuard_None [OF None]
  show ?thesis
  proof (cases "stepGuard W (c_body ctx) cur (es_kv s)")
    case (Inr vstep)
    show ?thesis
    proof (cases "hookResumeGuard ctx (es_kv s) = None \<and> hookOrderGuard W ctx cur (es_kv s) = None")
      case True
      then show ?thesis using r None Inr t
        by (auto simp: afterBootstrap_def at_dispatch_def split: if_splits)
    next
      case False
      then show ?thesis using r None Inr
        by (auto simp: afterBootstrap_def split: option.splits)
    qed
  qed (use r None in \<open>simp add: afterBootstrap_def\<close>)
qed (use r in \<open>simp add: afterBootstrap_def\<close>)

lemma dispatch_run_refines:
  assumes W: "schemas_ok W" "terminal_specs W" and s: "cell_ok W s"
    and cur: "cur = (if skip_run_validation (c_body ctx) then None else get_run (es_kv s))"
    and g: "at_dispatch W ctx cur vstep (es_kv s)" and b: "run_event (c_body ctx)"
    and r: "dispatchEvent W ctx spec cur boot vstep s = Inr (out, s')"
  shows "stepped W s out s'"
proof (cases "c_body ctx")
  case (RunCreated d)
  then show ?thesis using onRunCreated_refines [OF W(1) s RunCreated legal_log_started] r cell_okD(2) [OF s]
    by (simp add: dispatchEvent_def)
next
  case (RunStarted h)
  then show ?thesis
    using onRunStarted_refines [OF W(1) s RunStarted, of cur spec boot out s'] r cur g
    by (auto simp: dispatchEvent_def at_dispatch_def)
next
  case (AttrSet c d)
  then obtain x where "cur = Some x" "get_run (es_kv s) = Some x" "\<not> terminal_run W (run_state x)"
    using cur g by (auto simp: at_dispatch_def)
  then show ?thesis using onAttrSet_refines [OF W(1) s AttrSet] r AttrSet by (simp add: dispatchEvent_def)
next
  case (RunCompleted v)
  then obtain x where "cur = Some x" "get_run (es_kv s) = Some x" "\<not> terminal_run W (run_state x)"
    using cur g by (auto simp: at_dispatch_def)
  then show ?thesis using onRunFinish_refines(1) [OF W s _ _ RunCompleted] r RunCompleted
    by (simp add: dispatchEvent_def)
next
  case (RunFailed err code)
  then obtain x where "cur = Some x" "get_run (es_kv s) = Some x" "\<not> terminal_run W (run_state x)"
    using cur g by (auto simp: at_dispatch_def)
  then show ?thesis using onRunFinish_refines(2) [OF W s _ _ RunFailed] r RunFailed
    by (simp add: dispatchEvent_def)
next
  case RunCancelled
  then obtain x where "cur = Some x" "get_run (es_kv s) = Some x" "\<not> terminal_run W (run_state x)"
    using cur g by (auto simp: at_dispatch_def)
  then show ?thesis using onRunFinish_refines(3) [OF W s _ _ RunCancelled] r RunCancelled
    by (simp add: dispatchEvent_def)
qed (use b in simp_all)

end
