(* ===== verification/ApplyCorrect.thy ===== *)
theory ApplyCorrect
  imports ApplyRefine
begin

text \<open>
  \<open>applyEvent\<close> as a whole: every success appends only legal events and keeps the store the
  fold of its journal, every failure leaves the state alone.
\<close>

lemma stepGuard_Inr:
  assumes "stepGuard W b cur s = Inr v" "step_event_id b = Some c"
  shows "v = get_step c s"
    "\<And>x. v = Some x \<Longrightarrow> \<not> terminal_step W (step_state x) \<and>
       (\<forall>r. cur = Some r \<longrightarrow> terminal_run W (run_state r) \<longrightarrow> step_state x = Step_Running)"
    "v = None \<Longrightarrow> is_step_started b \<and> child_creation W b"
  using assms by (auto simp: stepGuard_def Let_def split: if_splits option.splits)

lemma usable_step:
  assumes s: "cell_ok W s" and cur: "cur = get_run (es_kv s)" "cur = Some r"
    and g: "stepGuard W b cur (es_kv s) = Inr v" and c: "step_event_id b = Some c" "v \<noteq> None"
  shows "step_usable W (event_log W s) c"
proof -
  have gr: "get_run (es_kv s) = Some r" using cur by simp
  obtain x where "v = Some x" "replay_step c (event_log W s) = Some x"
    using stepGuard_Inr(1) [OF g c(1)] c(2) reflects_getD(2) [OF cell_okD(1) [OF s]] by auto
  then show ?thesis using stepGuard_Inr(2) [OF g c(1)] stored_live [OF s gr] cur
    by (auto simp: step_usable_def)
qed

lemma commitStep_dispatch:
  assumes W: "schemas_ok W" "slots_ok W" and s: "cell_ok W s"
    and g: "stepGuard W (c_body ctx) cur (es_kv s) = Inr vstep"
    and c: "step_event_id (c_body ctx) = Some c" "\<not> is_step_started (c_body ctx)"
    and use: "(\<forall>e. ev_body e = c_body ctx \<and> step_open W (replay_step c (event_log W s)) \<longrightarrow>
                 legal W (event_log W s) e) \<or> cur = get_run (es_kv s) \<and> cur \<noteq> None \<and>
              (\<forall>e. ev_body e = c_body ctx \<and> step_usable W (event_log W s) c \<longrightarrow>
                 legal W (event_log W s) e)"
    and ev: "\<And>x e. ev_body e = c_body ctx \<Longrightarrow> ev_created_at e = c_now ctx \<Longrightarrow>
       evolve_step c e (Some x) = Some (f x)"
    and r: "commitStep W ctx spec c vstep f s = Inr (out, s')"
  shows "advanced W s out s'"
proof -
  have b: "strip_body (c_body ctx) = c_body ctx" "step_subject (c_body ctx) = Some c"
    using c by (cases "c_body ctx"; simp)+
  obtain x where x: "vstep = Some x" using stepGuard_Inr(3) [OF g c(1)] c(2) by auto
  have "replay_step c (event_log W s) = Some x"
    using stepGuard_Inr(1) [OF g c(1)] x reflects_getD(2) [OF cell_okD(1) [OF s]] by metis
  then have "step_open W (replay_step c (event_log W s))"
    using stepGuard_Inr(2) [OF g c(1) x] by simp
  moreover have "cur = get_run (es_kv s) \<and> cur \<noteq> None \<longrightarrow> step_usable W (event_log W s) c"
    using usable_step [OF s _ _ g c(1)] x by auto
  ultimately have l: "legal W (event_log W s) e" if "ev_body e = c_body ctx" for e
    using use that by blast
  have "stepped W s out s'"
    by (rule commitStep_refines [OF W(1) s stepGuard_Inr(1) [OF g c(1)] _ _ _ r])
      (simp_all add: b l ev del: evolve_step.simps)
  then show ?thesis by (rule stepped_advanced [OF W(2) s])
qed

lemma dispatch_step_refines:
  assumes W: "schemas_ok W" "slots_ok W" "terminal_specs W" "child_creation_ok W" and s: "cell_ok W s"
    and cur: "cur = (if skip_run_validation (c_body ctx) then None else get_run (es_kv s))"
    and g: "at_dispatch W ctx cur vstep (es_kv s)" and b: "step_subject (c_body ctx) = Some c"
    and r: "dispatchEvent W ctx spec cur boot vstep s = Inr (out, s')"
  shows "advanced W s out s'"
proof -
  have sg: "stepGuard W (c_body ctx) cur (es_kv s) = Inr vstep" using g by (simp add: at_dispatch_def)
  show ?thesis
  proof (cases "c_body ctx")
    case (StepCreated c' d)
    then obtain x where x: "get_run (es_kv s) = Some x" "\<not> terminal_run W (run_state x)"
      using cur g W(4) by (auto simp: at_dispatch_def child_creation_ok_def)
    then have "run_live W (event_log W s)" using stored_live [OF s] by auto
    then show ?thesis
      using onStepCreated_refines [OF W(1) s _ StepCreated] r StepCreated stepped_advanced [OF W(2) s]
      by (simp add: dispatchEvent_def)
  next
    case (StepStarted c' h)
    then obtain x where x: "cur = get_run (es_kv s)" "cur = Some x"
      using cur g by (auto simp: at_dispatch_def)
    have v: "vstep = replay_step c' (event_log W s)"
      using stepGuard_Inr(1) [OF sg] StepStarted reflects_getD(2) [OF cell_okD(1) [OF s]] by simp
    have "run_live W (event_log W s)" if "vstep = None"
      using stepGuard_Inr(3) [OF sg _ that] StepStarted x g stored_live [OF s] by (auto simp: at_dispatch_def)
    moreover have "step_usable W (event_log W s) c'" if "vstep \<noteq> None"
      using usable_step [OF s x sg _ that] StepStarted by simp
    ultimately show ?thesis
      using onStepStarted_refines [OF W(1-3) s StepStarted v] r StepStarted
      by (simp add: dispatchEvent_def)
  next
    case (StepCompleted c' v)
    show ?thesis
      by (rule commitStep_dispatch [OF W(1,2) s sg, where c = c' and spec = spec and f = "completedStep ctx v"])
        (use r StepCompleted in \<open>simp_all add: dispatchEvent_def legal_def completedStep_def Let_def\<close>)
  next
    case (StepRetrying c' v t)
    show ?thesis
      by (rule commitStep_dispatch [OF W(1,2) s sg, where c = c' and spec = spec and f = "retryingStep ctx v t"])
        (use r StepRetrying in \<open>simp_all add: dispatchEvent_def legal_def retryingStep_def Let_def\<close>)
  next
    case (StepFailed c' v)
    show ?thesis
      by (rule commitStep_dispatch [OF W(1,2) s sg, where c = c' and spec = spec and f = "failedStep ctx v"])
        (use r StepFailed cur g in \<open>simp_all add: dispatchEvent_def legal_def failedStep_def Let_def at_dispatch_def\<close>)
  qed (use b in simp_all)
qed

lemma hookOrderGuard_None:
  assumes "hookOrderGuard W ctx cur s = None" "c_body ctx = HookReceived c d" "c \<noteq> []"
  shows "get_hook c s \<noteq> None" "\<And>r. cur = Some r \<Longrightarrow> \<not> terminal_run W (run_state r)"
  using assms by (auto simp: hookOrderGuard_def split: if_splits option.splits)

lemma log_atD:
  assumes "log_at W n s" "kv_get (event_key i) s = Some v"
  shows "\<exists>k. 1 \<le> k \<and> k \<le> n \<and> i = slot_to_event_id W k" "\<exists>e. v = VEvent e \<and> ev_id e = i"
  using assms unfolding log_at_def by (metis option.distinct(1))+

lemma reflects_resumeD:
  assumes "reflects W l s"
  shows "k \<noteq> [] \<Longrightarrow> list_ex (delivers k) l \<Longrightarrow> kv_get (hook_resume_key k) s \<noteq> None"
    "kv_get (hook_resume_key k) s = Some v \<Longrightarrow>
       \<exists>cl. v = VResume cl \<and> (\<exists>e \<in> set l. ev_id e = rc_event cl \<and> delivers_to k (rc_hook cl) e)"
proof -
  note r = assms [unfolded reflects_def]
  show "k \<noteq> [] \<Longrightarrow> list_ex (delivers k) l \<Longrightarrow> kv_get (hook_resume_key k) s \<noteq> None"
    using r by (metis truthy_simps(2))
  show "kv_get (hook_resume_key k) s = Some v \<Longrightarrow>
       \<exists>cl. v = VResume cl \<and> (\<exists>e \<in> set l. ev_id e = rc_event cl \<and> delivers_to k (rc_hook cl) e)"
    using r by blast
qed

lemma event_in_log:
  assumes l: "log_inv W s" and e: "get_event i (es_kv s) = Some e"
  shows "e \<in> set (event_log W s) \<and> ev_id e = i"
proof -
  have v: "kv_get (event_key i) (es_kv s) = Some (VEvent e)"
    using e by (cases "kv_get (event_key i) (es_kv s)") (auto simp: get_event_def simp del: as_event.simps)
  then obtain k where k: "1 \<le> k" "k \<le> es_seq s" "i = slot_to_event_id W k" "ev_id e = i"
    using log_atD [OF l v] by auto
  then have "e \<in> set (List.map_filter (\<lambda>k. get_event (slot_to_event_id W k) (es_kv s)) [1..<Suc (es_seq s)])"
    using e by (auto simp: List.map_filter_def image_iff simp del: upt_Suc intro!: bexI [of _ k])
  then show ?thesis using k by (simp add: event_log_def)
qed

lemma log_event_get:
  assumes l: "log_inv W s" and e: "e \<in> set (event_log W s)"
  shows "get_event (ev_id e) (es_kv s) = Some e"
proof -
  obtain k where k: "get_event (slot_to_event_id W k) (es_kv s) = Some e"
    using e by (auto simp: event_log_def List.map_filter_def simp del: upt_Suc)
  then show ?thesis using event_in_log [OF l k] by simp
qed

text \<open>A resume id whose marker is set cannot get past the resume guard.\<close>

lemma hookResumeGuard_None:
  assumes s: "cell_ok W s" and g: "hookResumeGuard ctx (es_kv s) = None"
    and b: "c_body ctx = HookReceived c d" and k: "c_resume_id ctx = Some k" "k \<noteq> []"
  shows "\<not> list_ex (delivers k) (event_log W s)"
proof
  assume "list_ex (delivers k) (event_log W s)"
  then obtain v where v: "kv_get (hook_resume_key k) (es_kv s) = Some v"
    using reflects_resumeD(1) [OF cell_okD(1) [OF s] k(2)] by blast
  then obtain cl e where "v = VResume cl" "e \<in> set (event_log W s)" "ev_id e = rc_event cl"
    using reflects_resumeD(2) [OF cell_okD(1) [OF s]] by blast
  moreover from this have "get_event (rc_event cl) (es_kv s) = Some e"
    using log_event_get [OF cell_okD(3) [OF s]] by metis
  ultimately show False using g b k v
    by (auto simp: hookResumeGuard_def get_resume_def split: if_splits event_body.splits)
qed

lemma live_at_creation:
  assumes W: "child_creation_ok W" and s: "cell_ok W s" and cur: "cur = get_run (es_kv s)"
    and g: "at_dispatch W ctx cur vstep (es_kv s)"
    and b: "c_body ctx = HookCreated c d \<or> c_body ctx = WaitCreated c t"
  shows "run_live W (event_log W s)"
proof -
  obtain x where "get_run (es_kv s) = Some x" "\<not> terminal_run W (run_state x)"
    using cur g W b by (auto simp: at_dispatch_def child_creation_ok_def)
  then show ?thesis using stored_live [OF s] by auto
qed

lemma dispatch_other_refines:
  assumes W: "schemas_ok W" "child_creation_ok W" and s: "cell_ok W s"
    and cur: "cur = (if skip_run_validation (c_body ctx) then None else get_run (es_kv s))"
    and g: "at_dispatch W ctx cur vstep (es_kv s)"
    and b: "\<not> run_event (c_body ctx)" "step_subject (c_body ctx) = None"
    and r: "dispatchEvent W ctx spec cur boot vstep s = Inr (out, s')"
  shows "stepped W s out s'"
proof -
  have cur': "cur = get_run (es_kv s)" "cur \<noteq> None"
    using cur g b by (cases "c_body ctx"; simp add: at_dispatch_def)+
  then obtain x where x: "cur = Some x" "get_run (es_kv s) = Some x" by auto
  note run = stored_live(2) [OF s x(2)] and live = live_at_creation [OF W(2) s cur'(1) g]
  show ?thesis
  proof (cases "c_body ctx")
    case (HookCreated c d)
    then show ?thesis using onHookCreated_refines [OF W(1) s live HookCreated] r
      by (simp add: dispatchEvent_def)
  next
    case (HookReceived c d)
    have "run_live W (event_log W s) \<and> replay_hook c (event_log W s) \<noteq> None" if "c \<noteq> []"
    proof -
      have "hookOrderGuard W ctx cur (es_kv s) = None" using g by (simp add: at_dispatch_def)
      note h = hookOrderGuard_None [OF this HookReceived that]
      then show ?thesis using stored_live(1) [OF s x(2)] x(1) reflects_getD(3) [OF cell_okD(1) [OF s]]
        by auto
    qed
    moreover have "\<not> list_ex (delivers k) (event_log W s)"
      if "truthy (c_resume_id ctx)" "c_resume_id ctx = Some k" for k
      using hookResumeGuard_None [OF s _ HookReceived that(2)] that g by (simp add: at_dispatch_def)
    ultimately show ?thesis using onEventOnly_received [OF W(1) s HookReceived run] r HookReceived
      by (simp add: dispatchEvent_def)
  next
    case (HookDisposed c d)
    then show ?thesis using onHookDisposed_refines [OF W(1) s run HookDisposed] r
      by (simp add: dispatchEvent_def)
  next
    case (HookConflict c d)
    then show ?thesis using onEventOnly_conflict [OF W(1) s HookConflict run] r
      by (simp add: dispatchEvent_def)
  next
    case (WaitCreated c t)
    then show ?thesis using onWaitCreated_refines [OF W(1) s live WaitCreated] r
      by (simp add: dispatchEvent_def)
  next
    case (WaitCompleted c t)
    then show ?thesis using onWaitCompleted_refines [OF W(1) s run WaitCompleted] r
      by (simp add: dispatchEvent_def)
  qed (use b in simp_all)
qed

lemma afterBootstrap_refines:
  assumes W: "schemas_ok W" "slots_ok W" "terminal_specs W" "child_creation_ok W" and s: "cell_ok W s"
    and cur: "cur = (if skip_run_validation (c_body ctx) then None else get_run (es_kv s))"
    and r: "afterBootstrap W ctx spec cur boot s = Inr (out, s')"
  shows "advanced W s out s'"
proof -
  note adv = stepped_advanced [OF W(2) s]
  consider "terminalRunGuard W ctx spec cur s = Some (Inr (out, s'))" | "s' = s"
    | vstep where "at_dispatch W ctx cur vstep (es_kv s)"
        "dispatchEvent W ctx spec cur boot vstep s = Inr (out, s')"
    using afterBootstrap_cases [OF r] by blast
  then show ?thesis
  proof cases
    case 1
    then show ?thesis using terminalRunGuard_refines [OF W(1,3) s _ 1 refl] cur adv by (auto split: if_splits)
  next
    case 2
    then show ?thesis using s by (cases out) (auto simp: advanced_def)
  next
    case 3
    show ?thesis
    proof (cases "run_event (c_body ctx)")
      case True
      then show ?thesis using dispatch_run_refines [OF W(1,3) s cur 3(1) True 3(2)] adv by simp
    next
      case False
      show ?thesis
      proof (cases "step_subject (c_body ctx)")
        case None
        then show ?thesis using dispatch_other_refines [OF W(1,4) s cur 3(1) False None 3(2)] adv by simp
      next
        case (Some c)
        then show ?thesis using dispatch_step_refines [OF W s cur 3(1) Some 3(2)] by simp
      qed
    qed
  qed
qed

text \<open>The resilient start: a run created by its own \<open>run_started\<close> is started in the same call.\<close>

lemma resilientStart_refines:
  assumes W: "schemas_ok W" "slots_ok W" and s: "cell_ok W s"
    and cur: "cur = get_run (es_kv s) \<or> bootstrap_init (c_body ctx) = None"
    and r: "resilientStart W ctx spec cur s = Inr (cur', boot, s1)"
  shows "(cur' = cur \<and> boot = None \<and> s1 = s) \<or>
    (\<exists>h d e. c_body ctx = RunStarted (Some h) \<and> cell_ok W s1 \<and> event_log W s1 = event_log W s @ [e] \<and>
       cur' = get_run (es_kv s1) \<and> cur' = Some (newRun ctx spec d) \<and>
       run_expiry (es_kv s1) = run_expiry (es_kv s))"
proof (cases "cur = None \<and> bootstrap_init (c_body ctx) \<noteq> None")
  case False
  then show ?thesis using r by (auto simp: resilientStart_def split: option.splits)
next
  case True
  then obtain d where d: "bootstrap_init (c_body ctx) = Some d" and c: "cur = None" by auto
  then obtain h where h: "c_body ctx = RunStarted (Some h)"
    by (cases "c_body ctx" rule: bootstrap_init.cases) auto
  let ?e = "eventRecord W ctx spec (RunCreated d) (Suc (es_seq s))"
  let ?r = "newRun ctx spec d"
  have s1: "s1 = putEvent ?e (put_kv run_key (VRun ?r) (s\<lparr>es_seq := Suc (es_seq s)\<rparr>))"
    and cur': "cur' = Some ?r"
    using r c d by (auto simp: resilientStart_def bind_ensure bind_parse [OF W(1)] Let_def)
  have "get_run (es_kv s) = None" using cur c d by auto
  then have n: "replay_run W (event_log W s) = None"
    using reflects_getD(1) [OF cell_okD(1) [OF s]] by (cases "replay_run W (event_log W s)") auto
  have x: "?r\<lparr>run_expired_at := None\<rparr> = ?r" by (simp add: newRun_def compact_run_def)
  have "reflects W (event_log W s @ [?e]) (kv_put run_key (VRun (?r\<lparr>run_expired_at := None\<rparr>)) (es_kv s))"
    using n legal_log_started [OF cell_okD(2) [OF s] n] by (intro reflects_run cell_okD(1) [OF s]) simp_all
  then have "appended W ?e s s1"
    unfolding s1 x using n \<open>get_run (es_kv s) = None\<close>
    by (intro appended_put) (simp_all add: legal_def run_expiry_def get_run_def newRun_def compact_run_def)
  then have "cell_ok W s1 \<and> event_log W s1 = event_log W s @ [?e] \<and> run_expiry (es_kv s1) = run_expiry (es_kv s)"
    using appended_ok W s by blast
  moreover have "get_run (es_kv s1) = Some ?r" by (simp add: s1 get_run_def)
  ultimately show ?thesis using h cur' by auto
qed

lemma newRun_fields [simp]:
  "run_state (newRun ctx spec d) = Pending" "run_spec (newRun ctx spec d) = Some spec"
  by (simp_all add: newRun_def compact_run_def)

lemma log_slot:
  assumes "log_inv W s" "k \<in> set [1..<Suc (es_seq s)]"
  shows "\<exists>e. get_event (slot_to_event_id W k) (es_kv s) = Some e \<and> ev_id e = slot_to_event_id W k"
proof -
  have "kv_get (event_key (slot_to_event_id W k)) (es_kv s) \<noteq> None"
    using assms by (auto simp: log_at_def)
  then show ?thesis using log_atD(2) [OF assms(1)] by (fastforce simp: get_event_def)
qed

lemma map_filter_all:
  "(\<And>x. x \<in> set xs \<Longrightarrow> f x \<noteq> None) \<Longrightarrow> List.map_filter f xs = map (\<lambda>x. the (f x)) xs"
  by (induction xs) (auto simp: List.map_filter_simps split: option.splits)

lemma event_log_map:
  assumes "log_inv W s"
  shows "event_log W s = map (\<lambda>k. the (get_event (slot_to_event_id W k) (es_kv s))) [1..<Suc (es_seq s)]"
  unfolding event_log_def using log_slot [OF assms] by (intro map_filter_all) fastforce

lemma event_log_length: "log_inv W s \<Longrightarrow> length (event_log W s) = es_seq s"
  by (simp add: event_log_map del: upt_Suc)

lemma event_log_ids:
  assumes "log_inv W s"
  shows "map ev_id (event_log W s) = map (slot_to_event_id W) [1..<Suc (es_seq s)]"
proof -
  have "ev_id (the (get_event (slot_to_event_id W k) (es_kv s))) = slot_to_event_id W k"
    if "k \<in> set [1..<Suc (es_seq s)]" for k
    using log_slot [OF assms that] by auto
  then show ?thesis by (simp add: event_log_map [OF assms] del: upt_Suc)
qed

lemma bootstrap_succeeds:
  assumes "schemas_ok W" "terminal_specs W" "c_body ctx = RunStarted h" "run_state r = Pending"
    and "afterBootstrap W ctx spec (Some r) boot s = Inr (out, s')"
  shows "(\<exists>x. out = Success x) \<and> es_seq s' = Suc (es_seq s)"
  using assms
  by (auto simp: afterBootstrap_def terminalRunGuard_def terminal_specsD stepGuard_def
      hookResumeGuard_def hookOrderGuard_def dispatchEvent_def onRunStarted_def commitRun_def
      bind_parse Let_def bindE_assoc preloadEvents_def split: prod.splits)

lemma applyEvent_advances:
  assumes W: "schemas_ok W" "slots_ok W" "terminal_specs W" "child_creation_ok W" and s: "cell_ok W s"
    and r: "applyEvent W ctx s = Inr (out, s')"
  shows "advanced W s out s'"
proof -
  let ?spec = "nullish (c_spec ctx) (spec_current W)"
  let ?cur = "if skip_run_validation (c_body ctx) then None else get_run (es_kv s)"
  show ?thesis
  proof (cases "?spec = spec_current W")
    case False
    then show ?thesis using r by (auto simp: applyEvent_def Let_def advanced_def)
  next
    case True
    then obtain cur boot s1 where b: "resilientStart W ctx (spec_current W) ?cur s = Inr (cur, boot, s1)"
      using r by (auto simp: applyEvent_def Let_def bindE_eq_Inr)
    have q: "?cur = get_run (es_kv s) \<or> bootstrap_init (c_body ctx) = None"
      by (cases "c_body ctx") auto
    let ?bad = "case cur of None \<Rightarrow> False | Some r \<Rightarrow> run_spec r \<noteq> Some (spec_current W)"
    have rest: "if ?bad then (\<exists>f. out = Failure f) \<and> s' = s1
        else afterBootstrap W ctx (spec_current W) cur boot s1 = Inr (out, s')"
      using r b True by (auto simp: applyEvent_def Let_def)
    consider "cur = ?cur" "s1 = s" | h d e where "c_body ctx = RunStarted (Some h)" "cell_ok W s1"
      "event_log W s1 = event_log W s @ [e]" "cur = get_run (es_kv s1)"
      "cur = Some (newRun ctx (spec_current W) d)" "run_expiry (es_kv s1) = run_expiry (es_kv s)"
      using resilientStart_refines [OF W(1,2) s q b] by blast
    then show ?thesis
    proof cases
      case 1
      show ?thesis
      proof (cases ?bad)
        case True
        then show ?thesis using rest 1 by (auto simp: advanced_def)
      next
        case False
        then show ?thesis using rest 1 by (intro afterBootstrap_refines [OF W s 1(1)]) auto
      qed
    next
      case 2
      have a: "afterBootstrap W ctx (spec_current W) cur boot s1 = Inr (out, s')"
        using rest unfolding 2(5) by (simp add: newRun_def compact_run_def)
      then have "advanced W s1 out s'"
        by (rule afterBootstrap_refines [OF W 2(2), rotated]) (simp add: 2(1,4))
      moreover have b: "(\<exists>x. out = Success x) \<and> es_seq s' = Suc (es_seq s1)"
        using bootstrap_succeeds [OF W(1,3) 2(1) _ a [unfolded 2(5)]] by simp
      moreover have "event_log W s' \<noteq> event_log W s1" if "cell_ok W s'"
        using event_log_length [OF cell_okD(3) [OF that]] event_log_length [OF cell_okD(3) [OF 2(2)]] b
        by auto
      ultimately show ?thesis using 2(3,6) by (auto simp: advanced_def)
    qed
  qed
qed

section \<open>Histories\<close>

definition fresh_cell :: est where
  "fresh_cell = \<lparr>es_kv = [], es_seq = 0\<rparr>"

lemma fresh_ok: "cell_ok W fresh_cell"
  by (simp add: cell_ok_def fresh_cell_def log_at_def event_log_def reflects_def run_live_def
      legal_Nil List.map_filter_simps)

text \<open>A history: requests applied one after the other; one that throws changes nothing.\<close>

definition apply_one :: "world_api \<Rightarrow> apply_ctx \<Rightarrow> est \<Rightarrow> est" where
  "apply_one W ctx s = (case applyEvent W ctx s of Inl _ \<Rightarrow> s | Inr (_, s') \<Rightarrow> s')"

definition apply_all :: "world_api \<Rightarrow> apply_ctx list \<Rightarrow> est \<Rightarrow> est" where
  "apply_all W ctxs s = fold (apply_one W) ctxs s"

lemma apply_one_ok:
  assumes "schemas_ok W" "slots_ok W" "terminal_specs W" "child_creation_ok W" "cell_ok W s"
  shows "cell_ok W (apply_one W ctx s)"
proof (cases "applyEvent W ctx s")
  case (Inr p)
  then show ?thesis using applyEvent_advances [OF assms, of ctx "fst p" "snd p"] assms(5)
    by (cases "fst p") (auto simp: apply_one_def advanced_def split: prod.splits)
qed (simp add: apply_one_def assms(5))

lemma apply_all_ok:
  assumes "schemas_ok W" "slots_ok W" "terminal_specs W" "child_creation_ok W" "cell_ok W s"
  shows "cell_ok W (apply_all W ctxs s)"
  using assms(5) unfolding apply_all_def
  by (induction ctxs arbitrary: s) (simp_all add: apply_one_ok [OF assms(1-4)])

end
