(* ===== verification/StoreProperty.thy ===== *)
theory StoreProperty
  imports ApplyCorrect
begin

text \<open>
  What an event may touch.  Handlers write and delete keys of a fixed set of spaces only; the
  locale \<open>store_property\<close> turns that into invariance of any property of the storage that such
  writes keep, once for all handlers.  Its two interpretations: the storage stays sorted, and
  every other key (retention records, queue claims, markers) keeps its value.
\<close>

section \<open>The spaces events write\<close>

definition written :: "space \<Rightarrow> bool" where
  "written p \<longleftrightarrow> p \<in> {Sp_Run, Sp_Event, Sp_Step, Sp_Hook, Sp_Wait, Sp_Step_Created,
     Sp_Hook_Created, Sp_Hook_Event, Sp_Hook_Released, Sp_Attr_Event, Sp_Hook_Resume, Sp_Hook_Forced}"

lemma written_simps [simp]:
  "written Sp_Run" "written Sp_Event" "written Sp_Step" "written Sp_Hook" "written Sp_Wait"
  "written Sp_Step_Created" "written Sp_Hook_Created" "written Sp_Hook_Event"
  "written Sp_Hook_Released" "written Sp_Attr_Event" "written Sp_Hook_Resume" "written Sp_Hook_Forced"
  by (simp_all add: written_def)

section \<open>Properties that events keep\<close>

locale store_property =
  fixes P :: "rval kv \<Rightarrow> bool"
  assumes put_written: "written p \<Longrightarrow> P s \<Longrightarrow> P (kv_put (key p i) v s)"
    and del_written: "written p \<Longrightarrow> P s \<Longrightarrow> P (kv_del (key p i) s)"
begin

definition kept :: "apply_exn + 'a \<times> est \<Rightarrow> bool" where
  "kept r \<longleftrightarrow> on_result r (\<lambda>(_, s). P (es_kv s))"

lemma put_index: "written p \<Longrightarrow> P s \<Longrightarrow> P (kv_put (creationIndexKey p t i) v s)"
  by (simp add: creationIndexKey_def put_written)

lemma del_index: "written p \<Longrightarrow> P s \<Longrightarrow> P (kv_del (creationIndexKey p t i) s)"
  by (simp add: creationIndexKey_def del_written)

lemma del_all_written: "(\<And>k. k \<in> set ks \<Longrightarrow> \<exists>p i. k = key p i \<and> written p) \<Longrightarrow> P s \<Longrightarrow> P (kv_del_all ks s)"
  unfolding kv_del_all_def
proof (induction ks arbitrary: s)
  case (Cons k ks)
  then obtain p i where "k = key p i" "written p" by (meson list.set_intros(1))
  then show ?case using Cons del_written by auto
qed simp

lemmas keeps = put_written del_written put_index del_index

lemma put_marker: "attr_marker c a = Some k \<Longrightarrow> P s \<Longrightarrow> P (kv_put k v s)"
  by (auto simp: attr_marker_def put_written split: if_splits)

lemma release_hooks: "P s \<Longrightarrow> P (kv_del_all (concat (map (\<lambda>h. [hook_key (hook_id h), hook_index_key h]) hs)) s)"
  by (rule del_all_written) (auto simp: creationIndexKey_def)

lemma release_waits: "P s \<Longrightarrow> P (kv_del_all (map fst (kv_list (prefix_query (space_prefix Sp_Wait)) s')) s)"
proof (rule del_all_written)
  fix k assume "k \<in> set (map fst (kv_list (prefix_query (space_prefix Sp_Wait)) s'))"
  then have "has_prefix (space_prefix Sp_Wait) k"
    using kv_list_prefix [of k _ "prefix_query (space_prefix Sp_Wait)" s'] by (auto simp: prefix_query_def)
  then obtain i where "k = key Sp_Wait i" by (auto simp: has_prefix_key)
  then show "\<exists>p i. k = key p i \<and> written p" by (intro exI [of _ Sp_Wait]) auto
qed

lemma buildEvent_then:
  assumes "P (es_kv s)" "\<And>e s'. P (es_kv s') \<Longrightarrow> Q (e, s')"
  shows "on_result (buildEvent W ctx spec b s) Q"
  using assms by (simp add: buildEvent_def)

lemma commitRun_then:
  assumes "P (es_kv s)" "\<And>r' e s'. P (es_kv s') \<Longrightarrow> Q (r', e, s')"
  shows "on_result (commitRun W ctx spec r s) Q"
  by (auto simp: commitRun_def assms(1) keeps intro!: buildEvent_then assms(2))

lemmas kept_then = buildEvent_then commitRun_then

lemma finishRun_kept: "P (es_kv s) \<Longrightarrow> kept (finishRun W ctx spec r s)"
  by (auto simp: finishRun_def releaseAllHooks_def releaseAllWaits_def kept_def Let_def release_hooks
      release_waits intro!: kept_then)

lemma run_handlers_kept:
  assumes "P (es_kv s)"
  shows "kept (onRunCreated W ctx spec d s)" "kept (onRunStarted W ctx spec cur boot s)"
    "kept (onRunCompleted W ctx spec cur x s)" "kept (onRunFailed W ctx spec cur err code s)"
    "kept (onRunCancelled W ctx spec cur s)" "kept (onAttrSet W ctx spec cur cid a s)"
  by (auto simp: onRunCreated_def onRunStarted_def onRunCompleted_def onRunFailed_def
      onRunCancelled_def onAttrSet_def assms kept_def finishRun_kept [unfolded kept_def] keeps put_marker
      split: option.splits intro!: kept_then)

lemma lazyStep_then:
  assumes "P (es_kv s)" "\<And>x c s'. P (es_kv s') \<Longrightarrow> Q (x, c, s')"
  shows "on_result (lazyStep W ctx spec cid hint found s) Q"
  by (auto simp: lazyStep_def put_new_step_def assms(1) keeps split: option.splits
      intro!: buildEvent_then assms(2))

lemma step_handlers_kept:
  assumes "P (es_kv s)"
  shows "kept (onStepCreated W ctx spec cid d s)" "kept (onStepStarted W ctx spec cid hint found s)"
    "kept (commitStep W ctx spec cid found f s)"
  by (auto simp: onStepCreated_def onStepStarted_def commitStep_def put_new_step_def assms kept_def keeps
      split: option.splits intro!: kept_then lazyStep_then)

lemma hook_handlers_kept:
  assumes "P (es_kv s)"
  shows "kept (onHookCreated W ctx spec cid h s)" "kept (onHookDisposed W ctx spec cid s)"
    "kept (onWaitCreated W ctx spec cid t s)" "kept (onWaitCompleted W ctx spec cid t s)"
    "kept (onEventOnly W ctx spec s)"
  by (auto simp: onHookCreated_def onHookDisposed_def onWaitCreated_def onWaitCompleted_def
      onEventOnly_def removeHook_def Let_def assms kept_def keeps
      split: option.splits event_body.splits intro!: kept_then)

lemma dispatchEvent_kept: "P (es_kv s) \<Longrightarrow> kept (dispatchEvent W ctx spec cur boot vstep s)"
  by (cases "c_body ctx")
    (simp_all add: dispatchEvent_def run_handlers_kept step_handlers_kept hook_handlers_kept)

lemma terminalRunGuard_kept:
  "P (es_kv s) \<Longrightarrow> terminalRunGuard W ctx spec cur s = Some r \<Longrightarrow> kept r"
  by (auto simp: terminalRunGuard_def kept_def keeps split: option.splits if_splits intro!: kept_then)

lemma afterBootstrap_kept: "P (es_kv s) \<Longrightarrow> kept (afterBootstrap W ctx spec cur boot s)"
  using dispatchEvent_kept [of s W ctx spec cur boot] terminalRunGuard_kept [of s W ctx spec cur]
  by (auto simp: afterBootstrap_def kept_def split: option.splits sum.splits)

lemma resilientStart_then:
  assumes "P (es_kv s)" "\<And>x c s'. P (es_kv s') \<Longrightarrow> Q (x, c, s')"
  shows "on_result (resilientStart W ctx spec cur s) Q"
  by (auto simp: resilientStart_def assms(1) keeps split: option.splits intro!: buildEvent_then assms(2))

lemma applyEvent_kept:
  assumes "applyEvent W ctx s = Inr (out, s')" "P (es_kv s)"
  shows "P (es_kv s')"
proof -
  have "kept (applyEvent W ctx s)"
    using assms(2) afterBootstrap_kept
    by (auto simp: applyEvent_def kept_def Let_def intro!: resilientStart_then)
  then show ?thesis using assms(1) by (simp add: kept_def)
qed

lemma applyForcedHookDisposal_kept:
  assumes "applyForcedHookDisposal W rq i now s = Inr (j, s')" "P (es_kv s)"
  shows "P (es_kv s')"
proof -
  have "kept (applyForcedHookDisposal W rq i now s)"
    using assms(2)
    by (auto simp: applyForcedHookDisposal_def removeHook_def kept_def keeps Let_def split: option.splits)
  then show ?thesis using assms(1) by (simp add: kept_def)
qed

end

section \<open>Interpretations\<close>

interpretation sorted: store_property kv_wf
  by unfold_locales (simp_all add: kv_wf_intros)

interpretation untouched: store_property
  "\<lambda>s. \<forall>p i. \<not> written p \<longrightarrow> kv_get (key p i) s = kv_get (key p i) s0" for s0
  by unfold_locales auto

lemma applyEvent_untouched:
  "applyEvent W ctx s = Inr (out, s') \<Longrightarrow> \<not> written p \<Longrightarrow> kv_get (key p i) (es_kv s') = kv_get (key p i) (es_kv s)"
  using untouched.applyEvent_kept [of W ctx s out s' "es_kv s"] by blast

lemma applyForcedHookDisposal_untouched:
  "applyForcedHookDisposal W rq j now s = Inr (b, s') \<Longrightarrow> \<not> written p \<Longrightarrow>
     kv_get (key p i) (es_kv s') = kv_get (key p i) (es_kv s)"
  using untouched.applyForcedHookDisposal_kept [of W rq j now s b s' "es_kv s"] by blast

end
