(* ===== verification/CellReads.thy ===== *)
theory CellReads
  imports CellSteps StoreProperty
begin

text \<open>
  Reading a run cell after a write: what each record is once a key has been written or deleted,
  and which records an event leaves alone.
\<close>

section \<open>Reading a cell after a write\<close>

lemma cell_access [simp, cell_simps]:
  "rc_kv (put_cell k v s) = kv_put k v (rc_kv s)" "rc_alarm (put_cell k v s) = rc_alarm s"
  "rc_kv (del_cell ks s) = kv_del_all ks (rc_kv s)" "rc_alarm (del_cell ks s) = rc_alarm s"
  "rc_kv (setAlarm t s) = rc_kv s" "rc_alarm (setAlarm t s) = Some t"
  "rc_kv (deleteAlarm s) = rc_kv s" "rc_alarm (deleteAlarm s) = None"
  by (simp_all add: put_cell_def del_cell_def setAlarm_def deleteAlarm_def)

lemma rc_kv_armAt [simp, cell_simps]: "rc_kv (armAt t s) = rc_kv s"
  by (simp add: armAt_def split: option.splits)

lemma eventStore_simps [simp]: "es_kv (eventStore s) = s" "es_seq (eventStore s) = get_seq s"
  by (simp_all add: eventStore_def)

section \<open>Records after a write\<close>

lemma get_put [simp, cell_simps]:
  "get_cleanup (kv_put k v s) = (if k = cleanup_key then as_cleanup v else get_cleanup s)"
  "get_tombstone (kv_put k v s) = (if k = tombstone_key then as_tombstone v else get_tombstone s)"
  "get_terminal (kv_put k v s) = (if k = terminal_key then as_terminal v else get_terminal s)"
  "get_run (kv_put k v s) = (if k = run_key then as_run v else get_run s)"
  "get_orphan (kv_put k v s) = (if k = orphan_key then as_orphan v else get_orphan s)"
  "get_inflight (kv_put k v s) = (if k = claim_key then as_inflight v else get_inflight s)"
  "get_reservation (kv_put k v s) = (if k = reservation_key then as_reservation v else get_reservation s)"
  by (simp_all add: get_cleanup_def get_tombstone_def get_terminal_def get_run_def get_orphan_def
      get_inflight_def get_reservation_def)

lemma get_del [simp, cell_simps]:
  "get_cleanup (kv_del k s) = (if k = cleanup_key then None else get_cleanup s)"
  "get_tombstone (kv_del k s) = (if k = tombstone_key then None else get_tombstone s)"
  "get_terminal (kv_del k s) = (if k = terminal_key then None else get_terminal s)"
  "get_run (kv_del k s) = (if k = run_key then None else get_run s)"
  "get_orphan (kv_del k s) = (if k = orphan_key then None else get_orphan s)"
  "get_inflight (kv_del k s) = (if k = claim_key then None else get_inflight s)"
  "get_reservation (kv_del k s) = (if k = reservation_key then None else get_reservation s)"
  by (simp_all add: get_cleanup_def get_tombstone_def get_terminal_def get_run_def get_orphan_def
      get_inflight_def get_reservation_def)

lemma get_del_all [simp, cell_simps]:
  "get_cleanup (kv_del_all ks s) = (if cleanup_key \<in> set ks then None else get_cleanup s)"
  "get_tombstone (kv_del_all ks s) = (if tombstone_key \<in> set ks then None else get_tombstone s)"
  "get_terminal (kv_del_all ks s) = (if terminal_key \<in> set ks then None else get_terminal s)"
  "get_run (kv_del_all ks s) = (if run_key \<in> set ks then None else get_run s)"
  "get_orphan (kv_del_all ks s) = (if orphan_key \<in> set ks then None else get_orphan s)"
  "get_inflight (kv_del_all ks s) = (if claim_key \<in> set ks then None else get_inflight s)"
  "get_reservation (kv_del_all ks s) = (if reservation_key \<in> set ks then None else get_reservation s)"
  by (simp_all add: get_cleanup_def get_tombstone_def get_terminal_def get_run_def get_orphan_def
      get_inflight_def get_reservation_def)

lemma hookMarkerKey_eq [simp]:
  "hookMarkerKey r = key p i \<longleftrightarrow> p = Sp_Hook_Marker \<and>
     i = encodeURIComponent (hr_hook r) @ '':'' @ encodeURIComponent (hr_token r)"
  "key p i = hookMarkerKey r \<longleftrightarrow> p = Sp_Hook_Marker \<and>
     i = encodeURIComponent (hr_hook r) @ '':'' @ encodeURIComponent (hr_token r)"
  by (auto simp: hookMarkerKey_def)

declare runQueueClaimKey_def [simp] queuePayloadRegistryKey_def [simp]

lemma hook_keys_space: "k \<in> set (hook_keys hs) \<Longrightarrow> \<exists>p i. k = key p i \<and> p \<in> {Sp_Hook, Sp_Hook_Created}"
  by (auto simp: hook_keys_def creationIndexKey_def)

lemma hook_keys_apart [simp]: "p \<noteq> Sp_Hook \<Longrightarrow> p \<noteq> Sp_Hook_Created \<Longrightarrow> key p i \<notin> set (hook_keys hs)"
  using hook_keys_space by fastforce

lemma recordHooks_frame [simp]:
  "get_cleanup (recordHooks n m out s) = get_cleanup s" "get_tombstone (recordHooks n m out s) = get_tombstone s"
proof -
  have "get_cleanup (kv_put_all (map (\<lambda>r. (hookMarkerKey r, VHookRef r)) rs) s) = get_cleanup s"
    "get_tombstone (kv_put_all (map (\<lambda>r. (hookMarkerKey r, VHookRef r)) rs) s) = get_tombstone s" for rs s
    by (induction rs arbitrary: s) (simp_all add: kv_put_all_def)
  then show "get_cleanup (recordHooks n m out s) = get_cleanup s"
    "get_tombstone (recordHooks n m out s) = get_tombstone s"
    by (simp_all add: recordHooks_def Let_def)
qed

lemma scheduleTerminalCleanup_frame [simp]:
  "get_cleanup (rc_kv (scheduleTerminalCleanup W now out s)) = get_cleanup (rc_kv s)"
  "get_tombstone (rc_kv (scheduleTerminalCleanup W now out s)) = get_tombstone (rc_kv s)"
  by (simp_all add: scheduleTerminalCleanup_def split: option.splits)

lemma applyEvent_frame:
  assumes "applyEvent W c e = Inr (out, e')"
  shows "get_cleanup (es_kv e') = get_cleanup (es_kv e)" "get_tombstone (es_kv e') = get_tombstone (es_kv e)"
  using applyEvent_untouched [OF assms, of Sp_Cleanup "[]"] applyEvent_untouched [OF assms, of Sp_Tombstone "[]"]
  by (simp_all add: get_cleanup_def get_tombstone_def written_def)

lemma forcedDisposal_frame:
  assumes "applyForcedHookDisposal W rq i now e = Inr (j, e')"
  shows "get_cleanup (es_kv e') = get_cleanup (es_kv e)" "get_tombstone (es_kv e') = get_tombstone (es_kv e)"
  using applyForcedHookDisposal_untouched [OF assms, of Sp_Cleanup "[]"]
    applyForcedHookDisposal_untouched [OF assms, of Sp_Tombstone "[]"]
  by (simp_all add: get_cleanup_def get_tombstone_def written_def)

lemma get_run_recordHooks [simp]: "get_run (recordHooks n m out s) = get_run s"
proof -
  have "get_run (kv_put_all (map (\<lambda>r. (hookMarkerKey r, VHookRef r)) rs) s) = get_run s" for rs s
    by (induction rs arbitrary: s) (simp_all add: kv_put_all_def)
  then show ?thesis by (simp add: recordHooks_def Let_def)
qed

end
