(* ===== verification/EventAnswers.thy ===== *)
theory EventAnswers
  imports CellReads
begin

text \<open>
  What an answer of \<open>applyEvent\<close> says about the stored cell: the run it carries is the run that is
  now stored.  The run cell relies on it when it stamps the retention deadline.
\<close>

section \<open>The answer's run is the stored run\<close>

definition reports_run :: "success \<Rightarrow> est \<Rightarrow> bool" where
  "reports_run x s \<longleftrightarrow> (\<forall>r. so_run x = Some r \<longrightarrow> get_run (es_kv s) = Some r)"

abbreviation run_reported :: "applied \<Rightarrow> bool" where
  "run_reported r \<equiv> on_result r (\<lambda>(out, s). \<forall>x. out = Success x \<longrightarrow> reports_run x s)"

lemma so_run_ok [simp]: "so_run ok = None"
  by (simp add: ok_def)

lemma so_run_preload [simp]: "so_run (preloadEvents W ctx x s) = so_run x"
  by (simp add: preloadEvents_def split: prod.splits)

lemma commitRun_stores:
  "commitRun W ctx spec r s = Inr (r', e, s') \<Longrightarrow> get_run (es_kv s') = Some r'"
  by (auto simp: commitRun_def buildEvent_def bindE_eq_Inr)

lemma finishRun_reported: "run_reported (finishRun W ctx spec r s)"
proof (cases "commitRun W ctx spec (r\<lparr>run_completed_at := Some (c_now ctx), run_updated_at := c_now ctx\<rparr>) s")
  case (Inr p)
  obtain r' e s' where p: "p = (r', e, s')" by (cases p)
  have g: "get_run (es_kv s') = Some r'" using commitRun_stores Inr p by blast
  have w: "run_key \<notin> fst ` set (kv_list (prefix_query (space_prefix Sp_Wait)) s0)" for s0 :: "rval kv"
    using kv_list_prefix [of run_key _ "prefix_query (space_prefix Sp_Wait)" s0]
    by (auto simp: prefix_query_def)
  show ?thesis using Inr p g
    by (auto simp: finishRun_def releaseAllHooks_def releaseAllWaits_def reports_run_def Let_def w)
qed (simp add: finishRun_def)

lemma guards_report_no_run:
  "hookResumeGuard ctx s = Some (Success x) \<Longrightarrow> so_run x = None"
  "hookOrderGuard W ctx cur s = Some (Success x) \<Longrightarrow> so_run x = None"
  by (auto simp: hookResumeGuard_def split: event_body.splits option.splits if_splits)
    (auto simp: hookOrderGuard_def split: event_body.splits option.splits if_splits)

lemma applyEvent_reports_run:
  assumes "applyEvent W ctx s = Inr (Success x, s')"
  shows "reports_run x s'"
proof -
  have d: "run_reported (dispatchEvent W ctx spec cur boot vstep s)"
    if "\<And>r. cur = Some r \<Longrightarrow> get_run (es_kv s) = Some r" for spec cur boot vstep s
  proof (cases "c_body ctx")
    case (RunCreated d)
    then show ?thesis
      by (auto simp: dispatchEvent_def onRunCreated_def reports_run_def bindE_eq_Inr on_result_def
          split: option.splits sum.splits dest: commitRun_stores)
  next
    case (RunStarted h)
    then show ?thesis using that
      by (auto simp: dispatchEvent_def onRunStarted_def reports_run_def bindE_eq_Inr on_result_def
          split: option.splits sum.splits if_splits dest: commitRun_stores)
  next
    case (AttrSet c a)
    then show ?thesis
      by (auto simp: dispatchEvent_def onAttrSet_def reports_run_def bindE_eq_Inr on_result_def buildEvent_def
          attr_marker_def split: option.splits sum.splits if_splits dest: commitRun_stores)
  next
    case (StepCreated c d)
    then show ?thesis by (auto simp: dispatchEvent_def onStepCreated_def buildEvent_def reports_run_def split: if_splits option.splits)
  next
    case (StepStarted c h)
    then show ?thesis by (auto simp: dispatchEvent_def onStepStarted_def lazyStep_def buildEvent_def reports_run_def split: if_splits option.splits)
  next
    case (StepCompleted c r)
    then show ?thesis by (auto simp: dispatchEvent_def commitStep_def buildEvent_def reports_run_def split: option.splits)
  next
    case (StepFailed c r)
    then show ?thesis by (auto simp: dispatchEvent_def commitStep_def buildEvent_def reports_run_def split: option.splits)
  next
    case (StepRetrying c r t)
    then show ?thesis by (auto simp: dispatchEvent_def commitStep_def buildEvent_def reports_run_def split: option.splits)
  next
    case (HookCreated c d)
    then show ?thesis by (auto simp: dispatchEvent_def onHookCreated_def buildEvent_def reports_run_def split: if_splits option.splits)
  next
    case (HookDisposed c d)
    then show ?thesis by (auto simp: dispatchEvent_def onHookDisposed_def buildEvent_def reports_run_def split: option.splits)
  next
    case (WaitCreated c d)
    then show ?thesis by (auto simp: dispatchEvent_def onWaitCreated_def buildEvent_def reports_run_def split: if_splits)
  next
    case (WaitCompleted c d)
    then show ?thesis by (auto simp: dispatchEvent_def onWaitCompleted_def buildEvent_def reports_run_def split: if_splits option.splits)
  next
    case (HookReceived c d)
    then show ?thesis by (auto simp: dispatchEvent_def onEventOnly_def Let_def buildEvent_def reports_run_def split: if_splits)
  next
    case (HookConflict c d)
    then show ?thesis by (auto simp: dispatchEvent_def onEventOnly_def Let_def buildEvent_def reports_run_def)
  qed (simp_all add: dispatchEvent_def onRunCompleted_def onRunFailed_def onRunCancelled_def
      finishRun_reported split: option.splits)
  have t: "run_reported a"
    if "\<And>r. cur = Some r \<Longrightarrow> get_run (es_kv s) = Some r" "terminalRunGuard W ctx spec cur s = Some a"
    for spec cur s a
    using that by (auto simp: terminalRunGuard_def reports_run_def buildEvent_def split: option.splits if_splits)
  have a: "run_reported (afterBootstrap W ctx spec cur boot s)"
    if "\<And>r. cur = Some r \<Longrightarrow> get_run (es_kv s) = Some r" for spec cur boot s
  proof -
    have "run_reported r" if "terminalRunGuard W ctx spec cur s = Some r" for r
      using t [OF _ that] \<open>\<And>r. cur = Some r \<Longrightarrow> get_run (es_kv s) = Some r\<close> by blast
    moreover have "run_reported (dispatchEvent W ctx spec cur boot v s)" for v
      using d [of cur s spec boot v] that by blast
    ultimately show ?thesis
      by (auto simp: afterBootstrap_def reports_run_def split: option.splits sum.splits
          dest: guards_report_no_run)
  qed
  have r: "on_result (resilientStart W ctx spec cur s) (\<lambda>(c, boot, s'). \<forall>r. c = Some r \<longrightarrow> get_run (es_kv s') = Some r)"
    if "\<And>r. cur = Some r \<Longrightarrow> get_run (es_kv s) = Some r" for spec cur s
    using that by (auto simp: resilientStart_def buildEvent_def split: option.splits)
  let ?spec = "nullish (c_spec ctx) (spec_current W)"
  let ?cur = "if skip_run_validation (c_body ctx) then None else get_run (es_kv s)"
  have ok: "?spec = spec_current W" using assms by (auto simp: applyEvent_def Let_def split: if_splits)
  show ?thesis
  proof (cases "resilientStart W ctx ?spec ?cur s")
    case (Inl e)
    then show ?thesis using assms ok by (simp add: applyEvent_def)
  next
    case (Inr q)
    obtain cur boot s1 where q: "q = (cur, boot, s1)" by (cases q)
    have g: "\<And>r. cur = Some r \<Longrightarrow> get_run (es_kv s1) = Some r"
      using r [of ?cur s ?spec] Inr q by (auto split: if_splits)
    have "afterBootstrap W ctx ?spec cur boot s1 = Inr (Success x, s')"
      using assms ok Inr q by (auto simp: applyEvent_def Let_def split: if_splits)
    then show ?thesis using a [of cur s1 ?spec boot] g by simp
  qed
qed

end
