(* ===== verification/CellWrites.thy ===== *)
theory CellWrites
  imports EventAnswers
begin

text \<open>
  Every request of a run cell is a sequence of elementary writes.  The relation \<open>cell_write\<close> lists
  them with what holds when they happen; \<open>serve_writes\<close> reads each handler as such a sequence, so
  that an invariant of the requests is one rule induction over ten cases.
\<close>

section \<open>Elementary writes\<close>

text \<open>Spaces whose keys requests write on their own: claim markers, queue claims, payload registrations.\<close>

definition quiet :: "space \<Rightarrow> bool" where
  "quiet p \<longleftrightarrow> p \<in> {Sp_Hook_Cancelled, Sp_Queue_Claim, Sp_Queue_Payload}"

lemma quiet_simps [simp]: "quiet Sp_Hook_Cancelled" "quiet Sp_Queue_Claim" "quiet Sp_Queue_Payload"
  by (simp_all add: quiet_def)

inductive cell_write :: "world_api \<Rightarrow> int \<Rightarrow> cell \<Rightarrow> cell \<Rightarrow> bool" for W now where
  quiet_put: "quiet p \<Longrightarrow> cell_write W now s (put_cell (key p i) v s)"
| quiet_del: "quiet p \<Longrightarrow> p \<noteq> Sp_Hook_Cancelled \<Longrightarrow> cell_write W now s (s\<lparr>rc_kv := kv_del (key p i) (rc_kv s)\<rparr>)"
| accepted: "tombstoneFrom now (rc_kv s) = None \<Longrightarrow>
     applyEvent W ctx (eventStore (rc_kv s)) = Inr (Success out, e) \<Longrightarrow>
     cell_write W now s (s\<lparr>rc_kv := recordHooks (get_seq (rc_kv s)) (es_seq e) out (es_kv e)\<rparr>)"
| refused: "tombstoneFrom now (rc_kv s) = None \<Longrightarrow>
     applyEvent W ctx (eventStore (rc_kv s)) = Inr (Failure f, e) \<Longrightarrow>
     cell_write W now s (s\<lparr>rc_kv := es_kv e\<rparr>)"
| taken_over: "tombstoneFrom now (rc_kv s) = None \<Longrightarrow>
     applyForcedHookDisposal W rq i now (eventStore (rc_kv s)) = Inr (j, e) \<Longrightarrow>
     cell_write W now s (s\<lparr>rc_kv :=
       (if es_seq e \<noteq> get_seq (rc_kv s) then kv_put seq_key (VSeq (es_seq e)) (es_kv e) else es_kv e)\<rparr>)"
| dated: "get_tombstone (rc_kv s) = None \<Longrightarrow> get_cleanup (rc_kv s) = None \<Longrightarrow> get_run (rc_kv s) = Some r \<Longrightarrow>
     parse_run W (r\<lparr>run_expired_at := x\<rparr>) = Some r' \<Longrightarrow> cl_phase c = Ph_Retained \<Longrightarrow>
     cell_write W now s (setAlarm t (put_cell cleanup_key (VCleanup c) (put_cell run_key (VRun r') s)))"
| redated: "get_cleanup (rc_kv s) = Some c \<Longrightarrow> cl_phase c \<noteq> Ph_Tombstoned \<Longrightarrow> get_run (rc_kv s) = Some r \<Longrightarrow>
     parse_run W (r\<lparr>run_expired_at := x\<rparr>) = Some r' \<Longrightarrow>
     cl_phase c' = cl_phase c \<Longrightarrow> cl_generation c < cl_generation c' \<Longrightarrow>
     (cl_due_at c \<le> now \<longrightarrow> cl_due_at c' \<le> now) \<Longrightarrow>
     cell_write W now s (setAlarm t (put_cell cleanup_key (VCleanup c') (put_cell run_key (VRun r') s)))"
| redated_bare: "get_cleanup (rc_kv s) = Some c \<Longrightarrow> cl_phase c \<noteq> Ph_Tombstoned \<Longrightarrow>
     cl_phase c' = cl_phase c \<Longrightarrow> cl_generation c < cl_generation c' \<Longrightarrow>
     (cl_due_at c \<le> now \<longrightarrow> cl_due_at c' \<le> now) \<Longrightarrow>
     cell_write W now s (setAlarm t (put_cell cleanup_key (VCleanup c') s))"
| ended: "get_run (rc_kv s) = Some r \<Longrightarrow> terminal_run W (run_state r) \<Longrightarrow> get_terminal (rc_kv s) = None \<Longrightarrow>
     cell_write W now s (setAlarm t (put_cell terminal_key (VTerminal x) s))"
| armed: "cell_write W now s (setAlarm t s)"
| idle: "get_terminal (rc_kv s) = None \<Longrightarrow>
     (\<forall>c. get_cleanup (rc_kv s) = Some c \<longrightarrow> cl_phase c = Ph_Tombstoned) \<Longrightarrow>
     cell_write W now s (deleteAlarm s)"

abbreviation cell_writes :: "world_api \<Rightarrow> int \<Rightarrow> cell \<Rightarrow> cell \<Rightarrow> bool" where
  "cell_writes W now \<equiv> (cell_write W now)\<^sup>*\<^sup>*"

lemmas one_write = r_into_rtranclp [where r = "cell_write W now" for W now]

abbreviation writes_to :: "world_api \<Rightarrow> int \<Rightarrow> cell \<Rightarrow> 'a answer \<Rightarrow> bool" where
  "writes_to W now s r \<equiv> on_result r (\<lambda>(_, s'). cell_writes W now s s')"

lemma after_on_result: "on_result r (\<lambda>(_, s'). P s') \<Longrightarrow> P s \<Longrightarrow> P (after s r)"
  by (cases r) (auto simp: after_def)

lemmas any_request = on_resultI [where r = "validateCleanupRequest rq b" for rq b]
  on_resultI [where r = "retentionDeadline t ms" for t ms]

section \<open>Events\<close>

lemma scheduleRetention_writes:
  assumes "get_tombstone (rc_kv s) = None" "c = get_cleanup (rc_kv s)" "reports_run out (e\<lparr>es_kv := rc_kv s\<rparr>)"
  shows "on_result (scheduleRetention W ms c out s)
    (\<lambda>(out, s'). cell_writes W now s s' \<and> reports_run out (e\<lparr>es_kv := rc_kv s'\<rparr>))"
proof (cases "so_run out")
  case (Some r)
  then have r: "get_run (rc_kv s) = Some r" using assms(3) by (simp add: reports_run_def)
  have "cl_phase (cleanupRecord W r' t y) = Ph_Retained" for r' t y by (simp add: cleanupRecord_def Let_def)
  then show ?thesis using assms Some
    by (auto simp: scheduleRetention_def reports_run_def intro!: any_request one_write dated [OF _ _ r])
qed (use assms in \<open>simp add: scheduleRetention_def\<close>)

lemma scheduleTerminalCleanup_writes:
  assumes "reports_run out (e\<lparr>es_kv := rc_kv s\<rparr>)"
  shows "cell_writes W now s (scheduleTerminalCleanup W t out s)"
  using assms
  by (auto simp: scheduleTerminalCleanup_def reports_run_def split: option.splits intro!: one_write armed intro: ended)

lemma commitEvent_writes:
  assumes "tombstoneFrom now (rc_kv s) = None" "applyEvent W c (eventStore (rc_kv s)) = Inr (Success out, e)"
  shows "writes_to W now s (commitEvent W c ms out e s)"
proof -
  let ?s = "s\<lparr>rc_kv := recordHooks (get_seq (rc_kv s)) (es_seq e) out (es_kv e)\<rparr>"
  have w: "cell_writes W now s ?s" using assms by (intro one_write accepted)
  have f: "get_tombstone (rc_kv ?s) = None" "get_cleanup (rc_kv s) = get_cleanup (rc_kv ?s)"
    using applyEvent_frame [OF assms(2)] assms(1) by (auto simp: tombstoneFrom_def split: option.splits)
  have r: "reports_run out (e\<lparr>es_kv := rc_kv ?s\<rparr>)"
    using applyEvent_reports_run [OF assms(2)] by (simp add: reports_run_def)
  have "cell_writes W now s (scheduleTerminalCleanup W t x b)"
    if "cell_writes W now ?s b" "reports_run x (e\<lparr>es_kv := rc_kv b\<rparr>)" for t x b
    using scheduleTerminalCleanup_writes [OF that(2), of W now t] rtranclp_trans [OF w that(1)] by (rule rtranclp_trans [rotated])
  then show ?thesis
    using scheduleRetention_writes [OF f r, of W ms now]
    by (auto simp: commitEvent_def Let_def elim!: on_result_mono)
qed

lemma cellApplyEvent_writes: "writes_to W now s (cellApplyEvent W name ctx now s)"
  by (auto simp: cellApplyEvent_def Let_def split: sum.splits prod.splits outcome.splits
      intro!: any_request commitEvent_writes one_write [OF refused])

lemma claims_writes:
  shows "cell_writes W now s (snd (resolveHookTokenClaim h t c now s))"
    "writes_to W now s (resolveExpiredHookClaim W jh jc jt now s)"
    "writes_to W now s (forceDisposeHook W i rq now s)"
    "writes_to W now s (cellResolveForcedHookClaim W frq now s)"
proof -
  have two: "cell_writes W now s (s\<lparr>rc_kv := cancel_claim c x (rc_kv s)\<rparr>)" for c x
    using rtranclp.rtrancl_into_rtrancl [OF one_write [OF quiet_put [of Sp_Hook_Cancelled W now s]] quiet_put [of Sp_Hook_Cancelled]]
    by (simp add: cancel_claim_def put_cell_def hookClaimCancellationKey_def)
  show "cell_writes W now s (snd (resolveHookTokenClaim h t c now s))"
    by (auto simp: resolveHookTokenClaim_def hookClaimCancellationKey_def intro!: one_write quiet_put)
  show "writes_to W now s (resolveExpiredHookClaim W jh jc jt now s)"
    by (auto simp: resolveExpiredHookClaim_def split: option.splits intro: two)
  show "writes_to W now s (forceDisposeHook W i rq now s)"
    by (auto simp: forceDisposeHook_def split: sum.splits prod.splits intro: one_write [OF taken_over, THEN rtranclp_trans])
  show "writes_to W now s (cellResolveForcedHookClaim W frq now s)"
    by (auto simp: cellResolveForcedHookClaim_def resolveForcedHookClaim_def Let_def intro: two)
qed

lemma cleanupRecord_fields [simp]:
  "cl_phase (cleanupRecord W r t x) = Ph_Retained" "cl_due_at (cleanupRecord W r t x) = t"
  "cl_phase (shorten_cleanup W r t c) = cl_phase c" "cl_due_at (shorten_cleanup W r t c) = t"
  "cl_generation (shorten_cleanup W r t c) = Suc (cl_generation c)"
  by (simp_all add: cleanupRecord_def shorten_cleanup_def Let_def)

lemma scheduling_writes:
  shows "writes_to W now s (scheduleCleanup W rq now s)" "writes_to W now s (enforceDeadline W rq t now s)"
    "on_result (expireNow W now s) (cell_writes W now s)" "cell_writes W now s (snd (rearmCleanup now s))"
proof -
  show "writes_to W now s (scheduleCleanup W rq now s)"
    by (auto simp: scheduleCleanup_def Let_def split: option.splits intro!: any_request one_write intro: dated)
  show "writes_to W now s (enforceDeadline W rq t now s)"
    by (auto simp: enforceDeadline_def Let_def split: option.splits intro!: any_request one_write
        intro: dated redated armed)
  show "on_result (expireNow W now s) (cell_writes W now s)"
    by (auto simp: expireNow_def Let_def split: option.splits intro!: one_write intro: redated redated_bare)
  show "cell_writes W now s (snd (rearmCleanup now s))"
    by (auto simp: rearmCleanup_def Let_def split: option.splits intro!: one_write intro: armed idle)
qed

lemma queue_put: "cell_writes W now s (put_cell (key Sp_Queue_Claim i) v s)"
  by (intro one_write quiet_put) simp

lemma queue_put_put: "cell_writes W now s (put_cell (key Sp_Queue_Claim i) v (put_cell (key Sp_Queue_Claim i) v' s))"
  by (rule rtranclp_trans [OF queue_put queue_put])

lemma queue_store: "cell_writes W now s (store_claim (key Sp_Queue_Claim i) x s)"
  by (auto simp: store_claim_def intro!: queue_put one_write quiet_del)

lemma queue_writes:
  shows "writes_to W now s (reserveRunQueueMessage rq now s)"
    "writes_to W now s (confirmRunQueueMessagePublication rq s)"
    "writes_to W now s (claimRunQueueMessage rq now s)"
    "writes_to W now s (holdRunQueueMessage rq s)"
    "writes_to W now s (releaseRunQueueMessage rq s)"
    "writes_to W now s (completeRunQueueMessage rq s)"
    "writes_to W now s (abandonRunQueueMessageReservation rq s)"
    "writes_to W now s (registerQueuePayload m k t now s)" "writes_to W now s (unregisterQueuePayload m s)"
  by (auto simp: reserveRunQueueMessage_def confirmRunQueueMessagePublication_def
      claimRunQueueMessage_def holdRunQueueMessage_def releaseRunQueueMessage_def
      completeRunQueueMessage_def abandonRunQueueMessageReservation_def registerQueuePayload_def
      unregisterQueuePayload_def Let_def split: option.splits
      intro!: queue_put queue_put_put queue_store one_write [OF quiet_del] one_write [OF quiet_put])

lemma serve_writes: "cell_writes W now s (serve W now rq s)"
proof -
  have a: "cell_writes W now s (after s r)" if "writes_to W now s r" for r :: "'a answer"
    using after_on_result [where P = "cell_writes W now s", OF that] by simp
  show ?thesis
    by (cases rq)
      (auto simp: a cellApplyEvent_writes claims_writes scheduling_writes queue_writes split: sum.splits
        dest: on_resultD [OF scheduling_writes(3)])
qed

text \<open>An invariant of the writes is one of the requests.\<close>

lemma serve_invariant:
  assumes "\<And>s s'. cell_write W now s s' \<Longrightarrow> P s \<Longrightarrow> P s'" "P s"
  shows "P (serve W now rq s)"
  using serve_writes [of W now s rq] assms(2)
  by (induction rule: rtranclp_induct) (auto intro: assms(1))

end
