(* ===== verification/CellWf.thy ===== *)
theory CellWf
  imports CellWrites
begin

text \<open>
  Every operation of a run cell keeps its storage a sorted association list, so that a listing
  shows each key once and a page that comes back short is complete.
\<close>

declare kv_wf_intros [simp]

section \<open>Cells\<close>

abbreviation sorted_cell :: "cell \<Rightarrow> bool" where "sorted_cell s \<equiv> kv_wf (rc_kv s)"

lemma cell_write_wf: "cell_write W now s s' \<Longrightarrow> sorted_cell s \<Longrightarrow> sorted_cell s'"
proof (induction rule: cell_write.induct)
  case (accepted s ctx out e)
  then have "kv_wf (es_kv e)" using sorted.applyEvent_kept [OF accepted(2)] by simp
  then show ?case by (simp add: recordHooks_def Let_def)
next
  case (refused s ctx f e)
  then show ?case using sorted.applyEvent_kept [OF refused(2)] by simp
next
  case (taken_over s rq i j e)
  then show ?case using sorted.applyForcedHookDisposal_kept [OF taken_over(2)] by simp
qed simp_all

lemma serve_wf: "sorted_cell s \<Longrightarrow> sorted_cell (serve W now rq s)"
  by (rule serve_invariant [where P = sorted_cell, OF cell_write_wf])

lemma finishTerminal_wf: "sorted_cell s \<Longrightarrow> sorted_cell (finishTerminal now s)"
  by (simp add: finishTerminal_def Let_def split: option.splits)

lemma commitSmallTerminal_wf: "commitSmallTerminal t hs ms now s = (b, s') \<Longrightarrow> sorted_cell s \<Longrightarrow> sorted_cell s'"
  by (auto simp: commitSmallTerminal_def finishTerminal_wf split: option.splits prod.splits if_splits)

lemma commitPass_wf: "sorted_cell s \<Longrightarrow> sorted_cell (fst (commitPass F now p s))"
  by (cases p)
    (auto simp: setCleanupPhase_def commitIndexPage_def commitStreamPage_def commitQueuePage_def
      deletePayloadBatch_def recordCleanupFailure_def commitTerminalHooks_def commitTerminalMarkers_def
      deleteTerminalWaitPage_def recordTerminalCleanupFailure_def finishOrphan_def finishTerminal_wf
      Let_def split: option.splits prod.splits dest: commitSmallTerminal_wf)

lemma expireClaims_wf: "sorted_cell s \<Longrightarrow> sorted_cell (expireClaims now s)"
  by (simp add: expireClaims_def Let_def split: option.splits)

lemma leaseOrphan_wf: "sorted_cell s \<Longrightarrow> sorted_cell (snd (leaseOrphan now s))"
  by (simp add: leaseOrphan_def Let_def split: option.splits)

lemma beginPage_wf: "sorted_cell s \<Longrightarrow> sorted_cell (fst (beginPage F now s))"
  using leaseOrphan_wf [of s now]
  by (auto simp: beginPage_def expireClaims_wf split: plan.splits option.splits prod.splits)

lemma cell_step_wf: "cell_step W y y' \<Longrightarrow> sorted_cell (sy_cell y) \<Longrightarrow> sorted_cell (sy_cell y')"
proof (induction rule: cell_step.induct)
  case (serve_request t now s ps rq)
  then show ?case by (simp add: serve_wf)
next
  case (fire_alarm t now s a F s' new ps)
  then show ?case using beginPage_wf [of "deleteAlarm s" F now] by simp
next
  case (run_page t now F s s' new ps)
  then show ?case using beginPage_wf [of s F now] by simp
next
  case (commit_pass t now F p s s' new ps qs)
  then show ?case using commitPass_wf [of s F now p] by simp
qed

end
