(* ===== verification/CellFence.thy ===== *)
theory CellFence
  imports CellWf
begin

text \<open>
  The expiry fence of a run cell: what it means for a cell to be fenced at a time, and that no
  request and no cleanup page ever lifts a fence.
\<close>

section \<open>Passes name keys of their own kind\<close>

definition keys_in :: "space \<Rightarrow> string list \<Rightarrow> bool" where
  "keys_in p ks \<longleftrightarrow> (\<forall>k \<in> set ks. has_prefix (space_prefix p) k)"

lemma keys_in_apart [simp]: "keys_in p ks \<Longrightarrow> q \<noteq> p \<Longrightarrow> key q i \<notin> set ks"
  using key_has_prefix by (auto simp: keys_in_def)

lemma keys_in_map [simp]: "keys_in p (map fst es) \<Longrightarrow> q \<noteq> p \<Longrightarrow> key q i \<notin> fst ` set es"
  using keys_in_apart [of p "map fst es" q i] by simp

lemma list_page_prefix: "list_page p n s = (es, all) \<Longrightarrow> (k, v) \<in> set es \<Longrightarrow> has_prefix p k"
  using kv_list_prefix [of k v "prefix_query p\<lparr>q_limit := Some (n + 1)\<rparr>" s]
  by (auto simp: list_page_def Let_def prefix_query_def dest: in_set_takeD)

lemma list_page_keys: "list_page (space_prefix p) n s = (es, all) \<Longrightarrow> keys_in p (map fst es)"
  by (auto simp: keys_in_def dest: list_page_prefix)

fun pass_ok :: "pass \<Rightarrow> bool" where
  "pass_ok (Ps_Phase c) \<longleftrightarrow> cl_phase c = Ph_Retained"
| "pass_ok (Ps_Index c ks _) \<longleftrightarrow> cl_phase c = Ph_Index \<and> keys_in Sp_Hook_Marker ks"
| "pass_ok (Ps_Streams c _ _) \<longleftrightarrow> cl_phase c = Ph_Streams"
| "pass_ok (Ps_Queues c ks _) \<longleftrightarrow> cl_phase c = Ph_Queues \<and> keys_in Sp_Queue_Payload ks"
| "pass_ok (Ps_Payload c) \<longleftrightarrow> cl_phase c = Ph_Payload"
| "pass_ok (Ps_Failed c _) \<longleftrightarrow> cl_phase c \<in> {Ph_Index, Ph_Streams, Ph_Queues}"
| "pass_ok (Ps_Small t hs ks) \<longleftrightarrow> tc_phase t = Tc_Hooks \<and> keys_in Sp_Hook_Marker ks"
| "pass_ok (Ps_Hooks t hs _) \<longleftrightarrow> tc_phase t = Tc_Hooks"
| "pass_ok (Ps_Markers t ks _) \<longleftrightarrow> tc_phase t = Tc_Markers \<and> keys_in Sp_Hook_Marker ks"
| "pass_ok (Ps_Waits t) \<longleftrightarrow> tc_phase t = Tc_Waits"
| "pass_ok (Ps_Terminal_Failed _ _) \<longleftrightarrow> True"
| "pass_ok (Ps_Orphan _) \<longleftrightarrow> True"

lemma caught_pass: "(\<And>e. pass_ok (f e)) \<Longrightarrow> on_result r pass_ok \<Longrightarrow> pass_ok (caught f r)"
  by (cases r) simp_all

lemmas any_call = on_resultI [where r = "attempt x" for x]
  on_resultI [where r = "fl_expire_registry F a b c" for F a b c]
  on_resultI [where r = "expireStreams F a b c d e" for F a b c d e]
  on_resultI [where r = "fl_finalize_registry F a b" for F a b]

lemma beginHookPage_ok: "tc_phase t = Tc_Hooks \<Longrightarrow> pass_ok (beginHookPage F t s)"
  unfolding beginHookPage_def
  by (rule caught_pass) (auto split: prod.splits intro!: any_call)

lemma beginTerminal_ok: "pass_ok (beginTerminal F t s)"
proof (cases "tc_phase t")
  case Tc_Hooks
  then show ?thesis
    by (auto simp: beginTerminal_def Let_def beginHookPage_ok split: prod.splits
        intro!: caught_pass any_call dest: list_page_keys)
qed (auto simp: beginTerminal_def split: prod.splits intro!: caught_pass any_call dest: list_page_keys)

lemma beginCleanup_ok:
  "cl_phase c \<noteq> Ph_Tombstoned \<Longrightarrow> pass_ok (beginCleanup F c s)"
  by (cases "cl_phase c")
    (auto simp: beginCleanup_def Let_def split: prod.splits intro!: caught_pass any_call dest: list_page_keys)

lemma beginPage_ok: "p \<in> set (snd (beginPage F now s)) \<Longrightarrow> pass_ok p"
  by (auto simp: beginPage_def beginCleanup_ok beginTerminal_ok dest!: planCleanup_phase
      split: plan.splits prod.splits option.splits if_splits)

lemma commitPass_new_ok: "pass_ok p \<Longrightarrow> q \<in> set (snd (commitPass F now p s)) \<Longrightarrow> pass_ok q"
  by (cases p) (auto simp: beginHookPage_ok split: prod.splits if_splits)

definition sys_ok :: "sys \<Rightarrow> bool" where
  "sys_ok y \<longleftrightarrow> sorted_cell (sy_cell y) \<and> (\<forall>p \<in> set (sy_passes y). pass_ok p)"

lemma cell_step_ok: "cell_step W y y' \<Longrightarrow> sys_ok y \<Longrightarrow> sys_ok y'"
proof (induction rule: cell_step.induct)
  case (serve_request t now s ps rq)
  then show ?case by (simp add: sys_ok_def serve_wf)
next
  case (fire_alarm t now s a F s' new ps)
  then show ?case using beginPage_wf [of "deleteAlarm s" F now] beginPage_ok [of _ F now "deleteAlarm s"]
    by (auto simp: sys_ok_def)
next
  case (run_page t now F s s' new ps)
  then show ?case using beginPage_wf [of s F now] beginPage_ok [of _ F now s]
    by (auto simp: sys_ok_def)
next
  case (commit_pass t now F p s s' new ps qs)
  then show ?case using commitPass_wf [of s F now p] commitPass_new_ok [of p _ F now s]
    by (auto simp: sys_ok_def)
qed

lemma cell_steps_ok: "cell_steps W y y' \<Longrightarrow> sys_ok y \<Longrightarrow> sys_ok y'"
  by (induction rule: rtranclp_induct) (auto intro: cell_step_ok)

lemma fresh_sys_ok [simp]: "sys_ok (fresh_sys t)"
  by (simp add: sys_ok_def fresh_sys_def kv_wf_def)

lemma cell_step_clock: "cell_step W y y' \<Longrightarrow> sy_clock y \<le> sy_clock y'"
  by (induction rule: cell_step.induct) simp_all

section \<open>The fence\<close>

definition fenced :: "int \<Rightarrow> rval kv \<Rightarrow> bool" where
  "fenced now s \<longleftrightarrow> tombstoneFrom now s \<noteq> None"

lemma fenced_iff:
  "fenced now s \<longleftrightarrow> get_tombstone s \<noteq> None \<or>
     (\<exists>c. get_cleanup s = Some c \<and> (cl_phase c \<noteq> Ph_Retained \<or> cl_due_at c \<le> now))"
  by (auto simp: fenced_def tombstoneFrom_def split: option.splits)

lemma fenced_mono: "fenced t s \<Longrightarrow> t \<le> now \<Longrightarrow> fenced now s"
  by (auto simp: fenced_iff)

lemma fenced_cong: "get_tombstone s' = get_tombstone s \<Longrightarrow> get_cleanup s' = get_cleanup s \<Longrightarrow> fenced now s' = fenced now s"
  by (simp add: fenced_iff)

lemma cell_write_keeps_fence: "cell_write W now s s' \<Longrightarrow> fenced now (rc_kv s) \<Longrightarrow> fenced now (rc_kv s')"
proof (induction rule: cell_write.induct)
  case (quiet_put p s i v)
  then show ?case by (auto simp: fenced_iff quiet_def)
next
  case (quiet_del p s i)
  then show ?case by (auto simp: fenced_iff quiet_def)
next
  case (accepted s ctx out e)
  then show ?case by (simp add: fenced_def)
next
  case (refused s ctx f e)
  then show ?case by (simp add: fenced_def)
next
  case (taken_over s rq i j e)
  then show ?case by (simp add: fenced_def)
qed (auto simp: fenced_iff)

lemma serve_keeps_fence: "fenced now (rc_kv s) \<Longrightarrow> fenced now (rc_kv (serve W now rq s))"
  by (rule serve_invariant [where P = "\<lambda>s. fenced now (rc_kv s)", OF cell_write_keeps_fence])

lemma same_cleanupD: "same_cleanup e s = Some c \<Longrightarrow> get_cleanup (rc_kv s) = Some c \<and> cl_phase c = cl_phase e \<and> cl_generation c = cl_generation e"
  by (auto simp: same_cleanup_def split: option.splits if_splits)

lemma same_terminalD: "same_terminal e s = Some t \<Longrightarrow> get_terminal (rc_kv s) = Some t \<and> tc_phase t = tc_phase e \<and> tc_generation t = tc_generation e"
  by (auto simp: same_terminal_def split: option.splits if_splits)

lemma advance_simps [simp]:
  "cl_phase (advance_cleanup p c) = p" "cl_generation (advance_cleanup p c) = Suc (cl_generation c)"
  "cl_due_at (advance_cleanup p c) = cl_due_at c" "cl_run (advance_cleanup p c) = cl_run c"
  "tc_phase (advance_terminal q t) = q" "tc_generation (advance_terminal q t) = Suc (tc_generation t)"
  by (simp_all add: advance_cleanup_def advance_terminal_def)

lemma payload_keys_apart: "cleanup_key \<notin> set (payload_keys s)" "tombstone_key \<notin> set (payload_keys s)"
  by (auto simp: payload_keys_def dest: in_set_takeD)

text \<open>Terminal disposal does not touch the two retention records.\<close>

lemma finishTerminal_frame [simp]:
  "get_cleanup (rc_kv (finishTerminal now s)) = get_cleanup (rc_kv s)"
  "get_tombstone (rc_kv (finishTerminal now s)) = get_tombstone (rc_kv s)"
  by (simp_all add: finishTerminal_def Let_def split: option.splits)

lemma commitSmallTerminal_frame:
  assumes "keys_in Sp_Hook_Marker ms" "commitSmallTerminal t hs ms now s = (b, s')"
  shows "get_cleanup (rc_kv s') = get_cleanup (rc_kv s)" "get_tombstone (rc_kv s') = get_tombstone (rc_kv s)"
proof -
  obtain es all where p: "list_page (space_prefix Sp_Wait) terminal_wait_page_size (rc_kv s) = (es, all)"
    by (cases "list_page (space_prefix Sp_Wait) terminal_wait_page_size (rc_kv s)")
  show "get_cleanup (rc_kv s') = get_cleanup (rc_kv s)" "get_tombstone (rc_kv s') = get_tombstone (rc_kv s)"
    using assms p list_page_keys [OF p]
    by (auto simp: commitSmallTerminal_def split: option.splits if_splits)
qed

lemma deleteTerminalWaitPage_frame:
  "get_cleanup (rc_kv (deleteTerminalWaitPage t now s)) = get_cleanup (rc_kv s)"
  "get_tombstone (rc_kv (deleteTerminalWaitPage t now s)) = get_tombstone (rc_kv s)"
proof -
  obtain es all where p: "list_page (space_prefix Sp_Wait) terminal_wait_page_size (rc_kv s) = (es, all)"
    by (cases "list_page (space_prefix Sp_Wait) terminal_wait_page_size (rc_kv s)")
  show "get_cleanup (rc_kv (deleteTerminalWaitPage t now s)) = get_cleanup (rc_kv s)"
    "get_tombstone (rc_kv (deleteTerminalWaitPage t now s)) = get_tombstone (rc_kv s)"
    using p list_page_keys [OF p] by (auto simp: deleteTerminalWaitPage_def Let_def split: option.splits)
qed

lemma terminal_frame:
  shows "get_cleanup (rc_kv (commitTerminalHooks t hs all now s)) = get_cleanup (rc_kv s)"
    "get_tombstone (rc_kv (commitTerminalHooks t hs all now s)) = get_tombstone (rc_kv s)"
    "keys_in Sp_Hook_Marker ks \<Longrightarrow>
       get_cleanup (rc_kv (commitTerminalMarkers t ks all now s)) = get_cleanup (rc_kv s)"
    "keys_in Sp_Hook_Marker ks \<Longrightarrow>
       get_tombstone (rc_kv (commitTerminalMarkers t ks all now s)) = get_tombstone (rc_kv s)"
    "get_cleanup (rc_kv (recordTerminalCleanupFailure e t now s)) = get_cleanup (rc_kv s)"
    "get_tombstone (rc_kv (recordTerminalCleanupFailure e t now s)) = get_tombstone (rc_kv s)"
    "get_cleanup (rc_kv (finishOrphan x s)) = get_cleanup (rc_kv s)"
    "get_tombstone (rc_kv (finishOrphan x s)) = get_tombstone (rc_kv s)"
  by (auto simp: commitTerminalHooks_def commitTerminalMarkers_def
      recordTerminalCleanupFailure_def finishOrphan_def split: option.splits)

lemma commitPass_keeps_fence:
  assumes "pass_ok p" "fenced now (rc_kv s)"
  shows "fenced now (rc_kv (fst (commitPass F now p s)))"
proof -
  have keep: "fenced now (rc_kv s')"
    if "get_cleanup (rc_kv s') = get_cleanup (rc_kv s)" "get_tombstone (rc_kv s') = get_tombstone (rc_kv s)" for s'
    using fenced_cong [OF that(2,1)] assms(2) by simp
  show ?thesis
  proof (cases p)
    case (Ps_Small t hs ms)
    then show ?thesis using assms(1) commitSmallTerminal_frame [of ms t hs now s]
      by (auto split: prod.splits intro!: keep)
  next
    case (Ps_Phase c)
    then show ?thesis using assms(2)
      by (auto simp: setCleanupPhase_def fenced_iff split: option.splits dest: same_cleanupD)
  next
    case (Ps_Payload c)
    then show ?thesis using assms(2)
      by (auto simp: deletePayloadBatch_def Let_def fenced_iff payload_keys_apart split: option.splits)
  next
    case (Ps_Failed c e)
    then show ?thesis using assms(2)
      by (auto simp: recordCleanupFailure_def fenced_iff split: option.splits dest: same_cleanupD)
  next
    case (Ps_Index c ks all)
    then show ?thesis using assms by (auto simp: commitIndexPage_def fenced_iff split: option.splits)
  next
    case (Ps_Streams c n all)
    then show ?thesis using assms by (auto simp: commitStreamPage_def fenced_iff split: option.splits)
  next
    case (Ps_Queues c ks all)
    then show ?thesis using assms by (auto simp: commitQueuePage_def fenced_iff split: option.splits)
  qed (use assms in \<open>auto intro!: keep simp: terminal_frame deleteTerminalWaitPage_frame\<close>)
qed

lemma expireClaims_frame [simp]:
  "get_cleanup (rc_kv (expireClaims now s)) = get_cleanup (rc_kv s)"
  "get_tombstone (rc_kv (expireClaims now s)) = get_tombstone (rc_kv s)"
  by (simp_all add: expireClaims_def Let_def split: option.splits)

lemma leaseOrphan_frame:
  "get_cleanup (rc_kv (snd (leaseOrphan now s))) = get_cleanup (rc_kv s)"
  "get_tombstone (rc_kv (snd (leaseOrphan now s))) = get_tombstone (rc_kv s)"
  by (simp_all add: leaseOrphan_def Let_def split: option.splits)

lemma beginPage_frame:
  "get_cleanup (rc_kv (fst (beginPage F now s))) = get_cleanup (rc_kv s)"
  "get_tombstone (rc_kv (fst (beginPage F now s))) = get_tombstone (rc_kv s)"
  using leaseOrphan_frame [of now s]
  by (auto simp: beginPage_def split: plan.splits prod.splits option.splits)

lemma cell_step_keeps_fence:
  "cell_step W y y' \<Longrightarrow> sys_ok y \<Longrightarrow> fenced (sy_clock y) (rc_kv (sy_cell y)) \<Longrightarrow>
   fenced (sy_clock y') (rc_kv (sy_cell y'))"
proof (induction rule: cell_step.induct)
  case (serve_request t now s ps rq)
  then show ?case using serve_keeps_fence fenced_mono by fastforce
next
  case (fire_alarm t now s a F s' new ps)
  then have "fenced now (rc_kv s)" using fenced_mono by fastforce
  moreover have "get_cleanup (rc_kv s') = get_cleanup (rc_kv s)" "get_tombstone (rc_kv s') = get_tombstone (rc_kv s)"
    using beginPage_frame [of F now "deleteAlarm s"] fire_alarm by simp_all
  ultimately show ?case using fenced_cong [of "rc_kv s'" "rc_kv s" now] by simp
next
  case (run_page t now F s s' new ps)
  then have "fenced now (rc_kv s)" using fenced_mono by fastforce
  moreover have "get_cleanup (rc_kv s') = get_cleanup (rc_kv s)" "get_tombstone (rc_kv s') = get_tombstone (rc_kv s)"
    using beginPage_frame [of F now s] run_page by simp_all
  ultimately show ?case using fenced_cong [of "rc_kv s'" "rc_kv s" now] by simp
next
  case (commit_pass t now F p s s' new ps qs)
  then have "fenced now (rc_kv s)" "pass_ok p" using fenced_mono by (fastforce simp: sys_ok_def)+
  then show ?case using commitPass_keeps_fence [of p now s F] commit_pass by simp
qed

lemma cell_steps_keep_fence:
  "cell_steps W y y' \<Longrightarrow> sys_ok y \<Longrightarrow> fenced (sy_clock y) (rc_kv (sy_cell y)) \<Longrightarrow>
   fenced (sy_clock y') (rc_kv (sy_cell y'))"
  by (induction rule: rtranclp_induct) (auto intro: cell_step_keeps_fence cell_steps_ok)

section \<open>What a fenced cell answers\<close>

lemma fenced_answers:
  assumes "fenced now (rc_kv s)"
  shows "cellApplyEvent W name ctx now s = Inr (out, s') \<Longrightarrow> out = Failure Run_Expired \<and> s' = s"
    "\<exists>t. read f now (rc_kv s) = Read_Expired t"
    "getLifecycleStatus W now (rc_kv s) = Life_Expired"
    "\<not> getQueueAdmission now (rc_kv s)"
    "reserveRunQueueMessage rq now s = Inr (r, s') \<Longrightarrow> r = Res_Expired \<and> s' = s"
    "claimRunQueueMessage rq now s = Inr (r2, s') \<Longrightarrow> r2 = Cl_Expired \<and> s' = s"
    "registerQueuePayload m k t0 now s = Inr (b, s') \<Longrightarrow> \<not> b \<and> s' = s"
proof -
  obtain t where t: "tombstoneFrom now (rc_kv s) = Some t" using assms by (auto simp: fenced_def)
  show "cellApplyEvent W name ctx now s = Inr (out, s') \<Longrightarrow> out = Failure Run_Expired \<and> s' = s"
    by (auto simp: cellApplyEvent_def t bindE_eq_Inr)
  show "\<exists>t. read f now (rc_kv s) = Read_Expired t" "getLifecycleStatus W now (rc_kv s) = Life_Expired"
    "\<not> getQueueAdmission now (rc_kv s)"
    by (simp_all add: read_def getLifecycleStatus_def getQueueAdmission_def t)
  show "reserveRunQueueMessage rq now s = Inr (r, s') \<Longrightarrow> r = Res_Expired \<and> s' = s"
    by (auto simp: reserveRunQueueMessage_def t bindE_eq_Inr)
  show "claimRunQueueMessage rq now s = Inr (r2, s') \<Longrightarrow> r2 = Cl_Expired \<and> s' = s"
    by (auto simp: claimRunQueueMessage_def t bindE_eq_Inr)
  show "registerQueuePayload m k t0 now s = Inr (b, s') \<Longrightarrow> \<not> b \<and> s' = s"
    by (auto simp: registerQueuePayload_def t bindE_eq_Inr)
qed

end
