(* ===== verification/CellProgress.thy ===== *)
theory CellProgress
  imports CellFence
begin

text \<open>
  Cleanup only ever moves on: no request and no page of another pass takes a run cell back to an
  earlier phase, and every write of the cleanup record raises its generation.  Hence a page
  commits on the very record it was started from, or not at all.
\<close>

section \<open>Stages\<close>

text \<open>How far cleanup has come; from stage 5 on, keys of the contract may be gone.\<close>

fun phase_rank :: "cleanup_phase \<Rightarrow> nat" where
  "phase_rank Ph_Retained = 1"
| "phase_rank Ph_Index = 2"
| "phase_rank Ph_Streams = 3"
| "phase_rank Ph_Queues = 4"
| "phase_rank Ph_Payload = 5"
| "phase_rank Ph_Tombstoned = 6"

definition stage :: "rval kv \<Rightarrow> nat" where
  "stage s = (case get_cleanup s of
     Some c \<Rightarrow> phase_rank (cl_phase c)
   | None \<Rightarrow> if get_tombstone s = None then 0 else 6)"

lemma phase_rank_bounds [simp]: "0 < phase_rank p" "phase_rank p \<le> 6"
  by (cases p; simp)+

lemma stage_cong: "get_tombstone s' = get_tombstone s \<Longrightarrow> get_cleanup s' = get_cleanup s \<Longrightarrow> stage s' = stage s"
  by (auto simp: stage_def split: option.splits)

section \<open>Stages and generations only grow\<close>

text \<open>Cleanup moves on: later stage, or the same stage with the same record or a newer one.\<close>

definition moves_on :: "rval kv \<Rightarrow> rval kv \<Rightarrow> bool" where
  "moves_on s s' \<longleftrightarrow>
     get_tombstone s' = get_tombstone s \<and> get_cleanup s' = get_cleanup s \<or>
     stage s < 6 \<and> stage s \<le> stage s' \<and>
     (case (get_cleanup s, get_cleanup s') of
        (Some c, Some c') \<Rightarrow> cl_generation c < cl_generation c'
      | (Some c, None) \<Rightarrow> get_tombstone s' \<noteq> None
      | (None, _) \<Rightarrow> True)"

lemma moves_onD: "moves_on s s' \<Longrightarrow> stage s \<le> stage s'"
  using stage_cong [of s' s] by (auto simp: moves_on_def)

lemma moves_on_frame: "get_tombstone s' = get_tombstone s \<Longrightarrow> get_cleanup s' = get_cleanup s \<Longrightarrow> moves_on s s'"
  by (simp add: moves_on_def)

lemma moves_on_refl [simp]: "moves_on s s"
  by (simp add: moves_on_def)

lemma moves_on_trans: "moves_on s s' \<Longrightarrow> moves_on s' s'' \<Longrightarrow> moves_on s s''"
  by (auto simp: moves_on_def stage_def split: option.splits if_splits)

lemma cell_write_moves: "cell_write W now s s' \<Longrightarrow> moves_on (rc_kv s) (rc_kv s')"
proof (induction rule: cell_write.induct)
  case (accepted s ctx out e)
  then show ?case by (intro moves_on_frame) (simp_all add: applyEvent_frame [OF accepted(2)])
next
  case (refused s ctx f e)
  then show ?case by (intro moves_on_frame) (simp_all add: applyEvent_frame [OF refused(2)])
next
  case (taken_over s rq i j e)
  then show ?case by (intro moves_on_frame) (simp_all add: forcedDisposal_frame [OF taken_over(2)])
next
  case (redated s c r x r' c' t)
  then show ?case by (cases "cl_phase c") (simp_all add: moves_on_def stage_def)
next
  case (redated_bare s c c' t)
  then show ?case by (cases "cl_phase c") (simp_all add: moves_on_def stage_def)
next
  case (dated s r x r' c t)
  then show ?case by (simp add: moves_on_def stage_def)
qed (auto intro!: moves_on_frame simp: quiet_def)

lemma serve_moves: "moves_on (rc_kv s) (rc_kv (serve W now rq s))"
  by (rule serve_invariant [where P = "\<lambda>s'. moves_on (rc_kv s) (rc_kv s')"])
    (auto intro: moves_on_trans cell_write_moves)

lemma commitPass_moves:
  assumes "pass_ok p"
  shows "moves_on (rc_kv s) (rc_kv (fst (commitPass F now p s)))"
proof -
  have new: "moves_on (rc_kv s) (kv_put cleanup_key (VCleanup c') s')"
    if "get_cleanup (rc_kv s) = Some c" "phase_rank (cl_phase c) < 6" "phase_rank (cl_phase c) \<le> phase_rank (cl_phase c')"
      "cl_generation c < cl_generation c'" for c c' s'
    using that by (simp add: moves_on_def stage_def)
  have last: "moves_on (rc_kv s) s'"
    if "get_cleanup (rc_kv s) = Some c" "cl_phase c = Ph_Payload" "get_cleanup s' = None" "get_tombstone s' \<noteq> None" for c s'
    using that by (simp add: moves_on_def stage_def)
  have step: "phase_rank p < 6 \<longleftrightarrow> p \<noteq> Ph_Tombstoned" for p by (cases p) simp_all
  show ?thesis
  proof (cases p)
    case (Ps_Small t hs ms)
    then show ?thesis using assms commitSmallTerminal_frame [of ms t hs now s]
      by (auto split: prod.splits intro!: moves_on_frame)
  next
    case (Ps_Phase c)
    then show ?thesis using assms
      by (auto simp: setCleanupPhase_def split: option.splits dest!: same_cleanupD intro!: new)
  next
    case (Ps_Payload c)
    then show ?thesis
      by (auto simp: deletePayloadBatch_def Let_def split: option.splits intro: new last)
  next
    case (Ps_Failed c e)
    then show ?thesis
      by (auto simp: recordCleanupFailure_def step split: option.splits intro: new dest!: same_cleanupD)
  next
    case (Ps_Index c ks all)
    then show ?thesis using assms by (auto simp: commitIndexPage_def split: option.splits intro!: new)
  next
    case (Ps_Streams c n all)
    then show ?thesis using assms by (auto simp: commitStreamPage_def split: option.splits intro!: new)
  next
    case (Ps_Queues c ks all)
    then show ?thesis using assms by (auto simp: commitQueuePage_def split: option.splits intro!: new)
  qed (use assms in \<open>auto intro!: moves_on_frame simp: terminal_frame deleteTerminalWaitPage_frame\<close>)
qed

lemma beginPage_moves: "moves_on (rc_kv s) (rc_kv (fst (beginPage F now s)))"
  using beginPage_frame [of F now s] by (simp add: moves_on_frame)

text \<open>Every step of the cell is one of four kinds of change to the stored cell.\<close>

lemma cell_step_cases:
  assumes "cell_step W y y'"
  obtains (serve) now rq where "sy_clock y \<le> now" "sy_clock y' = now"
      "sy_cell y' = serve W now rq (sy_cell y)" "sy_passes y' = sy_passes y"
    | (page) F now s where "sy_clock y \<le> now" "sy_clock y' = now" "rc_kv s = rc_kv (sy_cell y)"
      "sy_cell y' = fst (beginPage F now s)" "sy_passes y' = snd (beginPage F now s) @ sy_passes y"
    | (commit) F now p ps qs where "sy_clock y \<le> now" "sy_clock y' = now" "sy_passes y = ps @ p # qs"
      "sy_cell y' = fst (commitPass F now p (sy_cell y))"
      "sy_passes y' = snd (commitPass F now p (sy_cell y)) @ ps @ qs"
  using assms
proof cases
  case (serve_request t now s ps rq)
  then show ?thesis using serve by simp
next
  case (fire_alarm t now s a F s' new ps)
  then show ?thesis using page [of now "deleteAlarm s" F] by simp
next
  case (run_page t now F s s' new ps)
  then show ?thesis using page [of now s F] by simp
next
  case (commit_pass t now F p s s' new ps qs)
  then show ?thesis using commit [of now ps p qs F] by simp
qed

lemma cell_step_moves:
  assumes "cell_step W y y'" "sys_ok y"
  shows "moves_on (rc_kv (sy_cell y)) (rc_kv (sy_cell y'))"
  using assms(1)
proof (cases rule: cell_step_cases)
  case (page F now s)
  then show ?thesis using beginPage_moves [of s F now] by simp
next
  case (commit F now p ps qs)
  then show ?thesis using assms(2) commitPass_moves [of p "sy_cell y" F now] by (simp add: sys_ok_def)
qed (simp add: serve_moves)

lemma cell_steps_stage:
  "cell_steps W y y' \<Longrightarrow> sys_ok y \<Longrightarrow> stage (rc_kv (sy_cell y)) \<le> stage (rc_kv (sy_cell y'))"
  by (induction rule: rtranclp_induct) (auto dest: cell_step_moves cell_steps_ok moves_onD intro: order_trans)

section \<open>Passes and the record they started from\<close>

fun pass_cleanup :: "pass \<Rightarrow> cleanup_record option" where
  "pass_cleanup (Ps_Phase c) = Some c"
| "pass_cleanup (Ps_Index c _ _) = Some c"
| "pass_cleanup (Ps_Streams c _ _) = Some c"
| "pass_cleanup (Ps_Queues c _ _) = Some c"
| "pass_cleanup (Ps_Failed c _) = Some c"
| "pass_cleanup _ = None"

text \<open>The record a pass carries is the stored one or an older one.\<close>

definition behind :: "cleanup_record \<Rightarrow> rval kv \<Rightarrow> bool" where
  "behind c s \<longleftrightarrow> (case get_cleanup s of
     None \<Rightarrow> get_tombstone s \<noteq> None
   | Some d \<Rightarrow> d = c \<or> cl_generation c < cl_generation d)"

lemma behind_moves: "behind c s \<Longrightarrow> moves_on s s' \<Longrightarrow> behind c s'"
  by (auto simp: behind_def moves_on_def stage_def split: option.splits)

definition passes_behind :: "sys \<Rightarrow> bool" where
  "passes_behind y \<longleftrightarrow>
     (\<forall>p \<in> set (sy_passes y). \<forall>c. pass_cleanup p = Some c \<longrightarrow> behind c (rc_kv (sy_cell y)))"

lemma beginCleanup_carries: "pass_cleanup (beginCleanup F c s) = Some d \<Longrightarrow> d = c"
proof -
  have a: "pass_cleanup (caught (Ps_Failed c) r) = Some d \<Longrightarrow> d = c"
    if "on_result r (\<lambda>p. \<forall>d. pass_cleanup p = Some d \<longrightarrow> d = c)" for r
    using that by (cases r) auto
  show "pass_cleanup (beginCleanup F c s) = Some d \<Longrightarrow> d = c"
    unfolding beginCleanup_def
    by (rule a) (auto simp: Let_def split: cleanup_phase.splits prod.splits intro!: any_call)
qed

lemma beginTerminal_carries [simp]:
  "pass_cleanup (beginHookPage F t s) = None" "pass_cleanup (beginTerminal F t s) = None"
proof -
  have a: "pass_cleanup (caught (Ps_Terminal_Failed t) r) = None" if "on_result r (\<lambda>p. pass_cleanup p = None)" for r
    using that by (cases r) auto
  show h: "pass_cleanup (beginHookPage F t s) = None"
    unfolding beginHookPage_def by (rule a) (auto split: prod.splits intro!: any_call)
  show "pass_cleanup (beginTerminal F t s) = None"
    by (cases "tc_phase t") (auto simp: beginTerminal_def Let_def h split: prod.splits intro!: a any_call)
qed

lemma beginPage_behind:
  assumes "p \<in> set (snd (beginPage F now s))" "pass_cleanup p = Some c"
  shows "behind c (rc_kv (fst (beginPage F now s)))"
proof -
  have "behind c (rc_kv s)" using assms
    by (auto simp: beginPage_def behind_def split: plan.splits prod.splits option.splits if_splits
        dest!: planCleanup_phase dest: beginCleanup_carries)
  then show ?thesis using behind_moves beginPage_moves by blast
qed

lemma cell_step_behind:
  assumes "cell_step W y y'" "sys_ok y" "passes_behind y"
  shows "passes_behind y'"
proof -
  note m = cell_step_moves [OF assms(1,2)]
  have old: "behind c (rc_kv (sy_cell y'))" if "p \<in> set (sy_passes y)" "pass_cleanup p = Some c" for p c
    using that assms(3) behind_moves [OF _ m] by (auto simp: passes_behind_def)
  show ?thesis using assms(1)
  proof (cases rule: cell_step_cases)
    case (serve now rq)
    then show ?thesis using old by (simp add: passes_behind_def)
  next
    case (page F now s)
    then show ?thesis using old beginPage_behind [of _ F now s] by (auto simp: passes_behind_def)
  next
    case (commit F now p ps qs)
    moreover have "pass_cleanup q = None" if "q \<in> set (snd (commitPass F now p (sy_cell y)))" for q
      using that by (cases p) (auto split: prod.splits if_splits)
    ultimately show ?thesis using old by (fastforce simp: passes_behind_def)
  qed
qed

lemma cell_steps_behind:
  "cell_steps W y y' \<Longrightarrow> sys_ok y \<Longrightarrow> passes_behind y \<Longrightarrow> passes_behind y'"
  by (induction rule: rtranclp_induct) (auto intro: cell_step_behind cell_steps_ok)

lemma fresh_sys_behind [simp]: "passes_behind (fresh_sys t)"
  by (simp add: passes_behind_def fresh_sys_def)

lemma stale_commit:
  assumes "pass_ok p" "pass_cleanup p = Some c" "behind c (rc_kv s)" "get_cleanup (rc_kv s) \<noteq> Some c"
  shows "commitPass F now p s = (s, [])"
proof -
  have "same_cleanup c s = None"
    using assms(3,4) by (auto simp: same_cleanup_def behind_def split: option.splits)
  moreover have "get_cleanup (rc_kv s) = Some d \<Longrightarrow> cl_generation d \<noteq> cl_generation c" for d
    using assms(3,4) by (auto simp: behind_def)
  ultimately show ?thesis using assms(1,2)
    by (cases p) (auto simp: setCleanupPhase_def commitIndexPage_def commitStreamPage_def
        commitQueuePage_def recordCleanupFailure_def split: option.splits)
qed

end
