(* ===== verification/Demo.thy ===== *)
theory Demo
  imports ApplyCorrect
begin

text \<open>
  A concrete \<open>@workflow/world\<close> on which the hypotheses of the development hold and the model
  computes: unary event ids, schemas that accept everything, the package's documented
  status predicates.  The witnesses evaluate the model on it.
\<close>

fun demo_child :: "event_body \<Rightarrow> bool" where
  "demo_child (StepCreated _ _) = True"
| "demo_child (StepStarted _ (Some h)) = (sh_input h \<noteq> None)"
| "demo_child (HookCreated _ _) = True"
| "demo_child (WaitCreated _ _) = True"
| "demo_child _ = False"

definition demo_slot :: "nat \<Rightarrow> string" where
  "demo_slot n = replicate n CHR ''e''"

definition demo_world :: world_api where
  "demo_world =
     \<lparr>spec_current = 1,
      terminal_run = (\<lambda>s. s = Completed \<or> s = Failed \<or> s = Cancelled),
      terminal_step = (\<lambda>s. s = Step_Completed \<or> s = Step_Failed),
      child_creation = demo_child, slot_to_event_id = demo_slot,
      event_id_to_slot = (\<lambda>i. Some (length i)), max_events_per_run = 1000,
      attr_changes_ok = (\<lambda>_ _ _. True), apply_attr_changes = (\<lambda>a c. c @ a),
      parse_run = Some, parse_step = Some, parse_hook = Some, parse_wait = Some,
      parse_event = Some\<rparr>"

lemma demo_ok:
  "schemas_ok demo_world" "slots_ok demo_world" "terminal_specs demo_world"
  "child_creation_ok demo_world"
  by (simp_all add: schemas_ok_def slots_ok_def terminal_specs_def child_creation_ok_def
      demo_world_def demo_slot_def inj_def)

definition demo_ctx :: "event_body \<Rightarrow> int \<Rightarrow> apply_ctx" where
  "demo_ctx b now =
     \<lparr>c_run = ''r1'', c_body = b, c_spec = None, c_occurred_at = None, c_resume_id = None,
      c_resume_digest = None, c_skip_preload = True, c_preload_events = False,
      c_since_cursor = None, c_event_count = None, c_token_holder = None,
      c_hook_claim_id = None, c_claimed_from = None, c_force_refused = False,
      c_cleanup = JUndefined, c_now = now, c_defer_cleanup = True\<rparr>"

definition demo_init :: run_init where
  "demo_init = \<lparr>ri_deployment = ''d1'', ri_workflow = ''wf'', ri_input = Some (JNum 7),
     ri_exec_ctx = None, ri_attrs = None, ri_allow_reserved = None, ri_enc_key = None\<rparr>"

definition demo_step :: step_init where
  "demo_step = \<lparr>si_name = ''add'', si_workflow = None, si_input = Some (JNum 1)\<rparr>"

definition demo_hook :: hook_init where
  "demo_hook = \<lparr>hi_token = ''t1'', hi_metadata = None, hi_is_webhook = None, hi_is_system = None,
     hi_retention = None, hi_force = False, hi_force_claimed_from = None\<rparr>"

text \<open>A run that is created, started, has one step in flight.\<close>

definition demo_running :: est where
  "demo_running = apply_all demo_world
     [demo_ctx (RunCreated demo_init) 10, demo_ctx (RunStarted None) 20,
      demo_ctx (StepCreated ''s1'' demo_step) 30, demo_ctx (StepStarted ''s1'' None) 40] fresh_cell"

lemma demo_running_ok: "cell_ok demo_world demo_running"
  unfolding demo_running_def by (intro apply_all_ok demo_ok fresh_ok)

end
