(* ===== verification/JournalFacts.thy ===== *)
theory JournalFacts
  imports Demo
begin

text \<open>
  What every legal journal satisfies: status moves, shapes, attempt counts, hooks and
  deliveries that happen once.
\<close>

section \<open>Facts about legal logs\<close>

lemma legal_log_terminal_run:
  assumes "replay_run W l = Some r" "terminal_run W (run_state r)"
  shows "replay_run W (l @ es) = Some r"
  using assms by (induction es arbitrary: l) (simp_all add: replay_run_def)

text \<open>A status a run may move to, and the fields no event changes.\<close>

fun run_moves :: "run_status \<Rightarrow> run_status \<Rightarrow> bool" where
  "run_moves Pending s = True"
| "run_moves Running s = (s \<noteq> Pending)"
| "run_moves s t = (s = t)"

definition same_run :: "wf_run \<Rightarrow> wf_run \<Rightarrow> bool" where
  "same_run r r' \<longleftrightarrow> run_id r' = run_id r \<and> run_name r' = run_name r
     \<and> run_deployment r' = run_deployment r \<and> run_spec r' = run_spec r
     \<and> run_created_at r' = run_created_at r \<and> run_expired_at r' = run_expired_at r
     \<and> run_moves (run_state r) (run_state r')
     \<and> (run_started_at r \<noteq> None \<longrightarrow> run_started_at r' = run_started_at r)"

lemma run_moves_refl [simp]: "run_moves s s"
  by (cases s) simp_all

lemma run_moves_trans: "run_moves s t \<Longrightarrow> run_moves t u \<Longrightarrow> run_moves s u"
  by (cases s; cases t) auto

lemma same_run_refl [simp]: "same_run r r"
  by (simp add: same_run_def)

lemma same_run_trans: "same_run r s \<Longrightarrow> same_run s t \<Longrightarrow> same_run r t"
  by (auto simp: same_run_def intro: run_moves_trans)

lemma evolve_run_same:
  assumes "terminal_specs W"
  shows "\<exists>r'. evolve_run W e (Some r) = Some r' \<and> same_run r r'"
proof (cases "terminal_run W (run_state r)")
  case False
  then have "run_state r = Pending \<or> run_state r = Running"
    using assms by (cases "run_state r") (auto simp: terminal_specsD)
  then have "same_run r (change_run W e r)"
    by (cases "ev_body e";
        auto simp: change_run_def finished_run_def compact_run_def same_run_def Let_def)
  then show ?thesis using False by simp
qed simp

lemma replay_run_same:
  assumes "terminal_specs W" "replay_run W l = Some r"
  shows "\<exists>r'. replay_run W (l @ es) = Some r' \<and> same_run r r'"
  using assms(2)
proof (induction es arbitrary: l r)
  case (Cons e es)
  obtain r1 where "evolve_run W e (Some r) = Some r1" "same_run r r1"
    using evolve_run_same [OF assms(1)] by blast
  then obtain r' where "replay_run W ((l @ [e]) @ es) = Some r'" "same_run r1 r'"
    using Cons.IH [of "l @ [e]" r1] Cons.prems by auto
  then show ?case using same_run_trans [OF \<open>same_run r r1\<close>] by auto
qed simp

definition same_step :: "step \<Rightarrow> step \<Rightarrow> bool" where
  "same_step x x' \<longleftrightarrow> step_run x' = step_run x \<and> step_id x' = step_id x \<and> step_name x' = step_name x
     \<and> step_spec x' = step_spec x \<and> step_created_at x' = step_created_at x
     \<and> step_attempt x \<le> step_attempt x'
     \<and> (step_started_at x \<noteq> None \<longrightarrow> step_started_at x' = step_started_at x)"

lemma evolve_step_same: "\<exists>x'. evolve_step c e (Some x) = Some x' \<and> same_step x x'"
  by (cases "ev_body e"; auto simp: same_step_def compact_step_def Let_def)

lemma same_step_trans: "same_step r s \<Longrightarrow> same_step s t \<Longrightarrow> same_step r t"
  by (auto simp: same_step_def)

lemma replay_step_same:
  assumes "replay_step c l = Some x"
  shows "\<exists>x'. replay_step c (l @ es) = Some x' \<and> same_step x x'"
  using assms
proof (induction es arbitrary: l x)
  case (Cons e es)
  obtain x1 where "evolve_step c e (Some x) = Some x1" "same_step x x1"
    using evolve_step_same by blast
  then obtain x' where "replay_step c ((l @ [e]) @ es) = Some x'" "same_step x1 x'"
    using Cons.IH [of "l @ [e]" x1] Cons.prems by (auto simp del: evolve_step.simps)
  then show ?case using same_step_trans [OF \<open>same_step x x1\<close>] by auto
qed (simp add: same_step_def)

lemma legal_log_appendD: "legal_log W (l @ es) \<Longrightarrow> legal_log W l"
proof (induction es rule: rev_induct)
  case (snoc e es)
  then show ?case by (auto elim: legal_log.cases)
qed simp

lemma legal_log_snocD: "legal_log W (l @ [e]) \<Longrightarrow> legal W l e"
  by (auto elim: legal_log.cases)

lemma legal_step_open:
  "legal W l e \<Longrightarrow> step_event_id (ev_body e) = Some c \<Longrightarrow> step_open W (replay_step c l)"
  by (cases "ev_body e") (auto simp: legal_def step_usable_def)

lemma legal_terminal_step:
  assumes "legal W l e" "replay_step c l = Some x" "terminal_step W (step_state x)"
  shows "evolve_step c e (Some x) = Some x"
proof -
  have "step_event_id (ev_body e) \<noteq> Some c" using legal_step_open [OF assms(1), of c] assms by auto
  then show ?thesis by simp
qed

lemma replay_terminal_step:
  assumes "legal_log W (l @ es)" "replay_step c l = Some x" "terminal_step W (step_state x)"
  shows "replay_step c (l @ es) = Some x"
  using assms(1)
proof (induction es rule: rev_induct)
  case (snoc e es)
  then have "replay_step c (l @ es) = Some x" using legal_log_appendD [of W "l @ es" "[e]"] by simp
  moreover have "legal W (l @ es) e" using snoc.prems legal_log_snocD [of W "l @ es" e] by simp
  ultimately show ?case using legal_terminal_step [OF _ _ assms(3)] replay_snoc(2) [of c "l @ es" e]
    by (simp del: evolve_step.simps)
qed (simp add: assms(2))

text \<open>Attempts are the starts the journal holds.\<close>

definition starts :: "string \<Rightarrow> event \<Rightarrow> bool" where
  "starts c e \<longleftrightarrow> is_step_started (ev_body e) \<and> step_event_id (ev_body e) = Some c"

lemma step_attempts:
  assumes "legal_log W l"
  shows "length (filter (starts c) l) =
     (case replay_step c l of None \<Rightarrow> 0 | Some x \<Rightarrow> step_attempt x)"
  using assms
proof induction
  case (legal_snoc l e)
  show ?case
  proof (cases "replay_step c l")
    case None
    then have "\<not> starts c e" using legal_step_open [OF legal_snoc.hyps(2), of c] by (auto simp: starts_def)
    then show ?thesis using legal_snoc.IH None
      by (cases "ev_body e") (auto simp: step_from_def)
  next
    case (Some y)
    then show ?thesis using legal_snoc.IH
      by (cases "ev_body e") (auto simp: starts_def compact_step_def Let_def)
  qed
qed simp

section \<open>Well-formed entities\<close>

text \<open>The discriminated unions of the wire schemas: which optional fields a status has.\<close>

fun run_shape :: "wf_run \<Rightarrow> bool" where
  "run_shape r = (case run_state r of
     Pending \<Rightarrow> run_output r = None \<and> run_error r = None \<and> run_completed_at r = None
   | Running \<Rightarrow> run_output r = None \<and> run_error r = None \<and> run_completed_at r = None
       \<and> run_started_at r \<noteq> None
   | Completed \<Rightarrow> run_error r = None \<and> run_completed_at r \<noteq> None
   | Failed \<Rightarrow> run_output r = None \<and> run_error r \<noteq> None \<and> run_completed_at r \<noteq> None
   | Cancelled \<Rightarrow> run_output r = None \<and> run_error r = None \<and> run_completed_at r \<noteq> None)"

fun step_shape :: "step \<Rightarrow> bool" where
  "step_shape x = (case step_state x of
     Step_Pending \<Rightarrow> step_completed_at x = None
   | Step_Running \<Rightarrow> step_completed_at x = None \<and> step_started_at x \<noteq> None
       \<and> 0 < step_attempt x \<and> step_retry_after x = None
   | Step_Completed \<Rightarrow> step_completed_at x \<noteq> None
   | Step_Failed \<Rightarrow> step_completed_at x \<noteq> None \<and> step_output x = None)"

lemma change_run_shape:
  assumes "run_shape r" "run_state r = Pending \<or> run_state r = Running"
  shows "run_shape (change_run W e r)"
  using assms
  by (cases "ev_body e"; elim disjE; simp add: change_run_def finished_run_def compact_run_def Let_def)

lemma replay_run_shape:
  assumes "terminal_specs W" "replay_run W l = Some r"
  shows "run_shape r"
  using assms(2)
proof (induction l arbitrary: r rule: rev_induct)
  case (snoc e l)
  show ?case
  proof (cases "replay_run W l")
    case None
    then show ?thesis using snoc.prems by (auto simp: run_from_def split: event_body.splits)
  next
    case (Some q)
    have q: "run_shape q" using snoc.IH Some by simp
    show ?thesis
    proof (cases "terminal_run W (run_state q)")
      case True
      then show ?thesis using snoc.prems Some q by simp
    next
      case False
      then have "run_state q = Pending \<or> run_state q = Running"
        using assms(1) by (cases "run_state q") (auto simp: terminal_specsD)
      then have "run_shape (change_run W e q)" by (rule change_run_shape [OF q])
      moreover have "r = change_run W e q" using snoc.prems Some False by simp
      ultimately show ?thesis by (simp only:)
    qed
  qed
qed simp

lemma replay_step_shape:
  assumes "terminal_specs W" "legal_log W l" "replay_step c l = Some x"
  shows "step_shape x \<and> (\<not> terminal_step W (step_state x) \<longrightarrow> step_output x = None)"
  using assms(2,3)
proof (induction arbitrary: x)
  case (legal_snoc l e)
  show ?case
  proof (cases "replay_step c l")
    case None
    then show ?thesis using legal_snoc.prems
      by (auto simp: step_from_def split: event_body.splits if_splits)
  next
    case (Some q)
    have "step_event_id (ev_body e) = Some c \<Longrightarrow> step_open W (Some q)"
      using legal_step_open [OF legal_snoc.hyps(2)] Some by simp
    then show ?thesis using legal_snoc.prems legal_snoc.IH [OF Some] Some assms(1)
      by (cases "ev_body e"; cases "step_state q")
        (auto simp: compact_step_def Let_def terminal_specsD split: if_splits)
  qed
qed simp

section \<open>Hooks and deliveries\<close>

lemma legal_hook_once:
  assumes "legal_log W l"
  shows "length (filter (creates_hook c) l) \<le> 1"
  using assms
proof induction
  case (legal_snoc l e)
  have "creates_hook c e \<Longrightarrow> \<not> list_ex (creates_hook c) l"
    using legal_snoc.hyps(2) by (cases "ev_body e") (auto simp: creates_hook_def legal_def)
  then show ?case using legal_snoc.IH by (auto simp: filter_empty_conv list_ex_iff)
qed simp

lemma legal_delivery_once:
  assumes "legal_log W l" "k \<noteq> []"
  shows "length (filter (delivers k) l) \<le> 1"
  using assms(1)
proof induction
  case (legal_snoc l e)
  have "delivers k e \<Longrightarrow> \<not> list_ex (delivers k) l"
    using legal_snoc.hyps(2) assms(2) by (cases "ev_body e") (auto simp: delivers_def legal_def)
  then show ?case using legal_snoc.IH by (auto simp: filter_empty_conv list_ex_iff)
qed simp

lemma legal_attr_once:
  assumes "legal_log W l" "k \<noteq> []"
  shows "length (filter (writes_attr k) l) \<le> 1"
  using assms(1)
proof induction
  case (legal_snoc l e)
  have "writes_attr k e \<Longrightarrow> \<not> list_ex (writes_attr k) l"
    using legal_snoc.hyps(2) assms(2) by (cases "ev_body e") (auto simp: writes_attr_def legal_def)
  then show ?case using legal_snoc.IH by (auto simp: filter_empty_conv list_ex_iff)
qed simp

text \<open>A disposed hook id was created before, so it cannot be created again.\<close>

lemma live_hook_created: "replay_hook c l \<noteq> None \<Longrightarrow> list_ex (creates_hook c) l"
proof (induction l rule: rev_induct)
  case (snoc e l)
  then show ?case
    by (cases "ev_body e") (auto simp: evolve_hook_def creates_hook_def split: if_splits)
qed simp

lemma disposed_hook_stays:
  assumes "legal_log W (l @ es)" "list_ex (creates_hook c) l" "replay_hook c l = None"
  shows "replay_hook c (l @ es) = None"
  using assms(1)
proof (induction es rule: rev_induct)
  case (snoc e es)
  then have n: "replay_hook c (l @ es) = None" using legal_log_appendD [of W "l @ es" "[e]"] by simp
  have "\<not> creates_hook c e"
    using legal_log_snocD [of W "l @ es" e] snoc.prems assms(2)
    by (cases "ev_body e") (auto simp: creates_hook_def legal_def)
  then show ?case using n replay_snoc(3) [of c "l @ es" e]
    by (cases "ev_body e") (auto simp: evolve_hook_def creates_hook_def)
qed (simp add: assms(3))

end
