(* ===== verification/CellHistory.thy ===== *)
theory CellHistory
  imports CellProgress JournalFacts
begin

text \<open>
  The run cell as a whole keeps the journal contract: until the payload phase of cleanup begins
  to delete keys, whatever interleaving of requests and cleanup pages the cell has gone through,
  its stored entities are the fold of a legal, dense event log, and what outlives the run's
  end (disposed hooks and waits, retention stamps) is consistent with it.
\<close>

section \<open>What the contract reads\<close>

definition log_space :: "space \<Rightarrow> bool" where
  "log_space p \<longleftrightarrow> entity_space p \<or> p \<in> {Sp_Event, Sp_Event_Seq}"

lemma log_space_simps [simp]:
  "\<not> log_space Sp_Cleanup" "\<not> log_space Sp_Tombstone" "\<not> log_space Sp_Terminal"
  "\<not> log_space Sp_Hook_Marker" "\<not> log_space Sp_Queue_Payload" "\<not> log_space Sp_Queue_Claim"
  "\<not> log_space Sp_Queue_Scope" "\<not> log_space Sp_Queue_Orphan" "\<not> log_space Sp_Reservation"
  "\<not> log_space Sp_Inflight" "\<not> log_space Sp_Hook_Cancelled" "\<not> log_space Sp_Hook_Created"
  "\<not> log_space Sp_Hook_Forced" "\<not> log_space Sp_Step_Created" "\<not> log_space Sp_Hook_Released"
  by (simp_all add: log_space_def entity_space_def)

abbreviation hist_ok :: "world_api \<Rightarrow> rval kv \<Rightarrow> bool" where
  "hist_ok W s \<equiv> cell_ok W (eventStore s)"

lemma cell_ok_cong:
  assumes "\<And>p i. entity_space p \<or> p = Sp_Event \<Longrightarrow> kv_get (key p i) (es_kv s') = kv_get (key p i) (es_kv s)"
    and "es_seq s' = es_seq s"
  shows "cell_ok W s' = cell_ok W s"
proof -
  have "event_log W s' = event_log W s"
    using assms by (simp add: event_log_def get_event_def)
  moreover have "reflects W l (es_kv s') = reflects W l (es_kv s)" for l
    using assms(1) by (intro reflects_cong) simp
  ultimately show ?thesis using assms by (simp add: cell_ok_def log_at_def)
qed

lemma get_seq_cong: "kv_get seq_key s' = kv_get seq_key s \<Longrightarrow> get_seq s' = get_seq s"
  by (simp add: get_seq_def)

lemma hist_cong:
  assumes "\<And>p i. log_space p \<Longrightarrow> kv_get (key p i) s' = kv_get (key p i) s"
  shows "hist_ok W s' = hist_ok W s"
proof (rule cell_ok_cong)
  show "es_seq (eventStore s') = es_seq (eventStore s)"
    using assms [of Sp_Event_Seq "[]"] get_seq_cong [of s' s] by (simp add: log_space_def)
qed (auto simp: assms log_space_def)

lemma hist_other [simp]:
  "\<not> log_space p \<Longrightarrow> hist_ok W (kv_put (key p i) v s) = hist_ok W s"
  "\<not> log_space p \<Longrightarrow> hist_ok W (kv_del (key p i) s) = hist_ok W s"
  "hist_ok W (kv_put (hookMarkerKey r) v s) = hist_ok W s"
  "hist_ok W (kv_put (hookClaimCancellationKey c) v s) = hist_ok W s"
  by (rule hist_cong; auto)+

lemma hist_restamp:
  assumes "hist_ok W s" "get_run s = Some r"
  shows "hist_ok W (kv_put run_key (VRun (r\<lparr>run_expired_at := x\<rparr>)) s)"
proof -
  let ?s = "kv_put run_key (VRun (r\<lparr>run_expired_at := x\<rparr>)) s"
  have l: "event_log W (eventStore ?s) = event_log W (eventStore s)" "get_seq ?s = get_seq s"
    by (simp_all add: event_log_def get_event_def get_seq_def)
  have "Some r = expiring (run_expiry s) (replay_run W (event_log W (eventStore s)))"
    using reflects_getD(1) [OF cell_okD(1) [OF assms(1)]] assms(2) by simp
  then obtain r0 where "replay_run W (event_log W (eventStore s)) = Some r0"
    "r = r0\<lparr>run_expired_at := run_expiry s\<rparr>"
    by (cases "replay_run W (event_log W (eventStore s))") simp_all
  moreover have "reflects W (event_log W (eventStore s)) s" using cell_okD(1) [OF assms(1)] by simp
  ultimately have "reflects W (event_log W (eventStore s)) ?s"
    by (simp add: reflects_def)
  then show ?thesis using assms(1) l by (simp add: cell_ok_def log_at_def)
qed

section \<open>Sound cells\<close>

text \<open>Once terminal disposal has been asked for, the run is over.\<close>

definition run_done :: "world_api \<Rightarrow> rval kv \<Rightarrow> bool" where
  "run_done W s \<longleftrightarrow> (\<exists>r. get_run s = Some r \<and> terminal_run W (run_state r))"

definition sound :: "world_api \<Rightarrow> rval kv \<Rightarrow> bool" where
  "sound W s \<longleftrightarrow> hist_ok W s \<and> (get_terminal s \<noteq> None \<longrightarrow> run_done W s)"

lemma run_done_put [simp]:
  "run_done W (kv_put k v s) = (if k = run_key then (\<exists>r. as_run v = Some r \<and> terminal_run W (run_state r)) else run_done W s)"
  "k \<noteq> run_key \<Longrightarrow> run_done W (kv_del k s) = run_done W s"
  "run_key \<notin> set ks \<Longrightarrow> run_done W (kv_del_all ks s) = run_done W s"
  by (auto simp: run_done_def)

lemma sound_other [simp]:
  "\<not> log_space p \<Longrightarrow> p \<noteq> Sp_Terminal \<Longrightarrow> sound W (kv_put (key p i) v s) = sound W s"
  "\<not> log_space p \<Longrightarrow> p \<noteq> Sp_Terminal \<Longrightarrow> sound W (kv_del (key p i) s) = sound W s"
  "sound W (kv_put (hookMarkerKey r) v s) = sound W s"
  "sound W (kv_put (hookClaimCancellationKey c) v s) = sound W s"
  by (auto simp: sound_def log_space_def entity_space_def)

lemma sound_restamp:
  "sound W s \<Longrightarrow> get_run s = Some r \<Longrightarrow> sound W (kv_put run_key (VRun (r\<lparr>run_expired_at := x\<rparr>)) s)"
  by (auto simp: sound_def hist_restamp run_done_def)

lemma sound_terminal:
  "sound W s \<Longrightarrow> run_done W s \<Longrightarrow> sound W (kv_put terminal_key v s)"
  "sound W s \<Longrightarrow> sound W (kv_del terminal_key s)"
  by (auto simp: sound_def)

lemma done_not_live: "hist_ok W s \<Longrightarrow> run_done W s \<Longrightarrow> \<not> run_live W (event_log W (eventStore s))"
  using stored_live(1) [of W "eventStore s"] by (auto simp: run_done_def)

text \<open>Disposal deletes hooks and waits of finished runs and keys the contract does not read.\<close>

definition disposable :: "string list \<Rightarrow> bool" where
  "disposable ks \<longleftrightarrow> (\<forall>k \<in> set ks. \<exists>p i. k = key p i \<and>
     (p \<in> {Sp_Hook, Sp_Wait} \<or> \<not> log_space p \<and> p \<noteq> Sp_Terminal))"

lemma disposable_simps [simp]:
  "disposable []"
  "disposable (ks @ ks') \<longleftrightarrow> disposable ks \<and> disposable ks'"
  "disposable (hook_keys hs)"
  by (auto simp: disposable_def) (use hook_keys_space in fastforce)

lemma keys_in_disposable: "keys_in p ks \<Longrightarrow> p \<in> {Sp_Hook_Marker, Sp_Wait, Sp_Queue_Payload} \<Longrightarrow> disposable ks"
  by (fastforce simp: keys_in_def disposable_def has_prefix_key)

lemma sound_del_one:
  assumes "sound W s" "run_done W s" "p \<in> {Sp_Hook, Sp_Wait}"
  shows "sound W (kv_del (key p i) s)"
proof -
  have l: "event_log W (eventStore (kv_del (key p i) s)) = event_log W (eventStore s)"
    "get_seq (kv_del (key p i) s) = get_seq s"
    using assms(3) by (auto simp: event_log_def get_event_def get_seq_def)
  have h: "hist_ok W s" using assms(1) by (simp add: sound_def)
  have "reflects W (event_log W (eventStore s)) (kv_del (key p i) s)"
    using reflects_release_one [OF _ done_not_live [OF h assms(2)]] cell_okD(1) [OF h] assms(3) by auto
  then have "hist_ok W (kv_del (key p i) s)" using h assms(3) l by (auto simp: cell_ok_def log_at_def)
  then show ?thesis using assms by (auto simp: sound_def run_done_def)
qed

lemma sound_dispose: "sound W s \<Longrightarrow> run_done W s \<Longrightarrow> disposable ks \<Longrightarrow> sound W (kv_del_all ks s)"
  unfolding kv_del_all_def
proof (induction ks arbitrary: s)
  case (Cons k ks)
  obtain p i where k: "k = key p i" "p \<in> {Sp_Hook, Sp_Wait} \<or> \<not> log_space p \<and> p \<noteq> Sp_Terminal"
    using Cons.prems(3) by (auto simp: disposable_def)
  then have "sound W (kv_del k s)" using Cons.prems sound_del_one by auto
  moreover have "run_done W (kv_del k s)"
    using k Cons.prems(2) by (auto simp: log_space_def entity_space_def)
  moreover have "disposable ks" using Cons.prems(3) by (simp add: disposable_def)
  ultimately show ?case using Cons.IH by simp
qed simp

lemma sound_del_all_other: "sound W s \<Longrightarrow> keys_in p ks \<Longrightarrow> \<not> log_space p \<Longrightarrow> p \<noteq> Sp_Terminal \<Longrightarrow> sound W (kv_del_all ks s)"
  unfolding kv_del_all_def
proof (induction ks arbitrary: s)
  case (Cons k ks)
  then obtain i where "k = key p i" by (auto simp: keys_in_def has_prefix_key)
  then show ?case using Cons by (auto simp: keys_in_def)
qed simp

section \<open>Events\<close>

lemma cell_ok_seq:
  assumes "cell_ok W e" "n = get_seq (es_kv e)"
  shows "hist_ok W (if es_seq e \<noteq> n then kv_put seq_key (VSeq (es_seq e)) (es_kv e) else es_kv e)"
    (is "hist_ok W ?s")
proof -
  have "get_seq ?s = es_seq e" using assms(2) by (simp add: get_seq_def)
  then have "cell_ok W (eventStore ?s) = cell_ok W e" by (intro cell_ok_cong) (auto simp: entity_space_def)
  then show ?thesis using assms(1) by simp
qed

lemma recordHooks_sound:
  assumes "cell_ok W e" "n = get_seq (es_kv e)" "get_terminal (es_kv e) \<noteq> None \<Longrightarrow> run_done W (es_kv e)"
  shows "sound W (recordHooks n (es_seq e) out (es_kv e))"
proof -
  have m: "sound W (kv_put_all (map (\<lambda>r. (hookMarkerKey r, VHookRef r)) rs) s) = sound W s" for rs s
    by (induction rs arbitrary: s) (simp_all add: kv_put_all_def)
  have "sound W (if es_seq e \<noteq> n then kv_put seq_key (VSeq (es_seq e)) (es_kv e) else es_kv e)"
    using cell_ok_seq [OF assms(1,2)] assms(3) by (auto simp: sound_def)
  then show ?thesis by (simp add: recordHooks_def Let_def m)
qed

lemma advanced_done:
  assumes "advanced W s out s'" "cell_ok W s" "run_done W (es_kv s)"
  shows "run_done W (es_kv s')"
proof (cases out)
  case (Success x)
  obtain r where r: "get_run (es_kv s) = Some r" "terminal_run W (run_state r)"
    using assms(3) by (auto simp: run_done_def)
  have s': "cell_ok W s'" and "\<exists>es. event_log W s' = event_log W s @ es"
    using assms(1) Success by (auto simp: advanced_def)
  then obtain es where es: "event_log W s' = event_log W s @ es" by blast
  obtain r0 where "replay_run W (event_log W s) = Some r0" "run_state r0 = run_state r"
    using stored_live(2,3) [OF assms(2) r(1)] by auto
  then have "replay_run W (event_log W s') = Some r0" using es r(2) legal_log_terminal_run by simp
  then have "get_run (es_kv s') = Some (r0\<lparr>run_expired_at := run_expiry (es_kv s')\<rparr>)"
    using reflects_getD(1) [OF cell_okD(1) [OF s']] by simp
  then show ?thesis using \<open>run_state r0 = run_state r\<close> r(2) by (simp add: run_done_def)
qed (use assms in \<open>simp add: advanced_def\<close>)

lemma forced_disposal_advances:
  assumes W: "schemas_ok W" "slots_ok W" and s: "cell_ok W s"
    and r: "applyForcedHookDisposal W rq i now s = Inr (j, s')"
  shows "cell_ok W s' \<and> get_run (es_kv s') = get_run (es_kv s)
    \<and> (\<exists>es. event_log W s' = event_log W s @ es)"
proof (cases "\<exists>h. kv_get (hook_forced_key (fd_hook rq)) (es_kv s) = None \<and>
    get_hook (fd_hook rq) (es_kv s) = Some h \<and> hook_token h = fd_token rq")
  case True
  then obtain h where h: "kv_get (hook_forced_key (fd_hook rq)) (es_kv s) = None"
    "get_hook (fd_hook rq) (es_kv s) = Some h" "hook_token h = fd_token rq" by blast
  let ?s = "put_kv (hook_forced_key (fd_hook rq))
     (VForced \<lparr>fc_token = fd_token rq, fc_claimed_by = fd_claimed_by rq\<rparr>) (removeHook (fd_hook rq) h s)"
  have log: "event_log W ?s = event_log W s" "es_seq ?s = es_seq s"
    by (simp_all add: removeHook_def event_log_def get_event_def)
  show ?thesis
  proof (cases "\<exists>x. get_run (es_kv s) = Some x \<and> \<not> terminal_run W (run_state x)")
    case True
    then obtain x where x: "get_run (es_kv s) = Some x" "\<not> terminal_run W (run_state x)" by blast
    define e where "e = \<lparr>ev_body = HookDisposed (fd_hook rq)
        (Some \<lparr>hd_token = fd_token rq, hd_claimed_by = Some (fd_claimed_by rq)\<rparr>),
      ev_run = i, ev_id = slot_to_event_id W (Suc (es_seq s)), ev_created_at = now,
      ev_occurred_at = None, ev_resume_id = None, ev_spec = run_spec x\<rparr>"
    then have e: "ev_body e = HookDisposed (fd_hook rq)
        (Some \<lparr>hd_token = fd_token rq, hd_claimed_by = Some (fd_claimed_by rq)\<rparr>)"
      "ev_id e = slot_to_event_id W (Suc (es_seq s))" by simp_all
    have s': "s' = putEvent e (?s\<lparr>es_seq := Suc (es_seq s)\<rparr>)"
      using r h x unfolding e_def by (auto simp: applyForcedHookDisposal_def bindE_eq_Inr removeHook_def Let_def dest!: schemas_okD [OF W(1)])
    have "replay_hook (fd_hook rq) (event_log W s) \<noteq> None"
      using reflects_getD(3) [OF cell_okD(1) [OF s] h(2)] by simp
    then have "appended W e s s'" unfolding s'
      using e stored_live(2) [OF s x(1)]
      by (intro appended_put) (auto simp: legal_def removeHook_def intro!: reflects_hook_disposed cell_okD(1) [OF s])
    then show ?thesis using appended_ok [OF W(2) s] by (simp add: s' removeHook_def)
  next
    case False
    then have s': "s' = ?s" using r h by (auto simp: applyForcedHookDisposal_def Let_def removeHook_def split: option.splits)
    have "\<not> run_live W (event_log W s)"
      using False reflects_getD(1) [OF cell_okD(1) [OF s]] by (auto simp: run_live_def split: option.splits)
    then have "reflects W (event_log W s) (es_kv ?s)"
      using reflects_release_one cell_okD(1) [OF s] by (simp add: removeHook_def)
    moreover have "log_inv W ?s" using cell_okD(3) [OF s] by (simp add: log_at_def removeHook_def)
    ultimately have "cell_ok W ?s" using s log by (simp add: cell_ok_def)
    then show ?thesis using s' log(1) by (simp add: removeHook_def)
  qed
next
  case False
  then show ?thesis using r s by (auto simp: applyForcedHookDisposal_def split: if_splits option.splits)
qed

section \<open>Requests\<close>

lemma cell_write_sound:
  assumes W: "schemas_ok W" "slots_ok W" "terminal_specs W" "child_creation_ok W"
  shows "cell_write W now s s' \<Longrightarrow> sound W (rc_kv s) \<Longrightarrow> sound W (rc_kv s')"
proof (induction rule: cell_write.induct)
  case (quiet_put p s i v)
  then show ?case by (auto simp: quiet_def)
next
  case (quiet_del p s i)
  then show ?case by (auto simp: quiet_def)
next
  case (accepted s ctx out e)
  have h: "cell_ok W (eventStore (rc_kv s))" using accepted(3) by (simp add: sound_def)
  note a = applyEvent_advances [OF W h accepted(2)]
  have "get_terminal (es_kv e) = get_terminal (rc_kv s)"
    using applyEvent_untouched [OF accepted(2), of Sp_Terminal "[]"] by (simp add: get_terminal_def written_def)
  then have "get_terminal (es_kv e) \<noteq> None \<Longrightarrow> run_done W (es_kv e)"
    using advanced_done [OF a h] accepted(3) by (simp add: sound_def)
  moreover have "get_seq (rc_kv s) = get_seq (es_kv e)"
    using applyEvent_untouched [OF accepted(2), of Sp_Event_Seq "[]"] by (simp add: get_seq_def written_def)
  ultimately show ?case using a recordHooks_sound [of W e "get_seq (rc_kv s)"] by (auto simp: advanced_def)
next
  case (refused s ctx f e)
  then have "cell_ok W (eventStore (rc_kv s))" by (simp add: sound_def)
  then show ?case using applyEvent_advances [OF W _ refused(2)] refused(3) by (simp add: advanced_def)
next
  case (taken_over s rq i j e)
  let ?s = "if es_seq e \<noteq> get_seq (rc_kv s) then kv_put seq_key (VSeq (es_seq e)) (es_kv e) else es_kv e"
  have e: "cell_ok W e" "get_run (es_kv e) = get_run (rc_kv s)"
    using forced_disposal_advances [OF W(1,2) _ taken_over(2)] taken_over(3) by (auto simp: sound_def)
  have "get_seq (rc_kv s) = get_seq (es_kv e)"
    using applyForcedHookDisposal_untouched [OF taken_over(2), of Sp_Event_Seq "[]"]
    by (simp add: get_seq_def written_def)
  then have "hist_ok W ?s" "get_run ?s = get_run (rc_kv s)" using e cell_ok_seq by auto
  moreover have "get_terminal ?s = get_terminal (rc_kv s)"
    using applyForcedHookDisposal_untouched [OF taken_over(2), of Sp_Terminal "[]"]
    by (simp add: get_terminal_def written_def)
  ultimately show ?case using taken_over(3) by (simp add: sound_def run_done_def)
next
  case (dated s r x r' c t)
  then show ?case using sound_restamp [OF dated(6,3)] schemas_okD(1) [OF W(1) dated(4)] by simp
next
  case (redated s c r x r' c' t)
  then show ?case using sound_restamp [OF redated(8,3)] schemas_okD(1) [OF W(1) redated(4)] by simp
next
  case (ended s r t x)
  then show ?case by (auto simp: run_done_def intro!: sound_terminal)
qed simp_all

lemma serve_sound:
  assumes "schemas_ok W" "slots_ok W" "terminal_specs W" "child_creation_ok W" "sound W (rc_kv s)"
  shows "sound W (rc_kv (serve W now rq s))"
  by (rule serve_invariant [where P = "\<lambda>s. sound W (rc_kv s)", OF cell_write_sound [OF assms(1-4)] assms(5)])

section \<open>Pages\<close>

lemma finishTerminal_sound: "sound W (rc_kv s) \<Longrightarrow> sound W (rc_kv (finishTerminal now s))"
  by (simp add: finishTerminal_def Let_def sound_terminal split: option.splits)

lemma disposed: "sound W s \<Longrightarrow> get_terminal s = Some t \<Longrightarrow> disposable ks \<Longrightarrow> sound W (kv_del_all ks s)"
  by (rule sound_dispose) (simp_all add: sound_def)

lemma sound_progress:
  "sound W s \<Longrightarrow> get_terminal s = Some t \<Longrightarrow> disposable ks \<Longrightarrow> run_key \<notin> set ks \<Longrightarrow>
   sound W (kv_put terminal_key v (kv_del_all ks s))"
  by (intro sound_terminal disposed) (auto simp: sound_def)

lemma waits_disposable:
  "list_page (space_prefix Sp_Wait) n s = (es, all) \<Longrightarrow> disposable (map fst es) \<and> run_key \<notin> fst ` set es"
  using list_page_keys [of Sp_Wait n s es all] keys_in_disposable [of Sp_Wait "map fst es"] keys_in_map [of Sp_Wait es]
  by simp

lemma terminal_passes_sound:
  assumes "sound W (rc_kv s)"
  shows "keys_in Sp_Hook_Marker ks \<Longrightarrow> sound W (rc_kv (snd (commitSmallTerminal t hs ks now s)))"
    "sound W (rc_kv (commitTerminalHooks t hs all now s))"
    "keys_in Sp_Hook_Marker ks \<Longrightarrow> sound W (rc_kv (commitTerminalMarkers t ks all now s))"
    "sound W (rc_kv (deleteTerminalWaitPage t now s))"
    "sound W (rc_kv (recordTerminalCleanupFailure err t now s))"
    "sound W (rc_kv (finishOrphan x s))"
proof -
  obtain es fin where w: "list_page (space_prefix Sp_Wait) terminal_wait_page_size (rc_kv s) = (es, fin)"
    by (cases "list_page (space_prefix Sp_Wait) terminal_wait_page_size (rc_kv s)")
  note d = waits_disposable [OF w]
  show "sound W (rc_kv (snd (commitSmallTerminal t hs ks now s)))" if "keys_in Sp_Hook_Marker ks"
    using assms w d keys_in_disposable [OF that]
    by (auto simp: commitSmallTerminal_def split: option.splits dest!: same_terminalD
        intro!: finishTerminal_sound disposed)
  show "sound W (rc_kv (deleteTerminalWaitPage t now s))"
    using assms w d
    by (auto simp: deleteTerminalWaitPage_def Let_def split: option.splits dest!: same_terminalD
        intro!: finishTerminal_sound disposed sound_progress)
  show "sound W (rc_kv (commitTerminalMarkers t ks all now s))" if "keys_in Sp_Hook_Marker ks"
    using assms that keys_in_disposable [OF that]
    by (auto simp: commitTerminalMarkers_def split: option.splits dest!: same_terminalD intro!: sound_progress)
  show "sound W (rc_kv (commitTerminalHooks t hs all now s))"
    using assms
    by (auto simp: commitTerminalHooks_def split: option.splits dest!: same_terminalD intro!: sound_progress)
  show "sound W (rc_kv (recordTerminalCleanupFailure err t now s))"
    using assms
    by (auto simp: recordTerminalCleanupFailure_def sound_def split: option.splits dest!: same_terminalD)
  show "sound W (rc_kv (finishOrphan x s))"
    using assms by (auto simp: finishOrphan_def split: option.splits)
qed

lemma commitPass_sound:
  assumes "pass_ok p" "stage (rc_kv s) < 5" "sound W (rc_kv s)"
  shows "sound W (rc_kv (fst (commitPass F now p s)))"
proof (cases p)
  case (Ps_Small t hs ks)
  then show ?thesis using assms(1) terminal_passes_sound(1) [OF assms(3), of ks t hs now]
    by (auto split: prod.splits)
qed (use assms terminal_passes_sound [OF assms(3)] in
    \<open>auto simp: setCleanupPhase_def commitIndexPage_def commitStreamPage_def commitQueuePage_def
      recordCleanupFailure_def deletePayloadBatch_def stage_def sound_del_all_other
      split: option.splits prod.splits\<close>)

lemma beginPage_sound: "sound W (rc_kv s) \<Longrightarrow> sound W (rc_kv (fst (beginPage F now s)))"
  by (auto simp: beginPage_def expireClaims_def leaseOrphan_def Let_def split: plan.splits option.splits)

section \<open>The cell keeps its history\<close>

definition sound_sys :: "world_api \<Rightarrow> sys \<Rightarrow> bool" where
  "sound_sys W y \<longleftrightarrow> sys_ok y \<and> (stage (rc_kv (sy_cell y)) < 5 \<longrightarrow> sound W (rc_kv (sy_cell y)))"

lemma cell_step_sound:
  assumes W: "schemas_ok W" "slots_ok W" "terminal_specs W" "child_creation_ok W"
    and y: "sound_sys W y" and step: "cell_step W y y'"
  shows "sound_sys W y'"
proof -
  have ok: "sys_ok y" "sys_ok y'" using y step cell_step_ok by (auto simp: sound_sys_def)
  have "sound W (rc_kv (sy_cell y'))" if st: "stage (rc_kv (sy_cell y')) < 5"
  proof -
    have st0: "stage (rc_kv (sy_cell y)) < 5"
      using st moves_onD [OF cell_step_moves [OF step ok(1)]] by simp
    then have s: "sound W (rc_kv (sy_cell y))" using y by (simp add: sound_sys_def)
    show ?thesis using step
    proof (cases rule: cell_step_cases)
      case (serve now rq)
      then show ?thesis using serve_sound [OF W s] by simp
    next
      case (page F now s')
      then show ?thesis using beginPage_sound [of W s' F now] s by simp
    next
      case (commit F now p ps qs)
      then show ?thesis using commitPass_sound [of p "sy_cell y" W F now] ok(1) st0 s by (simp add: sys_ok_def)
    qed
  qed
  then show ?thesis using ok by (simp add: sound_sys_def)
qed

lemma cell_steps_sound:
  assumes "schemas_ok W" "slots_ok W" "terminal_specs W" "child_creation_ok W"
  shows "cell_steps W y y' \<Longrightarrow> sound_sys W y \<Longrightarrow> sound_sys W y'"
  by (induction rule: rtranclp_induct) (auto intro: cell_step_sound [OF assms])

lemma fresh_sys_sound: "sound_sys W (fresh_sys t)"
proof -
  have "hist_ok W []"
    using fresh_ok [of W] by (simp add: eventStore_def fresh_cell_def get_seq_def kv_get_def)
  then show ?thesis by (simp add: sound_sys_def sound_def fresh_sys_def sys_ok_def kv_wf_def get_terminal_def kv_get_def)
qed

end
