(* ===== verification/CellDrive.thy ===== *)
theory CellDrive
  imports CellProgress
begin

text \<open>
  No cleanup is ever stranded.  Whatever requests and pages have run, as long as the cell still
  holds a cleanup record or a terminal record its alarm is set, or a page that started from the
  current record is still to commit; and such a commit sets the alarm again or finishes the work.
\<close>

section \<open>The last payload page\<close>

lemma kv_list_all: "kv_list (prefix_query []\<lparr>q_limit := Some n\<rparr>) s = take n s"
  by (simp add: kv_list_def in_query_def prefix_query_def has_prefix_def take_limit_def split_def)

lemma payload_keys_take:
  "payload_keys s = take payload_delete_batch
     (filter (\<lambda>k. k \<noteq> cleanup_key \<and> k \<noteq> tombstone_key) (map fst (take (payload_delete_batch + 3) s)))"
  by (simp only: payload_keys_def kv_list_all)

text \<open>A batch asks for three keys more than it deletes, and two of them may be the records.\<close>

lemma payload_keys_Nil:
  assumes "kv_wf s" "payload_keys s = []"
  shows "fst ` set s \<subseteq> {cleanup_key, tombstone_key}"
proof -
  let ?t = "take (payload_delete_batch + 3) s"
  have sub: "set (map fst ?t) \<subseteq> {cleanup_key, tombstone_key}"
  proof -
    have "filter (\<lambda>k. k \<noteq> cleanup_key \<and> k \<noteq> tombstone_key) (map fst ?t) = []"
      using assms(2) by (simp add: payload_keys_take page_size_defs)
    then show ?thesis by (auto simp: filter_empty_conv)
  qed
  have "distinct (map fst s)" using assms(1) strict_sorted_iff by (auto simp: kv_wf_def)
  then have "distinct (map fst ?t)" by (simp add: distinct_take take_map [symmetric])
  then have "length ?t = card (set (map fst ?t))" using distinct_card by fastforce
  also have "\<dots> \<le> card {cleanup_key, tombstone_key}" by (rule card_mono) (use sub in auto)
  finally have "length ?t \<le> 2" by simp
  then have "?t = s" by (simp add: page_size_defs)
  then show ?thesis using sub by simp
qed

lemma kv_get_Some_in: "kv_get k s = Some v \<Longrightarrow> k \<in> fst ` set s"
  by (auto simp: kv_get_def dest: map_of_SomeD intro: rev_image_eqI)

lemma payload_done_empty:
  assumes "kv_wf s" "payload_keys s = []" "k \<noteq> cleanup_key" "k \<noteq> tombstone_key"
  shows "kv_get k s = None"
  using payload_keys_Nil [OF assms(1,2)] kv_get_Some_in [of k s] assms(3,4)
  by (cases "kv_get k s") auto

section \<open>Work and who does it\<close>

definition work :: "rval kv \<Rightarrow> bool" where
  "work s \<longleftrightarrow> get_cleanup s \<noteq> None \<or> get_terminal s \<noteq> None"

fun current :: "pass \<Rightarrow> cell \<Rightarrow> bool" where
  "current (Ps_Phase c) s \<longleftrightarrow> same_cleanup c s \<noteq> None"
| "current (Ps_Index c _ _) s \<longleftrightarrow> same_cleanup c s \<noteq> None"
| "current (Ps_Streams c _ _) s \<longleftrightarrow> same_cleanup c s \<noteq> None"
| "current (Ps_Queues c _ _) s \<longleftrightarrow> same_cleanup c s \<noteq> None"
| "current (Ps_Failed c _) s \<longleftrightarrow> same_cleanup c s \<noteq> None"
| "current (Ps_Payload _) s \<longleftrightarrow> map_option cl_phase (get_cleanup (rc_kv s)) = Some Ph_Payload"
| "current (Ps_Small t _ _) s \<longleftrightarrow> same_terminal t s \<noteq> None"
| "current (Ps_Hooks t _ _) s \<longleftrightarrow> same_terminal t s \<noteq> None"
| "current (Ps_Markers t _ _) s \<longleftrightarrow> same_terminal t s \<noteq> None"
| "current (Ps_Waits t) s \<longleftrightarrow> same_terminal t s \<noteq> None"
| "current (Ps_Terminal_Failed t _) s \<longleftrightarrow> same_terminal t s \<noteq> None"
| "current (Ps_Orphan _) s \<longleftrightarrow> False"

lemma current_cong:
  "get_cleanup (rc_kv s') = get_cleanup (rc_kv s) \<Longrightarrow> get_terminal (rc_kv s') = get_terminal (rc_kv s) \<Longrightarrow>
   current p s' = current p s"
  by (cases p) (simp_all add: same_cleanup_def same_terminal_def)

definition driven :: "pass list \<Rightarrow> cell \<Rightarrow> bool" where
  "driven ps s \<longleftrightarrow> work (rc_kv s) \<longrightarrow> rc_alarm s \<noteq> None \<or> (\<exists>p \<in> set ps. current p s)"

text \<open>Run cells hold no claim-cell state and no orphan, and never store the final phase.\<close>

definition run_cell_only :: "rval kv \<Rightarrow> bool" where
  "run_cell_only s \<longleftrightarrow> get_orphan s = None \<and> get_inflight s = None \<and> get_reservation s = None
     \<and> (\<forall>c. get_cleanup s = Some c \<longrightarrow> cl_phase c \<noteq> Ph_Tombstoned)"

lemma run_cell_only_put [simp]:
  "cl_phase c \<noteq> Ph_Tombstoned \<Longrightarrow> run_cell_only s \<Longrightarrow> run_cell_only (kv_put cleanup_key (VCleanup c) s)"
  "run_cell_only s \<Longrightarrow> run_cell_only (kv_put terminal_key v s)"
  "run_cell_only s \<Longrightarrow> run_cell_only (kv_put run_key v s)"
  "run_cell_only s \<Longrightarrow> run_cell_only (kv_put tombstone_key v s)"
  "run_cell_only s \<Longrightarrow> run_cell_only (kv_put seq_key v s)"
  "run_cell_only s \<Longrightarrow> run_cell_only (kv_del k s)"
  "run_cell_only s \<Longrightarrow> run_cell_only (kv_del_all ks s)"
  by (auto simp: run_cell_only_def)

section \<open>Requests\<close>

definition records :: "rval kv \<Rightarrow> cleanup_record option \<times> terminal_cleanup option \<times> payload_orphan option
    \<times> inflight_claim option \<times> queue_reservation option" where
  "records s = (get_cleanup s, get_terminal s, get_orphan s, get_inflight s, get_reservation s)"

lemma records_put [simp]:
  "k \<notin> {cleanup_key, terminal_key, orphan_key, claim_key, reservation_key} \<Longrightarrow> records (kv_put k v s) = records s"
  "k \<notin> {cleanup_key, terminal_key, orphan_key, claim_key, reservation_key} \<Longrightarrow> records (kv_del k s) = records s"
  by (auto simp: records_def)

lemma records_markers [simp]: "records (recordHooks n m out s) = records s"
proof -
  have "records (kv_put_all (map (\<lambda>r. (hookMarkerKey r, VHookRef r)) rs) s) = records s" for rs s
    by (induction rs arbitrary: s) (simp_all add: kv_put_all_def)
  then show ?thesis by (simp add: recordHooks_def Let_def)
qed

lemma records_untouched:
  assumes "\<And>p i. \<not> written p \<Longrightarrow> kv_get (key p i) s' = kv_get (key p i) s"
  shows "records s' = records s"
proof -
  have "\<not> written Sp_Cleanup" "\<not> written Sp_Terminal" "\<not> written Sp_Queue_Orphan"
    "\<not> written Sp_Inflight" "\<not> written Sp_Reservation" by (simp_all add: written_def)
  then show ?thesis
    by (simp add: records_def assms get_cleanup_def get_terminal_def get_orphan_def
        get_inflight_def get_reservation_def)
qed

lemma records_applied:
  "applyEvent W c e = Inr (out, e') \<Longrightarrow> records (es_kv e') = records (es_kv e)"
  "applyForcedHookDisposal W rq i now e = Inr (j, e') \<Longrightarrow> records (es_kv e') = records (es_kv e)"
  by (rule records_untouched, erule (1) applyEvent_untouched)
    (rule records_untouched, erule (1) applyForcedHookDisposal_untouched)

text \<open>A write leaves the records alone, or arms the alarm, or finds no work.\<close>

definition served :: "cell \<Rightarrow> cell \<Rightarrow> bool" where
  "served s s' \<longleftrightarrow> rc_alarm s' = rc_alarm s \<and> records (rc_kv s') = records (rc_kv s) \<or>
     (run_cell_only (rc_kv s) \<longrightarrow> run_cell_only (rc_kv s') \<and> (rc_alarm s' \<noteq> None \<or> \<not> work (rc_kv s')))"

lemma cell_write_served: "cell_write W now s s' \<Longrightarrow> served s s'"
proof (induction rule: cell_write.induct)
  case (accepted s ctx out e)
  then show ?case by (simp add: served_def records_applied(1) [OF accepted(2)])
next
  case (refused s ctx f e)
  then show ?case by (simp add: served_def records_applied(1) [OF refused(2)])
next
  case (taken_over s rq i j e)
  then show ?case by (simp add: served_def records_applied(2) [OF taken_over(2)])
next
  case (idle s)
  then show ?case by (auto simp: served_def work_def run_cell_only_def)
qed (auto simp: served_def quiet_def)

lemma served_driven:
  assumes "served s s'" "run_cell_only (rc_kv s) \<and> driven ps s"
  shows "run_cell_only (rc_kv s') \<and> driven ps s'"
proof (cases "rc_alarm s' = rc_alarm s \<and> records (rc_kv s') = records (rc_kv s)")
  case True
  then have "current p s' = current p s" for p by (intro current_cong) (simp_all add: records_def)
  then show ?thesis using assms(2) True by (simp add: driven_def run_cell_only_def work_def records_def)
qed (use assms in \<open>auto simp: served_def driven_def\<close>)

lemma serve_driven:
  "run_cell_only (rc_kv s) \<and> driven ps s \<Longrightarrow>
   run_cell_only (rc_kv (serve W now rq s)) \<and> driven ps (serve W now rq s)"
  by (erule serve_invariant [where P = "\<lambda>s. run_cell_only (rc_kv s) \<and> driven ps s", rotated])
    (rule served_driven [OF cell_write_served])

section \<open>Starting a page\<close>

lemma caught_current: "(\<And>e. current (f e) s) \<Longrightarrow> on_result r (\<lambda>p. current p s) \<Longrightarrow> current (caught f r) s"
  by (cases r) simp_all

lemma same_self [simp]:
  "get_cleanup (rc_kv s) = Some c \<Longrightarrow> same_cleanup c s = Some c"
  "get_terminal (rc_kv s) = Some t \<Longrightarrow> same_terminal t s = Some t"
  by (simp_all add: same_cleanup_def same_terminal_def)

lemma beginCleanup_current:
  assumes "get_cleanup (rc_kv s) = Some c"
  shows "current (beginCleanup F c (rc_kv s)) s"
  unfolding beginCleanup_def
  by (rule caught_current)
    (use assms in \<open>auto simp: Let_def split: cleanup_phase.splits prod.splits intro!: any_call\<close>)

lemma beginHookPage_current:
  assumes "same_terminal t s \<noteq> None"
  shows "current (beginHookPage F t kv) s"
  unfolding beginHookPage_def
  by (rule caught_current) (use assms in \<open>auto split: prod.splits intro!: any_call\<close>)

lemma beginTerminal_current:
  assumes "get_terminal (rc_kv s) = Some t"
  shows "current (beginTerminal F t (rc_kv s)) s"
  by (cases "tc_phase t")
    (use assms in \<open>auto simp: beginTerminal_def Let_def beginHookPage_current split: prod.splits
      intro!: caught_current any_call\<close>)

lemma beginPage_driven:
  assumes "run_cell_only (rc_kv s)"
  shows "driven (snd (beginPage F now s) @ ps) (fst (beginPage F now s))"
    and "run_cell_only (rc_kv (fst (beginPage F now s)))"
proof -
  have p: "planCleanup now (rc_kv s) \<noteq> Plan_Orphan" "planCleanup now (rc_kv s) \<noteq> Plan_Claims"
    using assms by (auto simp: planCleanup_def run_cell_only_def split: option.splits)
  show "driven (snd (beginPage F now s) @ ps) (fst (beginPage F now s))"
  proof (cases "planCleanup now (rc_kv s)")
    case (Plan_Cleanup c)
    then show ?thesis using planCleanup_phase [OF Plan_Cleanup] beginCleanup_current [of s c F]
      by (auto simp: beginPage_def driven_def)
  next
    case (Plan_Terminal t)
    then show ?thesis using planCleanup_terminal [OF Plan_Terminal] beginTerminal_current [of s t F]
      by (auto simp: beginPage_def driven_def)
  next
    case Plan_Idle
    then have "\<not> work (rc_kv s)"
      using assms by (auto simp: planCleanup_def work_def run_cell_only_def split: if_splits option.splits)
    then show ?thesis using Plan_Idle by (simp add: beginPage_def driven_def)
  qed (use p in auto)
  show "run_cell_only (rc_kv (fst (beginPage F now s)))"
    using p assms by (auto simp: beginPage_def split: plan.splits)
qed

section \<open>Committing a page\<close>

lemma finishTerminal_driven:
  "run_cell_only (rc_kv s) \<Longrightarrow> rc_alarm (finishTerminal now s) \<noteq> None \<or> \<not> work (rc_kv (finishTerminal now s))"
  by (auto simp: finishTerminal_def Let_def work_def run_cell_only_def split: option.splits)

lemma finishTerminal_only: "run_cell_only (rc_kv s) \<Longrightarrow> run_cell_only (rc_kv (finishTerminal now s))"
  by (simp add: finishTerminal_def Let_def split: option.splits)

lemma commitPass_only:
  assumes "run_cell_only (rc_kv s)" "pass_ok p"
  shows "run_cell_only (rc_kv (fst (commitPass F now p s)))"
  using assms
  by (cases p)
    (auto simp: setCleanupPhase_def commitIndexPage_def commitStreamPage_def commitQueuePage_def
      deletePayloadBatch_def recordCleanupFailure_def commitTerminalHooks_def commitTerminalMarkers_def
      deleteTerminalWaitPage_def recordTerminalCleanupFailure_def finishOrphan_def commitSmallTerminal_def
      finishTerminal_only Let_def split: option.splits prod.splits)

lemma other_record:
  "same_cleanup c s = None \<Longrightarrow> get_cleanup (rc_kv s) = Some d \<Longrightarrow>
   cl_phase d \<noteq> cl_phase c \<or> cl_generation d \<noteq> cl_generation c"
  by (auto simp: same_cleanup_def split: if_splits)

lemma not_current_commit:
  assumes "run_cell_only (rc_kv s)" "pass_ok p" "\<not> current p s"
  shows "commitPass F now p s = (s, [])"
proof (cases p)
  case (Ps_Payload c)
  then show ?thesis using assms(3) by (auto simp: deletePayloadBatch_def split: option.splits)
next
  case (Ps_Orphan x)
  then show ?thesis using assms(1) by (simp add: finishOrphan_def run_cell_only_def)
next
  case (Ps_Index c ks all)
  then show ?thesis using assms(2,3) other_record [of c s]
    by (auto simp: commitIndexPage_def split: option.splits)
next
  case (Ps_Streams c n all)
  then show ?thesis using assms(2,3) other_record [of c s]
    by (auto simp: commitStreamPage_def split: option.splits)
next
  case (Ps_Queues c ks all)
  then show ?thesis using assms(2,3) other_record [of c s]
    by (auto simp: commitQueuePage_def split: option.splits)
qed (use assms(3) in \<open>simp_all add: setCleanupPhase_def recordCleanupFailure_def commitTerminalHooks_def
    commitTerminalMarkers_def deleteTerminalWaitPage_def recordTerminalCleanupFailure_def commitSmallTerminal_def\<close>)

lemma deletePayloadBatch_driven:
  assumes "sorted_cell s" "map_option cl_phase (get_cleanup (rc_kv s)) = Some Ph_Payload"
  shows "rc_alarm (deletePayloadBatch now s) \<noteq> None \<or> \<not> work (rc_kv (deletePayloadBatch now s))"
proof (cases "payload_keys (rc_kv s) = []")
  case True
  have "get_terminal (rc_kv s) = None"
    using payload_done_empty [OF assms(1) True, of terminal_key] by (simp add: get_terminal_def)
  then show ?thesis using assms(2) True by (auto simp: deletePayloadBatch_def work_def Let_def)
qed (use assms(2) in \<open>auto simp: deletePayloadBatch_def Let_def\<close>)

lemma current_commit:
  assumes "run_cell_only (rc_kv s)" "pass_ok p" "sorted_cell s" "current p s"
  shows "rc_alarm (fst (commitPass F now p s)) \<noteq> None \<or> \<not> work (rc_kv (fst (commitPass F now p s))) \<or>
    (\<exists>q \<in> set (snd (commitPass F now p s)). current q (fst (commitPass F now p s)))"
proof (cases p)
  case (Ps_Small t hs ms)
  obtain x where x: "same_terminal t s = Some x" using assms(4) Ps_Small by auto
  obtain b s' where r: "commitSmallTerminal t hs ms now s = (b, s')" by (cases "commitSmallTerminal t hs ms now s")
  show ?thesis
  proof (cases b)
    case True
    then obtain ks where ks: "s' = finishTerminal now (del_cell ks s)"
      using r x by (auto simp: commitSmallTerminal_def split: prod.splits if_splits)
    then show ?thesis using Ps_Small r True finishTerminal_driven [of "del_cell ks s" now] assms(1) by auto
  next
    case False
    then have "s' = s" using r commitSmallTerminal_refused by simp
    then show ?thesis using Ps_Small r False x beginHookPage_current [of t s F] by auto
  qed
next
  case (Ps_Waits t)
  obtain es all where l: "list_page (space_prefix Sp_Wait) terminal_wait_page_size (rc_kv s) = (es, all)"
    by (cases "list_page (space_prefix Sp_Wait) terminal_wait_page_size (rc_kv s)")
  show ?thesis using Ps_Waits l assms(1,4) finishTerminal_driven [of "del_cell (map fst es) s" now]
    by (cases all) (auto simp: deleteTerminalWaitPage_def Let_def)
next
  case (Ps_Payload c)
  then show ?thesis using deletePayloadBatch_driven [OF assms(3)] assms(4) by simp
qed (use assms(1,2,4) in \<open>auto simp: setCleanupPhase_def commitIndexPage_def commitStreamPage_def commitQueuePage_def
    recordCleanupFailure_def commitTerminalHooks_def commitTerminalMarkers_def recordTerminalCleanupFailure_def
    dest: same_cleanupD simp: run_cell_only_def\<close>)

lemma commitPass_driven:
  assumes "run_cell_only (rc_kv s)" "pass_ok p" "sorted_cell s" "driven (ps @ p # qs) s"
  shows "driven (snd (commitPass F now p s) @ ps @ qs) (fst (commitPass F now p s))"
proof (cases "current p s")
  case False
  then show ?thesis using not_current_commit [OF assms(1,2) False] assms(4) by (auto simp: driven_def)
next
  case True
  then show ?thesis using current_commit [OF assms(1-3) True, of F now] by (auto simp: driven_def)
qed

section \<open>The invariant\<close>

definition driven_sys :: "sys \<Rightarrow> bool" where
  "driven_sys y \<longleftrightarrow> sys_ok y \<and> run_cell_only (rc_kv (sy_cell y)) \<and> driven (sy_passes y) (sy_cell y)"

lemma cell_step_driven:
  assumes "cell_step W y y'" "driven_sys y"
  shows "driven_sys y'"
proof -
  have ok: "sys_ok y'" "sys_ok y" "run_cell_only (rc_kv (sy_cell y))" "driven (sy_passes y) (sy_cell y)"
    using assms cell_step_ok by (auto simp: driven_sys_def)
  show ?thesis using assms(1)
  proof (cases rule: cell_step_cases)
    case (serve now rq)
    then show ?thesis using ok serve_driven [of "sy_cell y" "sy_passes y" W now rq]
      by (simp add: driven_sys_def)
  next
    case (page F now s)
    then show ?thesis using ok beginPage_driven(1) [of s F now "sy_passes y"] beginPage_driven(2) [of s F now]
      by (simp add: driven_sys_def)
  next
    case (commit F now p ps qs)
    then show ?thesis using ok commitPass_driven [of "sy_cell y" p ps qs F now] commitPass_only [of "sy_cell y" p F now]
      by (simp add: driven_sys_def sys_ok_def)
  qed
qed

lemma cell_steps_driven: "cell_steps W y y' \<Longrightarrow> driven_sys y \<Longrightarrow> driven_sys y'"
  by (induction rule: rtranclp_induct) (auto intro: cell_step_driven)

lemma fresh_sys_driven [simp]: "driven_sys (fresh_sys t)"
proof -
  have "sys_ok (fresh_sys t)" by simp
  then show ?thesis
    by (simp add: driven_sys_def driven_def work_def run_cell_only_def get_cleanup_def get_terminal_def
        get_orphan_def get_inflight_def get_reservation_def fresh_sys_def kv_get_def)
qed

end
