(* ===== verification/CellLife.thy ===== *)
theory CellLife
  imports CellHistory CellDrive
begin

text \<open>
  Three facts that hold along every history of a run cell: events that were committed stay, the
  lifecycle status moves forward only, and a hook claim that was once cancelled can never create
  its hook.
\<close>

section \<open>The log and the run along a history\<close>

abbreviation cell_log :: "world_api \<Rightarrow> rval kv \<Rightarrow> event list" where
  "cell_log W s \<equiv> event_log W (eventStore s)"

lemma cell_log_cong:
  "(\<And>i. get_event i s' = get_event i s) \<Longrightarrow> get_seq s' = get_seq s \<Longrightarrow> cell_log W s' = cell_log W s"
  by (simp add: event_log_def)

lemma cell_log_put [simp]:
  "p \<noteq> Sp_Event \<Longrightarrow> p \<noteq> Sp_Event_Seq \<Longrightarrow> cell_log W (kv_put (key p i) v s) = cell_log W s"
  "p \<noteq> Sp_Event \<Longrightarrow> p \<noteq> Sp_Event_Seq \<Longrightarrow> cell_log W (kv_del (key p i) s) = cell_log W s"
  "cell_log W (kv_put (hookMarkerKey r) v s) = cell_log W s"
  "cell_log W (kv_put (hookClaimCancellationKey c) v s) = cell_log W s"
  by (auto intro!: cell_log_cong simp: get_event_def get_seq_def hookClaimCancellationKey_def)

lemma cell_log_del_all [simp]:
  "keys_in p ks \<Longrightarrow> p \<noteq> Sp_Event \<Longrightarrow> p \<noteq> Sp_Event_Seq \<Longrightarrow> cell_log W (kv_del_all ks s) = cell_log W s"
  "cell_log W (kv_del_all (hook_keys hs) s) = cell_log W s"
  by (auto intro!: cell_log_cong simp: get_event_def get_seq_def)

declare kv_del_all_append [simp]

lemma cell_log_committed:
  assumes "n = get_seq (es_kv e)"
  shows "cell_log W (if es_seq e \<noteq> n then kv_put seq_key (VSeq (es_seq e)) (es_kv e) else es_kv e) = event_log W e"
    and "cell_log W (recordHooks n (es_seq e) out (es_kv e)) = event_log W e"
proof -
  show s: "cell_log W (if es_seq e \<noteq> n then kv_put seq_key (VSeq (es_seq e)) (es_kv e) else es_kv e) = event_log W e"
    using assms by (auto simp: event_log_def get_event_def get_seq_def)
  have "cell_log W (kv_put_all (map (\<lambda>r. (hookMarkerKey r, VHookRef r)) rs) s) = cell_log W s" for rs s
    by (induction rs arbitrary: s) (simp_all add: kv_put_all_def)
  then show "cell_log W (recordHooks n (es_seq e) out (es_kv e)) = event_log W e"
    using s by (auto simp: recordHooks_def Let_def)
qed

definition later_run :: "world_api \<Rightarrow> rval kv \<Rightarrow> rval kv \<Rightarrow> bool" where
  "later_run W s s' \<longleftrightarrow> (\<exists>es. cell_log W s' = cell_log W s @ es) \<and>
     (get_run s \<noteq> None \<longrightarrow> get_run s' \<noteq> None) \<and> (run_done W s \<longrightarrow> run_done W s')"

lemma later_run_refl [simp]: "later_run W s s"
  by (simp add: later_run_def)

lemma later_run_trans: "later_run W s s' \<Longrightarrow> later_run W s' s'' \<Longrightarrow> later_run W s s''"
  by (auto simp: later_run_def)

lemma later_run_same: "get_run s' = get_run s \<Longrightarrow> cell_log W s' = cell_log W s \<Longrightarrow> later_run W s s'"
  by (simp add: later_run_def run_done_def)

lemma later_run_restamp:
  "get_run s = Some r \<Longrightarrow> get_run s' = Some (r\<lparr>run_expired_at := x\<rparr>) \<Longrightarrow> cell_log W s' = cell_log W s \<Longrightarrow>
   later_run W s s'"
  by (auto simp: later_run_def run_done_def)

lemma advanced_later:
  assumes "terminal_specs W" "advanced W s out s'" "cell_ok W s"
  shows "(get_run (es_kv s) \<noteq> None \<longrightarrow> get_run (es_kv s') \<noteq> None) \<and>
    (run_done W (es_kv s) \<longrightarrow> run_done W (es_kv s')) \<and> (\<exists>es. event_log W s' = event_log W s @ es)"
proof (cases out)
  case (Success x)
  have s': "cell_ok W s'" and "\<exists>es. event_log W s' = event_log W s @ es"
    using assms(2) Success by (auto simp: advanced_def)
  then obtain es where es: "event_log W s' = event_log W s @ es" by blast
  have "get_run (es_kv s') \<noteq> None" if r: "get_run (es_kv s) = Some r" for r
  proof -
    obtain r0 where "replay_run W (event_log W s) = Some r0"
      using stored_live(2) [OF assms(3) r] by auto
    then obtain r1 where "replay_run W (event_log W s') = Some r1"
      using replay_run_same [OF assms(1)] es by metis
    then show ?thesis using reflects_getD(1) [OF cell_okD(1) [OF s']] by simp
  qed
  then show ?thesis using advanced_done [OF assms(2,3)] es by blast
qed (use assms(2) in \<open>simp add: advanced_def\<close>)

lemma cell_write_later:
  assumes W: "schemas_ok W" "slots_ok W" "terminal_specs W" "child_creation_ok W"
  shows "cell_write W now s s' \<Longrightarrow> hist_ok W (rc_kv s) \<Longrightarrow> later_run W (rc_kv s) (rc_kv s')"
proof (induction rule: cell_write.induct)
  case (quiet_put p s i v)
  then show ?case by (auto simp: quiet_def intro: later_run_same)
next
  case (quiet_del p s i)
  then show ?case by (auto simp: quiet_def intro: later_run_same)
next
  case (accepted s ctx out e)
  have n: "get_seq (rc_kv s) = get_seq (es_kv e)"
    using applyEvent_untouched [OF accepted(2), of Sp_Event_Seq "[]"] by (simp add: get_seq_def written_def)
  show ?case using advanced_later [OF W(3) applyEvent_advances [OF W _ accepted(2)]] accepted(3)
    by (simp add: later_run_def run_done_def cell_log_committed(2) [OF n])
next
  case (refused s ctx f e)
  then show ?case using applyEvent_advances [OF W _ refused(2)] by (simp add: advanced_def)
next
  case (taken_over s rq i j e)
  have n: "get_seq (rc_kv s) = get_seq (es_kv e)"
    using applyForcedHookDisposal_untouched [OF taken_over(2), of Sp_Event_Seq "[]"]
    by (simp add: get_seq_def written_def)
  show ?case using forced_disposal_advances [OF W(1,2) _ taken_over(2)] taken_over(3)
    by (simp add: later_run_def run_done_def cell_log_committed(1) [OF n])
next
  case (dated s r x r' c t)
  then show ?case using schemas_okD(1) [OF W(1) dated(4)] by (auto intro: later_run_restamp)
next
  case (redated s c r x r' c' t)
  then show ?case using schemas_okD(1) [OF W(1) redated(4)] by (auto intro: later_run_restamp)
qed (auto intro: later_run_same)

lemma serve_later:
  assumes W: "schemas_ok W" "slots_ok W" "terminal_specs W" "child_creation_ok W" and s: "sound W (rc_kv s)"
  shows "later_run W (rc_kv s) (rc_kv (serve W now rq s))"
proof -
  have "sound W (rc_kv s') \<and> later_run W (rc_kv s) (rc_kv s')" if "s' = serve W now rq s" for s'
    unfolding that
  proof (rule serve_invariant [where P = "\<lambda>s'. sound W (rc_kv s') \<and> later_run W (rc_kv s) (rc_kv s')"])
    fix a b assume w: "cell_write W now a b" and p: "sound W (rc_kv a) \<and> later_run W (rc_kv s) (rc_kv a)"
    have "later_run W (rc_kv a) (rc_kv b)" using cell_write_later [OF W w] p by (simp add: sound_def)
    then show "sound W (rc_kv b) \<and> later_run W (rc_kv s) (rc_kv b)"
      using cell_write_sound [OF W w] p later_run_trans by blast
  qed (use s in simp)
  then show ?thesis by blast
qed

lemma commitPass_run:
  assumes "pass_ok p" "stage (rc_kv s) < 5"
  shows "get_run (rc_kv (fst (commitPass F now p s))) = get_run (rc_kv s) \<and>
    cell_log W (rc_kv (fst (commitPass F now p s))) = cell_log W (rc_kv s)"
proof -
  obtain es all where w: "list_page (space_prefix Sp_Wait) terminal_wait_page_size (rc_kv s) = (es, all)"
    by (cases "list_page (space_prefix Sp_Wait) terminal_wait_page_size (rc_kv s)")
  have f: "get_run (rc_kv (finishTerminal now c)) = get_run (rc_kv c) \<and>
      cell_log W (rc_kv (finishTerminal now c)) = cell_log W (rc_kv c)" for c
    by (simp add: finishTerminal_def Let_def split: option.splits)
  show ?thesis using assms w list_page_keys [OF w] f
    by (cases p)
      (auto simp: setCleanupPhase_def commitIndexPage_def commitStreamPage_def commitQueuePage_def
        deletePayloadBatch_def recordCleanupFailure_def commitTerminalHooks_def commitTerminalMarkers_def
        deleteTerminalWaitPage_def recordTerminalCleanupFailure_def finishOrphan_def commitSmallTerminal_def
        stage_def Let_def split: option.splits prod.splits)
qed

lemma beginPage_run: "get_run (rc_kv (fst (beginPage F now s))) = get_run (rc_kv s) \<and>
  cell_log W (rc_kv (fst (beginPage F now s))) = cell_log W (rc_kv s)"
  by (auto simp: beginPage_def expireClaims_def leaseOrphan_def Let_def split: plan.splits option.splits)

lemma cell_step_later:
  assumes W: "schemas_ok W" "slots_ok W" "terminal_specs W" "child_creation_ok W"
    and y: "sound_sys W y" and step: "cell_step W y y'" and st: "stage (rc_kv (sy_cell y')) < 5"
  shows "later_run W (rc_kv (sy_cell y)) (rc_kv (sy_cell y'))"
proof -
  have ok: "sys_ok y" using y by (simp add: sound_sys_def)
  have st0: "stage (rc_kv (sy_cell y)) < 5" using st moves_onD [OF cell_step_moves [OF step ok]] by simp
  then have s: "sound W (rc_kv (sy_cell y))" using y by (simp add: sound_sys_def)
  show ?thesis using step
  proof (cases rule: cell_step_cases)
    case (serve now rq)
    then show ?thesis using serve_later [OF W s] by simp
  next
    case (page F now c)
    then show ?thesis using beginPage_run [of F now c] by (simp add: later_run_same)
  next
    case (commit F now p ps qs)
    then show ?thesis using commitPass_run [of p "sy_cell y" F now] ok st0
      by (simp add: later_run_same sys_ok_def)
  qed
qed

lemma cell_steps_later:
  assumes W: "schemas_ok W" "slots_ok W" "terminal_specs W" "child_creation_ok W"
    and "cell_steps W y y'" "sound_sys W y" "stage (rc_kv (sy_cell y')) < 5"
  shows "later_run W (rc_kv (sy_cell y)) (rc_kv (sy_cell y'))"
  using assms(5-)
proof (induction rule: rtranclp_induct)
  case (step y1 y2)
  have s: "sound_sys W y1" using cell_steps_sound [OF W] step by blast
  then have "stage (rc_kv (sy_cell y1)) < 5"
    using step.prems(2) moves_onD [OF cell_step_moves [OF step.hyps(2)]] by (simp add: sound_sys_def)
  then show ?case using step cell_step_later [OF W s step.hyps(2)] later_run_trans by blast
qed simp

section \<open>Lifecycle\<close>

fun life_rank :: "run_lifecycle \<Rightarrow> nat" where
  "life_rank Life_Missing = 0"
| "life_rank Life_Active = 1"
| "life_rank Life_Terminal = 2"
| "life_rank Life_Expired = 3"

definition life :: "world_api \<Rightarrow> sys \<Rightarrow> nat" where
  "life W y = life_rank (getLifecycleStatus W (sy_clock y) (rc_kv (sy_cell y)))"

lemma life_cases:
  "life W y = (if fenced (sy_clock y) (rc_kv (sy_cell y)) then 3
     else if run_done W (rc_kv (sy_cell y)) then 2 else if get_run (rc_kv (sy_cell y)) \<noteq> None then 1 else 0)"
  by (auto simp: life_def getLifecycleStatus_def fenced_def run_done_def split: option.splits)

lemma unfenced_stage: "\<not> fenced t s \<Longrightarrow> stage s < 5"
  by (auto simp: fenced_iff stage_def split: option.splits)

lemma life_grows:
  assumes W: "schemas_ok W" "slots_ok W" "terminal_specs W" "child_creation_ok W"
    and y: "sound_sys W y" and step: "cell_step W y y'"
  shows "life W y \<le> life W y'"
proof (cases "fenced (sy_clock y') (rc_kv (sy_cell y'))")
  case True
  then show ?thesis by (simp add: life_cases)
next
  case False
  then have "\<not> fenced (sy_clock y) (rc_kv (sy_cell y))"
    using cell_step_keeps_fence [OF step] y by (auto simp: sound_sys_def)
  moreover have "later_run W (rc_kv (sy_cell y)) (rc_kv (sy_cell y'))"
    by (rule cell_step_later [OF W y step unfenced_stage [OF False]])
  ultimately show ?thesis using False by (auto simp: life_cases later_run_def)
qed

lemma lives_grow:
  assumes W: "schemas_ok W" "slots_ok W" "terminal_specs W" "child_creation_ok W"
  shows "cell_steps W y y' \<Longrightarrow> sound_sys W y \<Longrightarrow> life W y \<le> life W y'"
  by (induction rule: rtranclp_induct)
    (auto intro: order_trans life_grows [OF W] cell_steps_sound [OF W])

section \<open>Cancelled claims\<close>

definition claim_cancelled :: "string \<Rightarrow> rval kv \<Rightarrow> bool" where
  "claim_cancelled c s \<longleftrightarrow> kv_get (hookClaimCancellationKey c) s \<noteq> None"

lemma claim_cancelled_other [simp]:
  "claim_cancelled c s \<Longrightarrow> claim_cancelled c (kv_put k v s)"
  "k \<noteq> hookClaimCancellationKey c \<Longrightarrow> claim_cancelled c (kv_del k s) = claim_cancelled c s"
  "hookClaimCancellationKey c \<notin> set ks \<Longrightarrow> claim_cancelled c (kv_del_all ks s) = claim_cancelled c s"
  by (auto simp: claim_cancelled_def)

lemma recordHooks_cancelled [simp]: "claim_cancelled c (recordHooks n m out s) = claim_cancelled c s"
proof -
  have "kv_get (hookClaimCancellationKey c) (kv_put_all (map (\<lambda>r. (hookMarkerKey r, VHookRef r)) rs) s) =
      kv_get (hookClaimCancellationKey c) s" for rs s
    by (induction rs arbitrary: s) (simp_all add: kv_put_all_def hookClaimCancellationKey_def)
  then show ?thesis by (simp add: recordHooks_def Let_def claim_cancelled_def)
qed

lemma cell_write_cancelled: "cell_write W now s s' \<Longrightarrow> claim_cancelled c (rc_kv s) \<Longrightarrow> claim_cancelled c (rc_kv s')"
proof (induction rule: cell_write.induct)
  case (quiet_del p s i)
  then show ?case by (auto simp: quiet_def)
next
  case (accepted s ctx out e)
  have "kv_get (hookClaimCancellationKey c) (es_kv e) = kv_get (hookClaimCancellationKey c) (rc_kv s)"
    using applyEvent_untouched [OF accepted(2), of Sp_Hook_Cancelled]
    by (simp add: hookClaimCancellationKey_def written_def)
  then show ?case using accepted(3) by (simp add: claim_cancelled_def [of c "rc_kv s"] claim_cancelled_def [of c "es_kv e"])
next
  case (refused s ctx f e)
  have "kv_get (hookClaimCancellationKey c) (es_kv e) = kv_get (hookClaimCancellationKey c) (rc_kv s)"
    using applyEvent_untouched [OF refused(2), of Sp_Hook_Cancelled]
    by (simp add: hookClaimCancellationKey_def written_def)
  then show ?case using refused(3) by (simp add: claim_cancelled_def)
next
  case (taken_over s rq i j e)
  have "kv_get (hookClaimCancellationKey c) (es_kv e) = kv_get (hookClaimCancellationKey c) (rc_kv s)"
    using applyForcedHookDisposal_untouched [OF taken_over(2), of Sp_Hook_Cancelled]
    by (simp add: hookClaimCancellationKey_def written_def)
  then show ?case using taken_over(3) by (simp add: claim_cancelled_def)
qed simp_all

lemma keys_in_no_cancel: "keys_in p ks \<Longrightarrow> p \<noteq> Sp_Hook_Cancelled \<Longrightarrow> hookClaimCancellationKey c \<notin> set ks"
  by (simp add: hookClaimCancellationKey_def)

lemma hook_keys_no_cancel [simp]: "hookClaimCancellationKey c \<notin> set (hook_keys hs)"
  by (simp add: hookClaimCancellationKey_def)

lemma commitPass_cancelled:
  assumes "pass_ok p" "stage (rc_kv s) < 5" "claim_cancelled c (rc_kv s)"
  shows "claim_cancelled c (rc_kv (fst (commitPass F now p s)))"
proof -
  obtain es all where w: "list_page (space_prefix Sp_Wait) terminal_wait_page_size (rc_kv s) = (es, all)"
    by (cases "list_page (space_prefix Sp_Wait) terminal_wait_page_size (rc_kv s)")
  have f: "claim_cancelled c (rc_kv (finishTerminal now s')) = claim_cancelled c (rc_kv s')" for s'
    by (simp add: finishTerminal_def Let_def split: option.splits)
  have w': "hookClaimCancellationKey c \<notin> fst ` set es"
    using keys_in_no_cancel [OF list_page_keys [OF w], of c] by simp
  show ?thesis using assms w w' f
    by (cases p)
      (auto simp: setCleanupPhase_def commitIndexPage_def commitStreamPage_def commitQueuePage_def
        deletePayloadBatch_def recordCleanupFailure_def commitTerminalHooks_def commitTerminalMarkers_def
        deleteTerminalWaitPage_def recordTerminalCleanupFailure_def finishOrphan_def commitSmallTerminal_def
        stage_def Let_def keys_in_no_cancel split: option.splits prod.splits)
qed

lemma beginPage_cancelled: "claim_cancelled c (rc_kv s) \<Longrightarrow> claim_cancelled c (rc_kv (fst (beginPage F now s)))"
  by (auto simp: beginPage_def expireClaims_def leaseOrphan_def Let_def split: plan.splits option.splits)

lemma cell_step_cancelled:
  assumes "sys_ok y" "cell_step W y y'" "stage (rc_kv (sy_cell y')) < 5" "claim_cancelled c (rc_kv (sy_cell y))"
  shows "claim_cancelled c (rc_kv (sy_cell y'))"
  using assms(2)
proof (cases rule: cell_step_cases)
  case (serve now rq)
  then show ?thesis using assms(4) serve_invariant [where P = "\<lambda>s. claim_cancelled c (rc_kv s)", OF cell_write_cancelled]
    by simp
next
  case (page F now s)
  then show ?thesis using assms(4) beginPage_cancelled [of c s F now] by simp
next
  case (commit F now p ps qs)
  have "stage (rc_kv (sy_cell y)) < 5" using assms(3) moves_onD [OF cell_step_moves [OF assms(2,1)]] by simp
  then show ?thesis using commit commitPass_cancelled [of p "sy_cell y" c F now] assms(1,4)
    by (simp add: sys_ok_def)
qed

lemma cell_steps_cancelled:
  assumes "cell_steps W y y'" "sys_ok y" "claim_cancelled c (rc_kv (sy_cell y))" "stage (rc_kv (sy_cell y')) < 5"
  shows "claim_cancelled c (rc_kv (sy_cell y'))"
  using assms
proof (induction rule: rtranclp_induct)
  case (step y1 y2)
  have ok: "sys_ok y1" using cell_steps_ok step by blast
  have "stage (rc_kv (sy_cell y1)) < 5" using step.prems(3) moves_onD [OF cell_step_moves [OF step.hyps(2) ok]] by simp
  then show ?case using cell_step_cancelled [OF ok step.hyps(2) step.prems(3)] step by blast
qed

text \<open>In a cell where the claim is cancelled, no event creates the hook.\<close>

lemma cancelled_creation_fails:
  assumes "c_body ctx = HookCreated h d" "c_hook_claim_id ctx = Some c" "c \<noteq> []"
    "claim_cancelled c (es_kv s)" "applyEvent W ctx s = Inr (out, s')"
  shows "\<exists>f. out = Failure f"
proof -
  have g: "\<exists>f. o' = Failure f" if "afterBootstrap W ctx spec cur boot s = Inr (o', s'')" for spec cur boot o' s''
    using that assms(1-4)
    by (auto simp: afterBootstrap_def terminalRunGuard_def hookResumeGuard_def hookOrderGuard_def dispatchEvent_def
        onHookCreated_def claim_cancelled_def split: option.splits sum.splits if_splits)
  have r: "resilientStart W ctx spec cur s = Inr (cur, None, s)" for spec cur
    using assms(1) by (simp add: resilientStart_def split: option.splits)
  show ?thesis using assms(5) by (auto simp: applyEvent_def Let_def r split: if_splits dest: g)
qed

lemma cancelled_event_fails:
  assumes "c_body ctx = HookCreated h d" "c_hook_claim_id ctx = Some c" "c \<noteq> []"
    "claim_cancelled c (rc_kv s) \<or> fenced now (rc_kv s)" "cellApplyEvent W name ctx now s = Inr (out, s')"
  shows "\<exists>f. out = Failure f"
proof (cases "fenced now (rc_kv s)")
  case True
  then show ?thesis using fenced_answers(1) [OF True assms(5)] by simp
next
  case False
  then have c: "claim_cancelled c (rc_kv s)" and t: "tombstoneFrom now (rc_kv s) = None"
    using assms(4) by (auto simp: fenced_def)
  let ?ctx = "ctx\<lparr>c_now := now, c_defer_cleanup := True\<rparr>"
  obtain o' e where a: "applyEvent W ?ctx (eventStore (rc_kv s)) = Inr (o', e)"
    using assms(5) t by (cases "applyEvent W ?ctx (eventStore (rc_kv s))")
      (auto simp: cellApplyEvent_def bindE_eq_Inr Let_def)
  obtain f where "o' = Failure f" using cancelled_creation_fails [OF _ _ assms(3) _ a] assms(1,2) c by auto
  then show ?thesis using assms(5) t a by (auto simp: cellApplyEvent_def bindE_eq_Inr Let_def)
qed

end
