(* ===== verification/CellDrain.thy ===== *)
theory CellDrain
  imports CellDrive
begin

text \<open>
  Retention cleanup ends.  Fired again and again on a cell whose cleanup is due, the alarm takes
  at most one page per stored key and five more, from the moment the other cells answer, to leave
  exactly the tombstone behind.
\<close>

section \<open>Counting keys\<close>

definition others :: "rval kv \<Rightarrow> nat" where
  "others s = length (filter (\<lambda>(k, _). k \<noteq> cleanup_key \<and> k \<noteq> tombstone_key) s)"

lemma others_put [simp]:
  "others (kv_put cleanup_key v s) = others s" "others (kv_put tombstone_key v s) = others s"
proof -
  have "length (filter (\<lambda>(k, _). k \<noteq> cleanup_key \<and> k \<noteq> tombstone_key) (kv_put j v s)) =
      length (filter (\<lambda>(k, _). k \<noteq> cleanup_key \<and> k \<noteq> tombstone_key) s)"
    if "j = cleanup_key \<or> j = tombstone_key" for j
    using that by (induction j v s rule: kv_put.induct) (auto split: if_splits)
  then show "others (kv_put cleanup_key v s) = others s" "others (kv_put tombstone_key v s) = others s"
    by (simp_all add: others_def)
qed

lemma kv_del_all_filter: "kv_del_all ks s = filter (\<lambda>(k, _). k \<notin> set ks) s"
  by (induction ks arbitrary: s)
    (auto simp: kv_del_all_def kv_del_def split_def intro!: filter_cong)

lemma others_del_all: "others (kv_del_all ks s) \<le> others s"
  unfolding others_def kv_del_all_filter filter_filter
  by (induction s) auto

lemma others_del_all_less:
  assumes "k \<in> set ks" "k \<in> fst ` set s" "k \<noteq> cleanup_key" "k \<noteq> tombstone_key"
  shows "others (kv_del_all ks s) < others s"
proof -
  obtain v where v: "(k, v) \<in> set s" using assms(2) by auto
  have "others (kv_del_all ks s) = length (filter (\<lambda>x. fst x \<notin> set ks)
      (filter (\<lambda>(k, _). k \<noteq> cleanup_key \<and> k \<noteq> tombstone_key) s))"
    unfolding others_def kv_del_all_filter filter_filter by (rule arg_cong [where f = length], rule filter_cong) auto
  also have "\<dots> < length (filter (\<lambda>(k, _). k \<noteq> cleanup_key \<and> k \<noteq> tombstone_key) s)"
    using assms v by (intro length_filter_less [of "(k, v)"]) auto
  finally show ?thesis by (simp add: others_def)
qed

lemma list_page_sub: "list_page p n s = (es, all) \<Longrightarrow> set es \<subseteq> set s"
  by (auto simp: list_page_def Let_def kv_list_def take_limit_def split: if_splits dest!: in_set_takeD)

lemma list_page_more: "list_page p n s = (es, False) \<Longrightarrow> 0 < n \<Longrightarrow> es \<noteq> []"
  by (auto simp: list_page_def Let_def)

text \<open>A page that is not the last one deletes at least one key.\<close>

lemma page_shrinks:
  assumes "list_page (space_prefix p) n s = (es, False)" "0 < n" "p \<noteq> Sp_Cleanup" "p \<noteq> Sp_Tombstone"
  shows "others (kv_del_all (map fst es) s) < others s"
proof -
  obtain e where e: "e \<in> set es" using list_page_more [OF assms(1,2)] by (cases es) auto
  have "fst e \<in> fst ` set s" using e list_page_sub [OF assms(1)] by auto
  moreover have "fst e \<noteq> cleanup_key" "fst e \<noteq> tombstone_key"
    using e list_page_keys [OF assms(1)] assms(3,4) by (auto simp: keys_in_def has_prefix_key)
  ultimately show ?thesis using e others_del_all_less [of "fst e" "map fst es" s] by simp
qed

lemma payload_shrinks:
  assumes "payload_keys s \<noteq> []"
  shows "others (kv_del_all (payload_keys s) (kv_put tombstone_key v s)) < others s"
proof -
  obtain k where k: "k \<in> set (payload_keys s)" using assms by (cases "payload_keys s") auto
  then have "k \<in> fst ` set s" by (auto simp: payload_keys_take dest!: in_set_takeD)
  then have "k \<in> fst ` set (kv_put tombstone_key v s)" by (simp add: set_kv_put)
  then have "others (kv_del_all (payload_keys s) (kv_put tombstone_key v s)) < others (kv_put tombstone_key v s)"
    using k payload_keys_apart [of s] by (intro others_del_all_less [OF k]) auto
  then show ?thesis by simp
qed

section \<open>A page of a due cleanup\<close>

definition due_cell :: "int \<Rightarrow> cell \<Rightarrow> bool" where
  "due_cell now s \<longleftrightarrow> sorted_cell s \<and> run_cell_only (rc_kv s) \<and>
     (\<exists>c. get_cleanup (rc_kv s) = Some c \<and> cl_due_at c \<le> now)"

definition drained :: "string \<Rightarrow> cell \<Rightarrow> bool" where
  "drained r s \<longleftrightarrow> rc_alarm s = None \<and>
     (\<exists>t. rc_kv s = [(tombstone_key, VTombstone t)] \<and> tb_run t = r \<and> cl_phase (tb_cleanup t) = Ph_Tombstoned)"

definition remaining :: "rval kv \<Rightarrow> nat" where
  "remaining s = others s + (6 - stage s)"

text \<open>All calls of the page go through and the stream registry has nothing left.\<close>

definition answers :: "fleet \<Rightarrow> bool" where
  "answers F \<longleftrightarrow> (\<forall>r h t. fl_expire_run F r h t = None) \<and>
     (\<forall>r t n. \<exists>ns. fl_expire_registry F r t n = Inr ns) \<and>
     (\<forall>n r t c b. \<exists>x. fl_expire_stream F n r t c b = Inr x) \<and>
     (\<forall>r ns. \<exists>n. fl_finalize_registry F r ns = Inr (n, True)) \<and>
     (\<forall>ks. fl_delete_objects F ks = None)"

lemma answers_streams: "answers F \<Longrightarrow> \<exists>ns'. expireStreams F r t ns c b = Inr ns'"
proof (induction ns arbitrary: c b)
  case (Cons n ns)
  obtain x where x: "fl_expire_stream F n r t c b = Inr x" using Cons.prems unfolding answers_def by blast
  show ?case using Cons.IH [OF Cons.prems, of "c - se_chunks x" "b - se_bytes x"] x by auto
qed simp

lemma commitAll_single: "snd x = [] \<Longrightarrow> commitAll n F now x = fst x"
  by (cases x) simp

lemma alarm_due:
  assumes "due_cell now s"
  obtains c where "get_cleanup (rc_kv s) = Some c" "cl_due_at c \<le> now" "cl_phase c \<noteq> Ph_Tombstoned"
    "snd (alarm F now s) = fst (commitPass F now (beginCleanup F c (rc_kv s)) (deleteAlarm s))"
    "pass_ok (beginCleanup F c (rc_kv s))"
proof -
  obtain c where c: "get_cleanup (rc_kv s) = Some c" "cl_due_at c \<le> now" "cl_phase c \<noteq> Ph_Tombstoned"
    using assms by (auto simp: due_cell_def run_cell_only_def)
  then have p: "planCleanup now (rc_kv s) = Plan_Cleanup c"
    using assms by (auto simp: planCleanup_def due_cell_def run_cell_only_def split: option.splits)
  have "snd (commitPass F now (beginCleanup F c (rc_kv s)) (deleteAlarm s)) = []"
  proof -
    have "\<nexists>t hs ms. q = Ps_Small t hs ms \<Longrightarrow> snd (commitPass F now q s') = []" for q s' by (cases q) auto
    moreover have "\<nexists>t hs ms. caught (Ps_Failed c) r = Ps_Small t hs ms"
      if "on_result r (\<lambda>p. \<nexists>t hs ms. p = Ps_Small t hs ms)" for r using that by (cases r) auto
    then have "\<nexists>t hs ms. beginCleanup F c (rc_kv s) = Ps_Small t hs ms"
      unfolding beginCleanup_def
      by (auto simp: Let_def split: cleanup_phase.splits prod.splits intro!: any_call)
    ultimately show ?thesis by blast
  qed
  then have "snd (alarm F now s) = fst (commitPass F now (beginCleanup F c (rc_kv s)) (deleteAlarm s))"
    using page_is_begin_then_commit [of F now "deleteAlarm s"] p c
    by (simp add: alarm_def beginPage_def numeral_2_eq_2 commitAll_single)
  then show ?thesis using that c beginCleanup_ok by blast
qed

text \<open>A page keeps the run and the deadline and leaves no more to do; if calls go through, less.\<close>

definition progress :: "bool \<Rightarrow> cleanup_record \<Rightarrow> rval kv \<Rightarrow> rval kv \<Rightarrow> bool" where
  "progress strict c s s' \<longleftrightarrow>
     (\<exists>c'. get_cleanup s' = Some c' \<and> cl_run c' = cl_run c \<and> cl_due_at c' = cl_due_at c) \<and>
     remaining s' \<le> remaining s \<and> (strict \<longrightarrow> remaining s' < remaining s)"

lemma remaining_put [simp]:
  "remaining (kv_put cleanup_key (VCleanup c) s) = others s + (6 - phase_rank (cl_phase c))"
  by (simp add: remaining_def stage_def)

lemma remaining_at: "get_cleanup s = Some c \<Longrightarrow> remaining s = others s + (6 - phase_rank (cl_phase c))"
  by (simp add: remaining_def stage_def)

lemma progress_put:
  assumes "get_cleanup (rc_kv s) = Some c" "cl_run c' = cl_run c" "cl_due_at c' = cl_due_at c"
    "phase_rank (cl_phase c) \<le> phase_rank (cl_phase c')"
    "strict \<Longrightarrow> phase_rank (cl_phase c) < phase_rank (cl_phase c') \<or> others (kv_del_all ks (rc_kv s)) < others (rc_kv s)"
  shows "progress strict c (rc_kv s) (kv_put cleanup_key (VCleanup c') (kv_del_all ks (rc_kv s)))"
proof -
  have "6 - phase_rank (cl_phase c') \<le> 6 - phase_rank (cl_phase c)"
    "phase_rank (cl_phase c) < phase_rank (cl_phase c') \<Longrightarrow> 6 - phase_rank (cl_phase c') < 6 - phase_rank (cl_phase c)"
    using assms(4) phase_rank_bounds [of "cl_phase c'"] by linarith+
  note r = this others_del_all [of ks "rc_kv s"] remaining_at [OF assms(1)]
  have "strict \<Longrightarrow> others (kv_del_all ks (rc_kv s)) + (6 - phase_rank (cl_phase c')) < remaining (rc_kv s)"
    using assms(5) r by linarith
  moreover have "others (kv_del_all ks (rc_kv s)) + (6 - phase_rank (cl_phase c')) \<le> remaining (rc_kv s)"
    using r by linarith
  ultimately show ?thesis using assms(2,3) unfolding progress_def remaining_put by simp
qed

lemma progress_failed:
  assumes "get_cleanup (rc_kv s) = Some c"
  shows "progress False c (rc_kv s) (rc_kv (recordCleanupFailure e c now s))"
  using assms by (auto simp: recordCleanupFailure_def progress_def remaining_at)

lemma index_progress:
  assumes "get_cleanup (rc_kv s) = Some c" "cl_phase c = Ph_Index"
  shows "progress (answers F) c (rc_kv s) (rc_kv (fst (commitPass F' now (beginCleanup F c (rc_kv s)) s)))"
proof -
  obtain es all where l: "list_page (space_prefix Sp_Hook_Marker) hook_marker_page_size (rc_kv s) = (es, all)"
    by (cases "list_page (space_prefix Sp_Hook_Marker) hook_marker_page_size (rc_kv s)")
  show ?thesis
  proof (cases "fl_expire_run F (cl_run c) (refs_of es) (cl_due_at c)")
    case None
    have "progress (answers F) c (rc_kv s) (kv_put cleanup_key
        (VCleanup (advance_cleanup (if all then Ph_Streams else Ph_Index) c)) (kv_del_all (map fst es) (rc_kv s)))"
      using assms page_shrinks [of Sp_Hook_Marker _ "rc_kv s" es] l
      by (intro progress_put) (auto simp: page_size_defs)
    then show ?thesis using assms l None by (simp add: beginCleanup_def attempt_def commitIndexPage_def)
  next
    case (Some e)
    then have "\<not> answers F" by (auto simp: answers_def)
    then show ?thesis using assms l Some progress_failed [OF assms(1)]
      by (simp add: beginCleanup_def attempt_def)
  qed
qed

lemma streams_progress:
  assumes "get_cleanup (rc_kv s) = Some c" "cl_phase c = Ph_Streams"
  shows "progress (answers F) c (rc_kv s) (rc_kv (fst (commitPass F' now (beginCleanup F c (rc_kv s)) s)))"
proof -
  have p: "progress (answers F) c (rc_kv s) (kv_put cleanup_key
      (VCleanup (advance_cleanup (if all then Ph_Queues else Ph_Streams) (c\<lparr>cl_deleted_streams := n\<rparr>))) (rc_kv s))"
    if "answers F \<Longrightarrow> all" for all n
    using progress_put [of s c "advance_cleanup (if all then Ph_Queues else Ph_Streams) (c\<lparr>cl_deleted_streams := n\<rparr>)"
        "answers F" "[]"] that assms by (auto simp: kv_del_all_def)
  show ?thesis
  proof (cases "beginCleanup F c (rc_kv s)")
    case (Ps_Streams c' n all)
    then have "c' = c \<and> (answers F \<longrightarrow> all)"
      using assms by (auto simp: beginCleanup_def caught_def bindE_def answers_def split: sum.splits prod.splits)
        (metis Inr_inject Pair_inject)
    then show ?thesis using Ps_Streams p [of all n] assms by (simp add: commitStreamPage_def)
  next
    case (Ps_Failed c' e)
    have "\<not> answers F"
    proof
      assume a: "answers F"
      obtain ns where ns: "fl_expire_registry F (cl_run c) (cl_due_at c) streams_per_cleanup_page = Inr ns"
        using a unfolding answers_def by blast
      obtain cs where cs: "expireStreams F (cl_run c) (cl_due_at c) ns stream_chunks_per_cleanup_page
          stream_bytes_per_cleanup_page = Inr cs" using answers_streams [OF a] by blast
      obtain n where "fl_finalize_registry F (cl_run c) cs = Inr (n, True)" using a unfolding answers_def by blast
      then show False using Ps_Failed ns cs assms(2) by (simp add: beginCleanup_def)
    qed
    moreover have "c' = c" using Ps_Failed beginCleanup_carries [of F c "rc_kv s"] by simp
    ultimately show ?thesis using Ps_Failed progress_failed [OF assms(1)] by simp
  qed (use assms in \<open>auto simp: beginCleanup_def caught_def bindE_def split: sum.splits prod.splits\<close>)
qed

lemma queues_progress:
  assumes "get_cleanup (rc_kv s) = Some c" "cl_phase c = Ph_Queues"
  shows "progress (answers F) c (rc_kv s) (rc_kv (fst (commitPass F' now (beginCleanup F c (rc_kv s)) s)))"
proof -
  obtain es all where l: "list_page (space_prefix Sp_Queue_Payload) queue_payloads_per_cleanup_page (rc_kv s) = (es, all)"
    by (cases "list_page (space_prefix Sp_Queue_Payload) queue_payloads_per_cleanup_page (rc_kv s)")
  show ?thesis
  proof (cases "es \<noteq> [] \<and> fl_delete_objects F (map qp_key (payloads_of es)) \<noteq> None")
    case False
    have "progress (answers F) c (rc_kv s) (kv_put cleanup_key
        (VCleanup (advance_cleanup (if all then Ph_Payload else Ph_Queues)
          (c\<lparr>cl_deleted_queue_payloads := cl_deleted_queue_payloads c + length (map fst es)\<rparr>)))
        (kv_del_all (map fst es) (rc_kv s)))"
      using assms page_shrinks [of Sp_Queue_Payload _ "rc_kv s" es] l
      by (intro progress_put) (auto simp: page_size_defs)
    then show ?thesis using assms l False by (auto simp: beginCleanup_def attempt_def commitQueuePage_def)
  next
    case True
    then have "\<not> answers F" by (auto simp: answers_def)
    then show ?thesis using assms l True progress_failed [OF assms(1)]
      by (auto simp: beginCleanup_def attempt_def)
  qed
qed

lemma strict_sorted_single:
  assumes "kv_wf s" "fst ` set s = {k}" "kv_get k s = Some v"
  shows "s = [(k, v)]"
proof -
  have d: "distinct (map fst s)" using assms(1) strict_sorted_iff by (auto simp: kv_wf_def)
  then have "length s = card (fst ` set s)" using distinct_card [OF d] by simp
  then have "length s = 1" using assms(2) by simp
  then obtain e where "s = [e]" by (auto simp: length_Suc_conv)
  then show ?thesis using assms(2,3) by (cases e) (simp add: kv_get_def)
qed

lemma payload_progress:
  assumes "get_cleanup (rc_kv s) = Some c" "cl_phase c = Ph_Payload" "sorted_cell s"
  shows "drained (cl_run c) (deletePayloadBatch now s) \<or>
    progress strict c (rc_kv s) (rc_kv (deletePayloadBatch now s))"
proof (cases "payload_keys (rc_kv s) = []")
  case False
  then show ?thesis using assms(1,2) payload_shrinks [OF False, of "VTombstone (cleanupTombstone c now)"]
    by (simp add: deletePayloadBatch_def Let_def progress_def remaining_at [OF assms(1)])
next
  case True
  let ?t = "cleanupTombstone (c\<lparr>cl_phase := Ph_Tombstoned, cl_generation := cl_generation c + 1,
    cl_attempts := 0, cl_last_error := None, cl_tombstoned_at := Some now\<rparr>) now"
  let ?s = "rc_kv (deletePayloadBatch now s)"
  have s: "?s = kv_del cleanup_key (kv_put tombstone_key (VTombstone ?t)
      (kv_put tombstone_key (VTombstone (cleanupTombstone c now)) (rc_kv s)))"
    using assms True by (simp add: deletePayloadBatch_def Let_def kv_del_all_def)
  have "fst ` set (kv_del cleanup_key u) = fst ` set u - {cleanup_key}" for u :: "rval kv"
    by (auto simp: kv_del_def)
  then have "fst ` set ?s = insert tombstone_key (fst ` set (rc_kv s)) - {cleanup_key}"
    unfolding s by (simp add: set_kv_put)
  then have "fst ` set ?s \<subseteq> {tombstone_key}"
    using payload_keys_Nil [OF assms(3) True] by blast
  moreover have g: "kv_get tombstone_key ?s = Some (VTombstone ?t)" unfolding s by simp
  ultimately have "fst ` set ?s = {tombstone_key}" using kv_get_Some_in [OF g] by blast
  then have "?s = [(tombstone_key, VTombstone ?t)]"
    using strict_sorted_single [OF _ _ g] assms(3) unfolding s by simp
  moreover have "rc_alarm (deletePayloadBatch now s) = None"
    using assms True by (simp add: deletePayloadBatch_def Let_def)
  ultimately show ?thesis by (auto simp: drained_def cleanupTombstone_def)
qed

lemma alarm_step:
  assumes "due_cell now s" "get_cleanup (rc_kv s) = Some c"
  shows "drained (cl_run c) (snd (alarm F now s)) \<or>
    due_cell now (snd (alarm F now s)) \<and> progress (answers F) c (rc_kv s) (rc_kv (snd (alarm F now s)))"
proof -
  let ?p = "beginCleanup F c (rc_kv s)" and ?d = "deleteAlarm s"
  have s': "snd (alarm F now s) = fst (commitPass F now ?p ?d)" "pass_ok ?p" "cl_phase c \<noteq> Ph_Tombstoned" "cl_due_at c \<le> now"
    using alarm_due [OF assms(1), of F] assms(2) by auto
  have d: "get_cleanup (rc_kv ?d) = Some c" "sorted_cell ?d" "run_cell_only (rc_kv ?d)"
    using assms by (auto simp: due_cell_def)
  have "drained (cl_run c) (fst (commitPass F now ?p ?d)) \<or>
      progress (answers F) c (rc_kv s) (rc_kv (fst (commitPass F now ?p ?d)))"
  proof (cases "cl_phase c")
    case Ph_Retained
    then show ?thesis using assms(2) progress_put [of ?d c "advance_cleanup Ph_Index c" "answers F" "[]"]
      by (simp add: beginCleanup_def setCleanupPhase_def kv_del_all_def)
  next
    case Ph_Index
    then show ?thesis using index_progress [of ?d c F F now] assms(2) by simp
  next
    case Ph_Streams
    then show ?thesis using streams_progress [of ?d c F F now] assms(2) by simp
  next
    case Ph_Queues
    then show ?thesis using queues_progress [of ?d c F F now] assms(2) by simp
  next
    case Ph_Payload
    then show ?thesis using payload_progress [OF d(1) Ph_Payload d(2), of now "answers F"] by (simp add: beginCleanup_def)
  qed (use s' in simp)
  moreover have "due_cell now (snd (alarm F now s))"
    if "progress (answers F) c (rc_kv s) (rc_kv (fst (commitPass F now ?p ?d)))"
    using that commitPass_wf [OF d(2), of F now ?p] commitPass_only [OF d(3) s'(2), of F now] s'(1,4)
    by (auto simp: due_cell_def progress_def)
  ultimately show ?thesis using s'(1) by auto
qed

section \<open>Firing the alarm until nothing is left\<close>

fun firings :: "(nat \<Rightarrow> fleet) \<Rightarrow> (nat \<Rightarrow> int) \<Rightarrow> nat \<Rightarrow> cell \<Rightarrow> cell" where
  "firings Fs ts 0 s = s"
| "firings Fs ts (Suc n) s = snd (alarm (Fs n) (ts n) (firings Fs ts n s))"

lemma drained_alarm: "drained r s \<Longrightarrow> snd (alarm F now s) = s"
  by (auto simp: drained_def alarm_def executeScheduledCleanupPage_def planCleanup_def get_cleanup_def
      get_terminal_def get_orphan_def get_inflight_def get_reservation_def kv_get_def deleteAlarm_def)

lemma remaining_bound:
  assumes "get_cleanup s = Some c"
  shows "remaining s \<le> length s + 5"
proof -
  have "others s \<le> length s" by (simp add: others_def)
  moreover have "0 < phase_rank (cl_phase c)" by simp
  ultimately show ?thesis unfolding remaining_at [OF assms] by linarith
qed

lemma firings_progress:
  assumes "sorted_cell s" "run_cell_only (rc_kv s)" "get_cleanup (rc_kv s) = Some c" "\<forall>i. cl_due_at c \<le> ts i"
    "\<forall>i \<ge> m. answers (Fs i)"
  shows "drained (cl_run c) (firings Fs ts n s) \<or>
    (\<exists>c'. get_cleanup (rc_kv (firings Fs ts n s)) = Some c' \<and> cl_run c' = cl_run c \<and> cl_due_at c' = cl_due_at c \<and>
       sorted_cell (firings Fs ts n s) \<and> run_cell_only (rc_kv (firings Fs ts n s)) \<and>
       remaining (rc_kv (firings Fs ts n s)) + (n - m) \<le> remaining (rc_kv s))"
proof (induction n)
  case (Suc n)
  let ?f = "firings Fs ts n s"
  show ?case
  proof (cases "drained (cl_run c) ?f")
    case True
    then show ?thesis using drained_alarm by simp
  next
    case False
    then obtain c' where c': "get_cleanup (rc_kv ?f) = Some c'" "cl_run c' = cl_run c" "cl_due_at c' = cl_due_at c"
      "sorted_cell ?f" "run_cell_only (rc_kv ?f)" "remaining (rc_kv ?f) + (n - m) \<le> remaining (rc_kv s)"
      using Suc.IH by blast
    then have "due_cell (ts n) ?f" using assms(4) by (simp add: due_cell_def)
    note alarm_step [OF this c'(1), of "Fs n"]
    then show ?thesis using c' assms(5)
      by (cases "m \<le> n") (fastforce simp: progress_def due_cell_def)+
  qed
qed (use assms in auto)

lemma cleanup_drains:
  assumes "sorted_cell s" "run_cell_only (rc_kv s)" "get_cleanup (rc_kv s) = Some c" "\<forall>i. cl_due_at c \<le> ts i"
    "\<forall>i \<ge> m. answers (Fs i)" "m + length (rc_kv s) + 6 \<le> n"
  shows "drained (cl_run c) (firings Fs ts n s)"
  using firings_progress [OF assms(1-5), of n] remaining_bound [OF assms(3)] assms(6) by auto

end
