(* ===== verification/QueueClaims.thy ===== *)
theory QueueClaims
  imports CellFence
begin

text \<open>
  The contract of queue idempotency: what a claim promises, stated on the pair of reservation
  and in-flight lease alone.  The locale \<open>claim_scope\<close> is the interface the queue consumer and
  producer rely on; it is interpreted twice, by the run cell (claims under keys of the run) and by the
  cell per claim.
\<close>

section \<open>The contract\<close>

datatype claim_op =
    Op_Reserve string int bool
  | Op_Confirm string int
  | Op_Complete string
  | Op_Abandon string
  | Op_Claim string int
  | Op_Hold string int int "int option"
  | Op_Release string

datatype claim_reply = Rp_Done | Rp_Reserve reserve_answer | Rp_Claim claim_answer | Rp_Hold bool

fun op_message :: "claim_op \<Rightarrow> string" where
  "op_message (Op_Reserve m _ _) = m"
| "op_message (Op_Confirm m _) = m"
| "op_message (Op_Complete m) = m"
| "op_message (Op_Abandon m) = m"
| "op_message (Op_Claim m _) = m"
| "op_message (Op_Hold m _ _ _) = m"
| "op_message (Op_Release m) = m"

definition deadline_ok :: "int \<Rightarrow> bool" where
  "deadline_ok n \<longleftrightarrow> 0 \<le> n \<and> n \<le> max_safe_integer"

fun valid_op :: "claim_op \<Rightarrow> bool" where
  "valid_op (Op_Reserve m e _) \<longleftrightarrow> m \<noteq> [] \<and> deadline_ok e"
| "valid_op (Op_Confirm m e) \<longleftrightarrow> m \<noteq> [] \<and> deadline_ok e"
| "valid_op (Op_Claim m d) \<longleftrightarrow> m \<noteq> [] \<and> deadline_ok d \<and> 0 < d"
| "valid_op (Op_Hold m t e u) \<longleftrightarrow> m \<noteq> [] \<and> deadline_ok t \<and> deadline_ok e \<and> (case u of None \<Rightarrow> True | Some x \<Rightarrow> deadline_ok x)"
| "valid_op op \<longleftrightarrow> op_message op \<noteq> []"

definition opt_num :: "int option \<Rightarrow> js" where
  "opt_num x = (case x of None \<Rightarrow> JUndefined | Some n \<Rightarrow> JNum n)"

fun claim_spec :: "int \<Rightarrow> claim_op \<Rightarrow> run_queue_claim \<Rightarrow> claim_reply \<times> run_queue_claim" where
  "claim_spec now (Op_Reserve m e pending) st =
     (case rq_reservation st of
        Some r \<Rightarrow>
          if reservation_blocks now m pending r then (Rp_Reserve (Res_Held (qr_message r) (qr_pending r)), st)
          else (Rp_Reserve (Res_Admitted m), st\<lparr>rq_reservation := Some (new_reservation (Some r) m e pending)\<rparr>)
      | None \<Rightarrow> (Rp_Reserve (Res_Admitted m), st\<lparr>rq_reservation := Some (new_reservation None m e pending)\<rparr>))"
| "claim_spec now (Op_Confirm m e) st =
     (Rp_Done, if map_option qr_message (rq_reservation st) = Some m
               then st\<lparr>rq_reservation := Some (new_reservation (rq_reservation st) m e False)\<rparr> else st)"
| "claim_spec now (Op_Complete m) st =
     (Rp_Done,
      \<lparr>rq_reservation = (if map_option qr_message (rq_reservation st) = Some m then None else rq_reservation st),
       rq_claim = (if map_option ic_message (rq_claim st) = Some m then None else rq_claim st)\<rparr>)"
| "claim_spec now (Op_Abandon m) st =
     (Rp_Done, if map_option qr_message (rq_reservation st) = Some m then st\<lparr>rq_reservation := None\<rparr> else st)"
| "claim_spec now (Op_Claim m d) st =
     (let proven = Option.bind (rq_reservation st) (proven_reservation now m);
          st = (if proven = None then st else st\<lparr>rq_reservation := proven\<rparr>)
      in case claim_refusal now m (rq_claim st) of
           Some t \<Rightarrow> (Rp_Claim (Cl_Busy t), st)
         | None \<Rightarrow> (Rp_Claim Cl_Claimed, st\<lparr>rq_claim :=
             Some \<lparr>ic_message = m, ic_expires_at = now + d, ic_retry_at = None\<rparr>\<rparr>))"
| "claim_spec now (Op_Hold m t e u) st =
     (case rq_claim st of
        Some c \<Rightarrow>
          if ic_message c = m then
            (Rp_Hold True,
             \<lparr>rq_reservation = (case extended_reservation m (opt_num u) (rq_reservation st) of
                  None \<Rightarrow> rq_reservation st | Some x \<Rightarrow> Some x),
              rq_claim = Some (held_claim c t e)\<rparr>)
          else (Rp_Hold False, st)
      | None \<Rightarrow> (Rp_Hold False, st))"
| "claim_spec now (Op_Release m) st =
     (Rp_Done, if map_option ic_message (rq_claim st) = Some m then st\<lparr>rq_claim := None\<rparr> else st)"

text \<open>Operations one after the other, each at its time, on any implementation of the contract.\<close>

fun serve_ops :: "(int \<Rightarrow> claim_op \<Rightarrow> 's \<Rightarrow> claim_reply \<times> 's) \<Rightarrow> (int \<times> claim_op) list \<Rightarrow> 's \<Rightarrow> claim_reply list \<times> 's" where
  "serve_ops f [] s = ([], s)"
| "serve_ops f (x # h) s = (let (r, s) = f (fst x) (snd x) s; (rs, s) = serve_ops f h s in (r # rs, s))"

text \<open>A live lease or reservation of a message, and what others may do about it.\<close>

lemma other_keeps_claim:
  assumes "rq_claim st = Some c" "now < ic_expires_at c" "op_message op \<noteq> ic_message c"
    "claim_spec now op st = (r, st')"
  shows "rq_claim st' = Some c" "op = Op_Claim m d \<Longrightarrow> r = Rp_Claim (Cl_Busy None)"
    "op = Op_Hold m t e u \<Longrightarrow> r = Rp_Hold False"
  using assms by (cases op; auto simp: Let_def claim_refusal_def split: option.splits if_splits)+

lemma other_keeps_reservation:
  assumes "rq_reservation st = Some x" "now < qr_expires_at x" "op_message op \<noteq> qr_message x"
    "claim_spec now op st = (r, st')"
  shows "rq_reservation st' = Some x"
    "op = Op_Reserve m e b \<Longrightarrow> r = Rp_Reserve (Res_Held (qr_message x) (qr_pending x))"
  using assms by (cases op; auto simp: Let_def reservation_blocks_def proven_reservation_def
      extended_reservation_def split: option.splits if_splits)+

lemma history_keeps_claim:
  assumes "rq_claim st = Some c" "\<forall>x \<in> set h. fst x < ic_expires_at c \<and> op_message (snd x) \<noteq> ic_message c"
  shows "rq_claim (snd (serve_ops claim_spec h st)) = Some c \<and>
    list_all2 (\<lambda>x r. \<forall>m d. snd x = Op_Claim m d \<longrightarrow> r = Rp_Claim (Cl_Busy None)) h (fst (serve_ops claim_spec h st))"
  using assms
proof (induction h arbitrary: st)
  case (Cons x h)
  obtain r st1 where r: "claim_spec (fst x) (snd x) st = (r, st1)" by (cases "claim_spec (fst x) (snd x) st")
  note k = other_keeps_claim [OF Cons.prems(1) _ _ r]
  have "rq_claim st1 = Some c" using k(1) Cons.prems(2) by simp
  then show ?case using Cons.IH [of st1] Cons.prems(2) k(2) r by (auto simp: split_def Let_def)
qed simp

lemma history_keeps_reservation:
  assumes "rq_reservation st = Some c" "\<forall>x \<in> set h. fst x < qr_expires_at c \<and> op_message (snd x) \<noteq> qr_message c"
  shows "rq_reservation (snd (serve_ops claim_spec h st)) = Some c \<and>
    list_all2 (\<lambda>x r. \<forall>m e b. snd x = Op_Reserve m e b \<longrightarrow>
      r = Rp_Reserve (Res_Held (qr_message c) (qr_pending c))) h (fst (serve_ops claim_spec h st))"
  using assms
proof (induction h arbitrary: st)
  case (Cons x h)
  obtain r st1 where r: "claim_spec (fst x) (snd x) st = (r, st1)" by (cases "claim_spec (fst x) (snd x) st")
  note k = other_keeps_reservation [OF Cons.prems(1) _ _ r]
  have "rq_reservation st1 = Some c" using k(1) Cons.prems(2) by simp
  then show ?case using Cons.IH [of st1] Cons.prems(2) k(2) r by (auto simp: split_def Let_def)
qed simp

section \<open>The interface\<close>

locale claim_scope =
  fixes step :: "int \<Rightarrow> claim_op \<Rightarrow> 's \<Rightarrow> claim_reply \<times> 's"
    and view :: "'s \<Rightarrow> run_queue_claim"
    and ready :: "'s \<Rightarrow> bool"
    and horizon :: int
  assumes step_spec: "valid_op op \<Longrightarrow> now \<le> horizon \<Longrightarrow> ready s \<Longrightarrow>
     claim_spec now op (view s) = (fst (step now op s), view (snd (step now op s)))"
    and step_ready: "valid_op op \<Longrightarrow> now \<le> horizon \<Longrightarrow> ready s \<Longrightarrow> ready (snd (step now op s))"
begin

definition in_order :: "(int \<times> claim_op) list \<Rightarrow> bool" where
  "in_order h \<longleftrightarrow> (\<forall>x \<in> set h. valid_op (snd x) \<and> fst x \<le> horizon)"

lemma history_spec:
  "in_order h \<Longrightarrow> ready s \<Longrightarrow>
   serve_ops claim_spec h (view s) = (fst (serve_ops step h s), view (snd (serve_ops step h s)))"
proof (induction h arbitrary: s)
  case (Cons x h)
  have v: "valid_op (snd x)" "fst x \<le> horizon" "in_order h" using Cons.prems(1) by (auto simp: in_order_def)
  show ?case
    using step_spec [OF v(1,2) Cons.prems(2)] Cons.IH [OF v(3) step_ready [OF v(1,2) Cons.prems(2)]]
    by (simp add: split_def Let_def)
qed simp

lemma history_ready: "in_order h \<Longrightarrow> ready s \<Longrightarrow> ready (snd (serve_ops step h s))"
proof (induction h arbitrary: s)
  case (Cons x h)
  then have "ready (snd (step (fst x) (snd x) s))" by (intro step_ready) (auto simp: in_order_def)
  then show ?case using Cons by (simp add: split_def Let_def in_order_def)
qed simp

lemma lease_is_exclusive:
  assumes "in_order h" "ready s" "rq_claim (view s) = Some c"
    "\<forall>x \<in> set h. fst x < ic_expires_at c \<and> op_message (snd x) \<noteq> ic_message c"
  shows "rq_claim (view (snd (serve_ops step h s))) = Some c \<and>
    list_all2 (\<lambda>x r. \<forall>m d. snd x = Op_Claim m d \<longrightarrow> r = Rp_Claim (Cl_Busy None)) h (fst (serve_ops step h s))"
  using history_keeps_claim [OF assms(3,4)] history_spec [OF assms(1,2)] by simp

lemma reservation_is_exclusive:
  assumes "in_order h" "ready s" "rq_reservation (view s) = Some c"
    "\<forall>x \<in> set h. fst x < qr_expires_at c \<and> op_message (snd x) \<noteq> qr_message c"
  shows "rq_reservation (view (snd (serve_ops step h s))) = Some c \<and>
    list_all2 (\<lambda>x r. \<forall>m e b. snd x = Op_Reserve m e b \<longrightarrow>
      r = Rp_Reserve (Res_Held (qr_message c) (qr_pending c))) h (fst (serve_ops step h s))"
  using history_keeps_reservation [OF assms(3,4)] history_spec [OF assms(1,2)] by simp

end

section \<open>Claims in the run's own cell\<close>

definition claim_rq :: "string \<Rightarrow> string \<Rightarrow> queue_rq" where
  "claim_rq name m = \<lparr>qq_claim = JStr name, qq_message = JStr m, qq_expires = JUndefined, qq_retry = JUndefined,
     qq_stale = JUndefined, qq_pending = JUndefined, qq_reservation_expires = JUndefined\<rparr>"

definition replied :: "('a \<Rightarrow> claim_reply) \<Rightarrow> cell \<Rightarrow> 'a answer \<Rightarrow> claim_reply \<times> cell" where
  "replied f s r = (case r of Inl _ \<Rightarrow> (Rp_Done, s) | Inr (x, s') \<Rightarrow> (f x, s'))"

fun run_claim_step :: "string \<Rightarrow> int \<Rightarrow> claim_op \<Rightarrow> cell \<Rightarrow> claim_reply \<times> cell" where
  "run_claim_step n now (Op_Reserve m e b) s = replied Rp_Reserve s
     (reserveRunQueueMessage ((claim_rq n m)\<lparr>qq_expires := JNum e, qq_pending := JBool b\<rparr>) now s)"
| "run_claim_step n now (Op_Confirm m e) s = replied (\<lambda>_. Rp_Done) s
     (confirmRunQueueMessagePublication ((claim_rq n m)\<lparr>qq_expires := JNum e\<rparr>) s)"
| "run_claim_step n now (Op_Complete m) s = replied (\<lambda>_. Rp_Done) s (completeRunQueueMessage (claim_rq n m) s)"
| "run_claim_step n now (Op_Abandon m) s = replied (\<lambda>_. Rp_Done) s (abandonRunQueueMessageReservation (claim_rq n m) s)"
| "run_claim_step n now (Op_Claim m d) s = replied Rp_Claim s
     (claimRunQueueMessage ((claim_rq n m)\<lparr>qq_stale := JNum d\<rparr>) now s)"
| "run_claim_step n now (Op_Hold m t e u) s = replied Rp_Hold s (holdRunQueueMessage
     ((claim_rq n m)\<lparr>qq_retry := JNum t, qq_expires := JNum e, qq_reservation_expires := opt_num u\<rparr>) s)"
| "run_claim_step n now (Op_Release m) s = replied (\<lambda>_. Rp_Done) s (releaseRunQueueMessage (claim_rq n m) s)"

definition run_claim_view :: "string \<Rightarrow> cell \<Rightarrow> run_queue_claim" where
  "run_claim_view n s = nullish (get_queue_claim (runQueueClaimKey n) (rc_kv s)) no_claim"

text \<open>The run keeps its claims itself, and is not expired before the horizon.\<close>

definition run_claim_ready :: "string \<Rightarrow> int \<Rightarrow> cell \<Rightarrow> bool" where
  "run_claim_ready n H s \<longleftrightarrow> has_prefix ''claim:'' n \<and>
     kv_get scope_key (rc_kv s) = Some (VStr ''run'') \<and> \<not> fenced H (rc_kv s)"

lemma get_queue_claim_put [simp]:
  "get_queue_claim k (kv_put k' v s) = (if k = k' then as_queue_claim v else get_queue_claim k s)"
  "get_queue_claim k (kv_del k' s) = (if k = k' then None else get_queue_claim k s)"
  by (simp_all add: get_queue_claim_def)

lemma deadline_js [simp]:
  "deadline_ok n \<Longrightarrow> isNonNegativeSafeInteger (JNum n)"
  "deadline_ok n \<Longrightarrow> 0 < n \<Longrightarrow> isPositiveSafeInteger (JNum n)"
  "(\<forall>x. u = Some x \<longrightarrow> deadline_ok x) \<Longrightarrow> optional_deadline (opt_num u)"
  by (auto simp: deadline_ok_def isNonNegativeSafeInteger_def isPositiveSafeInteger_def safe_int_def max_safe_integer_def
      optional_deadline_def opt_num_def split: option.splits)

lemma run_claim_step_spec:
  assumes "valid_op op" "now \<le> H" "run_claim_ready n H s"
  shows "claim_spec now op (run_claim_view n s) =
      (fst (run_claim_step n now op s), run_claim_view n (snd (run_claim_step n now op s)))"
    and "run_claim_ready n H (snd (run_claim_step n now op s))"
proof -
  have t: "tombstoneFrom now (rc_kv s) = None"
    using assms(2,3) fenced_mono [of now "rc_kv s" H]
    by (cases "tombstoneFrom now (rc_kv s)") (auto simp: run_claim_ready_def fenced_def)
  have n: "validRunQueueClaimName (JStr n)" using assms(3) by (simp add: validRunQueueClaimName_def run_claim_ready_def)
  have sc: "kv_get scope_key (rc_kv s) = Some (VStr ''run'')" using assms(3) by (simp add: run_claim_ready_def)
  have msg: "isNonEmptyString (JStr m) \<longleftrightarrow> m \<noteq> []" for m by (cases m) (simp_all add: isNonEmptyString_def)
  note d = replied_def claim_rq_def run_claim_view_def store_claim_def no_claim_def Let_def t n sc msg
  show "claim_spec now op (run_claim_view n s) =
      (fst (run_claim_step n now op s), run_claim_view n (snd (run_claim_step n now op s)))"
  proof (cases op)
    case (Op_Reserve m e b)
    then show ?thesis using assms(1) by (auto simp: d reserveRunQueueMessage_def split: option.splits)
  next
    case (Op_Confirm m e)
    then show ?thesis using assms(1) by (auto simp: d confirmRunQueueMessagePublication_def split: option.splits)
  next
    case (Op_Complete m)
    then show ?thesis using assms(1) by (auto simp: d completeRunQueueMessage_def split: option.splits)
  next
    case (Op_Abandon m)
    then show ?thesis using assms(1) by (auto simp: d abandonRunQueueMessageReservation_def split: option.splits)
  next
    case (Op_Claim m e)
    then show ?thesis using assms(1) by (auto simp: d claimRunQueueMessage_def split: option.splits)
  next
    case (Op_Hold m u e x)
    then show ?thesis using assms(1) by (auto simp: d holdRunQueueMessage_def split: option.splits)
  next
    case (Op_Release m)
    then show ?thesis using assms(1) by (auto simp: d releaseRunQueueMessage_def split: option.splits)
  qed
  have k: "run_claim_ready n H s'" if "kv_get scope_key (rc_kv s') = kv_get scope_key (rc_kv s)"
    "get_tombstone (rc_kv s') = get_tombstone (rc_kv s)" "get_cleanup (rc_kv s') = get_cleanup (rc_kv s)" for s'
    using assms(3) that(1) fenced_cong [OF that(2,3), of H] by (simp add: run_claim_ready_def)
  show "run_claim_ready n H (snd (run_claim_step n now op s))"
    by (cases op)
      (auto intro!: k simp: replied_def bindE_def ensure_def claim_rq_def store_claim_def Let_def
        reserveRunQueueMessage_def confirmRunQueueMessagePublication_def completeRunQueueMessage_def
        abandonRunQueueMessageReservation_def claimRunQueueMessage_def holdRunQueueMessage_def
        releaseRunQueueMessage_def split: option.splits)
qed

interpretation run_scope: claim_scope "run_claim_step n" "run_claim_view n" "run_claim_ready n H" H for n H
  by unfold_locales (auto simp: run_claim_step_spec)

section \<open>A cell per claim\<close>

fun cell_claim_step :: "int \<Rightarrow> claim_op \<Rightarrow> cell \<Rightarrow> claim_reply \<times> cell" where
  "cell_claim_step now (Op_Reserve m e b) s = replied Rp_Reserve s
     (reserveQueueMessage ((claim_rq [] m)\<lparr>qq_expires := JNum e, qq_pending := JBool b\<rparr>) now s)"
| "cell_claim_step now (Op_Confirm m e) s = replied (\<lambda>_. Rp_Done) s
     (confirmQueueMessagePublication ((claim_rq [] m)\<lparr>qq_expires := JNum e\<rparr>) s)"
| "cell_claim_step now (Op_Complete m) s = replied (\<lambda>_. Rp_Done) s (completeQueueMessage (JStr m) s)"
| "cell_claim_step now (Op_Abandon m) s = replied (\<lambda>_. Rp_Done) s (abandonQueueMessageReservation (JStr m) s)"
| "cell_claim_step now (Op_Claim m d) s = replied Rp_Claim s
     (claimInflight ((claim_rq [] m)\<lparr>qq_stale := JNum d\<rparr>) now s)"
| "cell_claim_step now (Op_Hold m t e u) s = replied Rp_Hold s (holdInflight
     ((claim_rq [] m)\<lparr>qq_retry := JNum t, qq_expires := JNum e, qq_reservation_expires := opt_num u\<rparr>) s)"
| "cell_claim_step now (Op_Release m) s = (Rp_Done, releaseInflight (Some m) s)"

definition cell_claim_view :: "cell \<Rightarrow> run_queue_claim" where
  "cell_claim_view s = \<lparr>rq_reservation = get_reservation (rc_kv s), rq_claim = get_inflight (rc_kv s)\<rparr>"

lemma cell_claim_step_spec:
  assumes "valid_op op"
  shows "claim_spec now op (cell_claim_view s) =
      (fst (cell_claim_step now op s), cell_claim_view (snd (cell_claim_step now op s)))"
proof -
  have msg: "isNonEmptyString (JStr m) \<longleftrightarrow> m \<noteq> []" for m by (cases m) (simp_all add: isNonEmptyString_def)
  note d = replied_def claim_rq_def cell_claim_view_def Let_def msg
  show ?thesis
  proof (cases op)
    case (Op_Reserve m e b)
    then show ?thesis using assms(1) by (auto simp: d reserveQueueMessage_def split: option.splits)
  next
    case (Op_Confirm m e)
    then show ?thesis using assms(1) by (auto simp: d confirmQueueMessagePublication_def split: option.splits)
  next
    case (Op_Complete m)
    then show ?thesis using assms(1) by (auto simp: d completeQueueMessage_def split: option.splits)
  next
    case (Op_Abandon m)
    then show ?thesis using assms(1) by (auto simp: d abandonQueueMessageReservation_def split: option.splits)
  next
    case (Op_Claim m e)
    then show ?thesis using assms(1) by (auto simp: d claimInflight_def split: option.splits)
  next
    case (Op_Hold m u e x)
    then show ?thesis using assms(1) by (auto simp: d holdInflight_def split: option.splits)
  next
    case (Op_Release m)
    then show ?thesis using assms(1) by (auto simp: d releaseInflight_def split: option.splits)
  qed
qed

interpretation cell_scope: claim_scope cell_claim_step cell_claim_view "\<lambda>_. True" H for H
  by unfold_locales (simp_all add: cell_claim_step_spec)

section \<open>The alarm of a claim cell\<close>

text \<open>Whatever a claim cell holds, it is woken when the first of it expires, or before.\<close>

definition woken :: "cell \<Rightarrow> bool" where
  "woken s \<longleftrightarrow>
     (\<forall>c. get_inflight (rc_kv s) = Some c \<longrightarrow> (\<exists>a. rc_alarm s = Some a \<and> a \<le> ic_expires_at c)) \<and>
     (\<forall>r. get_reservation (rc_kv s) = Some r \<longrightarrow> (\<exists>a. rc_alarm s = Some a \<and> a \<le> qr_expires_at r))"

lemmas woken_simps = woken_def earliest_def armAt_def replied_def bindE_def ensure_def Let_def claim_rq_def

lemma woken_step:
  assumes "woken s" "valid_op op"
  shows "woken (snd (cell_claim_step now op s))"
proof (cases op)
  case (Op_Reserve m e b)
  then show ?thesis using assms by (auto simp: woken_simps reserveQueueMessage_def split: option.splits)
next
  case (Op_Confirm m e)
  then show ?thesis using assms by (auto simp: woken_simps confirmQueueMessagePublication_def split: option.splits)
next
  case (Op_Complete m)
  then show ?thesis using assms by (auto simp: woken_simps completeQueueMessage_def split: option.splits)
next
  case (Op_Abandon m)
  then show ?thesis using assms by (auto simp: woken_simps abandonQueueMessageReservation_def split: option.splits)
next
  case (Op_Claim m e)
  have later: "\<exists>a. x = Some a \<and> a \<le> max t t'" if "\<exists>a. x = Some a \<and> a \<le> t" for x :: "int option" and t t'
    using that by auto
  show ?thesis using Op_Claim assms
    by (cases "get_reservation (rc_kv s)")
      (auto simp: woken_simps claimInflight_def proven_reservation_def split: option.splits if_splits intro: later)
next
  case (Op_Hold m u e x)
  then show ?thesis using assms by (auto simp: woken_simps holdInflight_def split: option.splits)
next
  case (Op_Release m)
  then show ?thesis using assms by (auto simp: woken_simps releaseInflight_def split: option.splits)
qed

lemma woken_expire: "woken (expireClaims now s)"
  by (auto simp: expireClaims_def woken_def earliest_def armAt_def Let_def split: option.splits)

end
