(* ===== verification/CellDemo.thy ===== *)
theory CellDemo
  imports CellLife CellDrain QueueClaims
begin

text \<open>
  Concrete histories of a run cell for the witnesses: requests served one after the other, alarms
  fired, on the demo world.
\<close>

fun serve_all :: "world_api \<Rightarrow> (int \<times> request) list \<Rightarrow> sys \<Rightarrow> sys" where
  "serve_all W [] y = y"
| "serve_all W ((now, rq) # rs) y =
     (let t = max (sy_clock y) now
      in serve_all W rs \<lparr>sy_clock = t, sy_cell = serve W t rq (sy_cell y), sy_passes = sy_passes y\<rparr>)"

lemma serve_all_steps: "cell_steps W y (serve_all W rs y)"
proof (induction rs arbitrary: y)
  case (Cons x rs)
  obtain now rq where x: "x = (now, rq)" by (cases x)
  let ?t = "max (sy_clock y) now"
  have "cell_step W y \<lparr>sy_clock = ?t, sy_cell = serve W ?t rq (sy_cell y), sy_passes = sy_passes y\<rparr>"
    by (cases y) (simp add: cell_step.serve_request)
  then show ?case using Cons.IH x by (auto simp: Let_def intro: converse_rtranclp_into_rtranclp)
qed simp

definition demo_retention :: js where
  "demo_retention = JObj [(''retentionMs'', JNum 1000)]"

text \<open>A run under way.\<close>

definition demo_active :: sys where
  "demo_active = serve_all demo_world
     [(10, R_Event None (demo_ctx (RunCreated demo_init) 0)),
      (20, R_Event None (demo_ctx (RunStarted None) 0))] (fresh_sys 0)"

text \<open>The run ends with a retention of one second.\<close>

definition demo_ended :: sys where
  "demo_ended = serve_all demo_world
     [(50, R_Event None ((demo_ctx (RunCompleted None) 0)\<lparr>c_cleanup := demo_retention\<rparr>))] demo_active"

text \<open>A request at a later time; it changes nothing but the clock.\<close>

definition demo_expired :: sys where
  "demo_expired = serve_all demo_world [(2000, R_Register JUndefined JUndefined JUndefined)] demo_ended"

lemma demo_steps:
  "cell_steps demo_world (fresh_sys 0) demo_active"
  "cell_steps demo_world demo_active demo_ended" "cell_steps demo_world (fresh_sys 0) demo_ended"
  "cell_steps demo_world demo_ended demo_expired" "cell_steps demo_world (fresh_sys 0) demo_expired"
proof -
  show a: "cell_steps demo_world (fresh_sys 0) demo_active" "cell_steps demo_world demo_active demo_ended"
    "cell_steps demo_world demo_ended demo_expired"
    by (simp_all only: demo_active_def demo_ended_def demo_expired_def serve_all_steps)
  show b: "cell_steps demo_world (fresh_sys 0) demo_ended" by (rule rtranclp_trans [OF a(1,2)])
  show "cell_steps demo_world (fresh_sys 0) demo_expired" by (rule rtranclp_trans [OF b a(3)])
qed

definition demo_cleanup :: cleanup_record where
  "demo_cleanup = the (get_cleanup (rc_kv (sy_cell demo_ended)))"

lemma demo_evaluated:
  "let y = demo_active; s = rc_kv (sy_cell y) in
     getLifecycleStatus demo_world (sy_clock y) s = Life_Active \<and> get_cleanup s = None \<and>
     get_tombstone s = None \<and> get_seq s = 2 \<and> sy_clock y = 20 \<and> sy_passes y = [] \<and>
     kv_get scope_key s = Some (VStr ''run'') \<and> run_claim_view ''claim:q'' (sy_cell y) = no_claim \<and>
     get_hook ''h1'' s = None"
  "let y = demo_ended; s = rc_kv (sy_cell y) in
     getLifecycleStatus demo_world (sy_clock y) s = Life_Terminal \<and> get_tombstone s = None \<and>
     map_option cl_due_at (get_cleanup s) = Some 1050 \<and> map_option cl_phase (get_cleanup s) = Some Ph_Retained \<and>
     map_option cl_run (get_cleanup s) = Some ''r1'' \<and> get_run s \<noteq> None \<and>
     get_seq s = 3 \<and> sy_clock y = 50 \<and> sy_passes y = [] \<and> rc_alarm (sy_cell y) = Some 51 \<and> length s = 8"
  by code_simp+

lemma demo_active_facts:
  "getLifecycleStatus demo_world 20 (rc_kv (sy_cell demo_active)) = Life_Active"
  "get_cleanup (rc_kv (sy_cell demo_active)) = None" "get_tombstone (rc_kv (sy_cell demo_active)) = None"
  "get_seq (rc_kv (sy_cell demo_active)) = 2" "sy_clock demo_active = 20" "sy_passes demo_active = []"
  "kv_get scope_key (rc_kv (sy_cell demo_active)) = Some (VStr ''run'')"
  "run_claim_view ''claim:q'' (sy_cell demo_active) = no_claim" "get_hook ''h1'' (rc_kv (sy_cell demo_active)) = None"
  using demo_evaluated(1) by (auto simp: Let_def)

lemma demo_ended_facts:
  "getLifecycleStatus demo_world 50 (rc_kv (sy_cell demo_ended)) = Life_Terminal"
  "get_cleanup (rc_kv (sy_cell demo_ended)) = Some demo_cleanup" "get_tombstone (rc_kv (sy_cell demo_ended)) = None"
  "cl_due_at demo_cleanup = 1050" "cl_phase demo_cleanup = Ph_Retained" "cl_run demo_cleanup = ''r1''"
  "get_run (rc_kv (sy_cell demo_ended)) \<noteq> None" "get_seq (rc_kv (sy_cell demo_ended)) = 3"
  "sy_clock demo_ended = 50" "sy_passes demo_ended = []" "rc_alarm (sy_cell demo_ended) = Some 51"
  "length (rc_kv (sy_cell demo_ended)) = 8"
  using demo_evaluated(2) by (auto simp: Let_def demo_cleanup_def)

lemma demo_expired_facts:
  "sy_clock demo_expired = 2000" "sy_cell demo_expired = sy_cell demo_ended" "sy_passes demo_expired = []"
  "getLifecycleStatus demo_world 2000 (rc_kv (sy_cell demo_expired)) = Life_Expired"
proof -
  show k: "sy_clock demo_expired = 2000" "sy_cell demo_expired = sy_cell demo_ended" "sy_passes demo_expired = []"
    by (simp_all add: demo_expired_def Let_def demo_ended_facts registerQueuePayload_def ensure_def isNonEmptyString_def)
  show "getLifecycleStatus demo_world 2000 (rc_kv (sy_cell demo_expired)) = Life_Expired"
    by (simp add: k getLifecycleStatus_def tombstoneFrom_def demo_ended_facts)
qed

text \<open>Other cells that answer every call and hold nothing.\<close>

definition demo_fleet :: fleet where
  "demo_fleet = \<lparr>fl_release = (\<lambda>_ _. None), fl_expire_run = (\<lambda>_ _ _. None),
     fl_expire_registry = (\<lambda>_ _ _. Inr []),
     fl_expire_stream = (\<lambda>_ _ _ _ _. Inr \<lparr>se_done = True, se_chunks = 0, se_bytes = 0\<rparr>),
     fl_finalize_registry = (\<lambda>_ _. Inr (0, True)), fl_delete_objects = (\<lambda>_. None),
     fl_unregister = (\<lambda>_ _. None)\<rparr>"

lemma demo_fleet_answers: "answers demo_fleet"
  by (simp add: answers_def demo_fleet_def)

text \<open>A page under way since before the deadline was moved.\<close>

definition demo_paged :: sys where
  "demo_paged = \<lparr>sy_clock = 2000, sy_cell = sy_cell demo_ended, sy_passes = [Ps_Phase demo_cleanup]\<rparr>"

definition demo_moved :: sys where
  "demo_moved = serve_all demo_world [(2001, R_Expire_Now)] demo_paged"

lemma demo_moved_facts:
  "cell_steps demo_world (fresh_sys 0) demo_paged" "cell_steps demo_world (fresh_sys 0) demo_moved"
  "sy_passes demo_moved = [Ps_Phase demo_cleanup]"
  "get_cleanup (rc_kv (sy_cell demo_moved)) = Some (demo_cleanup\<lparr>cl_due_at := 2001, cl_generation := cl_generation demo_cleanup + 1\<rparr>)"
proof -
  have "driven_sys demo_ended" by (rule cell_steps_driven [OF demo_steps(3)]) simp
  then have "planCleanup 2000 (rc_kv (sy_cell demo_ended)) = Plan_Cleanup demo_cleanup"
    by (auto simp: driven_sys_def run_cell_only_def planCleanup_def demo_ended_facts split: option.splits)
  then have "beginPage demo_fleet 2000 (sy_cell demo_ended) = (sy_cell demo_ended, [Ps_Phase demo_cleanup])"
    by (simp add: beginPage_def beginCleanup_def demo_ended_facts)
  moreover have "demo_ended = \<lparr>sy_clock = 50, sy_cell = sy_cell demo_ended, sy_passes = []\<rparr>"
    by (rule sys.equality) (simp_all add: demo_ended_facts)
  ultimately have "cell_step demo_world demo_ended demo_paged"
    using cell_step.run_page [of 50 2000 demo_fleet "sy_cell demo_ended" "sy_cell demo_ended" _ demo_world "[]"]
    by (simp add: demo_paged_def)
  then show p: "cell_steps demo_world (fresh_sys 0) demo_paged" using demo_steps(3) by simp
  show "cell_steps demo_world (fresh_sys 0) demo_moved"
    unfolding demo_moved_def by (rule rtranclp_trans [OF p serve_all_steps])
  obtain r where r: "get_run (rc_kv (sy_cell demo_ended)) = Some r" using demo_ended_facts(7) by auto
  have "parse_run demo_world x = Some x" for x by (simp add: demo_world_def)
  then show "sy_passes demo_moved = [Ps_Phase demo_cleanup]"
    "get_cleanup (rc_kv (sy_cell demo_moved)) = Some (demo_cleanup\<lparr>cl_due_at := 2001, cl_generation := cl_generation demo_cleanup + 1\<rparr>)"
    using r by (simp_all add: demo_moved_def demo_paged_def expireNow_def demo_ended_facts require_def Let_def)
qed

end
