(* ===== verification/CellProperties.thy ===== *)
theory CellProperties
  imports CellDemo
begin

text \<open>
  The properties of the run cell as a transition system (\<open>WorkflowRunDO.ts\<close>): whatever requests,
  alarms and cleanup pages have been interleaved since the cell was created.
\<close>

text \<open>C15: In every reachable state in which payload deletion has not begun, the stored log is a
  legal journal and the stored run and steps are what replaying it yields, hooks and waits as
  well while the run is live.\<close>

theorem reachable_cell_is_replayed:
  assumes "schemas_ok W" "slots_ok W" "terminal_specs W" "child_creation_ok W"
    and "cell_steps W (fresh_sys t) y" and "s = rc_kv (sy_cell y)" and "l = event_log W (eventStore s)"
    and "get_tombstone s = None" and "\<forall>c. get_cleanup s = Some c \<longrightarrow> cl_phase c \<noteq> Ph_Payload"
  shows "legal_log W l \<and> get_run s = expiring (run_expiry s) (replay_run W l)
    \<and> get_step c s = replay_step c l
    \<and> (run_live W l \<longrightarrow> get_hook c s = replay_hook c l \<and> get_wait c s = replay_wait c l)"
proof -
  have "driven_sys y" by (rule cell_steps_driven [OF assms(5)]) simp
  then have "\<forall>c. get_cleanup s = Some c \<longrightarrow> cl_phase c \<noteq> Ph_Tombstoned"
    by (simp add: driven_sys_def run_cell_only_def assms(6))
  then have "phase_rank (cl_phase c) < 5" if "get_cleanup s = Some c" for c
    using assms(9) that by (cases "cl_phase c") auto
  then have "stage s < 5" using assms(8) by (auto simp: stage_def split: option.splits)
  then have "hist_ok W s"
    using cell_steps_sound [OF assms(1-5) fresh_sys_sound] assms(6) by (simp add: sound_sys_def sound_def)
  then have "legal_log W l" and r: "reflects W l s" using cell_okD(1,2) [of W "eventStore s"] assms(7) by simp_all
  then show ?thesis by (intro conjI impI reflects_getD [OF r])
qed

theorem reachable_cell_is_replayed_witness:
  "legal_log demo_world (event_log demo_world (eventStore (rc_kv (sy_cell demo_ended))))
   \<and> get_seq (rc_kv (sy_cell demo_ended)) = 3"
  using reachable_cell_is_replayed [OF demo_ok demo_steps(3) refl refl demo_ended_facts(3)]
  by (simp add: demo_ended_facts)

text \<open>C16: No committed event is lost before payload deletion: between any two reachable states,
  the later log continues the earlier one.\<close>

theorem committed_events_stay:
  assumes "schemas_ok W" "slots_ok W" "terminal_specs W" "child_creation_ok W"
    and "cell_steps W (fresh_sys t) y" "cell_steps W y y'"
    and "get_tombstone (rc_kv (sy_cell y')) = None"
    and "\<forall>c. get_cleanup (rc_kv (sy_cell y')) = Some c \<longrightarrow> cl_phase c \<noteq> Ph_Payload"
  shows "\<exists>es. event_log W (eventStore (rc_kv (sy_cell y'))) = event_log W (eventStore (rc_kv (sy_cell y))) @ es"
proof -
  have "driven_sys y'" by (rule cell_steps_driven [OF rtranclp_trans [OF assms(5,6)]]) simp
  then have "phase_rank (cl_phase c) < 5" if "get_cleanup (rc_kv (sy_cell y')) = Some c" for c
    using assms(8) that by (cases "cl_phase c") (auto simp: driven_sys_def run_cell_only_def)
  then have "stage (rc_kv (sy_cell y')) < 5" using assms(7) by (auto simp: stage_def split: option.splits)
  then show ?thesis
    using cell_steps_later [OF assms(1-4,6) cell_steps_sound [OF assms(1-5) fresh_sys_sound]]
    by (simp add: later_run_def)
qed

theorem committed_events_stay_witness:
  "\<exists>es. event_log demo_world (eventStore (rc_kv (sy_cell demo_ended)))
     = event_log demo_world (eventStore (rc_kv (sy_cell demo_active))) @ es"
  using committed_events_stay [OF demo_ok demo_steps(1,2) demo_ended_facts(3)] by (simp add: demo_ended_facts)

text \<open>C17: Expiry is final: once a run is expired, at any later moment events, reads, admission,
  reservations, claims and payload registrations all answer "expired" and change nothing.\<close>

theorem expired_is_final:
  assumes "cell_steps W (fresh_sys t) y" "getLifecycleStatus W (sy_clock y) (rc_kv (sy_cell y)) = Life_Expired"
    and "cell_steps W y y'" "sy_clock y' \<le> now" "s = sy_cell y'"
  shows "getLifecycleStatus W now (rc_kv s) = Life_Expired \<and> (\<exists>x. read f now (rc_kv s) = Read_Expired x)
    \<and> \<not> getQueueAdmission now (rc_kv s)
    \<and> (\<forall>out s'. cellApplyEvent W name ctx now s = Inr (out, s') \<longrightarrow> out = Failure Run_Expired \<and> s' = s)
    \<and> (\<forall>r s'. reserveRunQueueMessage rq now s = Inr (r, s') \<longrightarrow> r = Res_Expired \<and> s' = s)
    \<and> (\<forall>r s'. claimRunQueueMessage rq now s = Inr (r, s') \<longrightarrow> r = Cl_Expired \<and> s' = s)
    \<and> (\<forall>b s'. registerQueuePayload m k u now s = Inr (b, s') \<longrightarrow> \<not> b \<and> s' = s)"
proof -
  have "fenced (sy_clock y) (rc_kv (sy_cell y))"
    using assms(2) by (auto simp: getLifecycleStatus_def fenced_def split: if_splits option.splits)
  then have "fenced (sy_clock y') (rc_kv s)"
    using cell_steps_keep_fence [OF assms(3) cell_steps_ok [OF assms(1)]] assms(5) by simp
  then have "fenced now (rc_kv s)" using assms(4) by (rule fenced_mono)
  note a = fenced_answers [OF this]
  show ?thesis using a(2-4) by (auto dest: a(1) a(5) a(6) a(7))
qed

theorem expired_is_final_witness:
  "getLifecycleStatus demo_world 3000 (rc_kv (sy_cell demo_expired)) = Life_Expired"
  using expired_is_final [OF demo_steps(5) _ rtranclp.rtrancl_refl _ refl, of 3000, THEN conjunct1] demo_expired_facts by simp

text \<open>C18: The lifecycle status of a run only moves forward, from missing to active to terminal to
  expired, under any interleaving of requests, alarms and pages.\<close>

theorem lifecycle_only_advances:
  assumes "schemas_ok W" "slots_ok W" "terminal_specs W" "child_creation_ok W"
    and "cell_steps W (fresh_sys t) y" "cell_steps W y y'"
  shows "life_rank (getLifecycleStatus W (sy_clock y) (rc_kv (sy_cell y)))
    \<le> life_rank (getLifecycleStatus W (sy_clock y') (rc_kv (sy_cell y')))"
  using lives_grow [OF assms(1-4,6) cell_steps_sound [OF assms(1-5) fresh_sys_sound]] by (simp add: life_def)

theorem lifecycle_only_advances_witness:
  "life_rank (getLifecycleStatus demo_world 20 (rc_kv (sy_cell demo_active)))
    \<le> life_rank (getLifecycleStatus demo_world 50 (rc_kv (sy_cell demo_ended)))"
  using lifecycle_only_advances [OF demo_ok demo_steps(1,2)] by (simp add: demo_active_facts demo_ended_facts)

text \<open>C19: Cleanup only moves on: a stored cleanup record is later replaced only by one of a
  newer generation and no earlier phase, and it leaves only for a tombstone, which then stays
  as it is.\<close>

theorem cleanup_only_moves_on:
  assumes "cell_steps W (fresh_sys t) y" "cell_steps W y y'"
    and "s = rc_kv (sy_cell y)" "s' = rc_kv (sy_cell y')"
  shows "(\<forall>c. get_cleanup s = Some c \<longrightarrow> (case get_cleanup s' of
      None \<Rightarrow> get_tombstone s' \<noteq> None
    | Some c' \<Rightarrow> c' = c \<or> phase_rank (cl_phase c) \<le> phase_rank (cl_phase c') \<and> cl_generation c < cl_generation c'))
    \<and> (\<forall>x. get_tombstone s = Some x \<and> get_cleanup s = None \<longrightarrow> get_tombstone s' = Some x \<and> get_cleanup s' = None)"
proof -
  have "moves_on (rc_kv (sy_cell y)) (rc_kv (sy_cell y'))" using assms(2)
  proof (induction rule: rtranclp_induct)
    case (step y1 y2)
    have "sys_ok y1" using cell_steps_ok [OF rtranclp_trans [OF assms(1) step.hyps(1)]] by simp
    then show ?case using step cell_step_moves moves_on_trans by blast
  qed simp
  then show ?thesis using assms(3,4) by (auto simp: moves_on_def stage_def split: option.splits if_splits)
qed

theorem cleanup_only_moves_on_witness:
  "\<exists>c'. get_cleanup (rc_kv (sy_cell demo_moved)) = Some c' \<and> cl_generation demo_cleanup < cl_generation c'"
  using cleanup_only_moves_on [OF demo_moved_facts(1) _ refl refl, of demo_moved]
    serve_all_steps [of demo_world demo_paged] demo_moved_facts(4) demo_ended_facts(2)
  by (auto simp: demo_moved_def demo_paged_def)

text \<open>C20: A cleanup page that was overtaken commits nothing: if the stored record is no longer
  the one its reads were made for, the second half of the page leaves the cell as it is.\<close>

theorem overtaken_page_is_dropped:
  assumes "cell_steps W (fresh_sys t) y" "p \<in> set (sy_passes y)" "pass_cleanup p = Some c"
    and "get_cleanup (rc_kv (sy_cell y)) \<noteq> Some c"
  shows "commitPass F now p (sy_cell y) = (sy_cell y, [])"
proof -
  have "pass_ok p" using cell_steps_ok [OF assms(1) fresh_sys_ok] assms(2) by (simp add: sys_ok_def)
  moreover have "passes_behind y" using cell_steps_behind [OF assms(1)] by simp
  ultimately show ?thesis using stale_commit assms(2-4) by (auto simp: passes_behind_def)
qed

theorem overtaken_page_is_dropped_witness:
  "commitPass demo_fleet 2002 (Ps_Phase demo_cleanup) (sy_cell demo_moved) = (sy_cell demo_moved, [])"
proof -
  have "cl_generation x \<noteq> cl_generation demo_cleanup \<Longrightarrow> Some x \<noteq> Some demo_cleanup" for x by auto
  then show ?thesis
    by (intro overtaken_page_is_dropped [OF demo_moved_facts(2), where c = demo_cleanup])
      (simp_all add: demo_moved_facts)
qed

text \<open>C21: Cleanup is never stranded: as long as a cleanup or terminal record is stored, the alarm
  is set or a page that will commit on that record is under way.\<close>

theorem cleanup_never_stranded:
  assumes "cell_steps W (fresh_sys t) y"
    and "get_cleanup (rc_kv (sy_cell y)) \<noteq> None \<or> get_terminal (rc_kv (sy_cell y)) \<noteq> None"
  shows "rc_alarm (sy_cell y) \<noteq> None \<or> (\<exists>p \<in> set (sy_passes y). current p (sy_cell y))"
proof -
  have "driven_sys y" by (rule cell_steps_driven [OF assms(1)]) simp
  then show ?thesis using assms(2) by (auto simp: driven_sys_def driven_def work_def)
qed

theorem cleanup_never_stranded_witness:
  "rc_alarm (sy_cell demo_ended) \<noteq> None"
  using cleanup_never_stranded [OF demo_steps(3)] by (simp add: demo_ended_facts)



end
