(* ===== verification/ClaimProperties.thy ===== *)
theory ClaimProperties
  imports CellProperties
begin

text \<open>
  Properties of the protocols a run cell takes part in: hook token claims, queue claims in their
  two homes, and the alarm with its retries (\<open>WorkflowRunDO.ts\<close>).
\<close>

text \<open>C23: A token shard that was told "not committed" can give the token away: once the run cell
  answered so, no later event creates the hook under that claim.\<close>

theorem released_claim_never_creates_hook:
  assumes "cell_steps W (fresh_sys t) y" "sy_clock y \<le> now"
    and "resolveHookTokenClaim h tok c now (sy_cell y) = (False, s1)"
    and "cell_steps W \<lparr>sy_clock = now, sy_cell = s1, sy_passes = sy_passes y\<rparr> y'" "sy_clock y' \<le> now'"
    and "c_body ctx = HookCreated h' d" "c_hook_claim_id ctx = Some c" "c \<noteq> []"
    and "cellApplyEvent W name ctx now' (sy_cell y') = Inr (out, s')"
  shows "\<exists>f. out = Failure f"
proof -
  let ?y1 = "\<lparr>sy_clock = now, sy_cell = s1, sy_passes = sy_passes y\<rparr>"
  have "cell_step W y ?y1"
    using cell_step.serve_request [of "sy_clock y" now W "sy_cell y" "sy_passes y" "R_Token_Claim h tok c"]
      assms(2,3) by (cases y) simp
  then have ok: "sys_ok ?y1" using cell_steps_ok [OF assms(1) fresh_sys_ok] cell_step_ok by blast
  have "claim_cancelled c (rc_kv s1) \<or> fenced now (rc_kv s1)"
    using assms(3) by (auto simp: resolveHookTokenClaim_def claim_cancelled_def fenced_def split: if_splits)
  then have "claim_cancelled c (rc_kv (sy_cell y')) \<or> fenced (sy_clock y') (rc_kv (sy_cell y'))"
  proof
    assume c: "claim_cancelled c (rc_kv s1)"
    show ?thesis
    proof (cases "fenced (sy_clock y') (rc_kv (sy_cell y'))")
      case False
      then show ?thesis using cell_steps_cancelled [OF assms(4) ok] c unfenced_stage [OF False] by simp
    qed simp
  next
    assume "fenced now (rc_kv s1)"
    then show ?thesis using cell_steps_keep_fence [OF assms(4) ok] by simp
  qed
  then have "claim_cancelled c (rc_kv (sy_cell y')) \<or> fenced now' (rc_kv (sy_cell y'))"
    using fenced_mono [OF _ assms(5)] by blast
  then show ?thesis by (rule cancelled_event_fails [OF assms(6-8) _ assms(9)])
qed

definition demo_released :: sys where
  "demo_released = serve_all demo_world [(30, R_Token_Claim ''h1'' ''t1'' ''c1'')] demo_active"

lemma demo_released_event:
  "\<not> isl (cellApplyEvent demo_world None ((demo_ctx (HookCreated ''h1'' demo_hook) 0)\<lparr>c_hook_claim_id := Some ''c1''\<rparr>)
     40 (sy_cell demo_released))"
  by code_simp

theorem released_claim_never_creates_hook_witness:
  "\<exists>f s'. cellApplyEvent demo_world None ((demo_ctx (HookCreated ''h1'' demo_hook) 0)\<lparr>c_hook_claim_id := Some ''c1''\<rparr>)
     40 (sy_cell demo_released) = Inr (Failure f, s')"
proof -
  obtain out s' where e: "cellApplyEvent demo_world None
      ((demo_ctx (HookCreated ''h1'' demo_hook) 0)\<lparr>c_hook_claim_id := Some ''c1''\<rparr>) 40 (sy_cell demo_released) = Inr (out, s')"
    using demo_released_event by (metis isl_def surj_pair sum.exhaust)
  have r: "resolveHookTokenClaim ''h1'' ''t1'' ''c1'' 30 (sy_cell demo_active) = (False, sy_cell demo_released)"
    by (simp add: demo_released_def resolveHookTokenClaim_def tombstoneFrom_def demo_active_facts Let_def)
  have "\<lparr>sy_clock = 30, sy_cell = sy_cell demo_released, sy_passes = sy_passes demo_active\<rparr> = demo_released"
    "sy_clock demo_released = 30"
    by (simp_all add: demo_released_def demo_active_facts Let_def)
  then have "\<exists>f. out = Failure f"
    by (intro released_claim_never_creates_hook [OF demo_steps(1) _ r _ _ _ _ _ e, of "''h1''" demo_hook])
      (simp_all add: demo_active_facts demo_ctx_def)
  then show ?thesis using e by blast
qed

section \<open>The alarm handler\<close>









text \<open>Failed cleanup is retried after one second, the wait doubling with every attempt up to
  an hour, whatever the number of attempts.\<close>

theorem cleanup_backoff:
  "1000 \<le> cleanup_delay n \<and> cleanup_delay n \<le> 3600000 \<and> cleanup_delay n \<le> cleanup_delay (n + 1)
   \<and> cleanup_delay n = (if n \<le> 1 then 1000 else if n \<le> 12 then 1000 * 2 ^ (n - 1) else 3600000)"
proof -
  have c: "cleanup_delay n = (if n \<le> 1 then 1000 else if n \<le> 12 then 1000 * 2 ^ (n - 1) else 3600000)" for n
  proof (cases "n \<le> 12")
    case True
    have "\<forall>n \<in> set [0..<13]. cleanup_delay n = (if n \<le> 1 then 1000 else if n \<le> 12 then 1000 * 2 ^ (n - 1) else 3600000)"
      by code_simp
    then show ?thesis using True by simp
  next
    case False
    then have "min (n - 1) 12 = 12" by simp
    then show ?thesis using False by (simp add: cleanup_delay_def cleanup_retry_max_ms_def)
  qed
  have b: "1000 \<le> cleanup_delay n \<and> cleanup_delay n \<le> 3600000" for n
    by (simp add: cleanup_delay_def cleanup_retry_max_ms_def)
  have "cleanup_delay n \<le> cleanup_delay (n + 1)"
    unfolding cleanup_delay_def by (intro min.mono order_refl mult_left_mono power_increasing) auto
  then show ?thesis using b c by simp
qed

section \<open>Queue claims\<close>


definition demo_ops :: "(int \<times> claim_op) list" where
  "demo_ops = [(30, Op_Reserve ''m1'' 500 False), (31, Op_Claim ''m1'' 100), (32, Op_Claim ''m2'' 100)]"

lemma demo_claims:
  "run_claim_ready ''claim:q'' 100 (sy_cell demo_active)"
  "cell_claim_view \<lparr>rc_kv = [], rc_alarm = None\<rparr> = no_claim"
  "\<forall>x \<in> set demo_ops. valid_op (snd x) \<and> fst x \<le> 100"
proof -
  have "has_prefix ''claim:'' ''claim:q''" by code_simp
  then show "run_claim_ready ''claim:q'' 100 (sy_cell demo_active)"
    by (simp add: run_claim_ready_def fenced_iff demo_active_facts)
qed (simp_all add: cell_claim_view_def no_claim_def get_reservation_def get_inflight_def kv_get_def
    demo_ops_def deadline_ok_def max_safe_integer_def)



text \<open>C27: A lease is exclusive: while it has not expired and its own message does not touch it, it
  stays as it is through any sequence of operations of other messages, and every claim among
  them is told the queue is busy.\<close>

theorem queue_lease_is_exclusive:
  assumes "\<forall>x \<in> set h. valid_op (snd x) \<and> fst x \<le> H" "run_claim_ready n H s"
    and "rq_claim (run_claim_view n s) = Some c"
    and "\<forall>x \<in> set h. fst x < ic_expires_at c \<and> op_message (snd x) \<noteq> ic_message c"
  shows "rq_claim (run_claim_view n (snd (serve_ops (run_claim_step n) h s))) = Some c \<and>
    list_all2 (\<lambda>x r. \<forall>m d. snd x = Op_Claim m d \<longrightarrow> r = Rp_Claim (Cl_Busy None)) h
      (fst (serve_ops (run_claim_step n) h s))"
  using assms(1) by (intro run_scope.lease_is_exclusive [OF _ assms(2-4)]) (simp add: run_scope.in_order_def)

theorem queue_lease_is_exclusive_witness:
  "rq_claim (run_claim_view ''claim:q'' (snd (serve_ops (run_claim_step ''claim:q'') [(40, Op_Claim ''m2'' 50)]
     (snd (serve_ops (run_claim_step ''claim:q'') demo_ops (sy_cell demo_active)))))) \<noteq> None"
proof -
  let ?s = "snd (serve_ops (run_claim_step ''claim:q'') demo_ops (sy_cell demo_active))"
  have "map_option (\<lambda>c. (ic_message c, ic_expires_at c)) (rq_claim (snd (serve_ops claim_spec demo_ops no_claim)))
      = Some (''m1'', 131)" by code_simp
  moreover have "run_claim_view ''claim:q'' ?s = snd (serve_ops claim_spec demo_ops no_claim)"
    using run_scope.history_spec [of 100 demo_ops "''claim:q''", OF _ demo_claims(1)] demo_claims(3)
    by (simp add: run_scope.in_order_def demo_active_facts)
  ultimately obtain c where c: "rq_claim (run_claim_view ''claim:q'' ?s) = Some c" "ic_message c = ''m1''" "ic_expires_at c = 131"
    by auto
  have "run_claim_ready ''claim:q'' 100 ?s"
    using run_scope.history_ready [of 100 demo_ops "''claim:q''", OF _ demo_claims(1)] demo_claims(3)
    by (simp add: run_scope.in_order_def)
  then show ?thesis
    using queue_lease_is_exclusive [OF _ _ c(1), of "[(40, Op_Claim ''m2'' 50)]" 100] c
    by (simp add: deadline_ok_def max_safe_integer_def)
qed


definition demo_held :: "claim_reply list \<times> cell" where
  "demo_held = serve_ops cell_claim_step demo_ops \<lparr>rc_kv = [], rc_alarm = None\<rparr>"

lemma demo_held_reservation:
  "map_option (\<lambda>r. (qr_message r, qr_expires_at r)) (rq_reservation (cell_claim_view (snd demo_held))) = Some (''m1'', 500)"
  by code_simp


text \<open>C29: A claim cell is always woken in time: after any sequence of operations, and after each
  alarm, the alarm is set no later than the first expiry of what the cell holds.\<close>

theorem claim_cell_wakes_in_time:
  assumes "\<forall>x \<in> set h. valid_op (snd x)" "s = snd (serve_ops cell_claim_step h \<lparr>rc_kv = [], rc_alarm = None\<rparr>)"
    and "s' \<in> {s, expireClaims now s}"
  shows "(\<forall>c. get_inflight (rc_kv s') = Some c \<longrightarrow> (\<exists>a. rc_alarm s' = Some a \<and> a \<le> ic_expires_at c)) \<and>
    (\<forall>r. get_reservation (rc_kv s') = Some r \<longrightarrow> (\<exists>a. rc_alarm s' = Some a \<and> a \<le> qr_expires_at r))"
proof -
  have w: "woken (snd (serve_ops cell_claim_step h x))" if "woken x" "\<forall>x \<in> set h. valid_op (snd x)" for x
    using that
  proof (induction h arbitrary: x)
    case (Cons a h)
    then have "woken (snd (cell_claim_step (fst a) (snd a) x))" by (auto intro: woken_step)
    then show ?case using Cons by (simp add: split_def Let_def)
  qed simp
  have "woken \<lparr>rc_kv = [], rc_alarm = None\<rparr>"
    by (simp add: woken_def get_inflight_def get_reservation_def kv_get_def)
  then have "woken s'" using w [OF _ assms(1)] assms(2,3) woken_expire by auto
  then show ?thesis by (simp add: woken_def)
qed

theorem claim_cell_wakes_in_time_witness:
  "\<exists>a. rc_alarm (snd demo_held) = Some a \<and> a \<le> 500"
proof -
  obtain c where "get_reservation (rc_kv (snd demo_held)) = Some c" "qr_expires_at c = 500"
    using demo_held_reservation by (auto simp: cell_claim_view_def)
  then show ?thesis
    using claim_cell_wakes_in_time [of demo_ops _ "snd demo_held", OF _ refl] demo_claims(3) by (auto simp: demo_held_def)
qed

end
