(* ===== verification/EventProperties.thy ===== *)
theory EventProperties
  imports JournalFacts
begin

text \<open>
  The properties of the run cell's event application (\<open>src/apply-event.ts\<close>), each with a
  witness on the demo world.
\<close>

text \<open>C1: Every accepted event keeps the cell the fold of its journal, and the journal grows
  only at its end by events the contract allows; the answer carries the event appended last.\<close>

theorem applyEvent_refines_journal:
  assumes "schemas_ok W" "slots_ok W" "terminal_specs W" "child_creation_ok W" "cell_ok W s"
    and "applyEvent W ctx s = Inr (Success x, s')"
  shows "cell_ok W s' \<and> (\<exists>es. event_log W s' = event_log W s @ es
    \<and> (es \<noteq> [] \<longrightarrow> so_event x = Some (last es)))"
  using applyEvent_advances [OF assms] by (simp add: advanced_def)

lemma demo_step_done:
  "\<exists>x s'. applyEvent demo_world (demo_ctx (StepCompleted ''s1'' (Some (JNum 8))) 50) demo_running
     = Inr (Success x, s') \<and> es_seq s' = 5"
proof -
  have "(case applyEvent demo_world (demo_ctx (StepCompleted ''s1'' (Some (JNum 8))) 50) demo_running of
      Inr (Success x, s') \<Rightarrow> es_seq s' = 5 | _ \<Rightarrow> False)" by code_simp
  then show ?thesis by (auto split: sum.splits prod.splits outcome.splits)
qed

theorem applyEvent_refines_journal_witness:
  "\<exists>x s'. applyEvent demo_world (demo_ctx (StepCompleted ''s1'' (Some (JNum 8))) 50) demo_running
     = Inr (Success x, s') \<and> es_seq s' = 5 \<and> cell_ok demo_world s'"
  using demo_step_done applyEvent_refines_journal [OF demo_ok demo_running_ok] by blast

lemma demo_running_step: "map_option step_attempt (get_step ''s1'' (es_kv demo_running)) = Some 1"
  by code_simp

text \<open>C2: After any sequence of requests to a fresh cell, the stored run, every step, hook and
  wait is what replaying the stored event log yields (the run up to the expiry stamp, hooks and
  waits as long as the run is live), and that log is a legal journal.\<close>

theorem history_is_replayed:
  assumes "schemas_ok W" "slots_ok W" "terminal_specs W" "child_creation_ok W"
    and "s = apply_all W ctxs fresh_cell" and "l = event_log W s"
  shows "legal_log W l \<and> get_run (es_kv s) = expiring (run_expiry (es_kv s)) (replay_run W l)
    \<and> get_step c (es_kv s) = replay_step c l
    \<and> (run_live W l \<longrightarrow> get_hook c (es_kv s) = replay_hook c l \<and> get_wait c (es_kv s) = replay_wait c l)"
proof -
  have "cell_ok W s" using apply_all_ok [OF assms(1-4) fresh_ok] assms(5) by simp
  then have l: "legal_log W l" and r: "reflects W l (es_kv s)" by (simp_all add: cell_okD assms(6))
  show ?thesis by (intro conjI impI l reflects_getD [OF r])
qed

theorem history_is_replayed_witness:
  "get_step ''s1'' (es_kv demo_running) = replay_step ''s1'' (event_log demo_world demo_running)
   \<and> map_option step_attempt (get_step ''s1'' (es_kv demo_running)) = Some 1"
  using history_is_replayed [OF demo_ok demo_running_def refl, of "''s1''"] demo_running_step by simp

text \<open>C3: A refused event changes nothing: not a key of the cell, not its event counter.\<close>

theorem failed_event_changes_nothing:
  assumes "schemas_ok W" "slots_ok W" "terminal_specs W" "child_creation_ok W" "cell_ok W s"
    and "applyEvent W ctx s = Inr (Failure f, s')"
  shows "s' = s"
  using applyEvent_advances [OF assms] by (simp add: advanced_def)

theorem failed_event_changes_nothing_witness:
  "\<exists>s'. applyEvent demo_world (demo_ctx (StepCreated ''s1'' demo_step) 50) demo_running
     = Inr (Failure Entity_Conflict, s') \<and> s' = demo_running"
proof -
  have "(case applyEvent demo_world (demo_ctx (StepCreated ''s1'' demo_step) 50) demo_running of
      Inr (Failure Entity_Conflict, s') \<Rightarrow> True | _ \<Rightarrow> False)" by code_simp
  then show ?thesis using failed_event_changes_nothing [OF demo_ok demo_running_ok]
    by (auto split: sum.splits prod.splits outcome.splits apply_failure.splits)
qed

text \<open>C4: The log of a cell is dense and append-only: its events carry exactly the slots 1..n in
  order, and applying an event never rewrites one that is already there.\<close>

theorem event_log_dense_append_only:
  assumes "schemas_ok W" "slots_ok W" "terminal_specs W" "child_creation_ok W" "cell_ok W s"
    and "applyEvent W ctx s = Inr (out, s')"
  shows "map ev_id (event_log W s') = map (slot_to_event_id W) [1..<Suc (es_seq s')]
    \<and> take (es_seq s) (event_log W s') = event_log W s
    \<and> (\<forall>e \<in> set (event_log W s). get_event (ev_id e) (es_kv s') = Some e)"
proof -
  have ok: "cell_ok W s'" and "\<exists>es. event_log W s' = event_log W s @ es"
    using applyEvent_advances [OF assms] assms(5)
    by (auto simp: advanced_def split: outcome.splits)
  then obtain es where es: "event_log W s' = event_log W s @ es" by blast
  then have "\<forall>e \<in> set (event_log W s). get_event (ev_id e) (es_kv s') = Some e"
    using log_event_get [OF cell_okD(3) [OF ok]] by simp
  then show ?thesis
    using event_log_ids [OF cell_okD(3) [OF ok]] event_log_length [OF cell_okD(3) [OF assms(5)]] es
    by simp
qed

theorem event_log_dense_append_only_witness:
  "\<exists>s' :: est. map ev_id (event_log demo_world s') = map (slot_to_event_id demo_world) [1..<Suc (es_seq s')]
     \<and> es_seq s' = 5"
  using demo_step_done event_log_dense_append_only [OF demo_ok demo_running_ok] by blast

text \<open>C5: A finished run is final: whatever is applied afterwards, the stored run stays exactly
  as it is.\<close>

theorem terminal_run_is_final:
  assumes "schemas_ok W" "slots_ok W" "terminal_specs W" "child_creation_ok W" "cell_ok W s"
    and "applyEvent W ctx s = Inr (out, s')"
    and "get_run (es_kv s) = Some r" "run_state r \<in> {Completed, Failed, Cancelled}"
  shows "get_run (es_kv s') = Some r"
proof -
  have ok: "cell_ok W s'" and "\<exists>es. event_log W s' = event_log W s @ es"
    and ex: "run_expiry (es_kv s') = run_expiry (es_kv s)"
    using applyEvent_advances [OF assms(1-6)] assms(5)
    by (auto simp: advanced_def split: outcome.splits)
  then obtain es where es: "event_log W s' = event_log W s @ es" by blast
  obtain r0 where r0: "replay_run W (event_log W s) = Some r0" "r = r0\<lparr>run_expired_at := run_expired_at r\<rparr>"
    by (rule stored_run [OF assms(5,7)])
  have "run_state r = run_state r0" by (subst r0(2)) simp
  then have "terminal_run W (run_state r0)" using assms(3,8) by (simp add: terminal_specsD)
  then have "replay_run W (event_log W s') = Some r0"
    using legal_log_terminal_run [OF r0(1)] es by simp
  moreover have "run_expiry (es_kv s) = run_expired_at r" by (simp add: run_expiry_def assms(7))
  ultimately show ?thesis using reflects_getD(1) [OF cell_okD(1) [OF ok]] ex r0(2) by simp
qed

definition demo_done :: est where
  "demo_done = apply_all demo_world
     [demo_ctx (RunCreated demo_init) 10, demo_ctx (RunStarted None) 20,
      demo_ctx (StepCreated ''s1'' demo_step) 30, demo_ctx (RunCompleted (Some (JNum 9))) 40] fresh_cell"

lemma demo_done_ok: "cell_ok demo_world demo_done"
  unfolding demo_done_def by (intro apply_all_ok demo_ok fresh_ok)

text \<open>On the finished demo run, completing the step that never started succeeds.\<close>

lemma demo_done_facts:
  "(case get_run (es_kv demo_done) of Some r \<Rightarrow> run_state r = Completed | None \<Rightarrow> False) \<and>
   (case get_step ''s1'' (es_kv demo_done) of Some x \<Rightarrow> step_state x = Step_Pending | None \<Rightarrow> False) \<and>
   (case applyEvent demo_world (demo_ctx (StepCompleted ''s1'' (Some (JNum 8))) 50) demo_done of
      Inr (Success x, s') \<Rightarrow>
        (case get_step ''s1'' (es_kv s') of Some y \<Rightarrow> step_state y = Step_Completed \<and> step_attempt y = 0
         | None \<Rightarrow> False)
    | _ \<Rightarrow> False)"
  by code_simp

theorem terminal_run_is_final_witness:
  "\<exists>r out s'. applyEvent demo_world (demo_ctx (StepCompleted ''s1'' (Some (JNum 8))) 50) demo_done = Inr (out, s')
     \<and> run_state r = Completed \<and> get_run (es_kv s') = Some r"
proof -
  obtain r where r: "get_run (es_kv demo_done) = Some r" "run_state r = Completed"
    using demo_done_facts by (auto split: option.splits)
  obtain out s' where a: "applyEvent demo_world (demo_ctx (StepCompleted ''s1'' (Some (JNum 8))) 50) demo_done
      = Inr (out, s')"
    using demo_done_facts by (auto split: sum.splits)
  show ?thesis using terminal_run_is_final [OF demo_ok demo_done_ok a r(1)] r(2) a by auto
qed

text \<open>C6: A run only moves forward: an event keeps its identity (id, workflow, deployment, spec
  version, creation time, expiry stamp), sets its start time at most once, and its status goes
  from pending to running to one final status, never back.\<close>

theorem run_state_machine:
  assumes "schemas_ok W" "slots_ok W" "terminal_specs W" "child_creation_ok W" "cell_ok W s"
    and "applyEvent W ctx s = Inr (out, s')" and "get_run (es_kv s) = Some r"
  shows "\<exists>r'. get_run (es_kv s') = Some r' \<and> same_run r r'"
proof -
  have ok: "cell_ok W s'" and "\<exists>es. event_log W s' = event_log W s @ es"
    and ex: "run_expiry (es_kv s') = run_expiry (es_kv s)"
    using applyEvent_advances [OF assms(1-6)] assms(5)
    by (auto simp: advanced_def split: outcome.splits)
  then obtain es where es: "event_log W s' = event_log W s @ es" by blast
  obtain r0 where r0: "replay_run W (event_log W s) = Some r0" "r = r0\<lparr>run_expired_at := run_expired_at r\<rparr>"
    by (rule stored_run [OF assms(5,7)])
  obtain r1 where r1: "replay_run W (event_log W s') = Some r1" "same_run r0 r1"
    using replay_run_same [OF assms(3) r0(1)] es by auto
  have "get_run (es_kv s') = Some (r1\<lparr>run_expired_at := run_expired_at r\<rparr>)"
    using reflects_getD(1) [OF cell_okD(1) [OF ok]] ex r1(1) by (simp add: run_expiry_def assms(7))
  moreover have "same_run r (r1\<lparr>run_expired_at := run_expired_at r\<rparr>)"
    by (subst (1) r0(2)) (use r1(2) in \<open>simp add: same_run_def\<close>)
  ultimately show ?thesis by blast
qed

theorem run_state_machine_witness:
  "\<exists>r r' out s'. applyEvent demo_world (demo_ctx (StepCompleted ''s1'' (Some (JNum 8))) 50) demo_done = Inr (out, s')
     \<and> get_run (es_kv demo_done) = Some r \<and> get_run (es_kv s') = Some r' \<and> same_run r r'"
proof -
  obtain r where r: "get_run (es_kv demo_done) = Some r"
    using demo_done_facts by (auto split: option.splits)
  obtain out s' where a: "applyEvent demo_world (demo_ctx (StepCompleted ''s1'' (Some (JNum 8))) 50) demo_done
      = Inr (out, s')"
    using demo_done_facts by (auto split: sum.splits)
  show ?thesis using run_state_machine [OF demo_ok demo_done_ok a r] r a by blast
qed

text \<open>C7: Steps are never removed and keep their identity; a finished step is frozen, whatever is
  applied; the attempt count never falls.\<close>

theorem step_state_machine:
  assumes "schemas_ok W" "slots_ok W" "terminal_specs W" "child_creation_ok W" "cell_ok W s"
    and "applyEvent W ctx s = Inr (out, s')" and "get_step c (es_kv s) = Some x"
  shows "\<exists>x'. get_step c (es_kv s') = Some x' \<and> same_step x x'
    \<and> (step_state x \<in> {Step_Completed, Step_Failed} \<longrightarrow> x' = x)"
proof -
  have ok: "cell_ok W s'" and "\<exists>es. event_log W s' = event_log W s @ es"
    using applyEvent_advances [OF assms(1-6)] assms(5)
    by (auto simp: advanced_def split: outcome.splits)
  then obtain es where es: "event_log W s' = event_log W s @ es" by blast
  have x: "replay_step c (event_log W s) = Some x"
    using reflects_getD(2) [OF cell_okD(1) [OF assms(5)], of c] assms(7) by simp
  have g: "get_step c (es_kv s') = replay_step c (event_log W s')"
    by (rule reflects_getD(2) [OF cell_okD(1) [OF ok]])
  obtain x' where x': "replay_step c (event_log W s') = Some x'" "same_step x x'"
    using replay_step_same [OF x] es by auto
  moreover have "x' = x" if "terminal_step W (step_state x)"
    using replay_terminal_step [OF _ x that, of es] cell_okD(2) [OF ok] es x'(1) by simp
  ultimately show ?thesis using g assms(3) by (auto simp: terminal_specsD)
qed

theorem step_state_machine_witness:
  "\<exists>x x' (s' :: est). get_step ''s1'' (es_kv demo_running) = Some x \<and> get_step ''s1'' (es_kv s') = Some x'
     \<and> es_seq s' = 5 \<and> same_step x x'"
proof -
  obtain x where x: "get_step ''s1'' (es_kv demo_running) = Some x"
    using demo_running_step by auto
  obtain y s' where a: "applyEvent demo_world (demo_ctx (StepCompleted ''s1'' (Some (JNum 8))) 50) demo_running
     = Inr (Success y, s')" "es_seq s' = 5" using demo_step_done by auto
  obtain x' where "get_step ''s1'' (es_kv s') = Some x'" "same_step x x'"
    using step_state_machine [OF demo_ok demo_running_ok a(1) x] by blast
  then show ?thesis using a(2) x by blast
qed







text \<open>A whole history of requests only extends the log.\<close>

lemma apply_all_extends:
  assumes W: "schemas_ok W" "slots_ok W" "terminal_specs W" "child_creation_ok W" and s: "cell_ok W s"
  shows "\<exists>es. event_log W (apply_all W ctxs s) = event_log W s @ es"
  using s unfolding apply_all_def
proof (induction ctxs arbitrary: s)
  case (Cons ctx ctxs)
  have ok: "cell_ok W (apply_one W ctx s)" by (rule apply_one_ok [OF W Cons.prems])
  have "\<exists>es. event_log W (apply_one W ctx s) = event_log W s @ es"
  proof (cases "applyEvent W ctx s")
    case (Inr p)
    then show ?thesis using applyEvent_advances [OF W Cons.prems, of ctx "fst p" "snd p"]
      by (cases "fst p") (auto simp: apply_one_def advanced_def split: prod.splits)
  qed (simp add: apply_one_def)
  then show ?case using Cons.IH [OF ok] by auto
qed simp

text \<open>C11: A disposed hook never comes back: once its creation is in the journal and the hook is
  gone, no later history of requests makes it live again.\<close>

theorem disposed_hook_never_returns:
  assumes "schemas_ok W" "slots_ok W" "terminal_specs W" "child_creation_ok W" "cell_ok W s"
    and "kv_get (hook_event_key c) (es_kv s) \<noteq> None" and "replay_hook c (event_log W s) = None"
  shows "get_hook c (es_kv (apply_all W ctxs s)) = None"
proof -
  let ?s = "apply_all W ctxs s"
  have ok: "cell_ok W ?s" by (rule apply_all_ok [OF assms(1-5)])
  obtain es where es: "event_log W ?s = event_log W s @ es"
    using apply_all_extends [OF assms(1-5)] by blast
  have "hook_creation c (event_log W s) \<noteq> None"
    using assms(6) reflects_getD(7) [OF cell_okD(1) [OF assms(5)], of c] by auto
  then have "list_ex (creates_hook c) (event_log W s)"
    by (auto simp: hook_creation_def find_Some_iff list_ex_length)
  then have n: "replay_hook c (event_log W ?s) = None"
    using disposed_hook_stays [OF _ _ assms(7), of W es] cell_okD(2) [OF ok] es by simp
  show ?thesis
  proof (cases "get_hook c (es_kv ?s)")
    case (Some h)
    then show ?thesis using reflects_getD(3) [OF cell_okD(1) [OF ok] Some] n by simp
  qed
qed

definition demo_disposed :: est where
  "demo_disposed = apply_all demo_world
     [demo_ctx (RunCreated demo_init) 10, demo_ctx (HookCreated ''h1'' demo_hook) 20,
      demo_ctx (HookDisposed ''h1'' None) 30] fresh_cell"

lemma demo_disposed_ok: "cell_ok demo_world demo_disposed"
  unfolding demo_disposed_def by (intro apply_all_ok demo_ok fresh_ok)

lemma demo_disposed_facts:
  "es_seq demo_disposed = 3 \<and> kv_get (hook_event_key ''h1'') (es_kv demo_disposed) \<noteq> None
   \<and> (case replay_hook ''h1'' (event_log demo_world demo_disposed) of None \<Rightarrow> True | Some _ \<Rightarrow> False)"
  by code_simp

theorem disposed_hook_never_returns_witness:
  "get_hook ''h1'' (es_kv (apply_all demo_world [demo_ctx (HookCreated ''h1'' demo_hook) 40] demo_disposed)) = None"
  by (rule disposed_hook_never_returns [OF demo_ok demo_disposed_ok])
    (use demo_disposed_facts in \<open>auto split: option.splits\<close>)

text \<open>C12: A redelivered hook resume (same resume id, same hook, no conflicting payload digest) on
  a live run is answered with the event recorded the first time and changes nothing.\<close>

theorem redelivered_resume_is_idempotent:
  assumes "schemas_ok W" "terminal_specs W" "cell_ok W s"
    and "c_body ctx = HookReceived c d" "c_resume_id ctx = Some k" "k \<noteq> []"
    and "get_resume k (es_kv s) = Some claim" "rc_hook claim = c"
    and "c_resume_digest ctx = None \<or> rc_digest claim = None \<or> rc_digest claim = c_resume_digest ctx"
    and "nullish (c_spec ctx) (spec_current W) = spec_current W"
    and "get_run (es_kv s) = Some r" "run_spec r = Some (spec_current W)" "\<not> terminal_run W (run_state r)"
    and "applyEvent W ctx s = Inr (out, s')"
  shows "s' = s \<and> (\<exists>x e. out = Success x \<and> so_event x = Some e \<and> e \<in> set (event_log W s) \<and> delivers k e)"
proof -
  have "\<exists>e. hookResumeGuard ctx (es_kv s) = Some (Success (ok\<lparr>so_event := Some e\<rparr>))
      \<and> e \<in> set (event_log W s) \<and> delivers k e"
  proof -
    have "kv_get (hook_resume_key k) (es_kv s) = Some (VResume claim)"
      using assms(7) by (cases "kv_get (hook_resume_key k) (es_kv s)") (auto simp: get_resume_def)
    then obtain e where e: "e \<in> set (event_log W s)" "ev_id e = rc_event claim"
        "delivers_to k (rc_hook claim) e"
      using reflects_resumeD(2) [OF cell_okD(1) [OF assms(3)]] by blast
    then have "get_event (rc_event claim) (es_kv s) = Some e"
      using log_event_get [OF cell_okD(3) [OF assms(3)]] by metis
    then show ?thesis using assms(4-9) e
      by (cases "ev_body e") (auto simp: hookResumeGuard_def delivers_to_def delivers_def)
  qed
  then show ?thesis using assms(4,10-14)
    by (auto simp: applyEvent_def resilientStart_def afterBootstrap_def terminalRunGuard_def
        stepGuard_def ok_def)
qed

definition demo_resume :: apply_ctx where
  "demo_resume = (demo_ctx (HookReceived ''h1'' (Some (JNum 3))) 40)\<lparr>c_resume_id := Some ''k1''\<rparr>"

definition demo_resumed :: est where
  "demo_resumed = apply_all demo_world
     [demo_ctx (RunCreated demo_init) 10, demo_ctx (HookCreated ''h1'' demo_hook) 20, demo_resume] fresh_cell"

lemma demo_resumed_ok: "cell_ok demo_world demo_resumed"
  unfolding demo_resumed_def by (intro apply_all_ok demo_ok fresh_ok)

lemma demo_resumed_facts:
  "(case (get_resume ''k1'' (es_kv demo_resumed), get_run (es_kv demo_resumed)) of
      (Some cl, Some r) \<Rightarrow> rc_hook cl = ''h1'' \<and> run_spec r = Some 1 \<and> run_state r = Pending | _ \<Rightarrow> False)
   \<and> (case applyEvent demo_world demo_resume demo_resumed of Inr _ \<Rightarrow> True | _ \<Rightarrow> False)"
  by code_simp

theorem redelivered_resume_is_idempotent_witness:
  "\<exists>x s'. applyEvent demo_world demo_resume demo_resumed = Inr (Success x, s') \<and> s' = demo_resumed"
proof -
  obtain cl r where c: "get_resume ''k1'' (es_kv demo_resumed) = Some cl" "rc_hook cl = ''h1''"
    and r: "get_run (es_kv demo_resumed) = Some r" "run_spec r = Some 1" "run_state r = Pending"
    using demo_resumed_facts by (auto split: option.splits)
  obtain out s' where a: "applyEvent demo_world demo_resume demo_resumed = Inr (out, s')"
    using demo_resumed_facts by (auto split: sum.splits)
  have "s' = demo_resumed \<and> (\<exists>x e. out = Success x \<and> so_event x = Some e
      \<and> e \<in> set (event_log demo_world demo_resumed) \<and> delivers ''k1'' e)"
    by (rule redelivered_resume_is_idempotent [OF demo_ok(1,3) demo_resumed_ok _ _ _ c _ _ r(1) _ _ a])
      (use r in \<open>simp_all add: demo_resume_def demo_ctx_def demo_world_def\<close>)
  then show ?thesis using a by auto
qed

text \<open>C13: A retrying step cannot start before its retry time: the start is refused with the
  whole number of seconds left, rounded up, and nothing changes.\<close>

theorem early_step_start_refused:
  assumes "terminal_specs W" "cell_ok W s"
    and "c_body ctx = StepStarted c hint" "\<not> child_creation W (StepStarted c hint)"
    and "nullish (c_spec ctx) (spec_current W) = spec_current W"
    and "get_run (es_kv s) = Some r" "run_spec r = Some (spec_current W)" "run_state r = Running"
    and "get_step c (es_kv s) = Some x" "step_state x = Step_Pending"
    and "step_retry_after x = Some t" "c_now ctx < t"
  shows "\<exists>n. applyEvent W ctx s = Inr (Failure (Too_Early n), s)
    \<and> 1000 * (n - 1) < t - c_now ctx \<and> t - c_now ctx \<le> 1000 * n"
proof -
  have "applyEvent W ctx s = Inr (Failure (Too_Early (ceil_div (t - c_now ctx) 1000)), s)"
    using assms
    by (simp add: applyEvent_def resilientStart_def afterBootstrap_def terminalRunGuard_def
        stepGuard_def terminal_specsD hookResumeGuard_def hookOrderGuard_def dispatchEvent_def
        onStepStarted_def lazyStep_def)
  then show ?thesis using ceil_div_bounds [of 1000 "t - c_now ctx"] by auto
qed

definition demo_retrying :: est where
  "demo_retrying = apply_all demo_world
     [demo_ctx (RunCreated demo_init) 10, demo_ctx (RunStarted None) 20,
      demo_ctx (StepCreated ''s1'' demo_step) 30, demo_ctx (StepStarted ''s1'' None) 40,
      demo_ctx (StepRetrying ''s1'' None (Some 5000)) 50] fresh_cell"

lemma demo_retrying_ok: "cell_ok demo_world demo_retrying"
  unfolding demo_retrying_def by (intro apply_all_ok demo_ok fresh_ok)

lemma demo_retrying_facts:
  "(case (get_run (es_kv demo_retrying), get_step ''s1'' (es_kv demo_retrying)) of
      (Some r, Some x) \<Rightarrow> run_spec r = Some 1 \<and> run_state r = Running \<and> step_state x = Step_Pending
        \<and> step_retry_after x = Some 5000 | _ \<Rightarrow> False)"
  by code_simp

theorem early_step_start_refused_witness:
  "\<exists>n. applyEvent demo_world (demo_ctx (StepStarted ''s1'' None) 60) demo_retrying
     = Inr (Failure (Too_Early n), demo_retrying) \<and> n = 5"
proof -
  obtain r x where f: "get_run (es_kv demo_retrying) = Some r" "run_spec r = Some (spec_current demo_world)"
    "run_state r = Running" "get_step ''s1'' (es_kv demo_retrying) = Some x"
    "step_state x = Step_Pending" "step_retry_after x = Some 5000"
    using demo_retrying_facts by (auto simp: demo_world_def split: option.splits)
  obtain n where "applyEvent demo_world (demo_ctx (StepStarted ''s1'' None) 60) demo_retrying
      = Inr (Failure (Too_Early n), demo_retrying)" "1000 * (n - 1) < 5000 - 60" "5000 - 60 \<le> 1000 * n"
    using early_step_start_refused [OF demo_ok(3) demo_retrying_ok _ _ _ f,
        of "demo_ctx (StepStarted ''s1'' None) 60" None]
    by (auto simp: demo_ctx_def demo_world_def)
  then show ?thesis by auto
qed

text \<open>C14: Unlike every other step event, step_completed and step_retrying do not look at the run:
  there is a reachable cell whose run is completed and whose step never started, and completing
  that step succeeds.\<close>

theorem pending_step_completes_after_run:
  "\<exists>r x y o1 s'. cell_ok demo_world demo_done
     \<and> get_run (es_kv demo_done) = Some r \<and> run_state r = Completed
     \<and> get_step ''s1'' (es_kv demo_done) = Some x \<and> step_state x = Step_Pending
     \<and> applyEvent demo_world (demo_ctx (StepCompleted ''s1'' (Some (JNum 8))) 50) demo_done = Inr (Success o1, s')
     \<and> get_step ''s1'' (es_kv s') = Some y \<and> step_state y = Step_Completed \<and> step_attempt y = 0"
proof -
  let ?a = "applyEvent demo_world (demo_ctx (StepCompleted ''s1'' (Some (JNum 8))) 50) demo_done"
  obtain r where r: "get_run (es_kv demo_done) = Some r" "run_state r = Completed"
    using demo_done_facts by (cases "get_run (es_kv demo_done)") simp_all
  obtain x where x: "get_step ''s1'' (es_kv demo_done) = Some x" "step_state x = Step_Pending"
    using demo_done_facts by (cases "get_step ''s1'' (es_kv demo_done)") simp_all
  obtain out s' where a: "?a = Inr (out, s')"
    using demo_done_facts by (cases ?a) auto
  obtain o1 where o: "out = Success o1"
    using demo_done_facts a by (cases out) simp_all
  obtain y where "get_step ''s1'' (es_kv s') = Some y" "step_state y = Step_Completed" "step_attempt y = 0"
    using demo_done_facts a o by (cases "get_step ''s1'' (es_kv s')") simp_all
  then show ?thesis using r x a o demo_done_ok by blast
qed

end
