(* ===== verification/CellProc.thy ===== *)
theory CellProc
  imports Prelude
begin

text \<open>
  Handlers of cells that talk to other cells.  Between two awaited calls a handler runs one storage
  transaction (or a few storage operations the input gate keeps together) on its own cell, and
  other requests may run in between.  A handler is therefore a tree: \<open>Act\<close> is one indivisible
  piece of work on the cell, given the clock; \<open>Ask\<close> a call to another cell, followed by
  what is done with the answer.  \<open>system_step\<close> interleaves any number of handlers.
\<close>

section \<open>Handlers\<close>

datatype (dead 'e, dead 'q, dead 'a, dead 's, 'r) proc =
    Return 'r
  | Throw 'e
  | Act "int \<Rightarrow> 's \<Rightarrow> ('e, 'q, 'a, 's, 'r) proc \<times> 's"
  | Ask 'q "'a \<Rightarrow> ('e, 'q, 'a, 's, 'r) proc"

primrec bindP :: "('e, 'q, 'a, 's, 'r) proc \<Rightarrow> ('r \<Rightarrow> ('e, 'q, 'a, 's, 't) proc) \<Rightarrow> ('e, 'q, 'a, 's, 't) proc" where
  "bindP (Return x) f = f x"
| "bindP (Throw e) f = Throw e"
| "bindP (Act g) f = Act (\<lambda>now s. map_prod (\<lambda>p. bindP p f) id (g now s))"
| "bindP (Ask q k) f = Ask q (\<lambda>a. bindP (k a) f)"

text \<open>\<open>try { p } catch (e) { h(e) }\<close>\<close>

primrec catchP :: "('e, 'q, 'a, 's, 'r) proc \<Rightarrow> ('e \<Rightarrow> ('e, 'q, 'a, 's, 'r) proc) \<Rightarrow> ('e, 'q, 'a, 's, 'r) proc" where
  "catchP (Return x) h = Return x"
| "catchP (Throw e) h = h e"
| "catchP (Act g) h = Act (\<lambda>now s. map_prod (\<lambda>p. catchP p h) id (g now s))"
| "catchP (Ask q k) h = Ask q (\<lambda>a. catchP (k a) h)"

text \<open>A read, and a transaction that may throw and is then rolled back.\<close>

definition look :: "(int \<Rightarrow> 's \<Rightarrow> 'r) \<Rightarrow> ('e, 'q, 'a, 's, 'r) proc" where
  "look f = Act (\<lambda>now s. (Return (f now s), s))"

definition txn :: "(int \<Rightarrow> 's \<Rightarrow> 'e + 'r \<times> 's) \<Rightarrow> ('e, 'q, 'a, 's, 'r) proc" where
  "txn f = Act (\<lambda>now s. case f now s of Inl e \<Rightarrow> (Throw e, s) | Inr (x, s') \<Rightarrow> (Return x, s'))"

fun eachP :: "('x \<Rightarrow> ('e, 'q, 'a, 's, 'r) proc) \<Rightarrow> 'x list \<Rightarrow> ('e, 'q, 'a, 's, 'r list) proc" where
  "eachP f [] = Return []"
| "eachP f (x # xs) = bindP (f x) (\<lambda>y. bindP (eachP f xs) (\<lambda>ys. Return (y # ys)))"

section \<open>One handler on its own\<close>

text \<open>\<open>solo E Q p t s\<close>: started at time \<open>t\<close> on the cell \<open>s\<close>, with nothing interfering, whatever the clock
  shows later and whatever is answered, \<open>p\<close> ends, with a value of which \<open>Q\<close> holds or an exception of
  which \<open>E\<close> holds.\<close>

primrec solo :: "('e \<Rightarrow> bool) \<Rightarrow> ('r \<Rightarrow> int \<Rightarrow> 's \<Rightarrow> bool) \<Rightarrow> ('e, 'q, 'a, 's, 'r) proc \<Rightarrow> int \<Rightarrow> 's \<Rightarrow> bool" where
  "solo E Q (Return x) = (\<lambda>t s. Q x t s)"
| "solo E Q (Throw e) = (\<lambda>t s. E e)"
| "solo E Q (Act g) = (\<lambda>t s. \<forall>now \<ge> t. case map_prod (solo E Q) id (g now s) of (ends, s') \<Rightarrow> ends now s')"
| "solo E Q (Ask q k) = (\<lambda>t s. \<forall>a. solo E Q (k a) t s)"

lemma solo_Act: "solo E Q (Act g) t s \<longleftrightarrow> (\<forall>now \<ge> t. solo E Q (fst (g now s)) now (snd (g now s)))"
  by (simp add: split_def)

declare solo.simps(3) [simp del]

section \<open>Interleaving\<close>

record ('e, 'q, 'a, 's, 'r) system =
  st_clock :: int
  st_cell :: 's
  st_flights :: "('e, 'q, 'a, 's, 'r) proc list"

text \<open>\<open>begun\<close>: the requests a client may send at any time; \<open>fire\<close>: what the platform does to start
  the alarm handler, if the alarm is due; \<open>replies\<close>: the answers other cells may give; \<open>tick\<close>: the
  times the clock may show.\<close>

inductive system_step ::
    "(int \<Rightarrow> bool) \<Rightarrow> (('e, 'q, 'a, 's, 'r) proc \<Rightarrow> bool) \<Rightarrow> (int \<Rightarrow> 's \<Rightarrow> ('e, 'q, 'a, 's, 'r) proc \<Rightarrow> 's \<Rightarrow> bool) \<Rightarrow>
     ('q \<Rightarrow> 'a \<Rightarrow> bool) \<Rightarrow> ('e, 'q, 'a, 's, 'r) system \<Rightarrow> ('e, 'q, 'a, 's, 'r) system \<Rightarrow> bool"
  for tick begun fire replies where
  request: "begun p \<Longrightarrow>
     system_step tick begun fire replies \<lparr>st_clock = t, st_cell = s, st_flights = ps\<rparr>
       \<lparr>st_clock = t, st_cell = s, st_flights = p # ps\<rparr>"
| fired: "t \<le> now \<Longrightarrow> tick now \<Longrightarrow> fire now s p s' \<Longrightarrow>
     system_step tick begun fire replies \<lparr>st_clock = t, st_cell = s, st_flights = ps\<rparr>
       \<lparr>st_clock = now, st_cell = s', st_flights = p # ps\<rparr>"
| act: "t \<le> now \<Longrightarrow> tick now \<Longrightarrow> g now s = (p, s') \<Longrightarrow>
     system_step tick begun fire replies \<lparr>st_clock = t, st_cell = s, st_flights = ps @ Act g # qs\<rparr>
       \<lparr>st_clock = now, st_cell = s', st_flights = ps @ p # qs\<rparr>"
| answered: "replies q a \<Longrightarrow>
     system_step tick begun fire replies \<lparr>st_clock = t, st_cell = s, st_flights = ps @ Ask q k # qs\<rparr>
       \<lparr>st_clock = t, st_cell = s, st_flights = ps @ k a # qs\<rparr>"
| ended: "p = Return x \<or> p = Throw e \<Longrightarrow>
     system_step tick begun fire replies \<lparr>st_clock = t, st_cell = s, st_flights = ps @ p # qs\<rparr>
       \<lparr>st_clock = t, st_cell = s, st_flights = ps @ qs\<rparr>"

section \<open>What a handler guarantees\<close>

text \<open>
  \<open>safe I G R A Q p now s\<close>: from a point where the handler last saw the cell \<open>s\<close> at time \<open>now\<close>, every
  piece of its work, run on a cell that \<open>I\<close> holds of and that others took from \<open>s\<close> only as \<open>R\<close>
  allows, keeps \<open>I\<close> and changes the cell only as \<open>G\<close> allows, provided the answers it gets are as
  \<open>A\<close> says; when it returns, \<open>Q\<close> holds of the value, the time and the cell.
\<close>

primrec safe ::
    "('s \<Rightarrow> bool) \<Rightarrow> (int \<Rightarrow> 's \<Rightarrow> 's \<Rightarrow> bool) \<Rightarrow> (int \<Rightarrow> 's \<Rightarrow> int \<Rightarrow> 's \<Rightarrow> bool) \<Rightarrow> ('q \<Rightarrow> 'a \<Rightarrow> bool) \<Rightarrow>
     ('r \<Rightarrow> int \<Rightarrow> 's \<Rightarrow> bool) \<Rightarrow> ('e, 'q, 'a, 's, 'r) proc \<Rightarrow> int \<Rightarrow> 's \<Rightarrow> bool" where
  "safe I G R A Q (Return x) = (\<lambda>t s. Q x t s)"
| "safe I G R A Q (Throw e) = (\<lambda>t s. True)"
| "safe I G R A Q (Act g) = (\<lambda>t s. \<forall>now s1. R t s now s1 \<longrightarrow> I s1 \<longrightarrow>
     (case map_prod (safe I G R A Q) id (g now s1) of (ok, s') \<Rightarrow> I s' \<and> G now s1 s' \<and> ok now s'))"
| "safe I G R A Q (Ask q k) = (\<lambda>t s. \<forall>a. A q a \<longrightarrow> safe I G R A Q (k a) t s)"

lemma safe_Act: "safe I G R A Q (Act g) t s \<longleftrightarrow>
  (\<forall>now s1. R t s now s1 \<longrightarrow> I s1 \<longrightarrow>
     I (snd (g now s1)) \<and> G now s1 (snd (g now s1)) \<and> safe I G R A Q (fst (g now s1)) now (snd (g now s1)))"
  by (simp add: split_def)

declare safe.simps(3) [simp del]

lemma proc_induct [case_names Return Throw Act Ask, induct type: proc]:
  assumes "\<And>x. P (Return x)" "\<And>e. P (Throw e)" "\<And>g. (\<And>now s. P (fst (g now s))) \<Longrightarrow> P (Act g)"
    "\<And>q k. (\<And>a. P (k a)) \<Longrightarrow> P (Ask q k)"
  shows "P p"
proof (induction p rule: proc.induct)
  case (Act g)
  have "P (fst (g now s))" for now s
    by (rule Act [OF rangeI rangeI]) (simp add: fsts.simps)
  then show ?case by (rule assms(3))
next
  case (Ask q k)
  show ?case by (rule assms(4), rule Ask, rule rangeI)
qed (simp_all add: assms)

lemma safe_mono:
  "safe I G R A Q p t s \<Longrightarrow> (\<And>x t s. Q x t s \<Longrightarrow> Q' x t s) \<Longrightarrow> safe I G R A Q' p t s"
proof (induction p arbitrary: t s)
  case (Act g)
  then show ?case unfolding safe_Act by blast
qed simp_all

lemma safe_bind:
  "safe I G R A (\<lambda>x t s. safe I G R A Q (f x) t s) p t s \<Longrightarrow> safe I G R A Q (bindP p f) t s"
proof (induction p arbitrary: t s)
  case (Act g)
  then show ?case by (simp add: safe_Act)
qed simp_all

lemma safe_catch:
  "safe I G R A Q p t s \<Longrightarrow> (\<And>e t s. safe I G R A Q (h e) t s) \<Longrightarrow> safe I G R A Q (catchP p h) t s"
proof (induction p arbitrary: t s)
  case (Act g)
  then show ?case by (simp add: safe_Act)
qed simp_all

lemma solo_bind: "solo E (\<lambda>x t s. solo E Q (f x) t s) p t s \<Longrightarrow> solo E Q (bindP p f) t s"
proof (induction p arbitrary: t s)
  case (Act g)
  then show ?case by (simp add: solo_Act)
qed simp_all

lemma solo_mono: "solo E Q p t s \<Longrightarrow> (\<And>x t s. Q x t s \<Longrightarrow> Q' x t s) \<Longrightarrow> solo E Q' p t s"
proof (induction p arbitrary: t s)
  case (Act g)
  then show ?case unfolding solo_Act by blast
qed simp_all

lemma solo_seq:
  "solo E Q' p t s \<Longrightarrow> (\<And>x t s. Q' x t s \<Longrightarrow> solo E Q (f x) t s) \<Longrightarrow> solo E Q (bindP p f) t s"
  by (rule solo_bind, erule solo_mono)

lemma solo_look: "(\<And>now. t \<le> now \<Longrightarrow> Q (f now s) now s) \<Longrightarrow> solo E Q (look f) t s"
  by (simp add: look_def solo_Act)

lemma solo_txn:
  "(\<And>now. t \<le> now \<Longrightarrow> (case f now s of Inl e \<Rightarrow> E e | Inr (x, s') \<Rightarrow> Q x now s')) \<Longrightarrow> solo E Q (txn f) t s"
  unfolding txn_def solo_Act by (intro allI impI) (drule meta_spec, drule meta_mp, assumption, auto split: sum.splits)

lemma safe_look:
  "(\<And>now s1. R t s now s1 \<Longrightarrow> I s1 \<Longrightarrow> G now s1 s1 \<and> Q (f now s1) now s1) \<Longrightarrow> safe I G R A Q (look f) t s"
  by (simp add: look_def safe_Act)

lemma safe_txn:
  assumes "\<And>now s1. R t s now s1 \<Longrightarrow> I s1 \<Longrightarrow> (case f now s1 of
     Inl e \<Rightarrow> G now s1 s1
   | Inr (x, s') \<Rightarrow> I s' \<and> G now s1 s' \<and> Q x now s')"
  shows "safe I G R A Q (txn f) t s"
  unfolding txn_def safe_Act
proof (intro allI impI)
  fix now s1 assume "R t s now s1" "I s1"
  then show "I (snd (case f now s1 of Inl e \<Rightarrow> (Throw e, s1) | Inr (x, s') \<Rightarrow> (Return x, s'))) \<and>
      G now s1 (snd (case f now s1 of Inl e \<Rightarrow> (Throw e, s1) | Inr (x, s') \<Rightarrow> (Return x, s'))) \<and>
      safe I G R A Q (fst (case f now s1 of Inl e \<Rightarrow> (Throw e, s1) | Inr (x, s') \<Rightarrow> (Return x, s'))) now
        (snd (case f now s1 of Inl e \<Rightarrow> (Throw e, s1) | Inr (x, s') \<Rightarrow> (Return x, s')))"
    using assms [of now s1] by (cases "f now s1") auto
qed

lemma safe_each:
  assumes "\<And>x t s. x \<in> set xs \<Longrightarrow> safe I G R A (\<lambda>_ _ _. True) (f x) t s"
  shows "safe I G R A (\<lambda>_ _ _. True) (eachP f xs) t s"
  using assms
proof (induction xs arbitrary: t s)
  case (Cons x xs)
  have "safe I G R A (\<lambda>_ _ _. True) (bindP (eachP f xs) (\<lambda>ys. Return (y # ys))) t s" for y t s
    by (rule safe_bind, rule safe_mono, rule Cons.IH) (simp_all add: Cons.prems)
  then show ?case using Cons.prems by (auto intro!: safe_bind intro: safe_mono)
qed simp

text \<open>\<open>reaches I J b p\<close>: the handler cannot return without a piece of work after which \<open>J\<close> holds, nor
  throw without one unless \<open>b\<close>.\<close>

primrec reaches :: "('s \<Rightarrow> bool) \<Rightarrow> ('s \<Rightarrow> bool) \<Rightarrow> bool \<Rightarrow> ('e, 'q, 'a, 's, 'r) proc \<Rightarrow> bool" where
  "reaches I J b (Return x) = False"
| "reaches I J b (Throw e) = b"
| "reaches I J b (Act g) = (\<forall>now s. I s \<longrightarrow>
     (case map_prod (reaches I J b) id (g now s) of (ok, s') \<Rightarrow> J s' \<or> ok))"
| "reaches I J b (Ask q k) = (\<forall>a. reaches I J b (k a))"

lemma reaches_Act:
  "reaches I J b (Act g) \<longleftrightarrow> (\<forall>now s. I s \<longrightarrow> J (snd (g now s)) \<or> reaches I J b (fst (g now s)))"
  by (simp add: split_def)

declare reaches.simps(3) [simp del]

lemma reaches_bind: "reaches I J b p \<Longrightarrow> reaches I J b (bindP p f)"
proof (induction p)
  case (Act g)
  then show ?case by (auto simp: reaches_Act)
qed simp_all

text \<open>\<open>p\<close> may return before \<open>J\<close> holds if what follows sees to it.\<close>

primrec reaches_then :: "('s \<Rightarrow> bool) \<Rightarrow> ('s \<Rightarrow> bool) \<Rightarrow> bool \<Rightarrow> ('r \<Rightarrow> bool) \<Rightarrow> ('e, 'q, 'a, 's, 'r) proc \<Rightarrow> bool" where
  "reaches_then I J b K (Return x) = K x"
| "reaches_then I J b K (Throw e) = b"
| "reaches_then I J b K (Act g) = (\<forall>now s. I s \<longrightarrow>
     (case map_prod (reaches_then I J b K) id (g now s) of (ok, s') \<Rightarrow> J s' \<or> ok))"
| "reaches_then I J b K (Ask q k) = (\<forall>a. reaches_then I J b K (k a))"

lemma reaches_then_Act: "reaches_then I J b K (Act g) \<longleftrightarrow>
    (\<forall>now s. I s \<longrightarrow> J (snd (g now s)) \<or> reaches_then I J b K (fst (g now s)))"
  by (simp add: split_def)

declare reaches_then.simps(3) [simp del]

lemma reaches_seq: "reaches_then I J b (\<lambda>x. reaches I J b (f x)) p \<Longrightarrow> reaches I J b (bindP p f)"
proof (induction p)
  case (Act g)
  then show ?case by (auto simp: reaches_Act reaches_then_Act)
qed simp_all

lemma reaches_catch: "reaches I J True p \<Longrightarrow> (\<And>e. reaches I J b (h e)) \<Longrightarrow> reaches I J b (catchP p h)"
proof (induction p)
  case (Act g)
  then show ?case by (auto simp: reaches_Act)
qed simp_all

section \<open>Systems of handlers\<close>

locale rely_guarantee =
  fixes tick :: "int \<Rightarrow> bool"
    and inv :: "'s \<Rightarrow> bool"
    and guar :: "int \<Rightarrow> 's \<Rightarrow> 's \<Rightarrow> bool"
    and rely :: "int \<Rightarrow> 's \<Rightarrow> int \<Rightarrow> 's \<Rightarrow> bool"
  assumes rely_refl: "t \<le> now \<Longrightarrow> tick now \<Longrightarrow> rely t s now s"
    and rely_trans: "rely t s n s1 \<Longrightarrow> rely n s1 m s2 \<Longrightarrow> rely t s m s2"
    and guar_rely: "tick now \<Longrightarrow> inv s \<Longrightarrow> guar now s s' \<Longrightarrow> rely now s now s'"
begin

definition sound_flight :: "('q \<Rightarrow> 'a \<Rightarrow> bool) \<Rightarrow> int \<Rightarrow> 's \<Rightarrow> ('e, 'q, 'a, 's, 'r) proc \<Rightarrow> bool" where
  "sound_flight A now s p \<longleftrightarrow> (\<exists>t s0. rely t s0 now s \<and> safe inv guar rely A (\<lambda>_ _ _. True) p t s0)"

lemma flight_waits: "sound_flight A t s p \<Longrightarrow> t \<le> now \<Longrightarrow> tick now \<Longrightarrow> rely now s now s' \<Longrightarrow> sound_flight A now s' p"
  unfolding sound_flight_def using rely_trans rely_refl by meson

lemma flight_acts:
  assumes "sound_flight A t s (Act g)" "t \<le> now" "tick now" "inv s"
  shows "inv (snd (g now s))" "guar now s (snd (g now s))" "sound_flight A now (snd (g now s)) (fst (g now s))"
proof -
  obtain t0 s0 where r: "rely t0 s0 t s" and sf: "safe inv guar rely A (\<lambda>_ _ _. True) (Act g) t0 s0"
    using assms(1) unfolding sound_flight_def by blast
  have "rely t0 s0 now s" using rely_trans [OF r rely_refl [OF assms(2,3)]] .
  then show "inv (snd (g now s))" "guar now s (snd (g now s))" "sound_flight A now (snd (g now s)) (fst (g now s))"
    using sf assms(4) rely_refl [OF order_refl assms(3)] unfolding safe_Act sound_flight_def by blast+
qed

lemma flight_answered: "sound_flight A t s (Ask q k) \<Longrightarrow> A q a \<Longrightarrow> sound_flight A t s (k a)"
  unfolding sound_flight_def by auto

definition sound_system :: "('q \<Rightarrow> 'a \<Rightarrow> bool) \<Rightarrow> ('e, 'q, 'a, 's, 'r) system \<Rightarrow> bool" where
  "sound_system A y \<longleftrightarrow> tick (st_clock y) \<and> inv (st_cell y) \<and>
     (\<forall>p \<in> set (st_flights y). sound_flight A (st_clock y) (st_cell y) p)"

lemma system_step_sound:
  assumes "system_step tick begun fire A y y'" "sound_system A y"
    and req: "\<And>p t s. begun p \<Longrightarrow> inv s \<Longrightarrow> safe inv guar rely A (\<lambda>_ _ _. True) p t s"
    and alarm: "\<And>now s p s'. tick now \<Longrightarrow> fire now s p s' \<Longrightarrow> inv s \<Longrightarrow>
      inv s' \<and> rely now s now s' \<and> safe inv guar rely A (\<lambda>_ _ _. True) p now s'"
  shows "sound_system A y'"
  using assms(1,2)
proof (induction rule: system_step.induct)
  case (request p t s ps)
  then have i: "inv s" and t: "tick t" by (simp_all add: sound_system_def)
  have "sound_flight A t s p"
    unfolding sound_flight_def by (intro exI conjI, rule rely_refl [OF order_refl t], rule req [OF request(1) i])
  then show ?case using request(2) by (simp add: sound_system_def)
next
  case (fired t now s p s' ps)
  then have "inv s" by (simp add: sound_system_def)
  note a = alarm [OF fired(2,3) this]
  have "sound_flight A now s' p" unfolding sound_flight_def using a rely_refl [OF order_refl fired(2)] by blast
  moreover have "sound_flight A now s' x" if "x \<in> set ps" for x
    by (rule flight_waits [of A t s, OF _ fired(1,2)]) (use fired a that in \<open>auto simp: sound_system_def\<close>)
  ultimately show ?case using fired a by (auto simp: sound_system_def)
next
  case (act t now g s p s' ps qs)
  then have i: "inv s" and f: "sound_flight A t s (Act g)" by (simp_all add: sound_system_def)
  note a = flight_acts [OF f act(1,2) i, unfolded act(3), simplified]
  then show ?case
    using act flight_waits [OF _ act(1,2) guar_rely [OF act(2) i a(2)]] by (auto simp: sound_system_def)
next
  case (answered q a t s ps k qs)
  then show ?case using flight_answered [of A t s q k a] by (auto simp: sound_system_def)
next
  case (ended p x e t s ps qs)
  then show ?case by (auto simp: sound_system_def)
qed

lemma system_sound:
  assumes "(system_step tick begun fire A)\<^sup>*\<^sup>* y y'" "sound_system A y"
    and "\<And>p t s. begun p \<Longrightarrow> inv s \<Longrightarrow> safe inv guar rely A (\<lambda>_ _ _. True) p t s"
    and "\<And>now s p s'. tick now \<Longrightarrow> fire now s p s' \<Longrightarrow> inv s \<Longrightarrow>
      inv s' \<and> rely now s now s' \<and> safe inv guar rely A (\<lambda>_ _ _. True) p now s'"
  shows "sound_system A y'"
  using assms(1,2)
proof (induction rule: rtranclp_induct)
  case (step y1 y2)
  show ?case by (rule system_step_sound [OF step.hyps(2) step.IH [OF step.prems] assms(3,4)])
qed

text \<open>One step changes the cell as guaranteed, or starts the alarm.\<close>

lemma system_step_guar:
  assumes "system_step tick begun fire A y y'" "sound_system A y" "\<And>now s. guar now s s"
    "\<And>now s p s'. fire now s p s' \<Longrightarrow> inv s \<Longrightarrow> guar now s s'"
  shows "guar (st_clock y') (st_cell y) (st_cell y')"
  using assms(1,2)
proof (induction rule: system_step.induct)
  case (fired t now s p s' ps)
  then show ?case using assms(4) by (simp add: sound_system_def)
next
  case (act t now g s p s' ps qs)
  then have i: "inv s" and f: "sound_flight A t s (Act g)" by (simp_all add: sound_system_def)
  show ?case using flight_acts(2) [OF f act(1,2) i] act(3) by simp
qed (simp_all add: assms(3))

text \<open>A guarantee that every step keeps \<open>J\<close>, and handlers under way that re-establish it.\<close>

definition promised :: "('s \<Rightarrow> bool) \<Rightarrow> ('e, 'q, 'a, 's, 'r) system \<Rightarrow> bool" where
  "promised J y \<longleftrightarrow> J (st_cell y) \<or> (\<exists>p \<in> set (st_flights y). reaches inv J False p)"

lemma system_step_promised:
  assumes "system_step tick begun fire A y y'" "sound_system A y" "promised J y"
    and keep: "\<And>now s s'. inv s \<Longrightarrow> guar now s s' \<Longrightarrow> J s \<Longrightarrow> J s'"
    and alarm: "\<And>now s p s'. fire now s p s' \<Longrightarrow> inv s \<Longrightarrow> reaches inv J False p"
  shows "promised J y'"
  using assms(1-3)
proof (induction rule: system_step.induct)
  case (fired t now s p s' ps)
  then show ?case using alarm [OF fired(3)] by (auto simp: promised_def sound_system_def)
next
  case (act t now g s p s' ps qs)
  then have i: "inv s" and f: "sound_flight A t s (Act g)" by (simp_all add: sound_system_def)
  note a = flight_acts [OF f act(1,2) i, unfolded act(3), simplified]
  have "J s' \<or> reaches inv J False p" if "reaches inv J False (Act g)"
  proof -
    have "J (snd (g now s)) \<or> reaches inv J False (fst (g now s))" using that i by (simp add: reaches_Act)
    then show ?thesis using act(3) by simp
  qed
  moreover have "J s \<Longrightarrow> J s'" by (rule keep [OF i a(2)])
  moreover have "J s \<or> reaches inv J False (Act g) \<or> (\<exists>p \<in> set ps \<union> set qs. reaches inv J False p)"
    using act(5) by (auto simp: promised_def)
  ultimately have "J s' \<or> reaches inv J False p \<or> (\<exists>p \<in> set ps \<union> set qs. reaches inv J False p)" by blast
  then show ?case by (auto simp: promised_def)
next
  case (answered q a t s ps k qs)
  then show ?case by (auto simp: promised_def)
next
  case (ended p x e t s ps qs)
  then show ?case by (auto simp: promised_def)
qed (auto simp: promised_def)

lemma system_promised:
  assumes "(system_step tick begun fire A)\<^sup>*\<^sup>* y y'" "sound_system A y" "promised J y"
    and "\<And>p t s. begun p \<Longrightarrow> inv s \<Longrightarrow> safe inv guar rely A (\<lambda>_ _ _. True) p t s"
    and "\<And>now s p s'. tick now \<Longrightarrow> fire now s p s' \<Longrightarrow> inv s \<Longrightarrow>
      inv s' \<and> rely now s now s' \<and> safe inv guar rely A (\<lambda>_ _ _. True) p now s'"
    and "\<And>now s s'. inv s \<Longrightarrow> guar now s s' \<Longrightarrow> J s \<Longrightarrow> J s'"
    and "\<And>now s p s'. fire now s p s' \<Longrightarrow> inv s \<Longrightarrow> reaches inv J False p"
  shows "promised J y'"
  using assms(1-3)
proof (induction rule: rtranclp_induct)
  case (step y1 y2)
  have "sound_system A y1" by (rule system_sound [OF step.hyps(1) step.prems(1) assms(4,5)])
  then show ?case by (rule system_step_promised [OF step.hyps(2) _ step.IH [OF step.prems] assms(6,7)])
qed

end

section \<open>Scripts\<close>

text \<open>Concrete histories: a handler is begun and makes some moves, then the next one.\<close>

datatype 'a move = Run int | Reply 'a

fun exec :: "'a move list \<Rightarrow> ('e, 'q, 'a, 's, 'r) proc \<Rightarrow> 's \<Rightarrow> ('e, 'q, 'a, 's, 'r) proc \<times> 's" where
  "exec (Run now # ms) (Act g) s = (case g now s of (p, s') \<Rightarrow> exec ms p s')"
| "exec (Reply a # ms) (Ask q k) s = exec ms (k a) s"
| "exec _ p s = (p, s)"

fun allowed :: "(int \<Rightarrow> bool) \<Rightarrow> ('q \<Rightarrow> 'a \<Rightarrow> bool) \<Rightarrow> int \<Rightarrow> 'a move list \<Rightarrow> ('e, 'q, 'a, 's, 'r) proc \<Rightarrow> 's \<Rightarrow> bool" where
  "allowed tick A t [] p s = True"
| "allowed tick A t (Run now # ms) (Act g) s =
     (t \<le> now \<and> tick now \<and> (case g now s of (p, s') \<Rightarrow> allowed tick A now ms p s'))"
| "allowed tick A t (Reply a # ms) (Ask q k) s = (A q a \<and> allowed tick A t ms (k a) s)"
| "allowed tick A t _ p s = False"

fun end_time :: "int \<Rightarrow> 'a move list \<Rightarrow> int" where
  "end_time t [] = t"
| "end_time t (Run now # ms) = end_time now ms"
| "end_time t (Reply a # ms) = end_time t ms"

lemma exec_steps:
  "allowed tick A t ms p s \<Longrightarrow> (system_step tick begun fire A)\<^sup>*\<^sup>* \<lparr>st_clock = t, st_cell = s, st_flights = p # ps\<rparr>
     \<lparr>st_clock = end_time t ms, st_cell = snd (exec ms p s), st_flights = fst (exec ms p s) # ps\<rparr>"
proof (induction tick A t ms p s rule: allowed.induct)
  case (2 tick A t now ms g s)
  obtain p s' where g: "g now s = (p, s')" by force
  have "system_step tick begun fire A \<lparr>st_clock = t, st_cell = s, st_flights = Act g # ps\<rparr>
      \<lparr>st_clock = now, st_cell = s', st_flights = p # ps\<rparr>"
    using system_step.act [of t now tick g s p s' begun fire A "[]" ps] 2(2) g by simp
  moreover have "(system_step tick begun fire A)\<^sup>*\<^sup>* \<lparr>st_clock = now, st_cell = s', st_flights = p # ps\<rparr>
     \<lparr>st_clock = end_time now ms, st_cell = snd (exec ms p s'), st_flights = fst (exec ms p s') # ps\<rparr>"
    using 2(1) [OF g [symmetric]] 2(2) g by simp
  ultimately show ?case by (simp add: g converse_rtranclp_into_rtranclp)
next
  case (3 tick A t a ms q k s)
  have "system_step tick begun fire A \<lparr>st_clock = t, st_cell = s, st_flights = Ask q k # ps\<rparr>
      \<lparr>st_clock = t, st_cell = s, st_flights = k a # ps\<rparr>"
    using system_step.answered [of A q a tick begun fire t s "[]" k ps] 3(2) by simp
  then show ?case using 3 by (simp add: converse_rtranclp_into_rtranclp)
qed simp_all

fun script :: "(('e, 'q, 'a, 's, 'r) proc \<times> 'a move list) list \<Rightarrow> ('e, 'q, 'a, 's, 'r) system \<Rightarrow> ('e, 'q, 'a, 's, 'r) system" where
  "script [] y = y"
| "script ((p, ms) # rest) y =
     script rest \<lparr>st_clock = end_time (st_clock y) ms, st_cell = snd (exec ms p (st_cell y)),
                   st_flights = fst (exec ms p (st_cell y)) # st_flights y\<rparr>"

fun script_ok :: "(int \<Rightarrow> bool) \<Rightarrow> ('q \<Rightarrow> 'a \<Rightarrow> bool) \<Rightarrow> (('e, 'q, 'a, 's, 'r) proc \<times> 'a move list) list \<Rightarrow> int \<Rightarrow> 's \<Rightarrow> bool" where
  "script_ok tick A [] t s = True"
| "script_ok tick A ((p, ms) # rest) t s =
     (allowed tick A t ms p s \<and> script_ok tick A rest (end_time t ms) (snd (exec ms p s)))"

lemma allowed_mono:
  "allowed tick A t ms p s \<Longrightarrow> (\<And>q a. A q a \<Longrightarrow> B q a) \<Longrightarrow> allowed tick B t ms p s"
  by (induction tick A t ms p s rule: allowed.induct) (auto split: prod.splits)

lemma script_ok_mono:
  "script_ok tick A sc t s \<Longrightarrow> (\<And>q a. A q a \<Longrightarrow> B q a) \<Longrightarrow> script_ok tick B sc t s"
  by (induction tick A sc t s rule: script_ok.induct) (auto intro: allowed_mono)

lemma script_steps:
  "script_ok tick A sc (st_clock y) (st_cell y) \<Longrightarrow> (\<And>p ms. (p, ms) \<in> set sc \<Longrightarrow> begun p) \<Longrightarrow>
   (system_step tick begun fire A)\<^sup>*\<^sup>* y (script sc y)"
proof (induction sc arbitrary: y)
  case (Cons x sc)
  obtain p ms where x: "x = (p, ms)" by (cases x)
  obtain t s ps where y: "y = \<lparr>st_clock = t, st_cell = s, st_flights = ps\<rparr>" by (cases y)
  have "system_step tick begun fire A y \<lparr>st_clock = t, st_cell = s, st_flights = p # ps\<rparr>"
    unfolding y by (rule system_step.request) (use Cons.prems(2) [of p ms] x in simp)
  moreover note exec_steps [of tick A t ms p s begun fire ps]
  ultimately have "(system_step tick begun fire A)\<^sup>*\<^sup>* y
      \<lparr>st_clock = end_time t ms, st_cell = snd (exec ms p s), st_flights = fst (exec ms p s) # ps\<rparr>"
    using Cons.prems(1) by (simp add: x y converse_rtranclp_into_rtranclp)
  moreover have "(system_step tick begun fire A)\<^sup>*\<^sup>*
      \<lparr>st_clock = end_time t ms, st_cell = snd (exec ms p s), st_flights = fst (exec ms p s) # ps\<rparr>
      (script sc \<lparr>st_clock = end_time t ms, st_cell = snd (exec ms p s), st_flights = fst (exec ms p s) # ps\<rparr>)"
    by (rule Cons.IH) (use Cons.prems in \<open>auto simp: x y\<close>)
  ultimately show ?case by (simp add: x y)
qed simp

text \<open>One more piece of work of the handler begun last.\<close>

definition acts :: "int \<Rightarrow> ('e, 'q, 'a, 's, 'r) system \<Rightarrow> ('e, 'q, 'a, 's, 'r) system" where
  "acts now y = (case st_flights y of
       Act g # ps \<Rightarrow> \<lparr>st_clock = now, st_cell = snd (g now (st_cell y)), st_flights = fst (g now (st_cell y)) # ps\<rparr>
     | _ \<Rightarrow> y)"

fun can_act :: "('e, 'q, 'a, 's, 'r) proc list \<Rightarrow> bool" where
  "can_act (Act g # ps) = True"
| "can_act _ = False"

lemma acts_step:
  assumes "can_act (st_flights y)" "st_clock y \<le> now" "tick now"
  shows "system_step tick begun fire A y (acts now y)"
proof -
  obtain g ps where f: "st_flights y = Act g # ps" using assms(1) by (cases "st_flights y" rule: can_act.cases) auto
  obtain t s where y: "y = \<lparr>st_clock = t, st_cell = s, st_flights = Act g # ps\<rparr>" using f by (cases y) simp
  show ?thesis
    using system_step.act [of t now tick g s "fst (g now s)" "snd (g now s)" begun fire A "[]" ps] assms(2,3)
    by (simp add: y acts_def)
qed

end
