(* ===== verification/HookShard.thy ===== *)
theory HookShard
  imports RunCell CellProc
begin

text \<open>
  What the two hook index shards share (\<open>src/worker/durable-objects/hook-index-shared.ts\<close>): the
  records they store, their keys, the calls they make to run cells, and the repair of a record
  whose creating client stopped before publishing it.  A serialized hook is the hook itself.
\<close>

section \<open>Stored values\<close>

record hook_claim =
  hc_owner :: owner
  hc_id :: string
  hc_reserved_at :: int
  hc_expires_at :: int
  hc_deadline :: string

record retained_token =
  rt_owner :: owner
  rt_until :: int
  rt_deadline :: string

record hook_takeover =
  ht_claimer :: owner
  ht_claim :: string
  ht_victim :: owner
  ht_running :: bool
  ht_from :: claimed_from
  ht_expires_at :: int
  ht_deadline :: string

text \<open>A claim's deadline row; \<open>cd_name\<close> is the token or the hook id.\<close>

record claim_deadline =
  cd_name :: string
  cd_claim :: string
  cd_expires_at :: int

datatype hval =
    HRecord hook
  | HClaim hook_claim
  | HRetained retained_token
  | HTakeover hook_takeover
  | HClaimDeadline claim_deadline
  | HTokenDeadline string

fun as_record :: "hval \<Rightarrow> hook option" where "as_record (HRecord x) = Some x" | "as_record _ = None"
fun as_claim :: "hval \<Rightarrow> hook_claim option" where "as_claim (HClaim x) = Some x" | "as_claim _ = None"
fun as_retained :: "hval \<Rightarrow> retained_token option" where "as_retained (HRetained x) = Some x" | "as_retained _ = None"
fun as_takeover :: "hval \<Rightarrow> hook_takeover option" where "as_takeover (HTakeover x) = Some x" | "as_takeover _ = None"
fun as_claim_deadline :: "hval \<Rightarrow> claim_deadline option" where
  "as_claim_deadline (HClaimDeadline x) = Some x" | "as_claim_deadline _ = None"
fun as_token_deadline :: "hval \<Rightarrow> string option" where
  "as_token_deadline (HTokenDeadline x) = Some x" | "as_token_deadline _ = None"

record shard =
  sh_kv :: "hval kv"
  sh_alarm :: "int option"

definition put_shard :: "string \<Rightarrow> hval \<Rightarrow> shard \<Rightarrow> shard" where
  "put_shard k v s = s\<lparr>sh_kv := kv_put k v (sh_kv s)\<rparr>"

definition del_shard :: "string list \<Rightarrow> shard \<Rightarrow> shard" where
  "del_shard ks s = s\<lparr>sh_kv := kv_del_all ks (sh_kv s)\<rparr>"

definition get_record :: "string \<Rightarrow> shard \<Rightarrow> hook option" where
  "get_record k s = Option.bind (kv_get k (sh_kv s)) as_record"
definition get_retained :: "string \<Rightarrow> shard \<Rightarrow> retained_token option" where
  "get_retained k s = Option.bind (kv_get k (sh_kv s)) as_retained"
definition get_takeover :: "string \<Rightarrow> shard \<Rightarrow> hook_takeover option" where
  "get_takeover k s = Option.bind (kv_get k (sh_kv s)) as_takeover"
definition get_claim :: "string \<Rightarrow> shard \<Rightarrow> hook_claim option" where
  "get_claim k s = Option.bind (kv_get k (sh_kv s)) as_claim"

section \<open>Keys\<close>

definition max_release_batch :: nat where "max_release_batch = 64"

definition indexKey :: "string \<Rightarrow> string \<Rightarrow> string" where
  "indexKey prefix v = prefix @ '':'' @ encodeURIComponent v"

text \<open>\<open>String(Math.max(0, Math.floor(ms))).padStart(13, '0')\<close>\<close>

definition pad :: "int \<Rightarrow> string" where
  "pad ms = pad_dec 13 (max 0 ms)"

definition claim_deadline_prefix :: string where "claim_deadline_prefix = ''claim-deadline:''"

text \<open>The key of a deadline row, in order of the deadline; \<open>claimDeadlineKey\<close> of the id shard and
  \<open>deadlineKey\<close> of the token shard.\<close>

definition deadlineKey :: "string \<Rightarrow> string \<Rightarrow> int \<Rightarrow> string" where
  "deadlineKey prefix name at = prefix @ pad at @ '':'' @ encodeURIComponent name"

section \<open>Other cells\<close>

datatype hook_exn =
    Owned_By_Another
  | Reservation_Expired
  | Reserved_By_Another
  | No_Reservation
  | Batch_Too_Large
  | Call_Failed
  | Out_Of_Rounds

datatype query =
    Q_Status string
  | Q_Expired owner string "string option"
  | Q_Committed owner "string option"
  | Q_Victim string
  | Q_Dispose owner string owner
  | Q_Forced owner string string owner

datatype reply =
    A_Failed
  | A_Status run_lifecycle
  | A_Hook "hook option"
  | A_Victim victim
  | A_Disposed
  | A_Forced bool "hook option"

type_synonym 'r handler = "(hook_exn, query, reply, shard, 'r) proc"

text \<open>Each call takes the answer of its own kind; anything else is a failed call.\<close>

definition runIsActive :: "string \<Rightarrow> bool handler" where
  "runIsActive runId = Ask (Q_Status runId)
     (\<lambda>a. case a of A_Status l \<Rightarrow> Return (l = Life_Active) | _ \<Rightarrow> Throw Call_Failed)"

definition askHook :: "query \<Rightarrow> hook option handler" where
  "askHook q = Ask q (\<lambda>a. case a of A_Hook h \<Rightarrow> Return h | _ \<Rightarrow> Throw Call_Failed)"

definition askExpiredClaim :: "owner \<Rightarrow> string \<Rightarrow> string option \<Rightarrow> hook option handler" where
  "askExpiredClaim who claimId token = askHook (Q_Expired who claimId token)"

definition askCommittedHook :: "owner \<Rightarrow> string option \<Rightarrow> hook option handler" where
  "askCommittedHook who token = askHook (Q_Committed who token)"

definition hook_owner :: "hook \<Rightarrow> owner" where
  "hook_owner h = \<lparr>own_run = hook_run h, own_hook = hook_id h\<rparr>"

text \<open>\<open>retentionAhead\<close>: the token outlives its run.\<close>

definition retentionAhead :: "hook \<Rightarrow> int \<Rightarrow> bool" where
  "retentionAhead h now \<longleftrightarrow> (case hook_retention h of None \<Rightarrow> False | Some t \<Rightarrow> now < t)"

section \<open>Alarms\<close>

definition armAtMost :: "int \<Rightarrow> shard \<Rightarrow> shard" where
  "armAtMost at s =
     (if (case sh_alarm s of None \<Rightarrow> True | Some a \<Rightarrow> at < a) then s\<lparr>sh_alarm := Some at\<rparr> else s)"

section \<open>Repair\<close>

text \<open>After a repair write the owner is asked again: a record whose hook was disposed meanwhile is
  withdrawn.\<close>

definition withdrawRecord :: "string \<Rightarrow> owner \<Rightarrow> int \<Rightarrow> shard \<Rightarrow> hook_exn + unit \<times> shard" where
  "withdrawRecord k who now s =
     (case get_record k s of
        None \<Rightarrow> Inr ((), s)
      | Some h \<Rightarrow> if hook_owner h = who then Inr ((), del_shard [k] s) else Inr ((), s))"

definition confirmRepublished :: "string \<Rightarrow> owner \<Rightarrow> string option \<Rightarrow> bool handler" where
  "confirmRepublished k who token =
     bindP (askCommittedHook who token) (\<lambda>h.
       if h \<noteq> None then Return True
       else bindP (txn (withdrawRecord k who)) (\<lambda>_. Return False))"

definition publishClaim ::
    "string \<Rightarrow> string \<Rightarrow> hook_claim \<Rightarrow> hook \<Rightarrow> int \<Rightarrow> shard \<Rightarrow> hook_exn + (hook option \<times> bool) \<times> shard" where
  "publishClaim kr kc observed hook now s =
     (case get_record kr s of
        Some h \<Rightarrow> Inr ((Some h, False), s)
      | None \<Rightarrow>
          (case get_claim kc s of
             None \<Rightarrow> Inr ((None, False), s)
           | Some c \<Rightarrow>
               if hc_id c \<noteq> hc_id observed then Inr ((None, False), s)
               else Inr ((Some hook, True), del_shard [kc, hc_deadline c] (put_shard kr (HRecord hook) s))))"

definition publishCommittedClaim :: "string \<Rightarrow> string \<Rightarrow> string option \<Rightarrow> hook option handler" where
  "publishCommittedClaim kr kc token =
     bindP (look (\<lambda>now. get_claim kc)) (\<lambda>observed.
       case observed of
         None \<Rightarrow> Return None
       | Some c \<Rightarrow>
           bindP (askCommittedHook (hc_owner c) token) (\<lambda>found.
             case found of
               None \<Rightarrow> Return None
             | Some hook \<Rightarrow>
                 bindP (txn (publishClaim kr kc c hook)) (\<lambda>(raw, written).
                   if \<not> written then Return raw
                   else
                     bindP (confirmRepublished kr (hc_owner c) token) (\<lambda>ok.
                     Return (if ok then Some hook else None)))))"

section \<open>Claims\<close>

datatype claim_result = Claimed string | Held owner

text \<open>How one round of the reservation loop ends: with an answer, with a pending takeover to settle
  first, or with a change since the claim was read.\<close>

datatype round = Answered claim_result | Settle | Again

definition put_claim :: "string \<Rightarrow> string \<Rightarrow> hook_claim \<Rightarrow> shard \<Rightarrow> shard" where
  "put_claim kc name c s =
     armAtMost (hc_expires_at c)
       (put_shard (hc_deadline c)
         (HClaimDeadline \<lparr>cd_name = name, cd_claim = hc_id c, cd_expires_at = hc_expires_at c\<rparr>)
         (put_shard kc (HClaim c) s))"

definition new_claim :: "string \<Rightarrow> owner \<Rightarrow> string \<Rightarrow> int \<Rightarrow> hook_claim" where
  "new_claim name who claimId now =
     \<lparr>hc_owner = who, hc_id = claimId, hc_reserved_at = now, hc_expires_at = now + hook_claim_lease_ms,
      hc_deadline = deadlineKey claim_deadline_prefix name (now + hook_claim_lease_ms)\<rparr>"

definition renewClaim :: "string \<Rightarrow> string \<Rightarrow> hook_claim \<Rightarrow> int \<Rightarrow> shard \<Rightarrow> shard" where
  "renewClaim kc name c now s =
     put_claim kc name
       (c\<lparr>hc_expires_at := now + hook_claim_lease_ms,
          hc_deadline := deadlineKey claim_deadline_prefix name (now + hook_claim_lease_ms)\<rparr>)
       (del_shard [hc_deadline c] s)"

definition releaseOwnClaim :: "string \<Rightarrow> owner \<Rightarrow> string \<Rightarrow> int \<Rightarrow> shard \<Rightarrow> hook_exn + unit \<times> shard" where
  "releaseOwnClaim kc who claimId now s =
     (case get_claim kc s of
        None \<Rightarrow> Inr ((), s)
      | Some c \<Rightarrow>
          if hc_owner c = who \<and> hc_id c = claimId then Inr ((), del_shard [kc, hc_deadline c] s)
          else Inr ((), s))"

definition expired_claim :: "string \<Rightarrow> int \<Rightarrow> shard \<Rightarrow> hook_claim option" where
  "expired_claim kc now s =
     (case get_claim kc s of None \<Rightarrow> None | Some c \<Rightarrow> if hc_expires_at c \<le> now then Some c else None)"

text \<open>What compaction does with one due deadline row: \<open>found\<close> is the claim as it was when the owner
  was asked, \<open>answer\<close> what the owner said.\<close>

definition compactRow ::
    "string \<Rightarrow> string \<Rightarrow> int \<Rightarrow> string \<times> claim_deadline \<Rightarrow> hook_claim option \<Rightarrow> hook_claim option \<Rightarrow> hook option
      \<Rightarrow> shard \<Rightarrow> shard \<times> string list \<times> (string \<times> owner) list" where
  "compactRow kr kc now row current found answer s =
     (case current of
        None \<Rightarrow> (s, [fst row], [])
      | Some c \<Rightarrow>
          if hc_id c \<noteq> cd_claim (snd row) \<or> hc_expires_at c > now then (s, [fst row], [])
          else if map_option hc_id found = Some (hc_id c) \<and> map_option hc_expires_at found = Some (hc_expires_at c)
          then
            (case answer of
               Some h \<Rightarrow> (put_shard kr (HRecord h) s, [fst row, kc], [(cd_name (snd row), hc_owner c)])
             | None \<Rightarrow> (s, [fst row, kc], []))
          else (s, [], []))"

fun compactRows ::
    "(string \<Rightarrow> string) \<Rightarrow> (string \<Rightarrow> string) \<Rightarrow> int \<Rightarrow> (string \<Rightarrow> hook_claim option) \<Rightarrow>
     (string \<times> claim_deadline) list \<Rightarrow> (string \<Rightarrow> hook_claim option) \<Rightarrow> (string \<Rightarrow> hook option) \<Rightarrow> shard
      \<Rightarrow> shard \<times> string list \<times> (string \<times> owner) list" where
  "compactRows kr kc now current [] found answers s = (s, [], [])"
| "compactRows kr kc now current (row # rows) found answers s =
     (let name = cd_name (snd row);
          (s, ds, ps) = compactRow (kr name) (kc name) now row (current name) (found name) (answers name) s;
          (s, ds', ps') = compactRows kr kc now current rows found answers s
      in (s, ds @ ds', ps @ ps'))"

text \<open>The claim rows of a listing.\<close>

definition claim_rows :: "kv_query \<Rightarrow> shard \<Rightarrow> (string \<times> claim_deadline) list" where
  "claim_rows q s =
     List.map_filter (\<lambda>(k, v). map_option (Pair k) (as_claim_deadline v)) (kv_list q (sh_kv s))"

definition forget :: "'r handler \<Rightarrow> unit handler" where
  "forget p = bindP p (\<lambda>_. Return ())"

text \<open>Compaction before its transaction: the claims of the page are read, then the owners of the
  expired ones are asked.\<close>

fun askOwners ::
    "int \<Rightarrow> (string \<Rightarrow> string option) \<Rightarrow> (string \<times> claim_deadline) list \<Rightarrow> (string \<Rightarrow> hook_claim option)
      \<Rightarrow> (string \<Rightarrow> hook option) handler" where
  "askOwners now tok [] found = Return (\<lambda>_. None)"
| "askOwners now tok (row # rows) found =
     bindP (askOwners now tok rows found) (\<lambda>answers.
       case found (cd_name (snd row)) of
         None \<Rightarrow> Return answers
       | Some c \<Rightarrow>
           if hc_id c \<noteq> cd_claim (snd row) \<or> hc_expires_at c > now then Return answers
           else bindP (askExpiredClaim (hc_owner c) (hc_id c) (tok (cd_name (snd row))))
                  (\<lambda>h. Return (answers(cd_name (snd row) := h))))"

end
