(* ===== verification/HookTokens.thy ===== *)
theory HookTokens
  imports HookShard
begin

text \<open>
  The hook token shard (\<open>src/worker/durable-objects/HookTokenDO.ts\<close>).  A token has a published
  record, or the leased claim of a creation under way; a finished run may retain its token for a
  while, and a forced creation takes a token over through a pending takeover, which is settled once
  the claimer's log decides it.  The \<open>for(;;)\<close> loops are a number of rounds.
\<close>

section \<open>Keys\<close>

definition tokenRecordKey :: "string \<Rightarrow> string" where "tokenRecordKey = indexKey ''hook''"
definition tokenClaimKey :: "string \<Rightarrow> string" where "tokenClaimKey = indexKey ''claim''"
definition retainedKey :: "string \<Rightarrow> string" where "retainedKey = indexKey ''retained''"
definition takeoverKey :: "string \<Rightarrow> string" where "takeoverKey = indexKey ''takeover''"

definition retained_deadline_prefix :: string where "retained_deadline_prefix = ''retained-deadline:''"
definition takeover_deadline_prefix :: string where "takeover_deadline_prefix = ''takeover-deadline:''"

text \<open>\<open>Number(key.slice(prefix.length, prefix.length + 13))\<close>; these are digits, because only
  \<open>deadlineKey\<close> makes keys with such a prefix.\<close>

definition deadlineAt :: "string \<Rightarrow> string \<Rightarrow> int" where
  "deadlineAt prefix k =
     foldl (\<lambda>n c. 10 * n + (int (of_char c) - 48)) 0 (take 13 (drop (length prefix) k))"

section \<open>Retention of finished runs' tokens\<close>

definition markRetained :: "string \<Rightarrow> owner \<Rightarrow> int \<Rightarrow> shard \<Rightarrow> shard" where
  "markRetained token who until s =
     (let d = deadlineKey retained_deadline_prefix token until
      in put_shard d (HTokenDeadline token)
           (put_shard (retainedKey token) (HRetained \<lparr>rt_owner = who, rt_until = until, rt_deadline = d\<rparr>) s))"

definition retain :: "string \<Rightarrow> owner \<Rightarrow> int \<Rightarrow> shard \<Rightarrow> shard" where
  "retain token who until s = armAtMost until (markRetained token who until s)"

text \<open>\<open>vals\<close> is the shard as the transaction read it.\<close>

definition freeExpiredRetention :: "string \<Rightarrow> int \<Rightarrow> shard \<Rightarrow> shard \<Rightarrow> bool \<times> shard" where
  "freeExpiredRetention token now vals s =
     (case (get_record (tokenRecordKey token) vals, get_retained (retainedKey token) vals) of
        (Some h, Some r) \<Rightarrow>
          if now < rt_until r \<or> get_takeover (takeoverKey token) vals \<noteq> None \<or> hook_owner h \<noteq> rt_owner r
          then (False, s)
          else (True, del_shard [tokenRecordKey token, retainedKey token, rt_deadline r] s)
      | _ \<Rightarrow> (False, s))"

section \<open>Release\<close>

definition tokenReleaseClaim :: "string \<Rightarrow> owner \<Rightarrow> string \<Rightarrow> unit handler" where
  "tokenReleaseClaim token who claimId = txn (releaseOwnClaim (tokenClaimKey token) who claimId)"

text \<open>What a batch does for one of its hooks: keys whose deletion is counted, other keys deleted
  with them, and the marker to write when the token outlives its run.\<close>

definition releaseRow ::
    "bool \<Rightarrow> int \<Rightarrow> shard \<Rightarrow> string \<times> owner \<Rightarrow> string list \<times> string list \<times> (string \<times> owner \<times> int) list" where
  "releaseRow runEnded now vals = (\<lambda>(token, who).
     (let retained = get_retained (retainedKey token) vals;
          (dels, rows, marks) =
            (case get_record (tokenRecordKey token) vals of
               None \<Rightarrow> ([], [], [])
             | Some h \<Rightarrow>
                 if hook_owner h \<noteq> who then ([], [], [])
                 else if runEnded \<and> retentionAhead h now then
                   ([], [], if retained = None then [(token, who, the (hook_retention h))] else [])
                 else
                   ([tokenRecordKey token],
                    case retained of None \<Rightarrow> [] | Some r \<Rightarrow> [retainedKey token, rt_deadline r], []))
      in (case get_claim (tokenClaimKey token) vals of
            None \<Rightarrow> (dels, rows, marks)
          | Some c \<Rightarrow>
              if hc_owner c = who then (dels @ [tokenClaimKey token], rows @ [hc_deadline c], marks)
              else (dels, rows, marks))))"

definition tokenReleaseTxn :: "(string \<times> owner) list \<Rightarrow> bool \<Rightarrow> int \<Rightarrow> shard \<Rightarrow> hook_exn + nat \<times> shard" where
  "tokenReleaseTxn hooks runEnded now s =
     (let rs = map (releaseRow runEnded now s) hooks;
          dels = concat (map fst rs); rows = concat (map (fst \<circ> snd) rs); marks = concat (map (snd \<circ> snd) rs);
          s1 = fold (\<lambda>(token, who, until). markRetained token who until) marks s;
          s2 = del_shard rows (del_shard dels s1)
      in Inr (kv_del_count dels (sh_kv s1),
              case map (snd \<circ> snd) marks of
                [] \<Rightarrow> s2
              | t # ts \<Rightarrow> armAtMost (fold min ts t) s2))"

definition tokenReleaseBatch :: "(string \<times> owner) list \<Rightarrow> bool \<Rightarrow> nat handler" where
  "tokenReleaseBatch hooks runEnded =
     (if length hooks > max_release_batch then Throw Batch_Too_Large
      else if hooks = [] then Return 0
      else txn (tokenReleaseTxn hooks runEnded))"

section \<open>Takeovers\<close>

definition dropTakeover :: "string \<Rightarrow> hook_takeover \<Rightarrow> int \<Rightarrow> shard \<Rightarrow> hook_exn + unit \<times> shard" where
  "dropTakeover token intent now s =
     (case get_takeover (takeoverKey token) s of
        None \<Rightarrow> Inr ((), s)
      | Some k \<Rightarrow>
          if ht_claim k \<noteq> ht_claim intent then Inr ((), s)
          else
            let s1 = del_shard [takeoverKey token, ht_deadline intent] s
            in Inr ((), case get_retained (retainedKey token) s of
                 None \<Rightarrow> s1
               | Some r \<Rightarrow> armAtMost (rt_until r) (put_shard (rt_deadline r) (HTokenDeadline token) s1)))"

definition rollForwardTxn :: "string \<Rightarrow> hook_takeover \<Rightarrow> hook option \<Rightarrow> int \<Rightarrow> shard \<Rightarrow> hook_exn + bool \<times> shard" where
  "rollForwardTxn token intent hook now s =
     (case get_takeover (takeoverKey token) s of
        None \<Rightarrow> Inr (False, s)
      | Some k \<Rightarrow>
          if ht_claim k \<noteq> ht_claim intent then Inr (False, s)
          else
            let rows = (case get_retained (retainedKey token) s of
                          None \<Rightarrow> [] | Some r \<Rightarrow> [retainedKey token, rt_deadline r]);
                keys = [takeoverKey token, ht_deadline intent] @ rows
            in (case hook of
                  Some h \<Rightarrow> Inr (True, del_shard keys (put_shard (tokenRecordKey token) (HRecord h) s))
                | None \<Rightarrow> Inr (False, del_shard (keys @ [tokenRecordKey token]) s)))"

definition askDispose :: "hook_takeover \<Rightarrow> string \<Rightarrow> unit handler" where
  "askDispose intent token = Ask (Q_Dispose (ht_victim intent) token (ht_claimer intent))
     (\<lambda>a. case a of A_Disposed \<Rightarrow> Return () | _ \<Rightarrow> Throw Call_Failed)"

definition askForced :: "hook_takeover \<Rightarrow> string \<Rightarrow> (bool \<times> hook option) handler" where
  "askForced intent token = Ask (Q_Forced (ht_claimer intent) token (ht_claim intent) (ht_victim intent))
     (\<lambda>a. case a of A_Forced journaled h \<Rightarrow> Return (journaled, h) | _ \<Rightarrow> Throw Call_Failed)"

definition rollForward :: "string \<Rightarrow> hook_takeover \<Rightarrow> hook option \<Rightarrow> unit handler" where
  "rollForward token intent hook =
     bindP (if ht_running intent then askDispose intent token else Return ()) (\<lambda>_.
     bindP (txn (rollForwardTxn token intent hook)) (\<lambda>written.
       if written then forget (confirmRepublished (tokenRecordKey token) (ht_claimer intent) (Some token))
       else Return ()))"

text \<open>\<open>wanted\<close> is the optional \<open>match\<close>, the claimer and perhaps its claim; \<open>reported\<close> the hook
  the claimer says it committed.\<close>

definition settles :: "(owner \<times> string option) option \<Rightarrow> hook_takeover \<Rightarrow> bool" where
  "settles wanted k \<longleftrightarrow>
     (case wanted of None \<Rightarrow> True | Some (who, c) \<Rightarrow> ht_claimer k = who \<and> (c = None \<or> c = Some (ht_claim k)))"

definition settleIntent :: "string \<Rightarrow> (owner \<times> string option) option \<Rightarrow> hook option \<Rightarrow> hook_takeover \<Rightarrow> unit handler" where
  "settleIntent token wanted reported intent =
     bindP (if reported \<noteq> None \<and> Option.bind wanted snd = Some (ht_claim intent)
            then Return (True, reported) else askForced intent token) (\<lambda>(journaled, hook).
       if journaled then rollForward token intent hook else txn (dropTakeover token intent))"

definition settleTakeover :: "string \<Rightarrow> (owner \<times> string option) option \<Rightarrow> hook option \<Rightarrow> owner option handler" where
  "settleTakeover token wanted reported =
     bindP (look (\<lambda>now. get_takeover (takeoverKey token))) (\<lambda>intent.
     bindP (case intent of
              None \<Rightarrow> Return ()
            | Some k \<Rightarrow> if settles wanted k then settleIntent token wanted reported k else Return ()) (\<lambda>_.
     look (\<lambda>now s. map_option hook_owner (get_record (tokenRecordKey token) s))))"

section \<open>Lookup\<close>

definition tokenGet :: "string \<Rightarrow> hook option handler" where
  "tokenGet token =
     bindP (look (\<lambda>now. get_record (tokenRecordKey token))) (\<lambda>indexed.
     bindP (case indexed of
              Some h \<Rightarrow> Return (Some h)
            | None \<Rightarrow> publishCommittedClaim (tokenRecordKey token) (tokenClaimKey token) (Some token)) (\<lambda>raw.
       case raw of
         None \<Rightarrow> Return None
       | Some h \<Rightarrow>
           bindP (look (\<lambda>now s. retentionAhead h now)) (\<lambda>ahead.
             if ahead then Return (Some h)
             else bindP (runIsActive (hook_run h)) (\<lambda>active. Return (if active then Some h else None)))))"

section \<open>Publication\<close>

definition finalizeTxn ::
    "string \<Rightarrow> hook \<Rightarrow> owner \<Rightarrow> string option \<Rightarrow> bool \<Rightarrow> int \<Rightarrow> shard \<Rightarrow> hook_exn + bool \<times> shard" where
  "finalizeTxn token h who claimId active now s =
     (let kr = tokenRecordKey token; kc = tokenClaimKey token;
          indexed = get_record kr s; claim = get_claim kc s in
      bindE (ensure (case indexed of None \<Rightarrow> True | Some r \<Rightarrow> hook_owner r = who) Owned_By_Another) (\<lambda>_.
      bindE (ensure (case claim of None \<Rightarrow> True | Some c \<Rightarrow> now < hc_expires_at c) Reservation_Expired) (\<lambda>_.
      bindE (ensure (case claim of None \<Rightarrow> True | Some c \<Rightarrow> hc_owner c = who \<and> Some (hc_id c) = claimId)
        Reserved_By_Another) (\<lambda>_.
      bindE (ensure (indexed \<noteq> None \<or> claim \<noteq> None) No_Reservation) (\<lambda>_.
      let s1 = put_shard kr (HRecord h) s;
          s2 = (case claim of None \<Rightarrow> s1 | Some c \<Rightarrow> del_shard [kc, hc_deadline c] s1);
          s3 = (case hook_retention h of
                  None \<Rightarrow> s2
                | Some until \<Rightarrow> if active then s2 else retain token who until s2)
      in Inr (True, s3))))))"

definition finalize :: "string \<Rightarrow> hook \<Rightarrow> owner \<Rightarrow> string option \<Rightarrow> bool handler" where
  "finalize token h who claimId =
     bindP (runIsActive (own_run who)) (\<lambda>active.
     bindP (look (\<lambda>now s. retentionAhead h now)) (\<lambda>ahead.
       if \<not> active \<and> \<not> ahead then bindP (tokenReleaseBatch [(token, who)] False) (\<lambda>_. Return False)
       else txn (finalizeTxn token h who claimId active)))"

section \<open>Reservation\<close>

definition tokenReserveTxn ::
    "string \<Rightarrow> owner \<Rightarrow> string \<Rightarrow> hook_claim option \<Rightarrow> hook option \<Rightarrow> int \<Rightarrow> shard \<Rightarrow> hook_exn + round \<times> shard" where
  "tokenReserveTxn token who proposed expired committed now s =
     (let kc = tokenClaimKey token;
          indexed = get_record (tokenRecordKey token) s;
          (freed, s1) = freeExpiredRetention token now s s;
          grant = (\<lambda>s. Inr (Answered (Claimed proposed), put_claim kc token (new_claim token who proposed now) s))
      in if indexed \<noteq> None \<and> \<not> freed then Inr (Answered (Held (hook_owner (the indexed))), s)
      else case get_takeover (takeoverKey token) s of
        Some k \<Rightarrow>
          if ht_claimer k \<noteq> who \<and> now < ht_expires_at k then Inr (Answered (Held (ht_claimer k)), s1)
          else Inr (Settle, s1)
      | None \<Rightarrow>
          (case get_claim kc s of
             None \<Rightarrow> grant s1
           | Some c \<Rightarrow>
               if hc_expires_at c \<le> now then
                 (if map_option hc_id expired \<noteq> Some (hc_id c)
                      \<or> map_option hc_expires_at expired \<noteq> Some (hc_expires_at c)
                  then Inr (Again, s1)
                  else if committed \<noteq> None then
                    Inr (Answered (if hc_owner c = who then Claimed (hc_id c) else Held (hc_owner c)),
                         renewClaim kc token c now s1)
                  else grant (del_shard [kc, hc_deadline c] s1))
               else if hc_owner c \<noteq> who then Inr (Answered (Held (hc_owner c)), s1)
               else Inr (Answered (Claimed (hc_id c)), s1)))"

fun tokenReserve :: "nat \<Rightarrow> string \<Rightarrow> owner \<Rightarrow> string \<Rightarrow> claim_result handler" where
  "tokenReserve 0 token who proposed = Throw Out_Of_Rounds"
| "tokenReserve (Suc n) token who proposed =
     bindP (look (expired_claim (tokenClaimKey token))) (\<lambda>expired.
     bindP (case expired of
              None \<Rightarrow> Return None
            | Some c \<Rightarrow> askExpiredClaim (hc_owner c) (hc_id c) (Some token)) (\<lambda>committed.
     bindP (txn (tokenReserveTxn token who proposed expired committed)) (\<lambda>r.
       case r of
         Answered x \<Rightarrow> Return x
       | Settle \<Rightarrow> bindP (settleTakeover token None None) (\<lambda>_. tokenReserve n token who proposed)
       | Again \<Rightarrow> tokenReserve n token who proposed)))"

section \<open>Forced reservation\<close>

datatype force_result =
    Force_Claimed string "claimed_from option"
  | Force_Held owner
  | Force_Pending owner
  | Force_Refused owner

text \<open>Two constants of \<open>@workflow/world\<close>: the spec version of runs that name none, and the first
  version whose runs can lose a hook to a forced creation.\<close>

record force_specs =
  fs_legacy :: int
  fs_force_claim :: int

definition preemptTxn :: "string \<Rightarrow> hook_claim \<Rightarrow> hook option \<Rightarrow> int \<Rightarrow> shard \<Rightarrow> hook_exn + bool \<times> shard" where
  "preemptTxn token observed hook now s =
     (case get_claim (tokenClaimKey token) s of
        None \<Rightarrow> Inr (False, s)
      | Some c \<Rightarrow>
          if hc_id c \<noteq> hc_id observed then Inr (False, s)
          else Inr (hook \<noteq> None,
            del_shard [tokenClaimKey token, hc_deadline c]
              (case hook of None \<Rightarrow> s | Some h \<Rightarrow> put_shard (tokenRecordKey token) (HRecord h) s)))"

definition preemptClaim :: "string \<Rightarrow> hook_claim \<Rightarrow> unit handler" where
  "preemptClaim token observed =
     bindP (askExpiredClaim (hc_owner observed) (hc_id observed) (Some token)) (\<lambda>hook.
     bindP (txn (preemptTxn token observed hook)) (\<lambda>published.
       if published then forget (confirmRepublished (tokenRecordKey token) (hc_owner observed) (Some token))
       else Return ()))"

definition askVictim :: "string \<Rightarrow> victim handler" where
  "askVictim runId = Ask (Q_Victim runId) (\<lambda>a. case a of A_Victim v \<Rightarrow> Return v | _ \<Rightarrow> Throw Call_Failed)"

fun victim_running :: "victim \<Rightarrow> bool" where
  "victim_running (Victim l _ _ _) \<longleftrightarrow> l = Life_Active"
| "victim_running (Victim_Gone l) \<longleftrightarrow> l = Life_Active"

fun victim_spec :: "victim \<Rightarrow> int option" where
  "victim_spec (Victim _ _ _ v) = v"
| "victim_spec (Victim_Gone _) = None"

fun claimedFrom :: "owner \<Rightarrow> victim \<Rightarrow> claimed_from" where
  "claimedFrom o1 (Victim l name deployment spec) =
     (if l = Life_Active
      then \<lparr>cf_run = own_run o1, cf_hook = own_hook o1, cf_workflow = Some name,
            cf_deployment = Some deployment, cf_spec = spec\<rparr>
      else \<lparr>cf_run = own_run o1, cf_hook = own_hook o1, cf_workflow = None, cf_deployment = None, cf_spec = None\<rparr>)"
| "claimedFrom o1 (Victim_Gone _) =
     \<lparr>cf_run = own_run o1, cf_hook = own_hook o1, cf_workflow = None, cf_deployment = None, cf_spec = None\<rparr>"

definition intentTxn ::
    "string \<Rightarrow> owner \<Rightarrow> string \<Rightarrow> hook \<Rightarrow> bool \<Rightarrow> claimed_from \<Rightarrow> bool \<Rightarrow> int \<Rightarrow> shard
      \<Rightarrow> hook_exn + hook_takeover option \<times> shard" where
  "intentTxn token who proposed indexed running from1 takeOver now s =
     (if get_record (tokenRecordKey token) s \<noteq> Some indexed \<or> get_takeover (takeoverKey token) s \<noteq> None
      then Inr (None, s)
      else if \<not> takeOver then
        Inr (None, del_shard (tokenRecordKey token #
               (case get_retained (retainedKey token) s of
                  None \<Rightarrow> [] | Some r \<Rightarrow> [retainedKey token, rt_deadline r])) s)
      else
        let at = now + hook_takeover_settle_ms;
            k = \<lparr>ht_claimer = who, ht_claim = proposed, ht_victim = hook_owner indexed, ht_running = running,
                 ht_from = from1, ht_expires_at = at,
                 ht_deadline = deadlineKey takeover_deadline_prefix token at\<rparr>
        in Inr (Some k, armAtMost at (put_shard (ht_deadline k) (HTokenDeadline token)
                 (put_shard (takeoverKey token) (HTakeover k) s))))"

fun forceReserve ::
    "nat \<Rightarrow> force_specs \<Rightarrow> string \<Rightarrow> owner \<Rightarrow> string \<Rightarrow> bool \<Rightarrow> force_result handler" where
  "forceReserve 0 L token who proposed preempt = Throw Out_Of_Rounds"
| "forceReserve (Suc n) L token who proposed preempt =
     bindP (look (\<lambda>now s. (now, get_record (tokenRecordKey token) s, get_claim (tokenClaimKey token) s,
                          get_takeover (takeoverKey token) s)))
       (\<lambda>(now, indexed, claim, pending).
       case pending of
         Some k \<Rightarrow>
           if ht_claimer k = who then Return (Force_Claimed (ht_claim k) (Some (ht_from k)))
           else if \<not> preempt \<and> now < ht_expires_at k then Return (Force_Pending (ht_claimer k))
           else bindP (settleTakeover token None None) (\<lambda>_. forceReserve n L token who proposed preempt)
       | None \<Rightarrow>
           (case indexed of
              None \<Rightarrow>
                if (case claim of None \<Rightarrow> False | Some c \<Rightarrow> hc_owner c \<noteq> who) then
                  (if \<not> preempt \<and> now < hc_expires_at (the claim) then Return (Force_Pending (hc_owner (the claim)))
                   else bindP (preemptClaim token (the claim)) (\<lambda>_. forceReserve n L token who proposed preempt))
                else
                  bindP (tokenReserve n token who proposed) (\<lambda>r.
                    case r of
                      Claimed c \<Rightarrow> Return (Force_Claimed c None)
                    | Held o1 \<Rightarrow>
                        if o1 = who then Return (Force_Held o1) else forceReserve n L token who proposed preempt)
            | Some h \<Rightarrow>
                if hook_owner h = who then Return (Force_Held who)
                else
                  bindP (askVictim (hook_run h)) (\<lambda>described.
                    if victim_running described \<and> nullish (victim_spec described) (fs_legacy L) < fs_force_claim L
                    then Return (Force_Refused (hook_owner h))
                    else
                      bindP (look (\<lambda>now s. victim_running described \<or> retentionAhead h now)) (\<lambda>takeOver.
                      bindP (txn (intentTxn token who proposed h (victim_running described)
                              (claimedFrom (hook_owner h) described) takeOver)) (\<lambda>intent.
                        case intent of
                          Some k \<Rightarrow> Return (Force_Claimed (ht_claim k)
                                              (Some (claimedFrom (hook_owner h) described)))
                        | None \<Rightarrow> forceReserve n L token who proposed preempt)))))"

section \<open>Compaction\<close>

record 'a deadline_scan =
  sc_due :: "(string \<times> 'a) list"
  sc_more :: bool
  sc_next :: "int option"

definition scanDeadlines :: "(hval \<Rightarrow> 'a option) \<Rightarrow> string \<Rightarrow> int \<Rightarrow> shard \<Rightarrow> 'a deadline_scan" where
  "scanDeadlines dec prefix now s =
     (let listed = List.map_filter (\<lambda>(k, v). map_option (Pair k) (dec v))
            (kv_list ((prefix_query prefix)\<lparr>q_limit := Some (lifecycle_compaction_batch + 1)\<rparr>) (sh_kv s));
          dueCount = length (takeWhile (\<lambda>(k, _). deadlineAt prefix k \<le> now) listed)
      in \<lparr>sc_due = take (min dueCount lifecycle_compaction_batch) listed,
          sc_more = (dueCount > lifecycle_compaction_batch),
          sc_next = (if dueCount = length listed then None else Some (deadlineAt prefix (fst (listed ! dueCount))))\<rparr>)"

definition tokenCompactTxn ::
    "int \<Rightarrow> (string \<times> claim_deadline) list \<Rightarrow> (string \<Rightarrow> hook_claim option) \<Rightarrow> (string \<Rightarrow> hook option)
      \<Rightarrow> int \<Rightarrow> shard \<Rightarrow> hook_exn + (string \<times> owner) list \<times> shard" where
  "tokenCompactTxn started page found answers now s =
     (let (s', deletes, published) = compactRows tokenRecordKey tokenClaimKey started
            (\<lambda>t. get_claim (tokenClaimKey t) s) page found answers s
      in Inr (published, del_shard deletes s'))"

definition tokenCompactClaims :: "int \<Rightarrow> (string \<times> claim_deadline) list \<Rightarrow> unit handler" where
  "tokenCompactClaims started page =
     bindP (look (\<lambda>now s t. get_claim (tokenClaimKey t) s)) (\<lambda>found.
     bindP (askOwners started Some page found) (\<lambda>answers.
     bindP (txn (tokenCompactTxn started page found answers)) (\<lambda>published.
     forget (eachP (\<lambda>(t, who). confirmRepublished (tokenRecordKey t) who (Some t)) published))))"

definition compactRetained :: "int \<Rightarrow> (string \<times> string) list \<Rightarrow> int \<Rightarrow> shard \<Rightarrow> hook_exn + unit \<times> shard" where
  "compactRetained started page now vals =
     (let s1 = fold (\<lambda>(d, token) s.
            if map_option rt_deadline (get_retained (retainedKey token) vals) = Some d
            then snd (freeExpiredRetention token started vals s) else s) page vals
      in Inr ((), del_shard (map fst page) s1))"

definition dropStale :: "(string \<times> string) list \<Rightarrow> int \<Rightarrow> shard \<Rightarrow> hook_exn + (string \<times> string) list \<times> shard" where
  "dropStale page now s =
     (let stale = (\<lambda>(d, token). map_option ht_deadline (get_takeover (takeoverKey token) s) \<noteq> Some d)
      in Inr (filter (\<lambda>e. \<not> stale e) page, del_shard (map fst (filter stale page)) s))"

text \<open>Up to eight settlements run at a time; here they run in order, and those of other requests
  interleave with them.  One that fails does not hold back the others.\<close>

definition compactTakeovers :: "(string \<times> string) list \<Rightarrow> unit handler" where
  "compactTakeovers page =
     bindP (txn (dropStale page)) (\<lambda>live.
     bindP (eachP (\<lambda>(_, token). catchP (bindP (settleTakeover token None None) (\<lambda>_. Return None))
                     (\<lambda>e. Return (Some e))) live) (\<lambda>failures.
       case List.map_filter id failures of [] \<Rightarrow> Return () | e # _ \<Rightarrow> Throw e))"

definition soonest :: "int option list \<Rightarrow> int option" where
  "soonest ts = (case List.map_filter id ts of [] \<Rightarrow> None | t # us \<Rightarrow> Some (fold min us t))"

definition first_deadline :: "shard \<Rightarrow> string \<Rightarrow> int option" where
  "first_deadline s prefix =
     (case kv_list ((prefix_query prefix)\<lparr>q_limit := Some 1\<rparr>) (sh_kv s) of
        [] \<Rightarrow> None
      | e # _ \<Rightarrow> Some (deadlineAt prefix (fst e)))"

definition rearm :: "bool \<Rightarrow> int option list \<Rightarrow> bool \<Rightarrow> int \<Rightarrow> shard \<Rightarrow> hook_exn + unit \<times> shard" where
  "rearm full nexts clearedWhileRunning now s =
     Inr ((),
       if full then s\<lparr>sh_alarm := Some (now + 1)\<rparr>
       else s\<lparr>sh_alarm := map_option (max (now + 1))
              (soonest (if clearedWhileRunning then nexts @ [sh_alarm s]
                        else map (first_deadline s)
                          [claim_deadline_prefix, retained_deadline_prefix, takeover_deadline_prefix]))\<rparr>)"

definition tokenAlarmPass :: "unit handler" where
  "tokenAlarmPass =
     bindP (look (\<lambda>now s. (now, sh_alarm s,
         scanDeadlines as_claim_deadline claim_deadline_prefix now s,
         scanDeadlines as_token_deadline retained_deadline_prefix now s,
         scanDeadlines as_token_deadline takeover_deadline_prefix now s)))
       (\<lambda>(now, firing, claims, retained, takeovers).
     bindP (tokenCompactClaims now (sc_due claims)) (\<lambda>_.
     bindP (txn (compactRetained now (sc_due retained))) (\<lambda>_.
     bindP (compactTakeovers (sc_due takeovers)) (\<lambda>_.
     txn (rearm (sc_more claims \<or> sc_more retained \<or> sc_more takeovers)
            [sc_next claims, sc_next retained, sc_next takeovers] (firing = None))))))"

definition tokenAlarm :: "unit handler" where
  "tokenAlarm = catchP tokenAlarmPass
     (\<lambda>_. txn (\<lambda>now s. Inr ((), s\<lparr>sh_alarm := Some (now + lifecycle_compaction_retry_ms)\<rparr>)))"

section \<open>The shard as a system\<close>

text \<open>\<open>ids\<close> names the hook a claim id was made for: clients draw a fresh id for every creation.  A
  client publishes, or reports as committed, only its own hook, and releases only claims whose
  creation is given up: \<open>given\<close>.\<close>

inductive token_request :: "(string \<Rightarrow> owner) \<Rightarrow> (string \<Rightarrow> bool) \<Rightarrow> unit handler \<Rightarrow> bool" for ids given where
  "token_request ids given (forget (tokenGet t))"
| "ids c = who \<Longrightarrow> token_request ids given (forget (tokenReserve n t who c))"
| "ids c = who \<Longrightarrow> token_request ids given (forget (forceReserve n L t who c preempt))"
| "(case reported of None \<Rightarrow> True | Some h \<Rightarrow> map_option fst wanted = Some (hook_owner h)) \<Longrightarrow>
     token_request ids given (forget (settleTakeover t wanted reported))"
| "hook_owner h = who \<Longrightarrow> token_request ids given (forget (finalize t h who c'))"
| "given c \<Longrightarrow> token_request ids given (tokenReleaseClaim t who c)"
| "(\<And>t who c. (t, who) \<in> set hs \<Longrightarrow> ids c = who \<Longrightarrow> given c) \<Longrightarrow>
     token_request ids given (forget (tokenReleaseBatch hs ended))"

text \<open>What the answers of run cells mean: a hook is the hook of the owner asked about, a claim that is
  answered with no hook is given up, and so are the claims of a run that is not active.\<close>

fun run_answer :: "(string \<Rightarrow> owner) \<Rightarrow> (string \<Rightarrow> bool) \<Rightarrow> query \<Rightarrow> reply \<Rightarrow> bool" where
  "run_answer ids given (Q_Status run) (A_Status l) \<longleftrightarrow>
     (l \<noteq> Life_Active \<longrightarrow> (\<forall>c. own_run (ids c) = run \<longrightarrow> given c))"
| "run_answer ids given (Q_Expired who c t) (A_Hook h) \<longleftrightarrow>
     (case h of None \<Rightarrow> given c | Some x \<Rightarrow> hook_owner x = who)"
| "run_answer ids given (Q_Committed who t) (A_Hook h) \<longleftrightarrow>
     (case h of None \<Rightarrow> True | Some x \<Rightarrow> hook_owner x = who)"
| "run_answer ids given (Q_Forced who t c victim) (A_Forced journaled h) \<longleftrightarrow>
     (case h of None \<Rightarrow> True | Some x \<Rightarrow> hook_owner x = who)"
| "run_answer ids given _ _ \<longleftrightarrow> True"

text \<open>Some runtimes clear the alarm before the handler starts, others after it.\<close>

inductive token_fire :: "int \<Rightarrow> shard \<Rightarrow> unit handler \<Rightarrow> shard \<Rightarrow> bool" where
  "sh_alarm s = Some a \<Longrightarrow> a \<le> now \<Longrightarrow> token_fire now s tokenAlarm (s\<lparr>sh_alarm := None\<rparr>)"
| "sh_alarm s = Some a \<Longrightarrow> a \<le> now \<Longrightarrow> token_fire now s tokenAlarm s"

end
