(* ===== verification/DeadlineKeys.thy ===== *)
theory DeadlineKeys
  imports HookTokens
begin

text \<open>
  The keys of deadline rows: fixed-width decimals, so that the lexicographic order of the keys is
  the order of the deadlines and the deadline can be read back from its key.
\<close>

section \<open>Fixed-width decimals\<close>

definition digits_value :: "string \<Rightarrow> int" where
  "digits_value cs = foldl (\<lambda>n c. 10 * n + (int (of_char c) - 48)) 0 cs"

lemma digits_value_Nil [simp]: "digits_value [] = 0"
  by (simp add: digits_value_def)

lemma digits_value_snoc: "digits_value (cs @ [c]) = 10 * digits_value cs + (int (of_char c) - 48)"
  by (simp add: digits_value_def)

definition is_digit :: "char \<Rightarrow> bool" where
  "is_digit c \<longleftrightarrow> 48 \<le> (of_char c :: nat) \<and> (of_char c :: nat) \<le> 57"

lemma digit_char_code: "d < 10 \<Longrightarrow> (of_char (digit_char d) :: nat) = 48 + d"
  by (simp add: digit_char_def)

lemma is_digit_char: "d < 10 \<Longrightarrow> is_digit (digit_char d)"
  by (simp add: is_digit_def digit_char_code)

lemma dec_nat_value: "digits_value (dec_nat n) = int n"
proof (induction n rule: dec_nat.induct)
  case (1 n)
  have small: "n < 10 \<Longrightarrow> digits_value [digit_char n] = int n"
    using digits_value_snoc [of "[]" "digit_char n"] by (simp add: digit_char_code)
  have "10 * int (n div 10) + int (n mod 10) = int n" by presburger
  then have "\<not> n < 10 \<Longrightarrow> digits_value (dec_nat (n div 10) @ [digit_char (n mod 10)]) = int n"
    using 1 by (simp add: digits_value_snoc digit_char_code)
  then show ?case using small by (simp add: dec_nat.simps [of n])
qed

lemma dec_nat_digits: "\<forall>c \<in> set (dec_nat n). is_digit c"
proof (induction n rule: dec_nat.induct)
  case (1 n)
  then show ?case by (cases "n < 10") (auto simp: dec_nat.simps [of n] is_digit_char)
qed

lemma dec_nat_length: "n < 10 ^ w \<Longrightarrow> 0 < w \<Longrightarrow> length (dec_nat n) \<le> w"
proof (induction n arbitrary: w rule: dec_nat.induct)
  case (1 n)
  show ?case
  proof (cases "n < 10")
    case True
    then show ?thesis using 1 by (simp add: dec_nat.simps [of n])
  next
    case False
    then obtain v where w: "w = Suc v" and v: "0 < v" using 1(2,3) by (cases w) (auto simp: not_less, cases "w = 1", auto)
    have "n div 10 < 10 ^ v" using 1(2) by (simp add: w less_mult_imp_div_less mult.commute)
    then show ?thesis using 1(1) [OF False _ v] False by (simp add: dec_nat.simps [of n] w)
  qed
qed

lemma digits_value_zeros: "digits_value (replicate k (CHR ''0'') @ cs) = digits_value cs"
proof -
  have "foldl (\<lambda>n c. 10 * n + (int (of_char c) - 48)) 0 (replicate k (CHR ''0'')) = 0"
    by (induction k) simp_all
  then show ?thesis by (simp add: digits_value_def)
qed

lemma pad_value: "0 \<le> t \<Longrightarrow> digits_value (pad t) = t"
  by (simp add: pad_def pad_dec_def pad_start_def digits_value_zeros dec_int_def dec_nat_value)

lemma pad_length: "0 \<le> t \<Longrightarrow> t < 10 ^ 13 \<Longrightarrow> length (pad t) = 13"
  using dec_nat_length [of "nat t" 13] by (simp add: pad_def pad_dec_def pad_start_def dec_int_def nat_less_iff)

lemma pad_digits: "0 \<le> t \<Longrightarrow> \<forall>c \<in> set (pad t). is_digit c"
  using dec_nat_digits [of "nat t"]
  by (auto simp: pad_def pad_dec_def pad_start_def dec_int_def is_digit_def)

section \<open>Order\<close>

lemma digits_value_Cons: "digits_value (c # cs) = (int (of_char c) - 48) * 10 ^ length cs + digits_value cs"
proof (induction cs rule: rev_induct)
  case Nil
  then show ?case by (simp add: digits_value_def)
next
  case (snoc d cs)
  have "digits_value (c # cs @ [d]) = 10 * digits_value (c # cs) + (int (of_char d) - 48)"
    using digits_value_snoc [of "c # cs" d] by simp
  then show ?case using snoc by (simp add: digits_value_snoc algebra_simps)
qed

lemma digits_value_bounds: "\<forall>c \<in> set cs. is_digit c \<Longrightarrow> 0 \<le> digits_value cs \<and> digits_value cs < 10 ^ length cs"
proof (induction cs)
  case (Cons c cs)
  let ?d = "int (of_char c) - 48" and ?p = "(10 :: int) ^ length cs"
  have d: "0 \<le> ?d" "?d \<le> 9" using Cons.prems by (auto simp: is_digit_def)
  have r: "0 \<le> digits_value cs" "digits_value cs < ?p" using Cons by auto
  have "0 \<le> ?d * ?p" using d(1) by simp
  moreover have "?d * ?p \<le> 9 * ?p" by (rule mult_right_mono [OF d(2)]) simp
  moreover have "digits_value (c # cs) = ?d * ?p + digits_value cs" "(10 :: int) ^ length (c # cs) = 10 * ?p"
    by (simp_all add: digits_value_Cons)
  ultimately show ?case using r by linarith
qed simp

lemma digits_order:
  assumes "length cs = length ds" "\<forall>c \<in> set cs. is_digit c" "\<forall>c \<in> set ds. is_digit c"
  shows "digits_value cs < digits_value ds \<longleftrightarrow> cs < ds"
  using assms
proof (induction cs ds rule: list_induct2)
  case (Cons c cs d ds)
  let ?p = "(10 :: int) ^ length ds"
  have b: "0 \<le> digits_value cs" "digits_value cs < ?p" "0 \<le> digits_value ds" "digits_value ds < ?p"
    using digits_value_bounds [of cs] digits_value_bounds [of ds] Cons.prems Cons.hyps by auto
  have lt: "x < y \<Longrightarrow> (int x - 48) * ?p + digits_value xs < (int y - 48) * ?p + digits_value ys"
    if "digits_value xs < ?p" "0 \<le> digits_value ys" for x y :: nat and xs ys
  proof -
    assume "x < y"
    then have "int x - 48 + 1 \<le> int y - 48" by simp
    then have "(int x - 48 + 1) * ?p \<le> (int y - 48) * ?p" by (rule mult_right_mono) simp
    then show ?thesis using that by (simp add: algebra_simps)
  qed
  consider "(of_char c :: nat) < of_char d" | "c = d" | "(of_char d :: nat) < of_char c"
    by (metis linorder_cases of_char_eq_iff)
  then show ?case
  proof cases
    case 1
    then show ?thesis using lt [OF b(2,3) 1] Cons.hyps by (simp add: digits_value_Cons less_char_def)
  next
    case 2
    then show ?thesis using Cons by (simp add: digits_value_Cons)
  next
    case 3
    have "\<not> c < d" "c \<noteq> d" using 3 by (auto simp: less_char_def)
    then show ?thesis using lt [OF b(4,1) 3] Cons.hyps by (simp add: digits_value_Cons)
  qed
qed simp

section \<open>Keys\<close>

lemma append_less_same: "(p @ xs < p @ ys) \<longleftrightarrow> xs < (ys :: string)"
  by (induction p) simp_all

lemma append_less_first:
  "length xs = length ys \<Longrightarrow> xs \<noteq> ys \<Longrightarrow> (xs @ us < ys @ vs) \<longleftrightarrow> xs < (ys :: string)"
  by (induction xs ys rule: list_induct2) auto

lemma pad_order:
  assumes "0 \<le> t" "t < 10 ^ 13" "0 \<le> u" "u < 10 ^ 13"
  shows "t < u \<longleftrightarrow> pad t < pad u"
  using digits_order [of "pad t" "pad u"] assms by (simp add: pad_length pad_digits pad_value)

lemma deadlineKey_order:
  assumes "0 \<le> t" "t < u" "u < 10 ^ 13"
  shows "deadlineKey p a t < deadlineKey p b u"
proof -
  have "pad t < pad u" using pad_order [of t u] assms by simp
  moreover have "length (pad t) = length (pad u)" using assms by (simp add: pad_length)
  ultimately show ?thesis
    unfolding deadlineKey_def append_less_same by (subst append_less_first) auto
qed

lemma deadlineAt_eq: "deadlineAt p k = digits_value (take 13 (drop (length p) k))"
  by (simp add: deadlineAt_def digits_value_def)

lemma deadlineAt_key: "0 \<le> t \<Longrightarrow> t < 10 ^ 13 \<Longrightarrow> deadlineAt p (deadlineKey p a t) = t"
  by (simp add: deadlineAt_eq deadlineKey_def pad_length pad_value)

lemma deadlineKey_inj:
  assumes "0 \<le> t" "t < 10 ^ 13" "0 \<le> u" "u < 10 ^ 13"
  shows "deadlineKey p a t = deadlineKey p b u \<longleftrightarrow> a = b \<and> t = u"
proof
  assume e: "deadlineKey p a t = deadlineKey p b u"
  then have "t = u" using deadlineAt_key [of t p a] deadlineAt_key [of u p b] assms by simp
  then show "a = b \<and> t = u" using e by (simp add: deadlineKey_def encodeURIComponent_inj)
qed simp

text \<open>A listing up to \<open>pad (now + 1)\<close> holds exactly the rows that are due.\<close>

lemma due_key:
  assumes "0 \<le> t" "t < 10 ^ 13" "0 \<le> now" "now + 1 < 10 ^ 13"
  shows "deadlineKey p a t < p @ pad (now + 1) \<longleftrightarrow> t \<le> now"
proof -
  have len: "length (pad t) = length (pad (now + 1))" using assms by (simp add: pad_length)
  have "deadlineKey p a t < p @ pad (now + 1) \<longleftrightarrow> pad t < pad (now + 1)"
  proof (cases "t = now + 1")
    case True
    have "\<not> xs @ ys < (xs :: string)" for xs ys by (induction xs) auto
    then show ?thesis using True by (simp add: deadlineKey_def append_less_same)
  next
    case False
    then have "pad t \<noteq> pad (now + 1)" using pad_value [of t] pad_value [of "now + 1"] assms by auto
    then show ?thesis
      unfolding deadlineKey_def append_less_same
      using append_less_first [OF len, of _ "[]"] by simp
  qed
  then show ?thesis using pad_order [of t "now + 1"] assms by auto
qed

end
