(* ===== verification/HookIds.thy ===== *)
theory HookIds
  imports HookShard
begin

text \<open>
  The hook id shard (\<open>src/worker/durable-objects/HookIdDO.ts\<close>): one transaction domain per hook
  id, holding either the published record or a leased claim of the creation under way.  The
  \<open>for(;;)\<close> of \<open>reserve\<close> is a number of rounds; storage operations with no call to another cell
  between them are one piece of work, as the platform's input gate makes them.
\<close>

definition id_record_key :: "string \<Rightarrow> string" where "id_record_key = indexKey ''hookid''"
definition id_claim_key :: "string \<Rightarrow> string" where "id_claim_key = indexKey ''claim''"

section \<open>Lookup\<close>

definition idGet :: "string \<Rightarrow> hook option handler" where
  "idGet hookId =
     bindP (look (\<lambda>now. get_record (id_record_key hookId))) (\<lambda>indexed.
     bindP (case indexed of
              Some h \<Rightarrow> Return (Some h)
            | None \<Rightarrow> publishCommittedClaim (id_record_key hookId) (id_claim_key hookId) None) (\<lambda>raw.
       case raw of
         None \<Rightarrow> Return None
       | Some h \<Rightarrow> bindP (runIsActive (hook_run h)) (\<lambda>active. Return (if active then Some h else None))))"

section \<open>Reservation\<close>

definition idReserveTxn ::
    "string \<Rightarrow> owner \<Rightarrow> string \<Rightarrow> hook_claim option \<Rightarrow> hook option \<Rightarrow> int \<Rightarrow> shard \<Rightarrow> hook_exn + round \<times> shard" where
  "idReserveTxn hookId who proposed expired committed now s =
     (let kc = id_claim_key hookId in
      case get_record (id_record_key hookId) s of
        Some h \<Rightarrow> Inr (Answered (Held (hook_owner h)), s)
      | None \<Rightarrow>
          (let grant = (\<lambda>s. Inr (Answered (Claimed proposed), put_claim kc hookId (new_claim hookId who proposed now) s))
           in case get_claim kc s of
             None \<Rightarrow> grant s
           | Some c \<Rightarrow>
               if hc_expires_at c \<le> now then
                 (if map_option hc_id expired \<noteq> Some (hc_id c)
                      \<or> map_option hc_expires_at expired \<noteq> Some (hc_expires_at c)
                  then Inr (Again, s)
                  else if committed \<noteq> None then
                    Inr (Answered (if hc_owner c = who then Claimed (hc_id c) else Held (hc_owner c)),
                         renewClaim kc hookId c now s)
                  else grant (del_shard [kc, hc_deadline c] s))
               else if hc_owner c \<noteq> who then Inr (Answered (Held (hc_owner c)), s)
               else if hc_id c \<noteq> proposed then grant (del_shard [hc_deadline c] s)
               else Inr (Answered (Claimed (hc_id c)), s)))"

fun idReserve :: "nat \<Rightarrow> string \<Rightarrow> owner \<Rightarrow> string \<Rightarrow> claim_result handler" where
  "idReserve 0 hookId who proposed = Throw Out_Of_Rounds"
| "idReserve (Suc n) hookId who proposed =
     bindP (look (expired_claim (id_claim_key hookId))) (\<lambda>expired.
     bindP (case expired of
              None \<Rightarrow> Return None
            | Some c \<Rightarrow> askExpiredClaim (hc_owner c) (hc_id c) None) (\<lambda>committed.
     bindP (txn (idReserveTxn hookId who proposed expired committed)) (\<lambda>r.
       case r of Answered x \<Rightarrow> Return x | _ \<Rightarrow> idReserve n hookId who proposed)))"

section \<open>Release\<close>

text \<open>The keys a batch deletes, from the values read at its start: records and claims, which are
  counted, and the deadline rows of the claims.\<close>

definition idReleaseKeys :: "shard \<Rightarrow> string \<times> owner \<Rightarrow> string list \<times> string list" where
  "idReleaseKeys s = (\<lambda>(hookId, who).
     (let r = get_record (id_record_key hookId) s; c = get_claim (id_claim_key hookId) s;
          mine = (case c of None \<Rightarrow> False | Some x \<Rightarrow> hc_owner x = who)
      in ((if map_option hook_owner r = Some who then [id_record_key hookId] else [])
            @ (if mine then [id_claim_key hookId] else []),
          if mine then [hc_deadline (the c)] else [])))"

definition idReleaseTxn :: "(string \<times> owner) list \<Rightarrow> int \<Rightarrow> shard \<Rightarrow> hook_exn + nat \<times> shard" where
  "idReleaseTxn hooks now s =
     (let ks = map (idReleaseKeys s) hooks; deletes = concat (map fst ks); rows = concat (map snd ks)
      in Inr (kv_del_count deletes (sh_kv s), del_shard rows (del_shard deletes s)))"

definition idReleaseBatch :: "(string \<times> owner) list \<Rightarrow> nat handler" where
  "idReleaseBatch hooks =
     (if length hooks > max_release_batch then Throw Batch_Too_Large
      else if hooks = [] then Return 0
      else txn (idReleaseTxn hooks))"

definition idReleaseClaim :: "string \<Rightarrow> owner \<Rightarrow> string \<Rightarrow> unit handler" where
  "idReleaseClaim hookId who claimId = txn (releaseOwnClaim (id_claim_key hookId) who claimId)"

section \<open>Publication\<close>

definition idPublishTxn ::
    "string \<Rightarrow> hook \<Rightarrow> owner \<Rightarrow> string option \<Rightarrow> int \<Rightarrow> shard \<Rightarrow> hook_exn + bool \<times> shard" where
  "idPublishTxn hookId h who claimId now s =
     (let kr = id_record_key hookId; kc = id_claim_key hookId;
          indexed = get_record kr s; claim = get_claim kc s in
      bindE (ensure (case indexed of None \<Rightarrow> True | Some r \<Rightarrow> hook_owner r = who) Owned_By_Another) (\<lambda>_.
      bindE (ensure (case claim of None \<Rightarrow> True | Some c \<Rightarrow> now < hc_expires_at c) Reservation_Expired) (\<lambda>_.
      bindE (ensure (case claim of None \<Rightarrow> True | Some c \<Rightarrow> hc_owner c = who \<and> Some (hc_id c) = claimId)
        Reserved_By_Another) (\<lambda>_.
      bindE (ensure (indexed \<noteq> None \<or> claim \<noteq> None) No_Reservation) (\<lambda>_.
      let s = put_shard kr (HRecord h) s;
          s = (case claim of None \<Rightarrow> s | Some c \<Rightarrow> del_shard [kc, hc_deadline c] s)
      in Inr (True, s))))))"

definition idPublish :: "string \<Rightarrow> hook \<Rightarrow> owner \<Rightarrow> string option \<Rightarrow> bool handler" where
  "idPublish hookId h who claimId =
     bindP (runIsActive (own_run who)) (\<lambda>active.
       if \<not> active then bindP (idReleaseBatch [(hookId, who)]) (\<lambda>_. Return False)
       else txn (idPublishTxn hookId h who claimId))"

section \<open>Compaction\<close>

definition due_query :: "int \<Rightarrow> kv_query" where
  "due_query now = (prefix_query claim_deadline_prefix)
     \<lparr>q_end := Some (claim_deadline_prefix @ pad (now + 1)), q_limit := Some (lifecycle_compaction_batch + 1)\<rparr>"

text \<open>The alarm after the transaction: at once if the page was full, else at the first deadline left.\<close>

definition idRearm :: "int \<Rightarrow> bool \<Rightarrow> shard \<Rightarrow> shard" where
  "idRearm now full s =
     (if full then s\<lparr>sh_alarm := Some (now + 1)\<rparr>
      else case claim_rows ((prefix_query claim_deadline_prefix)\<lparr>q_limit := Some 1\<rparr>) s of
        [] \<Rightarrow> s\<lparr>sh_alarm := None\<rparr>
      | row # _ \<Rightarrow> s\<lparr>sh_alarm := Some (max (now + 1) (cd_expires_at (snd row)))\<rparr>)"

definition idCompactTxn ::
    "int \<Rightarrow> bool \<Rightarrow> (string \<times> claim_deadline) list \<Rightarrow> (string \<Rightarrow> hook_claim option) \<Rightarrow> (string \<Rightarrow> hook option)
      \<Rightarrow> int \<Rightarrow> shard \<Rightarrow> hook_exn + (string \<times> owner) list \<times> shard" where
  "idCompactTxn started full page found answers now s =
     (let (s', deletes, published) = compactRows id_record_key id_claim_key started
            (\<lambda>i. get_claim (id_claim_key i) s) page found answers s
      in Inr (published, idRearm started full (del_shard deletes s')))"

definition idCompactClaims :: "unit handler" where
  "idCompactClaims =
     bindP (look (\<lambda>now s.
         let due = claim_rows (due_query now) s; page = take lifecycle_compaction_batch due
         in (now, length due > lifecycle_compaction_batch, page, \<lambda>i. get_claim (id_claim_key i) s)))
       (\<lambda>(started, full, page, found).
     bindP (askOwners started (\<lambda>_. None) page found) (\<lambda>answers.
     bindP (txn (idCompactTxn started full page found answers)) (\<lambda>published.
     bindP (eachP (\<lambda>(i, who). confirmRepublished (id_record_key i) who None) published) (\<lambda>_.
     Return ()))))"

definition idAlarm :: "unit handler" where
  "idAlarm = catchP idCompactClaims
     (\<lambda>_. txn (\<lambda>now s. Inr ((), s\<lparr>sh_alarm := Some (now + lifecycle_compaction_retry_ms)\<rparr>)))"

section \<open>The shard as a system\<close>

inductive id_request :: "unit handler \<Rightarrow> bool" where
  "id_request (forget (idGet i))"
| "id_request (forget (idReserve n i who c))"
| "id_request (forget (idPublish i h who c'))"
| "id_request (idReleaseClaim i who c)"
| "id_request (forget (idReleaseBatch hs))"

text \<open>A due alarm is cleared and its handler started.\<close>

inductive id_fire :: "int \<Rightarrow> shard \<Rightarrow> unit handler \<Rightarrow> shard \<Rightarrow> bool" where
  "sh_alarm s = Some a \<Longrightarrow> a \<le> now \<Longrightarrow> id_fire now s idAlarm (s\<lparr>sh_alarm := None\<rparr>)"

end
