(* ===== verification/ShardFacts.thy ===== *)
theory ShardFacts
  imports DeadlineKeys HookIds
begin

text \<open>
  Reads and writes of a hook index shard, and the keys that never coincide; the collection
  \<open>shard_simps\<close> evaluates what a transaction leaves at a key.
\<close>

section \<open>Reads after writes\<close>

named_theorems shard_simps "reads of a hook shard after a write"

definition get_row :: "string \<Rightarrow> shard \<Rightarrow> claim_deadline option" where
  "get_row k s = Option.bind (kv_get k (sh_kv s)) as_claim_deadline"

lemmas shard_reads = get_record_def get_claim_def get_retained_def get_takeover_def get_row_def

lemma reads_put [shard_simps]:
  "get_record k (put_shard k' v s) = (if k = k' then as_record v else get_record k s)"
  "get_claim k (put_shard k' v s) = (if k = k' then as_claim v else get_claim k s)"
  "get_retained k (put_shard k' v s) = (if k = k' then as_retained v else get_retained k s)"
  "get_takeover k (put_shard k' v s) = (if k = k' then as_takeover v else get_takeover k s)"
  "get_row k (put_shard k' v s) = (if k = k' then as_claim_deadline v else get_row k s)"
  by (simp_all add: shard_reads put_shard_def)

lemma reads_del [shard_simps]:
  "get_record k (del_shard ks s) = (if k \<in> set ks then None else get_record k s)"
  "get_claim k (del_shard ks s) = (if k \<in> set ks then None else get_claim k s)"
  "get_retained k (del_shard ks s) = (if k \<in> set ks then None else get_retained k s)"
  "get_takeover k (del_shard ks s) = (if k \<in> set ks then None else get_takeover k s)"
  "get_row k (del_shard ks s) = (if k \<in> set ks then None else get_row k s)"
  by (simp_all add: shard_reads del_shard_def)

lemma reads_alarm [shard_simps]:
  "get_record k (s\<lparr>sh_alarm := a\<rparr>) = get_record k s"
  "get_claim k (s\<lparr>sh_alarm := a\<rparr>) = get_claim k s"
  "get_retained k (s\<lparr>sh_alarm := a\<rparr>) = get_retained k s"
  "get_takeover k (s\<lparr>sh_alarm := a\<rparr>) = get_takeover k s"
  "get_row k (s\<lparr>sh_alarm := a\<rparr>) = get_row k s"
  by (simp_all add: shard_reads)

lemma reads_arm [shard_simps]:
  "get_record k (armAtMost t s) = get_record k s"
  "get_claim k (armAtMost t s) = get_claim k s"
  "get_retained k (armAtMost t s) = get_retained k s"
  "get_takeover k (armAtMost t s) = get_takeover k s"
  "get_row k (armAtMost t s) = get_row k s"
  by (simp_all add: armAtMost_def shard_reads)

lemma alarm_put [shard_simps]: "sh_alarm (put_shard k v s) = sh_alarm s" "sh_alarm (del_shard ks s) = sh_alarm s"
  by (simp_all add: put_shard_def del_shard_def)

lemma armed [shard_simps]: "sh_alarm (armAtMost t s) \<noteq> None"
  by (simp add: armAtMost_def split: option.splits)

definition shard_wf :: "shard \<Rightarrow> bool" where "shard_wf s \<longleftrightarrow> kv_wf (sh_kv s)"

lemma shard_wf_writes [simp]:
  "shard_wf s \<Longrightarrow> shard_wf (put_shard k v s)" "shard_wf s \<Longrightarrow> shard_wf (del_shard ks s)"
  "shard_wf s \<Longrightarrow> shard_wf (armAtMost t s)" "shard_wf (s\<lparr>sh_alarm := a\<rparr>) = shard_wf s"
  by (simp_all add: shard_wf_def put_shard_def del_shard_def armAtMost_def kv_wf_put kv_wf_del_all)

section \<open>Keys\<close>

lemma indexKey_inj [simp]: "indexKey p a = indexKey p b \<longleftrightarrow> a = b"
  by (simp add: indexKey_def encodeURIComponent_inj)

lemmas slot_key_defs = tokenRecordKey_def tokenClaimKey_def retainedKey_def takeoverKey_def
  id_record_key_def id_claim_key_def

lemma slot_keys [simp]:
  "tokenRecordKey a = tokenRecordKey b \<longleftrightarrow> a = b" "tokenClaimKey a = tokenClaimKey b \<longleftrightarrow> a = b"
  "retainedKey a = retainedKey b \<longleftrightarrow> a = b" "takeoverKey a = takeoverKey b \<longleftrightarrow> a = b"
  "id_record_key a = id_record_key b \<longleftrightarrow> a = b" "id_claim_key a = id_claim_key b \<longleftrightarrow> a = b"
  by (simp_all add: slot_key_defs)

lemma slot_keys_differ [simp]:
  "tokenRecordKey a \<noteq> tokenClaimKey b" "tokenRecordKey a \<noteq> retainedKey b" "tokenRecordKey a \<noteq> takeoverKey b"
  "tokenClaimKey a \<noteq> retainedKey b" "tokenClaimKey a \<noteq> takeoverKey b" "retainedKey a \<noteq> takeoverKey b"
  "id_record_key a \<noteq> id_claim_key b"
  by (simp_all add: slot_key_defs indexKey_def)

lemmas slot_keys_differ' [simp] = slot_keys_differ [symmetric]

text \<open>Keys of deadline rows.\<close>

definition row_key :: "string \<Rightarrow> bool" where
  "row_key k \<longleftrightarrow> has_prefix claim_deadline_prefix k \<or> has_prefix retained_deadline_prefix k
     \<or> has_prefix takeover_deadline_prefix k"

lemma row_key_deadline [simp]:
  "row_key (deadlineKey claim_deadline_prefix a t)" "row_key (deadlineKey retained_deadline_prefix a t)"
  "row_key (deadlineKey takeover_deadline_prefix a t)"
  by (simp_all add: row_key_def deadlineKey_def)

lemma slot_not_row [simp]:
  "\<not> row_key (tokenRecordKey a)" "\<not> row_key (tokenClaimKey a)" "\<not> row_key (retainedKey a)"
  "\<not> row_key (takeoverKey a)" "\<not> row_key (id_record_key a)" "\<not> row_key (id_claim_key a)"
  by (simp_all add: row_key_def slot_key_defs indexKey_def has_prefix_iff claim_deadline_prefix_def
      retained_deadline_prefix_def takeover_deadline_prefix_def)

lemma slot_neq_row [simp]:
  "row_key d \<Longrightarrow> tokenRecordKey a \<noteq> d" "row_key d \<Longrightarrow> tokenClaimKey a \<noteq> d" "row_key d \<Longrightarrow> retainedKey a \<noteq> d"
  "row_key d \<Longrightarrow> takeoverKey a \<noteq> d" "row_key d \<Longrightarrow> id_record_key a \<noteq> d" "row_key d \<Longrightarrow> id_claim_key a \<noteq> d"
  "row_key d \<Longrightarrow> d \<noteq> tokenRecordKey a" "row_key d \<Longrightarrow> d \<noteq> tokenClaimKey a" "row_key d \<Longrightarrow> d \<noteq> retainedKey a"
  "row_key d \<Longrightarrow> d \<noteq> takeoverKey a" "row_key d \<Longrightarrow> d \<noteq> id_record_key a" "row_key d \<Longrightarrow> d \<noteq> id_claim_key a"
  by auto

section \<open>Handlers\<close>

lemma safe_forget:
  assumes "safe I G R A (\<lambda>_ _ _. True) p t s"
  shows "safe I G R A (\<lambda>_ _ _. True) (forget p) t s"
  unfolding forget_def by (rule safe_bind, rule safe_mono [OF assms]) simp

lemma safe_case_option:
  "(x = None \<Longrightarrow> safe I G R A Q p t s) \<Longrightarrow> (\<And>y. x = Some y \<Longrightarrow> safe I G R A Q (f y) t s) \<Longrightarrow>
   safe I G R A Q (case x of None \<Rightarrow> p | Some y \<Rightarrow> f y) t s"
  by (cases x) simp_all

lemma safe_if:
  "(b \<Longrightarrow> safe I G R A Q p t s) \<Longrightarrow> (\<not> b \<Longrightarrow> safe I G R A Q q t s) \<Longrightarrow> safe I G R A Q (if b then p else q) t s"
  by simp

lemma safe_ask:
  "(\<And>a. A q a \<Longrightarrow> safe I G R A Q (k a) t s) \<Longrightarrow> safe I G R A Q (Ask q k) t s"
  by simp

lemma safe_askHook:
  assumes "\<And>h. A q (A_Hook h) \<Longrightarrow> Q h t s"
  shows "safe I G R A Q (askHook q) t s"
  unfolding askHook_def using assms by (auto intro!: safe_ask split: reply.splits)

lemma safe_active:
  assumes "\<And>b. Q b t s"
  shows "safe I G R A Q (runIsActive i) t s"
  unfolding runIsActive_def using assms by (auto intro!: safe_ask split: reply.splits)

end
