(* ===== verification/TokenFacts.thy ===== *)
theory TokenFacts
  imports ShardFacts
begin

text \<open>
  What every piece of work of a token shard keeps: a token with a claim has neither record nor
  pending takeover, a pending takeover names the holder as its victim; and what it may change: the
  holder only to the claimer of the pending takeover, a claim only into the record of its hook or
  when its creation is given up.
\<close>

abbreviation token_record :: "string \<Rightarrow> shard \<Rightarrow> hook option" where
  "token_record t \<equiv> get_record (tokenRecordKey t)"
abbreviation token_claim :: "string \<Rightarrow> shard \<Rightarrow> hook_claim option" where
  "token_claim t \<equiv> get_claim (tokenClaimKey t)"
abbreviation token_retained :: "string \<Rightarrow> shard \<Rightarrow> retained_token option" where
  "token_retained t \<equiv> get_retained (retainedKey t)"
abbreviation token_takeover :: "string \<Rightarrow> shard \<Rightarrow> hook_takeover option" where
  "token_takeover t \<equiv> get_takeover (takeoverKey t)"

section \<open>Invariant and guarantee\<close>

definition token_slot :: "(string \<Rightarrow> owner) \<Rightarrow> string \<Rightarrow> shard \<Rightarrow> bool" where
  "token_slot ids t s \<longleftrightarrow>
     (\<forall>c. token_claim t s = Some c \<longrightarrow>
        token_record t s = None \<and> token_takeover t s = None \<and> ids (hc_id c) = hc_owner c \<and> row_key (hc_deadline c)) \<and>
     (\<forall>r. token_retained t s = Some r \<longrightarrow> row_key (rt_deadline r)) \<and>
     (\<forall>k. token_takeover t s = Some k \<longrightarrow>
        ids (ht_claim k) = ht_claimer k \<and> row_key (ht_deadline k) \<and>
        (\<forall>h. token_record t s = Some h \<longrightarrow> hook_owner h = ht_victim k))"

definition token_moves :: "(string \<Rightarrow> bool) \<Rightarrow> string \<Rightarrow> shard \<Rightarrow> shard \<Rightarrow> bool" where
  "token_moves given t s s' \<longleftrightarrow>
     (\<forall>h h'. token_record t s = Some h \<longrightarrow> token_record t s' = Some h' \<longrightarrow> hook_owner h' \<noteq> hook_owner h \<longrightarrow>
        token_takeover t s' = None \<and>
        (\<exists>k. token_takeover t s = Some k \<and> hook_owner h = ht_victim k \<and> hook_owner h' = ht_claimer k)) \<and>
     (\<forall>c. token_claim t s = Some c \<longrightarrow>
        (\<exists>c'. token_claim t s' = Some c' \<and> hc_id c' = hc_id c) \<or>
        (\<exists>h. token_record t s' = Some h \<and> hook_owner h = hc_owner c) \<or>
        given (hc_id c))"

definition token_ok :: "(string \<Rightarrow> owner) \<Rightarrow> shard \<Rightarrow> bool" where
  "token_ok ids s \<longleftrightarrow> (\<forall>t. token_slot ids t s)"

definition token_guar :: "(string \<Rightarrow> bool) \<Rightarrow> int \<Rightarrow> shard \<Rightarrow> shard \<Rightarrow> bool" where
  "token_guar given now s s' \<longleftrightarrow> (\<forall>t. token_moves given t s s')"

definition later :: "int \<Rightarrow> shard \<Rightarrow> int \<Rightarrow> shard \<Rightarrow> bool" where
  "later t s now s' \<longleftrightarrow> t \<le> now"

interpretation token: rely_guarantee "\<lambda>_. True" "token_ok ids" "token_guar given" later
  by unfold_locales (auto simp: later_def)

abbreviation token_safe where
  "token_safe ids given \<equiv> safe (token_ok ids) (token_guar given) later (run_answer ids given)"

definition token_step :: "(string \<Rightarrow> owner) \<Rightarrow> (string \<Rightarrow> bool) \<Rightarrow> shard \<Rightarrow> shard \<Rightarrow> bool" where
  "token_step ids given s s' \<longleftrightarrow> token_ok ids s' \<and> (\<forall>now. token_guar given now s s')"

lemma token_moves_refl: "token_moves given t s s"
  by (auto simp: token_moves_def)

lemma token_step_refl: "token_ok ids s \<Longrightarrow> token_step ids given s s"
  by (simp add: token_step_def token_guar_def token_moves_refl)

definition same_slots :: "string \<Rightarrow> shard \<Rightarrow> shard \<Rightarrow> bool" where
  "same_slots t s s' \<longleftrightarrow> token_record t s' = token_record t s \<and> token_claim t s' = token_claim t s
     \<and> token_retained t s' = token_retained t s \<and> token_takeover t s' = token_takeover t s"

lemma same_slots_ok: "same_slots t s s' \<Longrightarrow> token_slot ids t s' = token_slot ids t s"
  by (simp add: same_slots_def token_slot_def)

lemma same_slots_moves: "same_slots t s s' \<Longrightarrow> token_moves given t s s'"
  by (auto simp: same_slots_def token_moves_def)

lemma token_step_at:
  assumes "token_ok ids s" "\<And>t'. t' \<noteq> t \<Longrightarrow> same_slots t' s s'" "token_slot ids t s'" "token_moves given t s s'"
  shows "token_step ids given s s'"
proof -
  have "token_slot ids t' s' \<and> token_moves given t' s s'" for t'
    using assms same_slots_ok [of t' s s' ids] same_slots_moves [of t' s s' given]
    by (cases "t' = t") (auto simp: token_ok_def)
  then show ?thesis by (simp add: token_step_def token_ok_def token_guar_def)
qed

lemma safe_token_txn:
  assumes "\<And>now s1. token_ok ids s1 \<Longrightarrow> t \<le> now \<Longrightarrow> (case f now s1 of
     Inl e \<Rightarrow> True | Inr (x, s') \<Rightarrow> token_step ids given s1 s' \<and> Q x now s')"
  shows "token_safe ids given Q (txn f) t s"
proof (rule safe_txn)
  fix now s1 assume "later t s now s1" and ok: "token_ok ids s1"
  then show "case f now s1 of Inl e \<Rightarrow> token_guar given now s1 s1
      | Inr (x, s') \<Rightarrow> token_ok ids s' \<and> token_guar given now s1 s' \<and> Q x now s'"
    using assms [OF ok, of now] token_step_refl [OF ok, of given]
    by (auto simp: token_step_def later_def split: sum.splits)
qed

lemma safe_token_look:
  assumes "\<And>now s1. token_ok ids s1 \<Longrightarrow> Q (f now s1) now s1"
  shows "token_safe ids given Q (look f) t s"
  by (rule safe_look) (simp add: assms token_guar_def token_moves_refl)

section \<open>The transactions\<close>

lemmas token_evals = token_slot_def token_moves_def same_slots_def shard_simps

lemma token_slotD: "token_ok ids s \<Longrightarrow> token_slot ids t s"
  by (simp add: token_ok_def)

lemma withdraw_step:
  assumes "token_ok ids s"
  shows "case withdrawRecord (tokenRecordKey t) who now s of Inl e \<Rightarrow> True | Inr (x, s') \<Rightarrow> token_step ids given s s'"
  using token_slotD [OF assms, of t] token_step_refl [OF assms]
  by (auto simp: withdrawRecord_def split: option.splits intro!: token_step_at [OF assms, of t])
    (auto simp: token_evals)

lemma publishClaim_step:
  assumes "token_ok ids s" "ids (hc_id c) = hook_owner h"
  shows "case publishClaim (tokenRecordKey t) (tokenClaimKey t) c h now s of
     Inl e \<Rightarrow> True | Inr (x, s') \<Rightarrow> token_step ids given s s'"
  using token_slotD [OF assms(1), of t] token_step_refl [OF assms(1)] assms(2)
  by (auto simp: publishClaim_def split: option.splits intro!: token_step_at [OF assms(1), of t])
    (auto simp: token_evals)

lemma releaseOwnClaim_step:
  assumes "token_ok ids s" "given c"
  shows "case releaseOwnClaim (tokenClaimKey t) who c now s of Inl e \<Rightarrow> True | Inr (x, s') \<Rightarrow> token_step ids given s s'"
  using token_slotD [OF assms(1), of t] token_step_refl [OF assms(1)] assms(2)
  by (auto simp: releaseOwnClaim_def split: option.splits intro!: token_step_at [OF assms(1), of t])
    (auto simp: token_evals)

lemma dropTakeover_step:
  assumes "token_ok ids s" "row_key (ht_deadline k)"
  shows "case dropTakeover t k now s of Inl e \<Rightarrow> True | Inr (x, s') \<Rightarrow> token_step ids given s s'"
  using token_slotD [OF assms(1), of t] token_step_refl [OF assms(1)] assms(2)
  by (auto simp: dropTakeover_def Let_def split: option.splits intro!: token_step_at [OF assms(1), of t])
    (auto simp: token_evals)

lemma rollForward_step:
  assumes "token_ok ids s" "row_key (ht_deadline k)" "ids (ht_claim k) = ht_claimer k"
    "case hook of None \<Rightarrow> True | Some h \<Rightarrow> hook_owner h = ht_claimer k"
  shows "case rollForwardTxn t k hook now s of Inl e \<Rightarrow> True | Inr (x, s') \<Rightarrow> token_step ids given s s'"
  using token_slotD [OF assms(1), of t] token_step_refl [OF assms(1)] assms(2-)
  by (auto simp: rollForwardTxn_def Let_def split: option.splits intro!: token_step_at [OF assms(1), of t])
    (auto simp: token_evals)

lemma preempt_step:
  assumes "token_ok ids s" "case hook of None \<Rightarrow> given (hc_id c) | Some h \<Rightarrow> hook_owner h = ids (hc_id c)"
  shows "case preemptTxn t c hook now s of Inl e \<Rightarrow> True | Inr (x, s') \<Rightarrow> token_step ids given s s'"
  using token_slotD [OF assms(1), of t] token_step_refl [OF assms(1)] assms(2)
  by (auto simp: preemptTxn_def split: option.splits intro!: token_step_at [OF assms(1), of t])
    (auto simp: token_evals)

lemma intent_step:
  assumes "token_ok ids s" "ids c = who"
  shows "case intentTxn t who c h r f b now s of Inl e \<Rightarrow> True | Inr (x, s') \<Rightarrow> token_step ids given s s'"
  using token_slotD [OF assms(1), of t] token_step_refl [OF assms(1)] assms(2)
  by (auto simp: intentTxn_def Let_def split: option.splits intro!: token_step_at [OF assms(1), of t])
    (auto simp: token_evals)

lemma finalize_step:
  assumes "token_ok ids s" "hook_owner h = who"
  shows "case finalizeTxn t h who c active now s of Inl e \<Rightarrow> True | Inr (x, s') \<Rightarrow> token_step ids given s s'"
proof (cases "finalizeTxn t h who c active now s")
  case (Inr r)
  obtain x s' where r: "r = (x, s')" by force
  have "token_step ids given s s'"
    using Inr token_slotD [OF assms(1), of t] assms(2) unfolding r
    by (auto simp: finalizeTxn_def Let_def bindE_split retain_def markRetained_def split: option.splits
        intro!: token_step_at [OF assms(1), of t])
      (auto simp: token_evals)
  then show ?thesis by (simp add: Inr r)
qed simp

lemma tokenReserve_step:
  assumes ok: "token_ok ids s" and "ids proposed = who"
    and "\<And>c. expired = Some c \<Longrightarrow> committed = None \<Longrightarrow> given (hc_id c)"
  shows "case tokenReserveTxn t who proposed expired committed now s of
     Inl e \<Rightarrow> True | Inr (x, s') \<Rightarrow> token_step ids given s s'"
proof (cases "tokenReserveTxn t who proposed expired committed now s")
  case (Inr r)
  obtain x s' where r: "r = (x, s')" by force
  have "token_step ids given s s'"
    using Inr token_slotD [OF ok, of t] token_step_refl [OF ok] assms(2,3) unfolding r
    by (auto simp: tokenReserveTxn_def Let_def freeExpiredRetention_def renewClaim_def put_claim_def new_claim_def
        split: option.splits if_splits prod.splits intro!: token_step_at [OF ok, of t])
      (auto simp: token_evals)
  then show ?thesis by (simp add: Inr r)
qed simp

text \<open>Work that only drops records, retained markers and claims given up.\<close>

definition token_drops :: "(string \<Rightarrow> bool) \<Rightarrow> shard \<Rightarrow> shard \<Rightarrow> bool" where
  "token_drops given s s' \<longleftrightarrow> (\<forall>t.
     (token_record t s' = token_record t s \<or> token_record t s' = None) \<and>
     (token_claim t s' = token_claim t s \<or>
        token_claim t s' = None \<and> (\<forall>c. token_claim t s = Some c \<longrightarrow> given (hc_id c))) \<and>
     token_takeover t s' = token_takeover t s \<and>
     (\<forall>r. token_retained t s' = Some r \<longrightarrow> token_retained t s = Some r \<or> row_key (rt_deadline r)))"

lemma token_drops_step:
  assumes "token_ok ids s" "token_drops given s s'"
  shows "token_step ids given s s'"
proof -
  have "token_slot ids t s' \<and> token_moves given t s s'" for t
  proof -
    note d = assms(2) [unfolded token_drops_def, rule_format, of t]
    show ?thesis using d token_slotD [OF assms(1), of t] unfolding token_slot_def token_moves_def
      by (intro conjI allI impI; fastforce)
  qed
  then show ?thesis by (simp add: token_step_def token_ok_def token_guar_def)
qed

lemma token_drops_refl: "token_drops given s s"
  by (simp add: token_drops_def)

lemma token_drops_trans:
  assumes "token_drops given s s1" "token_drops given s1 s2"
  shows "token_drops given s s2"
  unfolding token_drops_def
proof (intro allI, goal_cases)
  case (1 t)
  show ?case
    using assms [unfolded token_drops_def, rule_format, of t] by (metis option.distinct(1))
qed

lemma dropStale_step:
  assumes "token_ok ids s" "\<And>d t. (d, t) \<in> set page \<Longrightarrow> row_key d"
  shows "case dropStale page now s of Inl e \<Rightarrow> True | Inr (x, s') \<Rightarrow> token_step ids given s s'"
proof -
  have "token_drops given s (del_shard (map fst (filter P page)) s)" for P
  proof -
    have "k \<notin> set (map fst (filter P page))" if "\<not> row_key k" for k using assms(2) that by auto
    then show ?thesis unfolding token_drops_def reads_del by simp
  qed
  then show ?thesis unfolding dropStale_def Let_def by (simp add: token_drops_step [OF assms(1)])
qed

lemma free_drops: "token_ok ids v \<Longrightarrow> token_drops given s (snd (freeExpiredRetention t now v s))"
  using token_slotD [of ids v t]
  by (auto simp: freeExpiredRetention_def token_drops_def shard_simps token_slot_def split: option.splits)

lemma compactRetained_step:
  assumes "token_ok ids s" "\<And>d t. (d, t) \<in> set page \<Longrightarrow> row_key d"
  shows "case compactRetained now0 page now s of Inl e \<Rightarrow> True | Inr (x, s') \<Rightarrow> token_step ids given s s'"
proof -
  let ?f = "\<lambda>(d, token) s1. if map_option rt_deadline (token_retained token s) = Some d
            then snd (freeExpiredRetention token now0 s s1) else s1"
  have f: "token_drops given s s1 \<Longrightarrow> token_drops given s (fold ?f es s1)" for es s1
  proof (induction es arbitrary: s1)
    case (Cons e es)
    have "token_drops given s1 (?f e s1)"
      using free_drops [OF assms(1)] by (auto simp: token_drops_refl split: prod.split)
    then show ?case using Cons.IH token_drops_trans [OF Cons.prems] by simp
  qed simp
  have d: "token_drops given s1 (del_shard (map fst page) s1)" for s1
  proof -
    have "k \<notin> set (map fst page)" if "\<not> row_key k" for k using assms(2) that by auto
    then show ?thesis unfolding token_drops_def reads_del by simp
  qed
  have "token_step ids given s (del_shard (map fst page) (fold ?f page s))"
    by (rule token_drops_step [OF assms(1) token_drops_trans [OF f [OF token_drops_refl] d]])
  then show ?thesis by (simp add: compactRetained_def Let_def)
qed

lemma mark_drops: "token_drops given s (fold (\<lambda>(t, who, until). markRetained t who until) marks s)"
proof (induction marks arbitrary: s)
  case (Cons m marks)
  obtain t who until where m: "m = (t, who, until)" by (cases m)
  have "token_drops given s (markRetained t who until s)"
    by (auto simp: token_drops_def markRetained_def Let_def shard_simps)
  then show ?case using token_drops_trans [OF _ Cons] by (simp add: m)
qed (simp add: token_drops_refl)

lemma releaseRow_keys:
  assumes "token_ok ids s" "releaseRow ended now s (t, who) = (d, r, m)"
  shows "k \<in> set d \<Longrightarrow> k = tokenRecordKey t \<or> k = tokenClaimKey t"
    and "tokenClaimKey t \<in> set d \<Longrightarrow> \<exists>c. token_claim t s = Some c \<and> hc_owner c = who"
    and "k \<in> set r \<Longrightarrow> row_key k \<or> k = retainedKey t"
  using assms(2) token_slotD [OF assms(1), of t]
  by (auto simp: releaseRow_def Let_def token_slot_def split: option.splits if_splits)

lemma release_step:
  assumes ok: "token_ok ids s" and giv: "\<And>t who c. (t, who) \<in> set hooks \<Longrightarrow> ids c = who \<Longrightarrow> given c"
  shows "case tokenReleaseTxn hooks ended now s of Inl e \<Rightarrow> True | Inr (x, s') \<Rightarrow> token_step ids given s s'"
proof -
  define rs where "rs = map (releaseRow ended now s) hooks"
  define dels where "dels = concat (map fst rs)"
  define rows where "rows = concat (map (fst \<circ> snd) rs)"
  define marks where "marks = concat (map (snd \<circ> snd) rs)"
  define s1 where "s1 = fold (\<lambda>(token, who, until). markRetained token who until) marks s"
  have c1: "token_claim t s1 = token_claim t s" for t
    unfolding s1_def by (induction marks arbitrary: s) (auto simp: markRetained_def Let_def shard_simps)
  have dels: "\<exists>t who. (t, who) \<in> set hooks \<and> (k = tokenRecordKey t \<or>
      k = tokenClaimKey t \<and> (\<exists>c. token_claim t s = Some c \<and> hc_owner c = who))" if k: "k \<in> set dels" for k
  proof -
    obtain t who where "(t, who) \<in> set hooks" "k \<in> set (fst (releaseRow ended now s (t, who)))"
      using k unfolding dels_def rs_def by force
    then show ?thesis using releaseRow_keys(1,2) [OF ok, of ended now t who] by (metis prod.collapse)
  qed
  have rows: "row_key k \<or> (\<exists>t. k = retainedKey t)" if k: "k \<in> set rows" for k
  proof -
    obtain t who where "(t, who) \<in> set hooks" "k \<in> set (fst (snd (releaseRow ended now s (t, who))))"
      using k unfolding rows_def rs_def by force
    then show ?thesis using releaseRow_keys(3) [OF ok, of ended now t who] by (metis prod.collapse)
  qed
  have notrow: "tokenRecordKey t \<notin> set rows" "tokenClaimKey t \<notin> set rows" "takeoverKey t \<notin> set rows"
    "takeoverKey t \<notin> set dels" "retainedKey t \<notin> set dels" for t
    using rows dels by fastforce+
  have gone: "given (hc_id c)" if "tokenClaimKey t \<in> set dels" "token_claim t s = Some c" for t c
    using dels [OF that(1)] that(2) giv token_slotD [OF ok, of t] by (auto simp: token_slot_def)
  have "token_drops given s1 (del_shard rows (del_shard dels s1))"
    using gone by (auto simp: token_drops_def reads_del notrow c1)
  then have d: "token_drops given s (del_shard rows (del_shard dels s1))"
    using token_drops_trans [OF mark_drops] unfolding s1_def by blast
  have "token_drops given s (armAtMost a (del_shard rows (del_shard dels s1)))" for a
    using d unfolding token_drops_def reads_arm .
  then show ?thesis
    using token_drops_step [OF ok] d
    unfolding tokenReleaseTxn_def rs_def [symmetric] dels_def [symmetric] rows_def [symmetric]
      marks_def [symmetric] s1_def [symmetric] Let_def
    by (simp split: list.split)
qed

text \<open>Compaction: what it publishes is the hook of the claim's owner, what it drops otherwise was
  answered as not committed.\<close>

definition answered_for ::
    "(string \<Rightarrow> owner) \<Rightarrow> (string \<Rightarrow> bool) \<Rightarrow> int \<Rightarrow> (string \<times> claim_deadline) list \<Rightarrow> (string \<Rightarrow> hook_claim option)
      \<Rightarrow> (string \<Rightarrow> hook option) \<Rightarrow> bool" where
  "answered_for ids given now page found answers \<longleftrightarrow>
     (\<forall>row \<in> set page. \<forall>c. found (cd_name (snd row)) = Some c \<longrightarrow> hc_id c = cd_claim (snd row) \<longrightarrow>
        hc_expires_at c \<le> now \<longrightarrow>
        (case answers (cd_name (snd row)) of None \<Rightarrow> given (hc_id c) | Some h \<Rightarrow> hook_owner h = ids (hc_id c)))"

lemma askOwners_safe:
  assumes "\<And>n c. found n = Some c \<Longrightarrow> ids (hc_id c) = hc_owner c"
  shows "token_safe ids given (\<lambda>answers _ _. answered_for ids given now page found answers)
    (askOwners now tok page found) t s"
proof (induction page arbitrary: t s)
  case Nil
  show ?case by (simp add: answered_for_def)
next
  case (Cons row page)
  let ?n = "cd_name (snd row)"
  have keep: "answered_for ids given now (row # page) found answers"
    if "answered_for ids given now page found answers"
      "\<And>c. found ?n = Some c \<Longrightarrow> hc_id c = cd_claim (snd row) \<Longrightarrow> hc_expires_at c \<le> now \<Longrightarrow>
        (case answers ?n of None \<Rightarrow> given (hc_id c) | Some h \<Rightarrow> hook_owner h = ids (hc_id c))" for answers
    using that by (simp add: answered_for_def)
  have upd: "answered_for ids given now (row # page) found (answers(?n := h))"
    if a: "answered_for ids given now page found answers" and f: "found ?n = Some c"
      and h: "case h of None \<Rightarrow> given (hc_id c) | Some x \<Rightarrow> hook_owner x = ids (hc_id c)" for answers h c
    using a f h unfolding answered_for_def by (auto split: if_splits)
  show ?case
    unfolding askOwners.simps
  proof (rule safe_bind, rule safe_mono [OF Cons.IH], goal_cases)
    case (1 answers t s)
    show ?case
    proof (rule safe_case_option)
      assume "found ?n = None"
      then show "token_safe ids given (\<lambda>answers _ _. answered_for ids given now (row # page) found answers)
          (Return answers) t s" using keep [OF 1] by simp
    next
      fix c assume f: "found ?n = Some c"
      show "token_safe ids given (\<lambda>answers _ _. answered_for ids given now (row # page) found answers)
         (if hc_id c \<noteq> cd_claim (snd row) \<or> hc_expires_at c > now then Return answers
           else bindP (askExpiredClaim (hc_owner c) (hc_id c) (tok ?n)) (\<lambda>h. Return (answers(?n := h)))) t s"
      proof (rule safe_if)
        assume "hc_id c \<noteq> cd_claim (snd row) \<or> hc_expires_at c > now"
        then show "token_safe ids given (\<lambda>answers _ _. answered_for ids given now (row # page) found answers)
          (Return answers) t s" using keep [OF 1] f by auto
      next
        show "token_safe ids given (\<lambda>answers _ _. answered_for ids given now (row # page) found answers)
          (bindP (askExpiredClaim (hc_owner c) (hc_id c) (tok ?n)) (\<lambda>h. Return (answers(?n := h)))) t s"
          unfolding askExpiredClaim_def
          by (rule safe_bind, rule safe_askHook)
            (use upd [OF 1 f] assms [OF f] in \<open>auto split: option.splits\<close>)
      qed
    qed
  qed
qed

definition compacted_at ::
    "(string \<Rightarrow> owner) \<Rightarrow> (string \<Rightarrow> bool) \<Rightarrow> hook_claim option \<Rightarrow> bool \<Rightarrow> hook option \<Rightarrow> hook option \<Rightarrow> bool" where
  "compacted_at ids given cur gone r r' \<longleftrightarrow>
     (r' = r \<or> (\<exists>c h. cur = Some c \<and> r' = Some h \<and> hook_owner h = ids (hc_id c) \<and> gone)) \<and>
     (gone \<longrightarrow> (\<exists>c. cur = Some c \<and> (given (hc_id c) \<or> (\<exists>h. r' = Some h \<and> hook_owner h = ids (hc_id c)))))"

lemma compacted_at_join:
  "compacted_at ids given cur b r r1 \<Longrightarrow> compacted_at ids given cur b' r1 r2 \<Longrightarrow>
   compacted_at ids given cur (b \<or> b') r r2"
  by (auto simp: compacted_at_def)

definition compacted ::
    "(string \<Rightarrow> owner) \<Rightarrow> (string \<Rightarrow> bool) \<Rightarrow> (string \<Rightarrow> hook_claim option) \<Rightarrow> string list \<Rightarrow> shard \<Rightarrow> shard \<Rightarrow> bool" where
  "compacted ids given current ds s s' \<longleftrightarrow>
     (\<forall>t. token_claim t s' = token_claim t s \<and> token_retained t s' = token_retained t s \<and>
        token_takeover t s' = token_takeover t s \<and>
        compacted_at ids given (current t) (tokenClaimKey t \<in> set ds) (token_record t s) (token_record t s')) \<and>
     (\<forall>k \<in> set ds. row_key k \<or> (\<exists>t. k = tokenClaimKey t))"

lemma compactRow_compacted:
  assumes "compactRow (tokenRecordKey (cd_name (snd row))) (tokenClaimKey (cd_name (snd row))) now row
      (current (cd_name (snd row))) (found (cd_name (snd row))) (answers (cd_name (snd row))) s = (s', ds, ps)"
    "answered_for ids given now [row] found answers" "row_key (fst row)"
  shows "compacted ids given current ds s s'"
  using assms
  by (auto simp: compactRow_def compacted_def compacted_at_def answered_for_def shard_simps
      split: option.splits if_splits)

lemma compacted_join:
  assumes "compacted ids given current ds s s1" "compacted ids given current ds' s1 s2"
  shows "compacted ids given current (ds @ ds') s s2"
proof -
  have "compacted_at ids given (current t) (tokenClaimKey t \<in> set (ds @ ds')) (token_record t s) (token_record t s2)" for t
  proof -
    have "compacted_at ids given (current t) (tokenClaimKey t \<in> set ds) (token_record t s) (token_record t s1)"
      "compacted_at ids given (current t) (tokenClaimKey t \<in> set ds') (token_record t s1) (token_record t s2)"
      using assms unfolding compacted_def by blast+
    then show ?thesis unfolding set_append Un_iff by (rule compacted_at_join)
  qed
  then show ?thesis using assms unfolding compacted_def by auto
qed

lemma compactRows_compacted:
  assumes "compactRows tokenRecordKey tokenClaimKey now current page found answers s = (s', ds, ps)"
    "answered_for ids given now page found answers" "\<forall>row \<in> set page. row_key (fst row)"
  shows "compacted ids given current ds s s'"
  using assms
proof (induction page arbitrary: s s' ds ps)
  case Nil
  then show ?case by (simp add: compacted_def compacted_at_def)
next
  case (Cons row page)
  let ?n = "cd_name (snd row)"
  obtain s1 d1 p1 where 1: "compactRow (tokenRecordKey ?n) (tokenClaimKey ?n) now row (current ?n) (found ?n)
      (answers ?n) s = (s1, d1, p1)" by (metis prod_cases3)
  obtain s2 d2 p2 where 2: "compactRows tokenRecordKey tokenClaimKey now current page found answers s1 = (s2, d2, p2)"
    by (metis prod_cases3)
  have e: "s' = s2" "ds = d1 @ d2" using Cons.prems(1) by (simp_all add: 1 2 Let_def)
  have "compacted ids given current d1 s s1"
    by (rule compactRow_compacted [where current = current and now = now and found = found and answers = answers and row = row, OF 1]) (use Cons.prems in \<open>auto simp: answered_for_def\<close>)
  moreover have "compacted ids given current d2 s1 s2"
    by (rule Cons.IH [OF 2]) (use Cons.prems in \<open>auto simp: answered_for_def\<close>)
  ultimately show ?case unfolding e by (rule compacted_join)
qed

lemma compacted_step:
  assumes "token_ok ids s" "compacted ids given (\<lambda>t. token_claim t s) ds s s'"
  shows "token_step ids given s (del_shard ds s')"
proof -
  have "token_slot ids t (del_shard ds s') \<and> token_moves given t s (del_shard ds s')" for t
  proof -
    have n: "tokenRecordKey t \<notin> set ds" "takeoverKey t \<notin> set ds" "retainedKey t \<notin> set ds"
      using assms(2) unfolding compacted_def by fastforce+
    note c = assms(2) [unfolded compacted_def, THEN conjunct1, rule_format, of t]
    show ?thesis using c token_slotD [OF assms(1), of t]
      unfolding token_slot_def token_moves_def reads_del compacted_at_def by (simp add: n) (intro conjI allI impI; fastforce)
  qed
  then show ?thesis by (simp add: token_step_def token_ok_def token_guar_def)
qed

lemma tokenCompact_step:
  assumes "token_ok ids s" "answered_for ids given now0 page found answers" "\<forall>row \<in> set page. row_key (fst row)"
  shows "case tokenCompactTxn now0 page found answers now s of Inl e \<Rightarrow> True | Inr (x, s') \<Rightarrow> token_step ids given s s'"
proof -
  obtain s' ds ps where c: "compactRows tokenRecordKey tokenClaimKey now0 (\<lambda>t. token_claim t s) page found answers s
      = (s', ds, ps)" by (metis prod_cases3)
  show ?thesis
    using compacted_step [OF assms(1) compactRows_compacted [OF c assms(2,3)]]
    by (simp add: tokenCompactTxn_def c)
qed

end
