(* ===== verification/TokenSystem.thy ===== *)
theory TokenSystem
  imports TokenFacts
begin

text \<open>
  The handlers of the token shard, put together from their transactions: whatever they interleave
  with and whatever the run cells answer, each piece of their work is a \<open>token_step\<close>.
\<close>

abbreviation any :: "'x \<Rightarrow> int \<Rightarrow> shard \<Rightarrow> bool" where "any \<equiv> \<lambda>_ _ _. True"

lemma safe_seq:
  "safe I G R A Q' p t s \<Longrightarrow> (\<And>x t s. Q' x t s \<Longrightarrow> safe I G R A Q (f x) t s) \<Longrightarrow> safe I G R A Q (bindP p f) t s"
  by (rule safe_bind, erule safe_mono)

text \<open>A transaction that is a \<open>token_step\<close>.\<close>

lemma safe_step:
  assumes "\<And>now s1. token_ok ids s1 \<Longrightarrow> (case f now s1 of Inl e \<Rightarrow> True | Inr (x, s') \<Rightarrow> token_step ids given s1 s')"
  shows "token_safe ids given any (txn f) t s"
proof (rule safe_token_txn)
  fix now s1 assume "token_ok ids s1"
  from assms [OF this, of now] show "case f now s1 of Inl e \<Rightarrow> True
      | Inr (x, s') \<Rightarrow> token_step ids given s1 s' \<and> True" by (auto split: sum.splits)
qed

section \<open>Repair\<close>

lemma safe_confirm: "token_safe ids given any (confirmRepublished (tokenRecordKey k) who tok) t s"
  unfolding confirmRepublished_def askCommittedHook_def
  by (intro safe_seq [where Q' = any] safe_askHook safe_if safe_step withdraw_step TrueI) simp_all

lemma safe_publishCommitted:
  "token_safe ids given any (publishCommittedClaim (tokenRecordKey k) (tokenClaimKey k) (Some k)) t s"
proof -
  let ?Q = "\<lambda>c t s. case c of None \<Rightarrow> True | Some c \<Rightarrow> ids (hc_id c) = hc_owner c"
  have read: "token_safe ids given ?Q (look (\<lambda>now. token_claim k)) t s"
    by (rule safe_token_look) (auto dest!: token_slotD [of ids _ k] simp: token_slot_def split: option.splits)
  have go: "token_safe ids given any
      (bindP (txn (publishClaim (tokenRecordKey k) (tokenClaimKey k) c hook)) (\<lambda>(raw, written).
         if \<not> written then Return raw
         else bindP (confirmRepublished (tokenRecordKey k) (hc_owner c) (Some k))
                (\<lambda>ok. Return (if ok then Some hook else None)))) t s"
    if "ids (hc_id c) = hook_owner hook" for c hook t s
    using that
    by (auto intro!: safe_seq [where Q' = any] safe_step publishClaim_step safe_confirm split: prod.splits)
  show ?thesis
    unfolding publishCommittedClaim_def askCommittedHook_def
  proof (rule safe_seq [OF read], goal_cases)
    case (1 observed t s)
    then show ?case
    proof (intro safe_case_option, goal_cases)
      case (2 c)
      show ?case
      proof (rule safe_seq [where Q' = "\<lambda>h t s. case h of None \<Rightarrow> True | Some x \<Rightarrow> hook_owner x = hc_owner c"], goal_cases)
        case 1
        show ?case by (rule safe_askHook) simp
      next
        case (2 found t s)
        then show ?case by (intro safe_case_option go) (use \<open>case observed of None \<Rightarrow> True | Some c \<Rightarrow> ids (hc_id c) = hc_owner c\<close> \<open>observed = Some c\<close> in auto)
      qed
    qed simp
  qed
qed

section \<open>Requests\<close>

lemma safe_get: "token_safe ids given any (tokenGet k) t s"
  unfolding tokenGet_def
  by (intro safe_seq [where Q' = any] safe_token_look safe_case_option safe_if safe_publishCommitted safe_active TrueI)
    simp_all

lemma safe_rollForward:
  assumes "row_key (ht_deadline i)" "ids (ht_claim i) = ht_claimer i"
    "case hook of None \<Rightarrow> True | Some h \<Rightarrow> hook_owner h = ht_claimer i"
  shows "token_safe ids given any (rollForward k i hook) t s"
  unfolding rollForward_def askDispose_def
  by (intro safe_seq [where Q' = any] safe_if safe_step rollForward_step safe_forget safe_confirm assms)
    (auto intro!: safe_ask split: reply.splits)

lemma safe_settleIntent:
  assumes "row_key (ht_deadline i)" "ids (ht_claim i) = ht_claimer i"
    and rep: "case reported of None \<Rightarrow> True | Some h \<Rightarrow> map_option fst wanted = Some (hook_owner h)"
    and "settles wanted i"
  shows "token_safe ids given any (settleIntent k wanted reported i) t s"
  unfolding settleIntent_def
proof (rule safe_seq [where Q' = "\<lambda>(j, h) t s. case h of None \<Rightarrow> True | Some x \<Rightarrow> hook_owner x = ht_claimer i"], goal_cases)
  case 1
  show ?case
  proof (rule safe_if)
    show "token_safe ids given (\<lambda>(j, h) t s. case h of None \<Rightarrow> True | Some x \<Rightarrow> hook_owner x = ht_claimer i)
        (Return (True, reported)) t s"
      using rep assms(4) by (auto simp: settles_def split: option.splits)
  next
    show "token_safe ids given (\<lambda>(j, h) t s. case h of None \<Rightarrow> True | Some x \<Rightarrow> hook_owner x = ht_claimer i)
        (askForced i k) t s"
      unfolding askForced_def by (auto intro!: safe_ask split: reply.splits)
  qed
next
  case (2 x t s)
  then show ?case
    using assms(1,2) by (auto intro!: safe_rollForward safe_step dropTakeover_step split: prod.splits)
qed

lemma safe_settle:
  assumes "case reported of None \<Rightarrow> True | Some h \<Rightarrow> map_option fst wanted = Some (hook_owner h)"
  shows "token_safe ids given any (settleTakeover k wanted reported) t s"
  unfolding settleTakeover_def
proof (rule safe_seq [where Q' = "\<lambda>i t s. case i of None \<Rightarrow> True | Some i \<Rightarrow>
    row_key (ht_deadline i) \<and> ids (ht_claim i) = ht_claimer i"], goal_cases)
  case 1
  show ?case
    by (rule safe_token_look) (auto dest!: token_slotD [of ids _ k] simp: token_slot_def split: option.splits)
next
  case (2 i t s)
  then show ?case
    by (intro safe_seq [where Q' = any] safe_case_option safe_if safe_settleIntent safe_token_look assms) simp_all
qed

lemma safe_reserve: "ids c = who \<Longrightarrow> token_safe ids given any (tokenReserve n k who c) t s"
proof (induction n arbitrary: t s)
  case (Suc n)
  let ?Q = "\<lambda>e t s. case e of None \<Rightarrow> True | Some x \<Rightarrow> ids (hc_id x) = hc_owner x"
  have read: "token_safe ids given ?Q (look (expired_claim (tokenClaimKey k))) t s" for t s
    by (rule safe_token_look)
      (auto dest!: token_slotD [of ids _ k] simp: token_slot_def expired_claim_def split: option.splits)
  show ?case
    unfolding tokenReserve.simps
  proof (rule safe_seq [OF read], goal_cases)
    case e: (1 expired t s)
    show ?case
    proof (rule safe_seq [where Q' = "\<lambda>h t s. h = None \<longrightarrow> (\<forall>x. expired = Some x \<longrightarrow> given (hc_id x))"], goal_cases)
      case 1
      show ?case unfolding askExpiredClaim_def
        by (intro safe_case_option safe_askHook) (auto split: option.splits)
    next
      case (2 committed t s)
      show ?case
      proof (rule safe_seq [where Q' = any], goal_cases)
        case 1
        show ?case by (rule safe_step, rule tokenReserve_step) (use 2 Suc.prems in auto)
      next
        case (2 r t s)
        show ?case
          using Suc by (cases r) (auto intro!: safe_seq [where Q' = any] safe_settle)
      qed
    qed
  qed
qed simp

lemma safe_preempt:
  assumes "ids (hc_id c) = hc_owner c"
  shows "token_safe ids given any (preemptClaim k c) t s"
  unfolding preemptClaim_def askExpiredClaim_def
proof (rule safe_seq [where Q' = "\<lambda>h t s. case h of None \<Rightarrow> given (hc_id c) | Some x \<Rightarrow> hook_owner x = ids (hc_id c)"], goal_cases)
  case 1
  show ?case by (rule safe_askHook) (use assms in \<open>auto split: option.splits\<close>)
next
  case (2 h t s)
  then show ?case
    by (intro safe_seq [where Q' = any] safe_step preempt_step safe_if safe_forget safe_confirm) simp_all
qed

lemma safe_force: "ids c = who \<Longrightarrow> token_safe ids given any (forceReserve n L k who c preempt) t s"
proof (induction n arbitrary: t s)
  case (Suc n)
  note again = Suc.IH [OF Suc.prems]
  let ?Q = "\<lambda>(now, indexed, claim, pending) t s. case claim of None \<Rightarrow> True | Some x \<Rightarrow> ids (hc_id x) = hc_owner x"
  show ?case
    unfolding forceReserve.simps
  proof (rule safe_seq [where Q' = ?Q], goal_cases)
    case 1
    show ?case
      by (rule safe_token_look) (auto dest!: token_slotD [of ids _ k] simp: token_slot_def split: option.splits)
  next
    case (2 x t s)
    obtain now indexed claim pending where x: "x = (now, indexed, claim, pending)" by (cases x)
    have c: "\<And>y. claim = Some y \<Longrightarrow> ids (hc_id y) = hc_owner y" using 2 by (simp add: x)
    have dance: "token_safe ids given any
        (bindP (tokenReserve n k who c) (\<lambda>r. case r of Claimed c \<Rightarrow> Return (Force_Claimed c None)
           | Held o1 \<Rightarrow> if o1 = who then Return (Force_Held o1) else forceReserve n L k who c preempt)) t s" for t s
      by (rule safe_seq [OF safe_reserve [where ids = ids, OF Suc.prems]]) (auto simp: again split: claim_result.splits)
    have pre: "token_safe ids given any
        (bindP (preemptClaim k (the claim)) (\<lambda>_. forceReserve n L k who c preempt)) t s"
      if "claim \<noteq> None" for t s
      by (rule safe_seq [OF safe_preempt]) (use c that again in auto)
    have take: "token_safe ids given any
        (bindP (look (\<lambda>now s. victim_running d \<or> retentionAhead h now)) (\<lambda>takeOver.
         bindP (txn (intentTxn k who c h (victim_running d) (claimedFrom (hook_owner h) d) takeOver)) (\<lambda>intent.
           case intent of Some k \<Rightarrow> Return (Force_Claimed (ht_claim k) (Some (claimedFrom (hook_owner h) d)))
           | None \<Rightarrow> forceReserve n L k who c preempt))) t s" for h d t s
      by (rule safe_seq [where Q' = any], rule safe_token_look, simp,
          rule safe_seq [where Q' = any], rule safe_step, rule intent_step)
        (use Suc.prems again in \<open>auto split: option.splits\<close>)
    have ask: "token_safe ids given any (bindP (askVictim i) f) t s"
      if "\<And>d t s. token_safe ids given any (f d) t s" for i f t s
      by (rule safe_seq [where Q' = any]) (use that in \<open>auto simp: askVictim_def intro!: safe_ask split: reply.splits\<close>)
    have settle: "token_safe ids given any (bindP (settleTakeover k None None) (\<lambda>_. forceReserve n L k who c preempt)) t s"
      for t s by (rule safe_seq [OF safe_settle]) (use again in auto)
    show ?case
      unfolding x prod.case
      by (intro safe_case_option safe_if dance pre ask take settle) (auto split: option.splits)
  qed
qed simp

lemma safe_releaseBatch:
  "(\<And>t who c. (t, who) \<in> set hs \<Longrightarrow> ids c = who \<Longrightarrow> given c) \<Longrightarrow> token_safe ids given any (tokenReleaseBatch hs ended) t s"
  unfolding tokenReleaseBatch_def by (intro safe_if safe_step release_step) auto

lemma safe_finalize:
  assumes "hook_owner h = who"
  shows "token_safe ids given any (finalize k h who c) t s"
  unfolding finalize_def
proof (rule safe_seq [where Q' = "\<lambda>b t s. \<not> b \<longrightarrow> (\<forall>c. own_run (ids c) = own_run who \<longrightarrow> given c)"], goal_cases)
  case 1
  show ?case unfolding runIsActive_def by (auto intro!: safe_ask split: reply.splits)
next
  case (2 active t s)
  show ?case
  proof (rule safe_seq [where Q' = any], goal_cases)
    case 1
    show ?case by (rule safe_token_look) simp
  next
    case (2 ahead t s)
    show ?case
      by (intro safe_if safe_seq [where Q' = any] safe_releaseBatch safe_step finalize_step assms)
        (use \<open>\<not> active \<longrightarrow> (\<forall>c. own_run (ids c) = own_run who \<longrightarrow> given c)\<close> in auto)
  qed
qed

section \<open>The alarm\<close>

lemma map_filter_sub: "(k, x) \<in> set (List.map_filter (\<lambda>(k, v). map_option (Pair k) (dec v)) es) \<Longrightarrow> \<exists>v. (k, v) \<in> set es"
  by (auto simp: List.map_filter_def)

lemma scan_due_prefix:
  assumes "(k, x) \<in> set (sc_due (scanDeadlines dec p now s))"
  shows "has_prefix p k"
proof -
  have "\<exists>v. (k, v) \<in> set (kv_list ((prefix_query p)\<lparr>q_limit := Some (lifecycle_compaction_batch + 1)\<rparr>) (sh_kv s))"
    using assms by (auto simp: scanDeadlines_def Let_def dest!: in_set_takeD intro: map_filter_sub)
  then show ?thesis using kv_list_prefix by (fastforce simp: prefix_query_def)
qed

lemma safe_compactClaims:
  assumes "\<forall>row \<in> set page. row_key (fst row)"
  shows "token_safe ids given any (tokenCompactClaims now page) t s"
  unfolding tokenCompactClaims_def
proof (rule safe_seq [where Q' = "\<lambda>found t s. \<forall>n c. found n = Some c \<longrightarrow> ids (hc_id c) = hc_owner c"], goal_cases)
  case 1
  show ?case by (rule safe_token_look) (simp add: token_ok_def token_slot_def)
next
  case (2 found t s)
  then have f: "found n = Some c \<Longrightarrow> ids (hc_id c) = hc_owner c" for n c by simp
  have confirms: "token_safe ids given any (forget (eachP (\<lambda>(t, who). confirmRepublished (tokenRecordKey t) who (Some t)) ps)) t s"
    for ps t s
    by (intro safe_forget safe_each) (auto simp: safe_confirm)
  show ?case
  proof (rule safe_seq, rule askOwners_safe [where ids = ids and given = given and now = now and found = found], rule f, goal_cases)
    case (2 answers t s)
    then show ?case
      by (intro safe_seq [where Q' = any] safe_step tokenCompact_step confirms assms)
  qed
qed

lemma safe_compactTakeovers:
  assumes "\<And>d k. (d, k) \<in> set page \<Longrightarrow> row_key d"
  shows "token_safe ids given any (compactTakeovers page) t s"
  unfolding compactTakeovers_def
proof (rule safe_seq [where Q' = any], goal_cases)
  case 1
  show ?case by (rule safe_step, rule dropStale_step) (use assms in auto)
next
  case (2 live t s)
  have "token_safe ids given any ((\<lambda>(_, token). catchP (bindP (settleTakeover token None None) (\<lambda>_. Return None))
      (\<lambda>e. Return (Some e))) (x :: string \<times> string)) t s" for x t s
    by (cases x) (auto intro!: safe_catch safe_seq [OF safe_settle])
  then show ?case
    by (intro safe_seq [where Q' = any] safe_each) (auto split: list.split)
qed

lemma alarm_token_step: "token_ok ids s \<Longrightarrow> token_step ids given s (s\<lparr>sh_alarm := a\<rparr>)"
  by (rule token_drops_step) (simp_all add: token_drops_def shard_simps)

lemma rearm_step:
  "token_ok ids s \<Longrightarrow> (case rearm full nexts cleared now s of Inl e \<Rightarrow> True | Inr (x, s') \<Rightarrow> token_step ids given s s')"
  by (simp add: rearm_def alarm_token_step)

lemma safe_alarmPass: "token_safe ids given any tokenAlarmPass t s"
  unfolding tokenAlarmPass_def
proof (rule safe_seq [where Q' = "\<lambda>(now, firing, claims, retained, takeovers) t s.
    (\<forall>row \<in> set (sc_due claims). row_key (fst row)) \<and> (\<forall>row \<in> set (sc_due retained). row_key (fst row)) \<and>
    (\<forall>row \<in> set (sc_due takeovers). row_key (fst row))"], goal_cases)
  case 1
  show ?case by (rule safe_token_look) (auto simp: row_key_def dest: scan_due_prefix)
next
  case (2 x t s)
  then show ?case
    by (cases x)
      (auto intro!: safe_seq [where Q' = any] safe_compactClaims safe_compactTakeovers safe_step
         compactRetained_step rearm_step)
qed

lemma safe_alarm: "token_safe ids given any tokenAlarm t s"
  unfolding tokenAlarm_def
  by (intro safe_catch safe_alarmPass safe_step) (simp add: alarm_token_step)

section \<open>The system\<close>

lemma request_safe: "token_request ids given p \<Longrightarrow> token_safe ids given any p t s"
proof (induction rule: token_request.induct)
  case (6 c t' who)
  then show ?case unfolding tokenReleaseClaim_def by (intro safe_step releaseOwnClaim_step)
next
  case (7 hs ended)
  then show ?case by (intro safe_forget safe_releaseBatch) auto
qed (auto intro!: safe_forget safe_get safe_reserve safe_force safe_settle safe_finalize)

lemma fire_safe:
  assumes "token_fire now s p s'" "token_ok ids s"
  shows "token_ok ids s' \<and> later now s now s' \<and> token_safe ids given any p now s'"
    and "token_guar given now s s'"
  using assms alarm_token_step [OF assms(2), of given None] token_step_refl [OF assms(2), of given]
  by (auto elim!: token_fire.cases simp: token_step_def safe_alarm later_def)

text \<open>States of the whole: the shard, and the handlers under way.\<close>

type_synonym token_system = "(hook_exn, query, reply, shard, unit) system"

abbreviation token_system_step :: "(string \<Rightarrow> owner) \<Rightarrow> (string \<Rightarrow> bool) \<Rightarrow> token_system \<Rightarrow> token_system \<Rightarrow> bool" where
  "token_system_step ids given \<equiv> system_step (\<lambda>_. True) (token_request ids given) token_fire (run_answer ids given)"

definition idle_system :: "shard \<Rightarrow> int \<Rightarrow> token_system" where
  "idle_system s t = \<lparr>st_clock = t, st_cell = s, st_flights = []\<rparr>"

definition empty_shard :: shard where "empty_shard = \<lparr>sh_kv = [], sh_alarm = None\<rparr>"

lemma empty_ok: "token_ok ids empty_shard"
  by (simp add: token_ok_def token_slot_def empty_shard_def shard_reads)

lemma idle_sound: "token_ok ids s \<Longrightarrow> token.sound_system ids given (run_answer ids given) (idle_system s t)"
  by (simp add: token.sound_system_def idle_system_def)

lemma token_system_sound:
  assumes "(token_system_step ids given)\<^sup>*\<^sup>* y y'" "token.sound_system ids given (run_answer ids given) y"
  shows "token.sound_system ids given (run_answer ids given) y'"
  by (rule token.system_sound [OF assms request_safe fire_safe(1)])

lemma token_system_guar:
  assumes "token_system_step ids given y y'" "token.sound_system ids given (run_answer ids given) y"
  shows "token_guar given (st_clock y') (st_cell y) (st_cell y')"
  by (rule token.system_step_guar [OF assms _ fire_safe(2)]) (simp_all add: token_guar_def token_moves_refl)

end
