(* ===== verification/IdFacts.thy ===== *)
theory IdFacts
  imports TokenSystem
begin

text \<open>
  The hook id shard never strands a claim: every claim has its deadline row, every deadline row
  has an alarm or a compaction pass that will set one.  Times stay below \<open>10 ^ 13\<close> ms, the width of a
  deadline in a key.
\<close>

abbreviation id_record :: "string \<Rightarrow> shard \<Rightarrow> hook option" where
  "id_record i \<equiv> get_record (id_record_key i)"
abbreviation id_claim :: "string \<Rightarrow> shard \<Rightarrow> hook_claim option" where
  "id_claim i \<equiv> get_claim (id_claim_key i)"

definition in_time :: "int \<Rightarrow> bool" where
  "in_time t \<longleftrightarrow> 0 \<le> t \<and> t + hook_claim_lease_ms + 1 < 10 ^ 13"

section \<open>Invariant and guarantee\<close>

definition rows_ok :: "shard \<Rightarrow> bool" where
  "rows_ok s \<longleftrightarrow> shard_wf s \<and>
     (\<forall>k v. kv_get k (sh_kv s) = Some v \<longrightarrow> has_prefix claim_deadline_prefix k \<longrightarrow> as_claim_deadline v \<noteq> None) \<and>
     (\<forall>k row. get_row k s = Some row \<longrightarrow> k = deadlineKey claim_deadline_prefix (cd_name row) (cd_expires_at row) \<and>
        0 \<le> cd_expires_at row \<and> cd_expires_at row < 10 ^ 13)"

definition row_for :: "string \<Rightarrow> hook_claim \<Rightarrow> claim_deadline" where
  "row_for i c = \<lparr>cd_name = i, cd_claim = hc_id c, cd_expires_at = hc_expires_at c\<rparr>"

lemma row_for_simps [simp]:
  "cd_name (row_for i c) = i" "cd_claim (row_for i c) = hc_id c" "cd_expires_at (row_for i c) = hc_expires_at c"
  by (simp_all add: row_for_def)

definition claim_backed :: "string \<Rightarrow> shard \<Rightarrow> bool" where
  "claim_backed i s \<longleftrightarrow> (\<forall>c. id_claim i s = Some c \<longrightarrow>
     hc_deadline c = deadlineKey claim_deadline_prefix i (hc_expires_at c) \<and>
     get_row (deadlineKey claim_deadline_prefix i (hc_expires_at c)) s = Some (row_for i c))"

definition id_ok :: "shard \<Rightarrow> bool" where
  "id_ok s \<longleftrightarrow> rows_ok s \<and> (\<forall>i. claim_backed i s)"

text \<open>A shard with deadline rows has its alarm set.\<close>

definition will_wake :: "shard \<Rightarrow> bool" where
  "will_wake s \<longleftrightarrow> (\<exists>k row. get_row k s = Some row) \<longrightarrow> sh_alarm s \<noteq> None"

definition id_guar :: "int \<Rightarrow> shard \<Rightarrow> shard \<Rightarrow> bool" where
  "id_guar now s s' \<longleftrightarrow>
     (\<forall>k row. get_row k s' = Some row \<longrightarrow> get_row k s = Some row \<or> now < cd_expires_at row) \<and>
     (will_wake s \<longrightarrow> will_wake s')"

definition id_rely :: "int \<Rightarrow> shard \<Rightarrow> int \<Rightarrow> shard \<Rightarrow> bool" where
  "id_rely t s now s' \<longleftrightarrow> t \<le> now \<and> in_time now \<and>
     (\<forall>k row. get_row k s' = Some row \<longrightarrow> cd_expires_at row \<le> t \<longrightarrow> get_row k s = Some row)"

interpretation idshard: rely_guarantee in_time id_ok id_guar id_rely
proof
  show "id_rely t s m s2" if "id_rely t s n s1" "id_rely n s1 m s2" for t s n s1 m s2
    using that unfolding id_rely_def by (meson order_trans)
  show "id_rely now s now s'" if "in_time now" "id_guar now s s'" for now s s'
    using that unfolding id_rely_def id_guar_def by (meson leD order_refl)
qed (simp add: id_rely_def)

definition id_step :: "int \<Rightarrow> shard \<Rightarrow> shard \<Rightarrow> bool" where
  "id_step now s s' \<longleftrightarrow> id_ok s' \<and> id_guar now s s'"

lemma id_guar_refl: "id_guar now s s" by (simp add: id_guar_def)

lemma id_step_refl: "id_ok s \<Longrightarrow> id_step now s s" by (simp add: id_step_def id_guar_refl)

abbreviation id_safe where
  "id_safe \<equiv> safe id_ok id_guar id_rely (\<lambda>_ _. True)"

section \<open>Kinds of writes\<close>

lemma row_of_claim:
  assumes "id_ok s" "id_claim i s = Some c"
  shows "hc_deadline c = deadlineKey claim_deadline_prefix i (hc_expires_at c)"
    "get_row (deadlineKey claim_deadline_prefix i (hc_expires_at c)) s = Some (row_for i c)"
    "0 \<le> hc_expires_at c" "hc_expires_at c < 10 ^ 13"
proof -
  have "claim_backed i s" "rows_ok s" using assms(1) by (simp_all add: id_ok_def)
  then show "hc_deadline c = deadlineKey claim_deadline_prefix i (hc_expires_at c)"
    and r: "get_row (deadlineKey claim_deadline_prefix i (hc_expires_at c)) s = Some (row_for i c)"
    using assms(2) by (simp_all add: claim_backed_def)
  show "0 \<le> hc_expires_at c" "hc_expires_at c < 10 ^ 13"
    using \<open>rows_ok s\<close> r unfolding rows_ok_def by (metis row_for_simps(3))+
qed

lemma row_is_row_key: "rows_ok s \<Longrightarrow> get_row k s = Some row \<Longrightarrow> row_key k"
  unfolding rows_ok_def by (metis row_key_deadline(1))

lemma claim_row_key: "id_ok s \<Longrightarrow> id_claim i s = Some c \<Longrightarrow> row_key (hc_deadline c)"
  by (simp add: row_of_claim(1))

lemma same_deadline:
  assumes "id_ok s" "id_claim i s = Some c" "id_claim j s = Some d" "hc_deadline c = hc_deadline d"
  shows "i = j"
  using row_of_claim [OF assms(1,2)] row_of_claim [OF assms(1,3)] assms(4) by (simp add: deadlineKey_inj)

lemma rows_ok_del: "rows_ok s \<Longrightarrow> rows_ok (del_shard ks s)"
  unfolding rows_ok_def by (simp add: shard_simps) (simp add: del_shard_def)

lemma id_del:
  assumes "id_ok s"
    "\<And>i c. id_claim i s = Some c \<Longrightarrow> hc_deadline c \<in> set ks \<Longrightarrow> id_claim_key i \<in> set ks"
  shows "id_step now s (del_shard ks s)"
proof -
  have "claim_backed i (del_shard ks s)" for i
    using row_of_claim [OF assms(1)] assms(2) by (auto simp: claim_backed_def shard_simps)
  then show ?thesis
    using assms(1) rows_ok_del [of s ks]
    unfolding id_step_def id_ok_def id_guar_def will_wake_def by (auto simp: shard_simps split: if_splits)
qed

text \<open>A write that touches neither claims nor rows.\<close>

lemma id_same:
  assumes "id_ok s" "shard_wf s'" "\<And>i. id_claim i s' = id_claim i s" "\<And>k. get_row k s' = get_row k s"
    "\<And>k. has_prefix claim_deadline_prefix k \<Longrightarrow> kv_get k (sh_kv s') = kv_get k (sh_kv s)"
    "will_wake s \<Longrightarrow> will_wake s'"
  shows "id_step now s s'"
proof -
  have "as_claim_deadline v \<noteq> None" if "kv_get k (sh_kv s') = Some v" "has_prefix claim_deadline_prefix k" for k v
    using assms(1) assms(5) [OF that(2)] that unfolding id_ok_def rows_ok_def by metis
  then have "rows_ok s'" using assms(1,2,4) by (simp add: id_ok_def rows_ok_def)
  then show ?thesis using assms unfolding id_step_def id_ok_def id_guar_def claim_backed_def by simp
qed

lemma kv_put_shard [simp]: "kv_get k (sh_kv (put_shard k' v s)) = (if k = k' then Some v else kv_get k (sh_kv s))"
  by (simp add: put_shard_def)

lemma id_key_no_row [simp]:
  "\<not> has_prefix claim_deadline_prefix (id_record_key i)" "\<not> has_prefix claim_deadline_prefix (id_claim_key i)"
  using slot_not_row unfolding row_key_def by blast+

lemma id_put_record:
  assumes "id_ok s"
  shows "id_step now s (put_shard (id_record_key i) (HRecord h) s)"
proof (rule id_same [OF assms])
  have "get_row (id_record_key i) s = None"
    using assms row_is_row_key [of s "id_record_key i"] by (cases "get_row (id_record_key i) s") (auto simp: id_ok_def)
  then show rows: "get_row k (put_shard (id_record_key i) (HRecord h) s) = get_row k s" for k
    by (simp add: shard_simps)
  then show "will_wake s \<Longrightarrow> will_wake (put_shard (id_record_key i) (HRecord h) s)"
    by (simp add: will_wake_def alarm_put)
qed (use assms in \<open>auto simp: shard_simps id_ok_def rows_ok_def\<close>)

lemma id_alarm: "id_ok s \<Longrightarrow> (will_wake s \<Longrightarrow> will_wake (s\<lparr>sh_alarm := a\<rparr>)) \<Longrightarrow> id_step now s (s\<lparr>sh_alarm := a\<rparr>)"
  by (rule id_same) (simp_all add: shard_simps id_ok_def rows_ok_def)

lemma id_put_claim:
  assumes "id_ok s0" "in_time now" "rows_ok s" "\<And>j. j \<noteq> i \<Longrightarrow> claim_backed j s"
    and rows: "\<And>k row. get_row k s = Some row \<Longrightarrow> get_row k s0 = Some row"
    and c: "hc_expires_at c = now + hook_claim_lease_ms"
      "hc_deadline c = deadlineKey claim_deadline_prefix i (now + hook_claim_lease_ms)"
  shows "id_step now s0 (put_claim (id_claim_key i) i c s)"
proof -
  have lease: "0 < hook_claim_lease_ms" by (simp add: bound_defs)
  have t: "0 \<le> now" "now + hook_claim_lease_ms < 10 ^ 13" "0 \<le> now + hook_claim_lease_ms"
    using assms(2) lease by (auto simp: in_time_def)
  have wf: "rows_ok (put_claim (id_claim_key i) i c s)"
    using assms(3) t lease c unfolding rows_ok_def put_claim_def
    by (auto simp: shard_simps) (auto simp: armAtMost_def put_shard_def has_prefix_iff slot_key_defs indexKey_def
        claim_deadline_prefix_def split: if_splits)
  have "claim_backed j (put_claim (id_claim_key i) i c s)" for j
  proof (cases "j = i")
    case True
    then show ?thesis using c by (auto simp: claim_backed_def put_claim_def row_for_def shard_simps)
  next
    case False
    have "hc_deadline d \<noteq> hc_deadline c" if d: "id_claim j s = Some d" for d
    proof -
      have "get_row (deadlineKey claim_deadline_prefix j (hc_expires_at d)) s = Some (row_for j d)"
        "hc_deadline d = deadlineKey claim_deadline_prefix j (hc_expires_at d)"
        using assms(4) [OF False] d by (auto simp: claim_backed_def)
      moreover from this have "0 \<le> hc_expires_at d" "hc_expires_at d < 10 ^ 13"
        using assms(3) unfolding rows_ok_def by (metis row_for_simps(3))+
      ultimately show ?thesis using c t False by (simp add: deadlineKey_inj)
    qed
    then show ?thesis
      using assms(4) [OF False] False unfolding claim_backed_def put_claim_def by (auto simp: shard_simps c(2))
  qed
  then show ?thesis
    using wf rows lease c unfolding id_step_def id_ok_def id_guar_def will_wake_def
    by (auto simp: put_claim_def shard_simps split: if_splits)
qed

lemma id_step_trans: "id_step now s s1 \<Longrightarrow> id_step now s1 s2 \<Longrightarrow> id_step now s s2"
  unfolding id_step_def id_guar_def by blast

section \<open>The transactions\<close>

definition id_txn :: "(int \<Rightarrow> shard \<Rightarrow> hook_exn + 'r \<times> shard) \<Rightarrow> bool" where
  "id_txn f \<longleftrightarrow> (\<forall>now s. in_time now \<longrightarrow> id_ok s \<longrightarrow>
     (case f now s of Inl e \<Rightarrow> True | Inr (x, s') \<Rightarrow> id_step now s s'))"

lemma id_txnI:
  assumes "\<And>now s x s'. in_time now \<Longrightarrow> id_ok s \<Longrightarrow> f now s = Inr (x, s') \<Longrightarrow> id_step now s s'"
  shows "id_txn f"
  using assms unfolding id_txn_def by (auto split: sum.splits)

lemma id_drop_claim:
  assumes "id_ok s" "id_claim i s = Some c"
  shows "id_step now s (del_shard [id_claim_key i, hc_deadline c] s)"
  by (rule id_del [OF assms(1)])
    (use same_deadline [OF assms(1) _ assms(2)] claim_row_key [OF assms(1)] in \<open>auto dest!: sym [of _ "id_claim_key i"]\<close>)

lemma id_step_ok: "id_step now s s' \<Longrightarrow> id_ok s'"
  by (simp add: id_step_def)

lemma withdraw_id: "id_txn (withdrawRecord (id_record_key i) who)"
proof (rule id_txnI)
  fix now s x s' assume ok: "id_ok s" and r: "withdrawRecord (id_record_key i) who now s = Inr (x, s')"
  have "id_step now s (del_shard [id_record_key i] s)"
    by (rule id_del [OF ok]) (use claim_row_key [OF ok] in auto)
  then show "id_step now s s'"
    using r id_step_refl [OF ok] by (auto simp: withdrawRecord_def split: option.splits if_splits)
qed

lemma publishClaim_id: "id_txn (publishClaim (id_record_key i) (id_claim_key i) c h)"
proof (rule id_txnI)
  fix now s x s' assume ok: "id_ok s" and r: "publishClaim (id_record_key i) (id_claim_key i) c h now s = Inr (x, s')"
  have put: "id_step now s (put_shard (id_record_key i) (HRecord h) s)" by (rule id_put_record [OF ok])
  have "id_step now s (del_shard [id_claim_key i, hc_deadline d] (put_shard (id_record_key i) (HRecord h) s))"
    if "id_claim i s = Some d" for d
    by (rule id_step_trans [OF put id_drop_claim [OF id_step_ok [OF put]]]) (simp add: that shard_simps)
  then show "id_step now s s'"
    using r id_step_refl [OF ok] by (auto simp: publishClaim_def split: option.splits if_splits)
qed

lemma releaseOwnClaim_id: "id_txn (releaseOwnClaim (id_claim_key i) who c)"
  by (rule id_txnI)
    (auto simp: releaseOwnClaim_def id_step_refl id_drop_claim split: option.splits if_splits)

lemma put_new_claim_id:
  assumes "id_ok s" "in_time now" "rows_ok s1" "\<And>j. j \<noteq> i \<Longrightarrow> claim_backed j s1"
    "\<And>k row. get_row k s1 = Some row \<Longrightarrow> get_row k s = Some row"
  shows "id_step now s (put_claim (id_claim_key i) i (new_claim i who c now) s1)"
  by (rule id_put_claim [OF assms]) (simp_all add: new_claim_def)

lemma dropped_row:
  assumes "id_ok s" "id_claim i s = Some c" "set ks \<subseteq> {id_claim_key i, hc_deadline c}"
  shows "rows_ok (del_shard ks s)" "j \<noteq> i \<Longrightarrow> claim_backed j (del_shard ks s)"
    "get_row k (del_shard ks s) = Some row \<Longrightarrow> get_row k s = Some row"
proof -
  show "rows_ok (del_shard ks s)" using assms(1) rows_ok_del by (simp add: id_ok_def)
  show "get_row k (del_shard ks s) = Some row \<Longrightarrow> get_row k s = Some row" by (simp add: shard_simps split: if_splits)
  show "claim_backed j (del_shard ks s)" if "j \<noteq> i"
  proof -
    have "id_claim_key j \<notin> set ks" using assms(3) that claim_row_key [OF assms(1,2)] by auto
    moreover have "hc_deadline d \<notin> set ks" if "id_claim j s = Some d" for d
      using assms(3) same_deadline [OF assms(1) that assms(2)] \<open>j \<noteq> i\<close> claim_row_key [OF assms(1) that] by auto
    ultimately show ?thesis
      using row_of_claim [OF assms(1), of j] by (auto simp: claim_backed_def shard_simps)
  qed
qed

lemma reserve_id: "id_txn (idReserveTxn i who c expired committed)"
proof (rule id_txnI)
  fix now s x s' assume t: "in_time now" and ok: "id_ok s"
    and r: "idReserveTxn i who c expired committed now s = Inr (x, s')"
  have new: "id_step now s (put_claim (id_claim_key i) i (new_claim i who c now) s)"
    by (rule put_new_claim_id [OF ok t]) (use ok in \<open>auto simp: id_ok_def\<close>)
  have again: "id_step now s (put_claim (id_claim_key i) i (new_claim i who c now) (del_shard ks s))"
    if "id_claim i s = Some d" "set ks \<subseteq> {id_claim_key i, hc_deadline d}" for d ks
    by (rule put_new_claim_id [OF ok t]) (use dropped_row [OF ok that] in auto)
  have renew: "id_step now s (renewClaim (id_claim_key i) i d now s)" if "id_claim i s = Some d" for d
    unfolding renewClaim_def
    by (rule id_put_claim [OF ok t]) (use dropped_row [OF ok that, of "[hc_deadline d]"] in auto)
  show "id_step now s s'"
    using r new again renew id_step_refl [OF ok]
    by (auto simp: idReserveTxn_def Let_def split: option.splits if_splits)
qed

lemma release_id: "id_txn (idReleaseTxn hs)"
proof (rule id_txnI)
  fix now s x s' assume ok: "id_ok s" and r: "idReleaseTxn hs now s = Inr (x, s')"
  define ds where "ds = concat (map fst (map (idReleaseKeys s) hs))"
  define rs where "rs = concat (map snd (map (idReleaseKeys s) hs))"
  have ds: "\<exists>i. k = id_record_key i \<or> k = id_claim_key i" if "k \<in> set ds" for k
    using that by (auto simp: ds_def idReleaseKeys_def Let_def split: option.splits if_splits prod.splits)
  have rs: "\<exists>i c. id_claim i s = Some c \<and> k = hc_deadline c \<and> id_claim_key i \<in> set ds" if k: "k \<in> set rs" for k
  proof -
    obtain i who where h: "(i, who) \<in> set hs" "k \<in> set (snd (idReleaseKeys s (i, who)))"
      using k unfolding rs_def by force
    then obtain c where "id_claim i s = Some c" "hc_owner c = who" "k = hc_deadline c"
      by (auto simp: idReleaseKeys_def Let_def split: option.splits if_splits)
    moreover from this h(1) have "id_claim_key i \<in> set ds"
      by (force simp: ds_def idReleaseKeys_def Let_def)
    ultimately show ?thesis by blast
  qed
  have "id_step now s (del_shard (ds @ rs) s)"
  proof (rule id_del [OF ok])
    fix i c assume c: "id_claim i s = Some c" and d: "hc_deadline c \<in> set (ds @ rs)"
    have "hc_deadline c \<notin> set ds" using ds claim_row_key [OF ok c] by fastforce
    then have "hc_deadline c \<in> set rs" using d by simp
    from rs [OF this] obtain j d where "id_claim j s = Some d" "hc_deadline c = hc_deadline d" "id_claim_key j \<in> set ds"
      by blast
    then show "id_claim_key i \<in> set (ds @ rs)" using same_deadline [OF ok c] by auto
  qed
  moreover have "s' = del_shard (ds @ rs) s"
    using r by (simp add: idReleaseTxn_def Let_def ds_def rs_def del_shard_def kv_del_all_append)
  ultimately show "id_step now s s'" by simp
qed

lemma publish_id: "id_txn (idPublishTxn i h who c)"
proof (rule id_txnI)
  fix now s x s' assume ok: "id_ok s" and r: "idPublishTxn i h who c now s = Inr (x, s')"
  have put: "id_step now s (put_shard (id_record_key i) (HRecord h) s)" by (rule id_put_record [OF ok])
  have "id_step now s (del_shard [id_claim_key i, hc_deadline d] (put_shard (id_record_key i) (HRecord h) s))"
    if "id_claim i s = Some d" for d
    by (rule id_step_trans [OF put id_drop_claim [OF id_step_ok [OF put]]]) (simp add: that shard_simps)
  then show "id_step now s s'"
    using r put by (auto simp: idPublishTxn_def Let_def bindE_split split: option.splits)
qed

section \<open>Compaction\<close>

text \<open>What a page of due rows is: rows of the shard as it was read, due then.\<close>

definition due_page :: "int \<Rightarrow> shard \<Rightarrow> (string \<times> claim_deadline) list \<Rightarrow> bool" where
  "due_page now s page \<longleftrightarrow> distinct (map fst page) \<and>
     (\<forall>(k, row) \<in> set page. get_row k s = Some row \<and> cd_expires_at row \<le> now)"

lemma claim_rows_row:
  assumes "rows_ok s" "(k, row) \<in> set (claim_rows q s)"
  shows "get_row k s = Some row" "in_query q k"
proof -
  obtain v where v: "(k, v) \<in> set (kv_list q (sh_kv s))" "as_claim_deadline v = Some row"
    using assms(2) by (auto simp: claim_rows_def List.map_filter_def)
  have "kv_get k (sh_kv s) = Some v"
    by (rule kv_list_get [OF _ v(1)]) (use assms(1) in \<open>simp add: rows_ok_def shard_wf_def\<close>)
  then show "get_row k s = Some row" using v(2) by (simp add: get_row_def)
  show "in_query q k" by (rule kv_list_in_query [OF v(1)])
qed

lemma distinct_claim_rows:
  assumes "rows_ok s" "q_reverse q = False"
  shows "distinct (map fst (claim_rows q s))"
proof -
  have "distinct (map fst (sh_kv s))"
    using assms(1) by (intro kv_wf_distinct) (simp add: rows_ok_def shard_wf_def)
  then have "distinct (map fst (kv_list q (sh_kv s)))"
    using assms(2) by (cases "q_limit q")
      (simp_all add: kv_list_def Let_def take_limit_def distinct_map_filter take_map [symmetric])
  moreover have "distinct (map fst es) \<Longrightarrow>
      distinct (map fst (List.map_filter (\<lambda>(k, v). map_option (Pair k) (dec v)) es))" for es :: "(string \<times> hval) list" and dec :: "hval \<Rightarrow> claim_deadline option"
    by (induction es) (force simp: List.map_filter_def split: option.splits)+
  ultimately show ?thesis by (simp add: claim_rows_def)
qed

lemma due_page_rows:
  assumes "id_ok s" "in_time now"
  shows "due_page now s (take n (claim_rows (due_query now) s))"
proof -
  have ok: "rows_ok s" using assms(1) by (simp add: id_ok_def)
  have "cd_expires_at row \<le> now" if "(k, row) \<in> set (claim_rows (due_query now) s)" for k row
  proof -
    note r = claim_rows_row [OF ok that]
    have k: "k = deadlineKey claim_deadline_prefix (cd_name row) (cd_expires_at row)"
      "0 \<le> cd_expires_at row" "cd_expires_at row < 10 ^ 13" using ok r(1) by (auto simp: rows_ok_def)
    have "k < claim_deadline_prefix @ pad (now + 1)"
      using r(2) by (simp add: in_query_def due_query_def prefix_query_def)
    moreover have "now + 1 < 10 ^ 13" "0 \<le> now" using assms(2) by (auto simp: in_time_def bound_defs)
    ultimately show ?thesis using due_key [OF k(2,3)] k(1) by simp
  qed
  moreover have "distinct (map fst (take n (claim_rows (due_query now) s)))"
    using distinct_claim_rows [OF ok, of "due_query now"]
    by (simp add: take_map [symmetric] due_query_def prefix_query_def)
  ultimately show ?thesis
    using claim_rows_row(1) [OF ok] by (auto simp: due_page_def dest!: in_set_takeD)
qed

lemma idRearm_alarm: "\<exists>a. idRearm now full s = s\<lparr>sh_alarm := a\<rparr>"
  by (auto simp: idRearm_def split: list.splits)

lemma wakes_after_rearm:
  assumes "rows_ok s"
  shows "will_wake (idRearm now full s)"
proof -
  let ?q = "(prefix_query claim_deadline_prefix)\<lparr>q_limit := Some 1\<rparr>"
  have wf: "kv_wf (sh_kv s)" using assms by (simp add: rows_ok_def shard_wf_def)
  have "get_row k s = None" if "claim_rows ?q s = []" for k
  proof -
    have "kv_list ?q (sh_kv s) = []"
    proof (rule ccontr)
      assume "kv_list ?q (sh_kv s) \<noteq> []"
      then obtain k v es where e: "kv_list ?q (sh_kv s) = (k, v) # es" by (cases "kv_list ?q (sh_kv s)") auto
      then have m: "(k, v) \<in> set (kv_list ?q (sh_kv s))" by simp
      have "as_claim_deadline v \<noteq> None"
        using assms kv_list_get [OF wf m] kv_list_prefix [OF m] by (auto simp: rows_ok_def prefix_query_def)
      then show False using that e by (auto simp: claim_rows_def List.map_filter_simps split: option.splits)
    qed
    then have none: "{(k, v) \<in> set (sh_kv s). in_query ?q k} = {}"
      using kv_list_complete [of ?q 1 "sh_kv s"] by simp
    show ?thesis
    proof (cases "get_row k s")
      case (Some row)
      then obtain v where "kv_get k (sh_kv s) = Some v" by (auto simp: get_row_def bind_eq_Some_conv)
      moreover have "k = deadlineKey claim_deadline_prefix (cd_name row) (cd_expires_at row)"
        using assms Some by (simp add: rows_ok_def)
      moreover from this have "has_prefix claim_deadline_prefix k" by (simp add: deadlineKey_def)
      ultimately show ?thesis
        using none kv_get_iff_mem [OF wf] by (auto simp: in_query_def prefix_query_def)
    qed
  qed
  then show ?thesis
    by (cases "claim_rows ?q s") (auto simp: idRearm_def will_wake_def shard_simps)
qed

definition compacted_id ::
    "int \<Rightarrow> (string \<Rightarrow> hook_claim option) \<Rightarrow> (string \<times> claim_deadline) list \<Rightarrow> string list \<Rightarrow> shard \<Rightarrow> shard \<Rightarrow> bool" where
  "compacted_id now current page ds s s' \<longleftrightarrow>
     id_ok s' \<and> (\<forall>i. id_claim i s' = id_claim i s) \<and> (\<forall>k. get_row k s' = get_row k s) \<and> sh_alarm s' = sh_alarm s \<and>
     (\<forall>k \<in> set ds. row_key k \<longrightarrow> k \<in> fst ` set page) \<and>
     (\<forall>row \<in> set page. \<forall>c. fst row \<in> set ds \<longrightarrow> current (cd_name (snd row)) = Some c \<longrightarrow>
        hc_id c = cd_claim (snd row) \<longrightarrow> hc_expires_at c \<le> now \<longrightarrow> id_claim_key (cd_name (snd row)) \<in> set ds)"

lemma compactRow_id:
  assumes "id_ok s" "row_key (fst row)"
    "compactRow (id_record_key (cd_name (snd row))) (id_claim_key (cd_name (snd row))) now row
      (current (cd_name (snd row))) found answer s = (s1, d1, p1)"
  shows "compacted_id now current [row] d1 s s1" "set d1 \<subseteq> {fst row, id_claim_key (cd_name (snd row))}"
proof -
  let ?k = "id_record_key (cd_name (snd row))"
  have "get_row ?k s = None"
    using assms(1) row_is_row_key [of s ?k] by (cases "get_row ?k s") (auto simp: id_ok_def)
  then have rows: "get_row k (put_shard ?k (HRecord h) s) = get_row k s" for k h by (simp add: shard_simps)
  have "id_ok (put_shard ?k (HRecord h) s)" for h by (rule id_step_ok [OF id_put_record [OF assms(1)]])
  then show "compacted_id now current [row] d1 s s1"
    using assms rows
    by (auto simp: compactRow_def compacted_id_def shard_simps(2) alarm_put reads_put(2) split: option.splits if_splits)
  show "set d1 \<subseteq> {fst row, id_claim_key (cd_name (snd row))}"
    using assms(3) by (auto simp: compactRow_def split: option.splits if_splits)
qed

lemma compactRows_id:
  assumes "id_ok s" "compactRows id_record_key id_claim_key now current page found answers s = (s', ds, ps)"
    "distinct (map fst page)" "\<forall>row \<in> set page. row_key (fst row)"
  shows "compacted_id now current page ds s s'"
  using assms
proof (induction page arbitrary: s s' ds ps)
  case Nil
  then show ?case by (simp add: compacted_id_def)
next
  case (Cons row page)
  let ?n = "cd_name (snd row)"
  obtain s1 d1 p1 where 1: "compactRow (id_record_key ?n) (id_claim_key ?n) now row (current ?n) (found ?n)
      (answers ?n) s = (s1, d1, p1)" by (metis prod_cases3)
  obtain s2 d2 p2 where 2: "compactRows id_record_key id_claim_key now current page found answers s1 = (s2, d2, p2)"
    by (metis prod_cases3)
  have e: "s' = s2" "ds = d1 @ d2" using Cons.prems(2) by (simp_all add: 1 2 Let_def)
  have rk: "row_key (fst row)" using Cons.prems(4) by simp
  note a = compactRow_id [where current = current, OF Cons.prems(1) rk 1]
  have b: "compacted_id now current page d2 s1 s2"
    by (rule Cons.IH [OF _ 2]) (use a(1) Cons.prems in \<open>auto simp: compacted_id_def\<close>)
  have fresh: "fst row \<notin> set d2" using b Cons.prems(3) rk by (auto simp: compacted_id_def)
  have other: "fst r \<notin> set d1" if "r \<in> set page" for r
  proof -
    have "fst row \<notin> fst ` set page" using Cons.prems(3) by simp
    moreover have "fst r \<in> fst ` set page" using that by (rule imageI)
    ultimately have "fst r \<noteq> fst row" "row_key (fst r)" using that Cons.prems(4) by (metis, simp)
    then show ?thesis using a(2) by auto
  qed
  have keys: "k \<in> fst ` set (row # page)" if "k \<in> set (d1 @ d2)" "row_key k" for k
    using that a(2) b unfolding compacted_id_def by auto
  have drop: "id_claim_key (cd_name (snd r)) \<in> set (d1 @ d2)"
    if "r \<in> set (row # page)" "fst r \<in> set (d1 @ d2)" "current (cd_name (snd r)) = Some c"
      "hc_id c = cd_claim (snd r)" "hc_expires_at c \<le> now" for r c
  proof (cases "r = row")
    case True
    then show ?thesis using that fresh a(1) unfolding compacted_id_def by simp
  next
    case False
    then have "r \<in> set page" "fst r \<in> set d2" using that other by auto
    then show ?thesis using that b unfolding compacted_id_def by simp
  qed
  show ?case using a(1) b keys drop unfolding e compacted_id_def by simp
qed

lemma compact_id:
  assumes ok: "id_ok s" "id_ok s0" and rely: "id_rely started s0 now s" and page: "due_page started s0 page"
    and r: "idCompactTxn started full page found answers now s = Inr (x, s')"
  shows "id_step now s s'" "will_wake s'"
proof -
  obtain s1 ds ps where c: "compactRows id_record_key id_claim_key started (\<lambda>i. id_claim i s) page found answers s
      = (s1, ds, ps)" by (metis prod_cases3)
  have s': "s' = idRearm started full (del_shard ds s1)" using r by (simp add: idCompactTxn_def c)
  have prow: "get_row k s0 = Some row" "cd_expires_at row \<le> started" "row_key k" if "(k, row) \<in> set page" for k row
    using page that row_is_row_key [of s0 k row] ok(2) by (auto simp: due_page_def id_ok_def)
  have k: "distinct (map fst page)" "\<forall>row \<in> set page. row_key (fst row)"
    using page prow(3) by (auto simp: due_page_def)
  note a = compactRows_id [OF ok(1) c k, unfolded compacted_id_def]
  have one: "id_step now s s1"
  proof -
    have "will_wake s1 = will_wake s" using a by (simp add: will_wake_def)
    then show ?thesis using a by (simp add: id_step_def id_guar_def)
  qed
  have two: "id_step now s1 (del_shard ds s1)"
  proof (rule id_del)
    show "id_ok s1" using a by simp
    fix i c assume c: "id_claim i s1 = Some c" and d: "hc_deadline c \<in> set ds"
    have cs: "id_claim i s = Some c" using c a by simp
    note b = row_of_claim [OF ok(1) cs]
    obtain row where row: "(hc_deadline c, row) \<in> set page"
      using a d claim_row_key [OF ok(1) cs] by fastforce
    have key: "hc_deadline c = deadlineKey claim_deadline_prefix (cd_name row) (cd_expires_at row)"
      "0 \<le> cd_expires_at row" "cd_expires_at row < 10 ^ 13"
      using prow(1) [OF row] ok(2) by (auto simp: id_ok_def rows_ok_def)
    then have "cd_expires_at row = hc_expires_at c" using b by (simp add: deadlineKey_inj)
    then have "hc_expires_at c \<le> started" using prow(2) [OF row] by simp
    then have "get_row (hc_deadline c) s0 = Some (row_for i c)"
      using rely b(1,2) by (auto simp: id_rely_def)
    then have "row = row_for i c" using prow(1) [OF row] by simp
    then show "id_claim_key i \<in> set ds"
      using a row d cs \<open>hc_expires_at c \<le> started\<close> by fastforce
  qed
  have rows: "rows_ok (del_shard ds s1)" using id_step_ok [OF two] by (simp add: id_ok_def)
  have wake: "will_wake s'" unfolding s' by (rule wakes_after_rearm [OF rows])
  have three: "id_step now (del_shard ds s1) s'"
  proof -
    obtain al where "s' = (del_shard ds s1)\<lparr>sh_alarm := al\<rparr>" unfolding s' using idRearm_alarm by blast
    then show ?thesis using id_alarm [OF id_step_ok [OF two]] wake by simp
  qed
  show "id_step now s s'" by (rule id_step_trans [OF id_step_trans [OF one two] three])
  show "will_wake s'" by (rule wake)
qed

section \<open>The handlers\<close>

lemma safe_id_txn: "id_txn f \<Longrightarrow> id_safe any (txn f) t s"
proof (rule safe_txn)
  fix now s1 assume f: "id_txn f" and r: "id_rely t s now s1" and ok: "id_ok s1"
  have "in_time now" using r by (simp add: id_rely_def)
  then show "case f now s1 of Inl e \<Rightarrow> id_guar now s1 s1
      | Inr (x, s') \<Rightarrow> id_ok s' \<and> id_guar now s1 s' \<and> True"
    using f ok by (auto simp: id_txn_def id_step_def id_guar_refl split: sum.splits)
qed

lemma safe_id_look: "id_safe any (look f) t s"
  by (rule safe_look) (simp add: id_guar_refl)

lemma safe_id_confirm: "id_safe any (confirmRepublished (id_record_key i) who tok) t s"
  unfolding confirmRepublished_def askCommittedHook_def
  by (intro safe_seq [where Q' = any] safe_askHook safe_if safe_id_txn withdraw_id TrueI) simp_all

lemma safe_id_publishCommitted: "id_safe any (publishCommittedClaim (id_record_key i) (id_claim_key i) tok) t s"
  unfolding publishCommittedClaim_def askCommittedHook_def split_def
  by (intro safe_seq [where Q' = any] safe_id_look safe_case_option safe_if safe_id_txn publishClaim_id safe_id_confirm
      safe_askHook TrueI) simp_all

lemma safe_id_get: "id_safe any (idGet i) t s"
  unfolding idGet_def
  by (intro safe_seq [where Q' = any] safe_id_look safe_case_option safe_id_publishCommitted safe_active TrueI) simp_all

lemma safe_id_reserve: "id_safe any (idReserve n i who c) t s"
proof (induction n arbitrary: t s)
  case (Suc n)
  have "id_safe any (case r of Answered x \<Rightarrow> Return x | _ \<Rightarrow> idReserve n i who c) t s" for r t s
    using Suc by (cases r) simp_all
  then show ?case
    unfolding idReserve.simps askExpiredClaim_def
    by (intro safe_seq [where Q' = any] safe_id_look safe_case_option safe_id_txn reserve_id safe_askHook TrueI) simp_all
qed simp

lemma safe_id_releaseBatch: "id_safe any (idReleaseBatch hs) t s"
  unfolding idReleaseBatch_def by (intro safe_if safe_id_txn release_id) simp_all

lemma safe_id_publish: "id_safe any (idPublish i h who c) t s"
  unfolding idPublish_def
  by (intro safe_seq [where Q' = any] safe_active safe_if safe_id_releaseBatch safe_id_txn publish_id TrueI) simp_all

lemma safe_askOwners:
  "(\<And>a. Q a t s) \<Longrightarrow> safe I G R A Q (askOwners now tok page found) t s"
proof (induction page arbitrary: Q)
  case (Cons row page)
  show ?case
    unfolding askOwners.simps
  proof (rule safe_bind, rule Cons.IH, goal_cases)
    case (1 a)
    show ?case
      using Cons.prems unfolding askExpiredClaim_def
      by (auto intro!: safe_case_option safe_bind safe_askHook)
  qed
qed simp

lemma safe_id_compact: "id_safe any idCompactClaims t s"
  unfolding idCompactClaims_def
proof (rule safe_seq [where Q' = "\<lambda>(started, full, page, found) t s. t = started \<and> id_ok s \<and> due_page started s page"],
    goal_cases)
  case 1
  show ?case
    by (rule safe_look) (auto simp: id_guar_refl id_rely_def Let_def intro: due_page_rows)
next
  case (2 x t s)
  obtain started full page found where x: "x = (started, full, page, found)" by (cases x)
  have t: "t = started" "id_ok s" "due_page started s page" using 2 by (simp_all add: x)
  have commit: "id_safe any (txn (idCompactTxn started full page found answers)) t s" for answers
  proof (rule safe_txn)
    fix now s1 assume r: "id_rely t s now s1" and ok: "id_ok s1"
    show "case idCompactTxn started full page found answers now s1 of Inl e \<Rightarrow> id_guar now s1 s1
        | Inr (x, s') \<Rightarrow> id_ok s' \<and> id_guar now s1 s' \<and> True"
    proof (cases "idCompactTxn started full page found answers now s1")
      case (Inr p)
      obtain pub s' where p: "p = (pub, s')" by (cases p)
      have "id_step now s1 s'"
        by (rule compact_id(1) [OF ok t(2) r [unfolded t(1)] t(3) Inr [unfolded p]])
      then show ?thesis by (simp add: Inr p id_step_def)
    qed (simp add: id_guar_refl)
  qed
  have confirms: "id_safe any (eachP (\<lambda>(i, who). confirmRepublished (id_record_key i) who None) ps) t s" for ps t s
    by (rule safe_each) (auto simp: safe_id_confirm)
  show ?case
    unfolding x prod.case
  proof (rule safe_seq [where Q' = "\<lambda>_ t' s'. t' = t \<and> s' = s"], goal_cases)
    case 1
    show ?case by (rule safe_askOwners) simp
  next
    case (2 answers t' s')
    then have e: "t' = t" "s' = s" by simp_all
    show ?case unfolding e
      by (rule safe_seq [where Q' = any, OF commit], rule safe_seq [where Q' = any, OF confirms]) simp
  qed
qed

lemma retry_id: "id_txn (\<lambda>now s. Inr ((), s\<lparr>sh_alarm := Some (now + lifecycle_compaction_retry_ms)\<rparr>))"
  by (rule id_txnI) (auto intro!: id_alarm simp: will_wake_def)

lemma safe_id_alarm: "id_safe any idAlarm t s"
  unfolding idAlarm_def by (intro safe_catch safe_id_compact safe_id_txn retry_id)

text \<open>The alarm handler always ends with the alarm set while rows are left.\<close>

lemma reaches_asks: "(\<And>a. K a) \<Longrightarrow> reaches_then I J True K (askOwners now tok page found)"
proof (induction page arbitrary: K)
  case (Cons row page)
  have bind: "reaches_then I J b (\<lambda>x. reaches_then I J b K (f x)) p \<Longrightarrow> reaches_then I J b K (bindP p f)"
    for b and f :: "_ \<Rightarrow> (_ \<Rightarrow> _) handler" and p :: "_ handler"
    by (induction p) (auto simp: reaches_then_Act)
  have "reaches_then I J True K
     (case found (cd_name (snd row)) of
         None \<Rightarrow> Return answers
       | Some c \<Rightarrow>
           if hc_id c \<noteq> cd_claim (snd row) \<or> hc_expires_at c > now then Return answers
           else bindP (askExpiredClaim (hc_owner c) (hc_id c) (tok (cd_name (snd row))))
                  (\<lambda>h. Return (answers(cd_name (snd row) := h))))" for answers
    using Cons.prems by (auto simp: askExpiredClaim_def askHook_def split: option.splits reply.splits)
  then show ?case unfolding askOwners.simps by (intro bind Cons.IH)
qed simp

lemma reaches_then_look: "(\<And>now s. I s \<Longrightarrow> K (f now s)) \<Longrightarrow> reaches_then I J b K (look f)"
  by (simp add: look_def reaches_then_Act)

lemma reaches_txn: "(\<And>now s x s'. I s \<Longrightarrow> f now s = Inr (x, s') \<Longrightarrow> J s') \<Longrightarrow> reaches I J True (txn f)"
  unfolding txn_def reaches_Act by (auto split: sum.splits)

lemma compact_wakes:
  assumes ok: "id_ok s" and page: "distinct (map fst page)" "\<forall>row \<in> set page. row_key (fst row)"
    and r: "idCompactTxn started full page found answers now s = Inr (x, s')"
  shows "will_wake s'"
proof -
  obtain s1 ds ps where c: "compactRows id_record_key id_claim_key started (\<lambda>i. id_claim i s) page found answers s
      = (s1, ds, ps)" by (metis prod_cases3)
  have "id_ok s1" using compactRows_id [OF ok c page] by (simp add: compacted_id_def)
  then have "rows_ok (del_shard ds s1)" using rows_ok_del by (simp add: id_ok_def)
  then have "will_wake (idRearm started full (del_shard ds s1))" by (rule wakes_after_rearm)
  then show ?thesis using r by (auto simp: idCompactTxn_def c)
qed

lemma alarm_reaches: "reaches id_ok will_wake False idAlarm"
  unfolding idAlarm_def
proof (rule reaches_catch)
  show "reaches id_ok will_wake True idCompactClaims"
    unfolding idCompactClaims_def
  proof (rule reaches_seq, rule reaches_then_look, goal_cases)
    case (1 now s)
    let ?due = "claim_rows (due_query now) s"
    have "row_key (fst row)" if "row \<in> set ?due" for row
      using claim_rows_row(1) [of s "fst row" "snd row"] row_is_row_key [of s] 1 that
      by (auto simp: id_ok_def)
    then have rk: "\<forall>row \<in> set (take n ?due). row_key (fst row)" for n by (auto dest: in_set_takeD)
    have d: "distinct (map fst (take n ?due))" for n
      using distinct_claim_rows [of s "due_query now"] 1
      by (simp add: id_ok_def take_map [symmetric] due_query_def prefix_query_def)
    show ?case
      unfolding Let_def prod.case
      by (rule reaches_seq, rule reaches_asks, rule reaches_bind, rule reaches_txn, rule compact_wakes [OF _ d rk])
  qed
next
  show "reaches id_ok will_wake False (txn (\<lambda>now s. Inr ((), s\<lparr>sh_alarm := Some (now + lifecycle_compaction_retry_ms)\<rparr>)))"
    for e :: hook_exn by (simp add: txn_def reaches_Act will_wake_def)
qed

section \<open>The system\<close>

abbreviation id_system_step :: "token_system \<Rightarrow> token_system \<Rightarrow> bool" where
  "id_system_step \<equiv> system_step in_time id_request id_fire (\<lambda>_ _. True)"

lemma id_request_safe: "id_request p \<Longrightarrow> id_safe any p t s"
  by (induction rule: id_request.induct)
    (auto intro!: safe_forget safe_id_get safe_id_reserve safe_id_publish safe_id_releaseBatch
      simp: idReleaseClaim_def intro: safe_id_txn releaseOwnClaim_id)

lemma id_fire_safe:
  assumes "in_time now" "id_fire now s p s'" "id_ok s"
  shows "id_ok s' \<and> id_rely now s now s' \<and> id_safe any p now s'"
  using assms(2)
proof (cases rule: id_fire.cases)
  case (1 a)
  have "id_ok s'" using assms(3) unfolding 1 id_ok_def rows_ok_def claim_backed_def by (simp add: shard_simps)
  then show ?thesis using 1 assms(1) by (simp add: id_rely_def shard_simps safe_id_alarm)
qed

lemma id_guar_wakes: "id_ok s \<Longrightarrow> id_guar now s s' \<Longrightarrow> will_wake s \<Longrightarrow> will_wake s'"
  unfolding id_guar_def by (elim conjE mp)

lemma id_fire_reaches: "id_fire now s p s' \<Longrightarrow> id_ok s \<Longrightarrow> reaches id_ok will_wake False p"
  by (auto elim!: id_fire.cases simp: alarm_reaches)

lemma empty_id_ok: "id_ok empty_shard"
  by (simp add: id_ok_def rows_ok_def claim_backed_def empty_shard_def shard_reads shard_wf_def kv_wf_def)

lemma id_system_ok:
  assumes "id_system_step\<^sup>*\<^sup>* (idle_system empty_shard t) y" "in_time t"
  shows "idshard.sound_system (\<lambda>_ _. True) y" "idshard.promised will_wake y"
proof -
  have start: "idshard.sound_system (\<lambda>_ _. True) (idle_system empty_shard t)"
    using assms(2) by (simp add: idshard.sound_system_def idle_system_def empty_id_ok)
  have p: "idshard.promised will_wake (idle_system empty_shard t)"
    by (simp add: idshard.promised_def idle_system_def will_wake_def empty_shard_def shard_reads)
  show "idshard.sound_system (\<lambda>_ _. True) y"
    by (rule idshard.system_sound [OF assms(1) start id_request_safe id_fire_safe])
  show "idshard.promised will_wake y"
    by (rule idshard.system_promised [OF assms(1) start p id_request_safe id_fire_safe id_guar_wakes id_fire_reaches])
qed

end
