(* ===== verification/TokenRounds.thy ===== *)
theory TokenRounds
  imports TokenSystem
begin

text \<open>
  The \<open>for(;;)\<close> loops of the token shard end: with nothing interfering, two rounds of \<open>reserve\<close> and
  four of \<open>forceReserve\<close> are enough, whatever the clock shows and the run cells answer.
\<close>

abbreviation in_rounds :: "hook_exn \<Rightarrow> bool" where "in_rounds e \<equiv> e \<noteq> Out_Of_Rounds"
abbreviation ends :: "'r handler \<Rightarrow> int \<Rightarrow> shard \<Rightarrow> bool" where "ends \<equiv> solo in_rounds any"

lemma solo_ask: "(\<And>a. solo E Q (k a) t s) \<Longrightarrow> solo E Q (Ask q k) t s"
  by simp

lemma solo_askHook: "(\<And>h. Q h t s) \<Longrightarrow> solo in_rounds Q (askHook q) t s"
  unfolding askHook_def by (rule solo_ask) (simp split: reply.splits)

lemma solo_case_option:
  "(x = None \<Longrightarrow> solo E Q p t s) \<Longrightarrow> (\<And>y. x = Some y \<Longrightarrow> solo E Q (f y) t s) \<Longrightarrow>
   solo E Q (case x of None \<Rightarrow> p | Some y \<Rightarrow> f y) t s"
  by (cases x) simp_all

lemma solo_if:
  "(b \<Longrightarrow> solo E Q p t s) \<Longrightarrow> (\<not> b \<Longrightarrow> solo E Q q t s) \<Longrightarrow> solo E Q (if b then p else q) t s"
  by simp

lemma solo_forget: "solo E (\<lambda>_. Q ()) p t s \<Longrightarrow> solo E Q (forget p) t s"
  unfolding forget_def by (rule solo_seq) simp_all

section \<open>Settling\<close>

text \<open>After a settlement no takeover is pending, and the token has no claim if it had none.\<close>

definition settled :: "string \<Rightarrow> shard \<Rightarrow> bool" where
  "settled k s \<longleftrightarrow> token_takeover k s = None \<and> token_claim k s = None"

lemma settled_withdraw:
  "settled k s \<Longrightarrow> (case withdrawRecord (tokenRecordKey k) who now s of Inl e \<Rightarrow> e \<noteq> Out_Of_Rounds | Inr (x, s') \<Rightarrow> settled k s')"
  by (auto simp: withdrawRecord_def settled_def shard_simps split: option.splits)

lemma solo_confirm: "settled k s \<Longrightarrow> solo in_rounds (\<lambda>_ _. settled k) (confirmRepublished (tokenRecordKey k) who tok) t s"
  unfolding confirmRepublished_def askCommittedHook_def
proof (rule solo_seq [where Q' = "\<lambda>_ _. settled k"], goal_cases)
  case 1
  then show ?case by (intro solo_askHook)
next
  case (2 h t s)
  then show ?case
    using settled_withdraw [of k s]
    by (auto intro!: solo_seq [where Q' = "\<lambda>_ _. settled k"] solo_txn)
qed

lemma solo_settle:
  assumes "token_slot ids k s" "token_claim k s = None"
  shows "solo in_rounds (\<lambda>_ _. settled k) (settleTakeover k None None) t s"
  unfolding settleTakeover_def
proof (rule solo_seq [where Q' = "\<lambda>i _ s'. s' = s \<and> i = token_takeover k s"], goal_cases)
  case 1
  show ?case by (rule solo_look) simp
next
  case (2 i t s')
  then have s': "s' = s" and i: "i = token_takeover k s" by simp_all
  have ask: "solo in_rounds (\<lambda>_ _ s'. s' = s) (askForced j k) t s"
    "solo in_rounds (\<lambda>_ _ s'. s' = s) (askDispose j k) t s" for j t
    by (simp_all add: askForced_def askDispose_def split: reply.splits)
  have roll: "solo in_rounds (\<lambda>_ _. settled k) (rollForward k j h) t s" if "token_takeover k s = Some j" for j h t
    unfolding rollForward_def
  proof (rule solo_seq [where Q' = "\<lambda>_ _ s'. s' = s"], goal_cases)
    case 1
    then show ?case using ask(2) by simp
  next
    case (2 u t s')
    have "case rollForwardTxn k j h now s of Inl e \<Rightarrow> in_rounds e | Inr (x, s') \<Rightarrow> settled k s'" for now
      using that assms by (auto simp: rollForwardTxn_def Let_def settled_def shard_simps split: option.splits)
    then show ?case
      unfolding 2 by (intro solo_seq [where Q' = "\<lambda>_ _. settled k"] solo_txn) (auto intro!: solo_forget solo_confirm)
  qed
  have drop: "case dropTakeover k j now s of Inl e \<Rightarrow> in_rounds e | Inr (x, s') \<Rightarrow> settled k s'"
    if "token_takeover k s = Some j" for j now
  proof -
    have "row_key (ht_deadline j)" "\<And>r. token_retained k s = Some r \<Longrightarrow> row_key (rt_deadline r)"
      using that assms(1) by (auto simp: token_slot_def)
    then show ?thesis
      using that assms(2) by (auto simp: dropTakeover_def Let_def settled_def shard_simps split: option.splits)
  qed
  have intent: "solo in_rounds (\<lambda>_ _. settled k) (settleIntent k None None j) t s" if "token_takeover k s = Some j" for j t
    unfolding settleIntent_def
    by (rule solo_seq [where Q' = "\<lambda>_ _ s'. s' = s"])
      (use ask roll [OF that] drop [OF that] in \<open>auto intro: solo_txn split: prod.splits\<close>)
  show ?case
    unfolding s'
  proof (rule solo_seq [where Q' = "\<lambda>_ _. settled k"], goal_cases)
    case 1
    show ?case
      using assms(2) i intent by (auto intro!: solo_case_option simp: settles_def settled_def)
  next
    case (2 u t s)
    then show ?case by (intro solo_look)
  qed
qed

section \<open>Reservation\<close>

text \<open>A round that finds neither takeover nor claim, or a claim that is expired already, answers.\<close>

lemma reserve_answers:
  assumes "token_takeover k s = None" "\<And>c. token_claim k s = Some c \<Longrightarrow> hc_expires_at c \<le> t"
  shows "ends (tokenReserve (Suc n) k who c) t s"
  unfolding tokenReserve.simps
proof (rule solo_seq [where Q' = "\<lambda>e _ s'. s' = s \<and> e = token_claim k s"], goal_cases)
  case 1
  show ?case
    by (rule solo_look) (use assms(2) in \<open>force simp: expired_claim_def split: option.splits\<close>)
next
  case (2 e t' s')
  have "solo in_rounds (\<lambda>_ _ s'. s' = s) (case e of None \<Rightarrow> Return None
            | Some c \<Rightarrow> askExpiredClaim (hc_owner c) (hc_id c) (Some k)) t' s"
    by (intro solo_case_option) (simp_all add: askExpiredClaim_def solo_askHook)
  then show ?case
    unfolding conjunct1 [OF 2]
  proof (rule solo_seq, goal_cases)
    case (1 committed t' s')
    have "case tokenReserveTxn k who c e committed now s of Inl x \<Rightarrow> in_rounds x | Inr (r, s') \<Rightarrow> \<exists>a. r = Answered a" for now
      using assms(1) conjunct2 [OF 2]
      by (auto simp: tokenReserveTxn_def Let_def split: option.splits prod.splits)
    then show ?case
      unfolding 1 by (intro solo_seq [where Q' = "\<lambda>r _ _. \<exists>a. r = Answered a"] solo_txn) auto
  qed
qed

lemma reserve_ends:
  assumes "token_slot ids k s"
  shows "ends (tokenReserve (Suc (Suc n)) k who c) t s"
  unfolding tokenReserve.simps(2) [of "Suc n"]
proof (rule solo_seq [where Q' = "\<lambda>e t' s'. s' = s"], goal_cases)
  case 1
  show ?case by (rule solo_look) simp
next
  case (2 e t' s')
  have "solo in_rounds (\<lambda>_ _ s'. s' = s) (case e of None \<Rightarrow> Return None
            | Some c \<Rightarrow> askExpiredClaim (hc_owner c) (hc_id c) (Some k)) t' s"
    by (intro solo_case_option) (simp_all add: askExpiredClaim_def solo_askHook)
  then show ?case
    unfolding 2
  proof (rule solo_seq, goal_cases)
    case (1 committed t' s')
    let ?Q = "\<lambda>r now s'. case r of Answered a \<Rightarrow> True
       | Settle \<Rightarrow> token_slot ids k s' \<and> token_claim k s' = None
       | Again \<Rightarrow> token_takeover k s' = None \<and> (\<forall>c. token_claim k s' = Some c \<longrightarrow> hc_expires_at c \<le> now)"
    have "case tokenReserveTxn k who c e committed now s of Inl x \<Rightarrow> in_rounds x | Inr (r, s') \<Rightarrow> ?Q r now s'" for now
      using assms
      by (auto simp: tokenReserveTxn_def Let_def freeExpiredRetention_def token_slot_def shard_simps
          split: option.splits prod.splits)
    then show ?case
      unfolding 1
    proof (intro solo_seq [where Q' = ?Q] solo_txn, assumption, goal_cases)
      case (1 r now s')
      show ?case
      proof (cases r)
        case Settle
        then have "token_slot ids k s'" "token_claim k s' = None" using 1 by simp_all
        then have "solo in_rounds (\<lambda>_ _. settled k) (settleTakeover k None None) now s'" by (rule solo_settle)
        then show ?thesis
          unfolding Settle round.case
        proof (rule solo_seq, goal_cases)
          case (1 x t s)
          then show ?case by (intro reserve_answers) (simp_all add: settled_def)
        qed
      next
        case Again
        then show ?thesis using 1 by (simp only: round.case) (intro reserve_answers, simp_all)
      qed simp
    qed
  qed
qed

section \<open>Forced reservation\<close>

text \<open>\<open>reserve\<close> on a token that is free, or claimed by the same owner.\<close>

definition own_answer :: "owner \<Rightarrow> claim_result \<Rightarrow> bool" where
  "own_answer who r \<longleftrightarrow> (case r of Claimed c \<Rightarrow> True | Held o1 \<Rightarrow> o1 = who)"

definition free_for :: "string \<Rightarrow> owner \<Rightarrow> shard \<Rightarrow> bool" where
  "free_for k who s \<longleftrightarrow> token_takeover k s = None \<and> token_record k s = None \<and>
     (\<forall>c. token_claim k s = Some c \<longrightarrow> hc_owner c = who)"

lemma reserve_own_round:
  assumes "free_for k who s"
    and next_round: "\<And>t s'. free_for k who s' \<Longrightarrow> (\<And>c. token_claim k s' = Some c \<Longrightarrow> hc_expires_at c \<le> t) \<Longrightarrow>
      (\<exists>c. token_claim k s = Some c \<and> t0 < hc_expires_at c) \<Longrightarrow>
      solo in_rounds (\<lambda>r _ _. own_answer who r) (tokenReserve n k who c) t s'"
  shows "solo in_rounds (\<lambda>r _ _. own_answer who r) (tokenReserve (Suc n) k who c) t0 s"
  unfolding tokenReserve.simps
proof (rule solo_seq [where Q' = "\<lambda>e t' s'. s' = s \<and> (e = token_claim k s \<or>
    (\<exists>c. token_claim k s = Some c \<and> t0 < hc_expires_at c))"], goal_cases)
  case 1
  show ?case by (rule solo_look) (auto simp: expired_claim_def split: option.splits)
next
  case (2 e t' s')
  have "solo in_rounds (\<lambda>_ _ s'. s' = s) (case e of None \<Rightarrow> Return None
            | Some c \<Rightarrow> askExpiredClaim (hc_owner c) (hc_id c) (Some k)) t' s"
    by (intro solo_case_option) (simp_all add: askExpiredClaim_def solo_askHook)
  then show ?case
    unfolding conjunct1 [OF 2]
  proof (rule solo_seq, goal_cases)
    case (1 committed t' s')
    let ?Q = "\<lambda>r now s'. case r of Answered a \<Rightarrow> own_answer who a
       | Settle \<Rightarrow> False
       | Again \<Rightarrow> free_for k who s' \<and> (\<forall>c. token_claim k s' = Some c \<longrightarrow> hc_expires_at c \<le> now) \<and>
           (\<exists>c. token_claim k s = Some c \<and> t0 < hc_expires_at c)"
    have "case tokenReserveTxn k who c e committed now s of Inl x \<Rightarrow> in_rounds x | Inr (r, s') \<Rightarrow> ?Q r now s'" for now
    proof (cases "token_claim k s")
      case None
      then show ?thesis
        using assms(1) by (simp add: tokenReserveTxn_def freeExpiredRetention_def free_for_def own_answer_def)
    next
      case (Some d)
      have d: "hc_owner d = who" using assms(1) Some by (simp add: free_for_def)
      have "t0 < hc_expires_at d" if "map_option hc_id e \<noteq> Some (hc_id d) \<or> map_option hc_expires_at e \<noteq> Some (hc_expires_at d)"
        using conjunct2 [OF 2] that Some by auto
      then show ?thesis
        using assms(1) Some d by (simp add: tokenReserveTxn_def Let_def freeExpiredRetention_def free_for_def own_answer_def)
    qed
    then show ?case
      unfolding 1
    proof (intro solo_seq [where Q' = ?Q] solo_txn, assumption, goal_cases)
      case (1 r now s')
      then show ?case by (cases r) (auto intro: next_round)
    qed
  qed
qed

lemma reserve_free:
  "token_claim k s = None \<Longrightarrow> free_for k who s \<Longrightarrow>
   solo in_rounds (\<lambda>r _ _. own_answer who r) (tokenReserve (Suc n) k who c) t s"
  by (rule reserve_own_round) auto

lemma reserve_own:
  assumes "free_for k who s"
  shows "solo in_rounds (\<lambda>r _ _. own_answer who r) (tokenReserve (Suc (Suc n)) k who c) t s"
proof (rule reserve_own_round [OF assms])
  fix t s' assume "free_for k who s'" "\<And>c. token_claim k s' = Some c \<Longrightarrow> hc_expires_at c \<le> t"
  then show "solo in_rounds (\<lambda>r _ _. own_answer who r) (tokenReserve (Suc n) k who c) t s'"
    by (intro reserve_own_round) (auto simp: not_less)
qed

lemma solo_preempt:
  assumes "token_slot ids k s" "token_claim k s = Some c"
  shows "solo in_rounds (\<lambda>_ _. settled k) (preemptClaim k c) t s"
  unfolding preemptClaim_def askExpiredClaim_def
proof (rule solo_seq [where Q' = "\<lambda>_ _ s'. s' = s"], goal_cases)
  case 1
  show ?case by (rule solo_askHook) simp
next
  case (2 h t s')
  have "case preemptTxn k c h now s of Inl e \<Rightarrow> in_rounds e | Inr (x, s') \<Rightarrow> settled k s'" for now
    using assms by (auto simp: preemptTxn_def settled_def token_slot_def shard_simps split: option.splits)
  then show ?case
    unfolding 2 by (intro solo_seq [where Q' = "\<lambda>_ _. settled k"] solo_txn) (auto intro!: solo_forget solo_confirm)
qed

text \<open>One round: it returns, or goes on with the token settled, and free if it held a record.\<close>

lemma force_round:
  assumes slot: "settled k s \<or> token_slot ids k s"
    and again: "\<And>t s'. settled k s' \<Longrightarrow> (settled k s \<longrightarrow> token_record k s' = None \<and> token_record k s \<noteq> None) \<Longrightarrow>
        ends (forceReserve n L k who c preempt) t s'"
    and reserve: "\<And>t. free_for k who s \<Longrightarrow> solo in_rounds (\<lambda>r _ _. own_answer who r) (tokenReserve n k who c) t s"
  shows "ends (forceReserve (Suc n) L k who c preempt) t s"
  unfolding forceReserve.simps
proof (rule solo_seq [where Q' = "\<lambda>(now, indexed, claim, pending) t' s'. s' = s \<and> indexed = token_record k s \<and>
    claim = token_claim k s \<and> pending = token_takeover k s"], goal_cases)
  case 1
  show ?case by (rule solo_look) simp
next
  case (2 x t' s')
  obtain now indexed claim pending where x: "x = (now, indexed, claim, pending)" by (cases x)
  have e: "s' = s" "indexed = token_record k s" "claim = token_claim k s" "pending = token_takeover k s"
    using 2 by (simp_all add: x)
  have settle: "ends (bindP (settleTakeover k None None) (\<lambda>_. forceReserve n L k who c preempt)) t s"
    if p: "token_takeover k s = Some p" for p t
  proof -
    have i: "token_slot ids k s" using slot p by (auto simp: settled_def)
    then have "token_claim k s = None" using p by (auto simp: token_slot_def)
    show ?thesis
      by (rule solo_seq [OF solo_settle [OF i \<open>token_claim k s = None\<close>]])
        (use p in \<open>auto intro: again simp: settled_def\<close>)
  qed
  have pre: "ends (bindP (preemptClaim k d) (\<lambda>_. forceReserve n L k who c preempt)) t s"
    if d: "token_claim k s = Some d" for d t
  proof -
    have i: "token_slot ids k s" using slot d by (auto simp: settled_def)
    show ?thesis by (rule solo_seq [OF solo_preempt [OF i d]]) (use d in \<open>auto intro: again simp: settled_def\<close>)
  qed
  have plain: "ends (bindP (tokenReserve n k who c) (\<lambda>r. case r of Claimed c \<Rightarrow> Return (Force_Claimed c None)
           | Held o1 \<Rightarrow> if o1 = who then Return (Force_Held o1) else forceReserve n L k who c preempt)) t s"
    if "free_for k who s" for t
    by (rule solo_seq [OF reserve [OF that]]) (auto simp: own_answer_def split: claim_result.splits)
  have take: "ends (bindP (look (\<lambda>now s. victim_running d \<or> retentionAhead h now)) (\<lambda>takeOver.
         bindP (txn (intentTxn k who c h (victim_running d) (claimedFrom (hook_owner h) d) takeOver)) (\<lambda>intent.
           case intent of Some k \<Rightarrow> Return (Force_Claimed (ht_claim k) (Some (claimedFrom (hook_owner h) d)))
           | None \<Rightarrow> forceReserve n L k who c preempt))) t s"
    if h: "token_record k s = Some h" and p: "token_takeover k s = None" for h d t
  proof (rule solo_seq [where Q' = "\<lambda>_ _ s'. s' = s"], rule solo_look, simp, goal_cases)
    case (1 takeOver t s')
    let ?Q = "\<lambda>i _ s'. i = None \<longrightarrow> settled k s' \<and> token_record k s' = None"
    have "case intentTxn k who c h b f takeOver now s of Inl e \<Rightarrow> in_rounds e | Inr (i, s') \<Rightarrow> ?Q i now s'" for b f now
      using h p slot by (auto simp: intentTxn_def Let_def settled_def token_slot_def shard_simps split: option.splits)
    then show ?case
      unfolding 1 using h
      by (intro solo_seq [where Q' = ?Q] solo_txn) (auto intro: again split: option.splits)
  qed
  have ask: "ends (bindP (askVictim i) f) t s" if "\<And>d t. ends (f d) t s" for i f t
    by (rule solo_seq [where Q' = "\<lambda>_ _ s'. s' = s"]) (use that in \<open>auto simp: askVictim_def split: reply.splits\<close>)
  have free: "free_for k who s" if "token_takeover k s = None" "token_record k s = None"
      "\<not> (case token_claim k s of None \<Rightarrow> False | Some c \<Rightarrow> hc_owner c \<noteq> who)"
    using that by (auto simp: free_for_def split: option.splits)
  have some: "(case y of None \<Rightarrow> False | Some c \<Rightarrow> P c) \<Longrightarrow> y = Some (the y)" for y :: "hook_claim option" and P
    by (cases y) simp_all
  show ?case
    unfolding x prod.case e
    by (intro solo_case_option solo_if ask take plain pre settle free some) (simp_all split: option.splits)
qed

declare forceReserve.simps [simp del] tokenReserve.simps [simp del]

lemma force_free:
  "settled k s \<Longrightarrow> token_record k s = None \<Longrightarrow> ends (forceReserve (Suc (Suc n)) L k who c preempt) t s"
  by (rule force_round) (simp_all add: settled_def reserve_free)

lemma force_settled:
  assumes "settled k s"
  shows "ends (forceReserve (Suc (Suc (Suc n))) L k who c preempt) t s"
  by (rule force_round) (use assms in \<open>auto simp: settled_def intro: force_free [unfolded settled_def] reserve_free\<close>)

lemma force_ends:
  assumes "token_slot ids k s"
  shows "ends (forceReserve (Suc (Suc (Suc (Suc n)))) L k who c preempt) t s"
  by (rule force_round) (use assms in \<open>auto intro: force_settled reserve_own\<close>)

end
