(* ===== verification/HookProperties.thy ===== *)
theory HookProperties
  imports IdFacts TokenRounds CellDemo
begin

text \<open>
  The properties of the hook index shards (\<open>HookTokenDO.ts\<close>, \<open>HookIdDO.ts\<close>), each with a witness.
\<close>

section \<open>Demo histories\<close>

definition demo_shard_hook :: "string \<Rightarrow> string \<Rightarrow> hook" where
  "demo_shard_hook r i = \<lparr>hook_run = r, hook_id = i, hook_token = ''t'', hook_metadata = None, hook_created_at = 0,
     hook_spec = None, hook_is_webhook = False, hook_is_system = None, hook_retention = None,
     hook_claimed_from = None\<rparr>"

definition demo_owner :: "string \<Rightarrow> owner" where
  "demo_owner c = (if c = ''c1'' then \<lparr>own_run = ''r1'', own_hook = ''h1''\<rparr> else \<lparr>own_run = ''r2'', own_hook = ''h2''\<rparr>)"

abbreviation no_claims :: "string \<Rightarrow> bool" where "no_claims \<equiv> \<lambda>_. False"

text \<open>A hook is created and published; then another takes its token over.\<close>

definition demo_reserve :: "unit handler \<times> reply move list" where
  "demo_reserve = (forget (tokenReserve 2 ''t'' (demo_owner ''c1'') ''c1''), [Run 1, Run 2])"

definition demo_finalize :: "unit handler \<times> reply move list" where
  "demo_finalize = (forget (finalize ''t'' (demo_shard_hook ''r1'' ''h1'') (demo_owner ''c1'') (Some ''c1'')),
     [Reply (A_Status Life_Active), Run 3, Run 4])"

definition demo_force :: "unit handler \<times> reply move list" where
  "demo_force = (forget (forceReserve 4 \<lparr>fs_legacy = 1, fs_force_claim = 3\<rparr> ''t'' (demo_owner ''c2'') ''c2'' False),
     [Run 5, Reply (A_Victim (Victim Life_Active ''w'' ''d'' (Some 3))), Run 6, Run 7])"

definition demo_settle :: "unit handler \<times> reply move list" where
  "demo_settle = (forget (settleTakeover ''t'' None None),
     [Run 8, Reply (A_Forced True (Some (demo_shard_hook ''r2'' ''h2''))), Reply A_Disposed])"

text \<open>The publication before its transaction.\<close>

definition demo_publish :: "unit handler \<times> reply move list" where
  "demo_publish = (fst demo_finalize, [Reply (A_Status Life_Active), Run 3])"

definition demo_publishing :: token_system where
  "demo_publishing = script [demo_reserve, demo_publish] (idle_system empty_shard 0)"

definition demo_reserved :: token_system where
  "demo_reserved = script [demo_reserve] (idle_system empty_shard 0)"

definition demo_taken :: token_system where
  "demo_taken = script [demo_reserve, demo_finalize, demo_force] (idle_system empty_shard 0)"

definition demo_settling :: token_system where
  "demo_settling = script [demo_reserve, demo_finalize, demo_force, demo_settle] (idle_system empty_shard 0)"

lemmas demo_scripts = demo_reserve_def demo_finalize_def demo_force_def demo_settle_def

text \<open>The answers that occur.\<close>

fun demo_answer :: "query \<Rightarrow> reply \<Rightarrow> bool" where
  "demo_answer (Q_Status r) (A_Status l) \<longleftrightarrow> l = Life_Active"
| "demo_answer (Q_Victim r) (A_Victim v) \<longleftrightarrow> True"
| "demo_answer (Q_Dispose v t c) A_Disposed \<longleftrightarrow> True"
| "demo_answer (Q_Forced who t c v) (A_Forced j (Some h)) \<longleftrightarrow> hook_owner h = who"
| "demo_answer _ _ \<longleftrightarrow> False"

lemma demo_answer_ok: "demo_answer q a \<Longrightarrow> run_answer ids given q a"
  by (induction q a rule: demo_answer.induct) auto

text \<open>The shard after each of them.\<close>

definition demo_shard1 :: shard where
  "demo_shard1 = put_claim (tokenClaimKey ''t'') ''t'' (new_claim ''t'' (demo_owner ''c1'') ''c1'' 2) empty_shard"

definition demo_shard2 :: shard where
  "demo_shard2 = del_shard [tokenClaimKey ''t'', deadlineKey claim_deadline_prefix ''t'' (2 + hook_claim_lease_ms)]
     (put_shard (tokenRecordKey ''t'') (HRecord (demo_shard_hook ''r1'' ''h1'')) demo_shard1)"

definition demo_intent :: hook_takeover where
  "demo_intent = \<lparr>ht_claimer = demo_owner ''c2'', ht_claim = ''c2'', ht_victim = demo_owner ''c1'', ht_running = True,
     ht_from = claimedFrom (demo_owner ''c1'') (Victim Life_Active ''w'' ''d'' (Some 3)),
     ht_expires_at = 7 + hook_takeover_settle_ms,
     ht_deadline = deadlineKey takeover_deadline_prefix ''t'' (7 + hook_takeover_settle_ms)\<rparr>"

definition demo_shard3 :: shard where
  "demo_shard3 = armAtMost (7 + hook_takeover_settle_ms) (put_shard (ht_deadline demo_intent) (HTokenDeadline ''t'')
     (put_shard (takeoverKey ''t'') (HTakeover demo_intent) demo_shard2))"

lemma reads_empty [shard_simps]:
  "get_record k empty_shard = None" "get_claim k empty_shard = None" "get_retained k empty_shard = None"
  "get_takeover k empty_shard = None" "get_row k empty_shard = None"
  by (simp_all add: empty_shard_def shard_reads)

lemmas demo_evals = forget_def look_def txn_def shard_simps map_prod_def

lemma demo_slot1:
  "token_claim ''t'' demo_shard1 = Some (new_claim ''t'' (demo_owner ''c1'') ''c1'' 2)" "token_record ''t'' demo_shard1 = None"
  "token_takeover ''t'' demo_shard1 = None" "token_retained ''t'' demo_shard1 = None"
  by (simp_all add: demo_shard1_def put_claim_def new_claim_def shard_simps)

lemma demo_slot2:
  "token_claim ''t'' demo_shard2 = None" "token_record ''t'' demo_shard2 = Some (demo_shard_hook ''r1'' ''h1'')"
  "token_takeover ''t'' demo_shard2 = None" "token_retained ''t'' demo_shard2 = None"
  by (simp_all add: demo_shard2_def demo_slot1 shard_simps)

lemma demo_slot3:
  "token_claim ''t'' demo_shard3 = None" "token_record ''t'' demo_shard3 = Some (demo_shard_hook ''r1'' ''h1'')"
  "token_takeover ''t'' demo_shard3 = Some demo_intent" "token_retained ''t'' demo_shard3 = None"
  by (simp_all add: demo_shard3_def demo_intent_def demo_slot2 shard_simps)

lemma demo_move1:
  "exec (snd demo_reserve) (fst demo_reserve) empty_shard = (Return (), demo_shard1)"
  "allowed (\<lambda>_. True) demo_answer 0 (snd demo_reserve) (fst demo_reserve) empty_shard"
  by (simp_all add: demo_reserve_def demo_evals numeral_2_eq_2 expired_claim_def tokenReserveTxn_def
      freeExpiredRetention_def demo_shard1_def)

lemma demo_owner_eqs [simp]:
  "hook_owner (demo_shard_hook ''r1'' ''h1'') = demo_owner ''c1''" "hook_owner (demo_shard_hook ''r2'' ''h2'') = demo_owner ''c2''"
  "demo_owner ''c1'' \<noteq> demo_owner ''c2''" "demo_owner ''c2'' \<noteq> demo_owner ''c1''" "hook_retention (demo_shard_hook r i) = None"
  by (simp_all add: demo_owner_def hook_owner_def demo_shard_hook_def)

lemma demo_move2:
  "exec (snd demo_finalize) (fst demo_finalize) demo_shard1 = (Return (), demo_shard2)"
  "allowed (\<lambda>_. True) demo_answer 2 (snd demo_finalize) (fst demo_finalize) demo_shard1"
  by (simp_all add: demo_finalize_def demo_evals finalize_def runIsActive_def finalizeTxn_def demo_slot1 Let_def
      new_claim_def bound_defs demo_shard2_def)

lemma demo_move3:
  "exec (snd demo_force) (fst demo_force) demo_shard2 = (Return (), demo_shard3)"
  "allowed (\<lambda>_. True) demo_answer 4 (snd demo_force) (fst demo_force) demo_shard2"
  by (simp_all add: demo_force_def demo_evals eval_nat_numeral askVictim_def intentTxn_def demo_slot2 Let_def
      demo_shard3_def demo_intent_def)

definition demo_shard4 :: shard where
  "demo_shard4 = del_shard [takeoverKey ''t'', ht_deadline demo_intent]
     (put_shard (tokenRecordKey ''t'') (HRecord (demo_shard_hook ''r2'' ''h2'')) demo_shard3)"

lemma demo_move4:
  "exec (snd demo_settle) (fst demo_settle) demo_shard3 =
     (fst (exec (snd demo_settle) (fst demo_settle) demo_shard3), demo_shard3)"
  "allowed (\<lambda>_. True) demo_answer 7 (snd demo_settle) (fst demo_settle) demo_shard3"
  "can_act (fst (exec (snd demo_settle) (fst demo_settle) demo_shard3) # ps)"
  "st_cell (acts 9 \<lparr>st_clock = t, st_cell = demo_shard3,
     st_flights = fst (exec (snd demo_settle) (fst demo_settle) demo_shard3) # ps\<rparr>) = demo_shard4"
  by (simp_all add: demo_settle_def demo_evals settleTakeover_def settles_def settleIntent_def askForced_def
      rollForward_def askDispose_def rollForwardTxn_def acts_def demo_slot3 Let_def demo_shard4_def)
    (simp_all add: demo_intent_def)

lemma demo_times:
  "end_time 0 (snd demo_reserve) = 2" "end_time 2 (snd demo_finalize) = 4" "end_time 4 (snd demo_force) = 7"
  "end_time 7 (snd demo_settle) = 8"
  by (simp_all add: demo_scripts)

lemma script_Cons:
  "script (x # rest) y = script rest \<lparr>st_clock = end_time (st_clock y) (snd x),
     st_cell = snd (exec (snd x) (fst x) (st_cell y)),
     st_flights = fst (exec (snd x) (fst x) (st_cell y)) # st_flights y\<rparr>"
  "script_ok tick A (x # rest) t s \<longleftrightarrow> allowed tick A t (snd x) (fst x) s \<and>
     script_ok tick A rest (end_time t (snd x)) (snd (exec (snd x) (fst x) s))"
  by (cases x, simp)+

lemma demo_settle_exec: "snd (exec (snd demo_settle) (fst demo_settle) demo_shard3) = demo_shard3"
  by (subst demo_move4(1)) simp

lemmas demo_moves = script_Cons demo_move1 demo_move2 demo_move3 demo_move4(2-) demo_settle_exec demo_times

lemma demo_states:
  "st_cell demo_reserved = demo_shard1" "st_cell demo_taken = demo_shard3" "st_cell demo_settling = demo_shard3"
  "st_clock demo_settling = 8" "can_act (st_flights demo_settling)" "st_cell (acts 9 demo_settling) = demo_shard4"
  by (simp_all add: demo_reserved_def demo_taken_def demo_settling_def idle_system_def demo_moves)

lemma script_reach:
  assumes "script_ok (\<lambda>_. True) demo_answer sc 0 empty_shard" "\<And>p ms. (p, ms) \<in> set sc \<Longrightarrow> token_request demo_owner given p"
  shows "(token_system_step demo_owner given)\<^sup>*\<^sup>* (idle_system empty_shard 0) (script sc (idle_system empty_shard 0))"
  by (rule script_steps [OF _ assms(2)], rule script_ok_mono [OF _ demo_answer_ok]) (use assms(1) in \<open>simp_all add: idle_system_def\<close>)

lemma demo_begun:
  "(p, ms) \<in> {demo_reserve, demo_finalize, demo_force, demo_settle} \<Longrightarrow> token_request demo_owner given p"
  by (auto simp: demo_scripts intro: token_request.intros)

lemma demo_reach:
  "(token_system_step demo_owner given)\<^sup>*\<^sup>* (idle_system empty_shard 0) demo_reserved"
  "(token_system_step demo_owner given)\<^sup>*\<^sup>* (idle_system empty_shard 0) demo_taken"
  "(token_system_step demo_owner given)\<^sup>*\<^sup>* (idle_system empty_shard 0) demo_settling"
  unfolding demo_reserved_def demo_taken_def demo_settling_def
  by (rule script_reach, simp add: demo_moves, rule demo_begun, auto)+

lemma demo_publish_move:
  "snd (exec (snd demo_publish) (fst demo_publish) demo_shard1) = demo_shard1"
  "allowed (\<lambda>_. True) demo_answer 2 (snd demo_publish) (fst demo_publish) demo_shard1"
  "end_time 2 (snd demo_publish) = 3" "can_act (fst (exec (snd demo_publish) (fst demo_publish) demo_shard1) # ps)"
  "st_cell (acts 4 \<lparr>st_clock = t, st_cell = demo_shard1,
     st_flights = fst (exec (snd demo_publish) (fst demo_publish) demo_shard1) # ps\<rparr>) = demo_shard2"
  by (simp_all add: demo_publish_def demo_finalize_def demo_evals finalize_def runIsActive_def finalizeTxn_def
      demo_slot1 Let_def new_claim_def bound_defs demo_shard2_def acts_def)

lemma demo_publishing:
  "(token_system_step demo_owner given)\<^sup>*\<^sup>* (idle_system empty_shard 0) demo_publishing"
  "token_system_step demo_owner given demo_publishing (acts 4 demo_publishing)"
  "st_cell demo_publishing = demo_shard1" "st_cell (acts 4 demo_publishing) = demo_shard2"
proof -
  have "token_request demo_owner given (fst demo_publish)"
    by (auto simp: demo_publish_def demo_finalize_def intro: token_request.intros)
  then show "(token_system_step demo_owner given)\<^sup>*\<^sup>* (idle_system empty_shard 0) demo_publishing"
    unfolding demo_publishing_def
    by (intro script_reach) (auto simp: demo_moves demo_publish_move intro: demo_begun dest: arg_cong [where f = fst])
  show "st_cell demo_publishing = demo_shard1" "st_cell (acts 4 demo_publishing) = demo_shard2"
    by (simp_all add: demo_publishing_def idle_system_def demo_moves demo_publish_move)
  show "token_system_step demo_owner given demo_publishing (acts 4 demo_publishing)"
    by (rule acts_step) (simp_all add: demo_publishing_def idle_system_def demo_moves demo_publish_move)
qed

lemma demo_last_step: "token_system_step demo_owner given demo_settling (acts 9 demo_settling)"
  by (rule acts_step) (simp_all add: demo_states)

section \<open>Tokens\<close>

text \<open>C30: However requests, alarms and answers interleave, a token is held in one way at a time: while a
  creation's claim is stored there is neither a published record nor a pending takeover, and a
  pending takeover names the hook of the record as its victim.\<close>

theorem token_held_once:
  assumes "(token_system_step ids given)\<^sup>*\<^sup>* (idle_system empty_shard t0) y"
  shows "(\<forall>c. token_claim t (st_cell y) = Some c \<longrightarrow>
      token_record t (st_cell y) = None \<and> token_takeover t (st_cell y) = None \<and> ids (hc_id c) = hc_owner c) \<and>
    (\<forall>k h. token_takeover t (st_cell y) = Some k \<longrightarrow> token_record t (st_cell y) = Some h \<longrightarrow>
      hook_owner h = ht_victim k)"
proof -
  have "token_ok ids (st_cell y)"
    using token_system_sound [OF assms idle_sound [OF empty_ok]] by (simp add: token.sound_system_def)
  then show ?thesis by (simp add: token_ok_def token_slot_def)
qed

theorem token_held_once_witness:
  "token_record ''t'' (st_cell demo_taken) \<noteq> None \<and> token_takeover ''t'' (st_cell demo_taken) = Some demo_intent \<and>
   map_option hook_owner (token_record ''t'' (st_cell demo_taken)) = Some (ht_victim demo_intent)"
  using token_held_once [OF demo_reach(2) [where given = no_claims], of "''t''"] by (simp add: demo_states demo_slot3)

text \<open>C31: A token passes from one hook to another only through its pending takeover, from the victim it
  names to the claimer it names, and the takeover is over with that step.\<close>

theorem token_changes_hands_by_takeover:
  assumes "(token_system_step ids given)\<^sup>*\<^sup>* (idle_system empty_shard t0) y" "token_system_step ids given y y'"
    and "token_record t (st_cell y) = Some h" "token_record t (st_cell y') = Some h'" "hook_owner h' \<noteq> hook_owner h"
  shows "\<exists>k. token_takeover t (st_cell y) = Some k \<and> ht_victim k = hook_owner h \<and> ht_claimer k = hook_owner h' \<and>
    token_takeover t (st_cell y') = None"
proof -
  have "token_guar given (st_clock y') (st_cell y) (st_cell y')"
    by (rule token_system_guar [OF assms(2) token_system_sound [OF assms(1) idle_sound [OF empty_ok]]])
  then have "token_moves given t (st_cell y) (st_cell y')" by (simp add: token_guar_def)
  then show ?thesis using assms(3-5) by (auto simp: token_moves_def)
qed

lemma demo_slot4: "token_record ''t'' demo_shard4 = Some (demo_shard_hook ''r2'' ''h2'')"
  by (simp add: demo_shard4_def demo_intent_def demo_slot3 shard_simps)

theorem token_changes_hands_by_takeover_witness:
  "hook_owner (demo_shard_hook ''r2'' ''h2'') \<noteq> hook_owner (demo_shard_hook ''r1'' ''h1'') \<and>
   (\<exists>k. token_takeover ''t'' (st_cell demo_settling) = Some k \<and> ht_claimer k = demo_owner ''c2'')"
  using token_changes_hands_by_takeover [OF demo_reach(3) [where given = no_claims] demo_last_step,
      of "''t''" "demo_shard_hook ''r1'' ''h1''" "demo_shard_hook ''r2'' ''h2''"]
  by (auto simp: demo_states demo_slot3 demo_slot4)

text \<open>C32: A step that removes the claim of a creation either publishes the record of its hook, or the
  creation is given up: its client released it, or the run cell answered that it is not committed
  (and has fenced it off).\<close>

theorem claim_ends_published_or_given_up:
  assumes "(token_system_step ids given)\<^sup>*\<^sup>* (idle_system empty_shard t0) y" "token_system_step ids given y y'"
    and "token_claim t (st_cell y) = Some c" "map_option hc_id (token_claim t (st_cell y')) \<noteq> Some (hc_id c)"
  shows "(\<exists>h. token_record t (st_cell y') = Some h \<and> hook_owner h = hc_owner c) \<or> given (hc_id c)"
proof -
  have "token_guar given (st_clock y') (st_cell y) (st_cell y')"
    by (rule token_system_guar [OF assms(2) token_system_sound [OF assms(1) idle_sound [OF empty_ok]]])
  then have "token_moves given t (st_cell y) (st_cell y')" by (simp add: token_guar_def)
  then show ?thesis using assms(3,4) by (auto simp: token_moves_def)
qed

theorem claim_ends_published_or_given_up_witness:
  "map_option hc_id (token_claim ''t'' (st_cell demo_publishing)) = Some ''c1'' \<and>
   (\<exists>h. token_record ''t'' (st_cell (acts 4 demo_publishing)) = Some h \<and> hook_owner h = demo_owner ''c1'')"
  using claim_ends_published_or_given_up [OF demo_publishing(1,2) [where given = no_claims], of "''t''"]
  by (simp add: demo_publishing demo_slot1 demo_slot2 new_claim_def)

text \<open>C33: No claim of a hook id is stranded: while one is stored, its deadline row is there, and the
  alarm is set or a handler is under way that cannot end without setting it.\<close>

theorem hook_id_claim_never_stranded:
  assumes "id_system_step\<^sup>*\<^sup>* (idle_system empty_shard t0) y" "in_time t0" "id_claim i (st_cell y) = Some c"
  shows "get_row (hc_deadline c) (st_cell y) = Some (row_for i c) \<and>
    ((\<exists>a. sh_alarm (st_cell y) = Some a) \<or> (\<exists>p \<in> set (st_flights y). reaches id_ok will_wake False p))"
proof -
  have "id_ok (st_cell y)" using id_system_ok(1) [OF assms(1,2)] by (simp add: idshard.sound_system_def)
  then have r: "get_row (hc_deadline c) (st_cell y) = Some (row_for i c)"
    using row_of_claim [OF _ assms(3)] by simp
  then have "will_wake (st_cell y) \<Longrightarrow> \<exists>a. sh_alarm (st_cell y) = Some a" by (auto simp: will_wake_def)
  then show ?thesis using r id_system_ok(2) [OF assms(1,2)] unfolding idshard.promised_def by blast
qed

definition demo_id_system :: token_system where
  "demo_id_system = script [(forget (idReserve 1 ''h1'' (demo_owner ''c1'') ''c1''), [Run 1, Run 2])] (idle_system empty_shard 0)"

lemma demo_id_facts:
  "id_system_step\<^sup>*\<^sup>* (idle_system empty_shard 0) demo_id_system"
  "id_claim ''h1'' (st_cell demo_id_system) = Some (new_claim ''h1'' (demo_owner ''c1'') ''c1'' 2)"
proof -
  have ok: "script_ok in_time (\<lambda>_ _. True) [(forget (idReserve 1 ''h1'' (demo_owner ''c1'') ''c1''), [Run 1, Run 2])]
      0 empty_shard"
    by (simp add: demo_evals expired_claim_def idReserveTxn_def in_time_def bound_defs)
  show "id_system_step\<^sup>*\<^sup>* (idle_system empty_shard 0) demo_id_system"
    unfolding demo_id_system_def
    by (rule script_steps) (use ok in \<open>simp_all only: idle_system_def system.simps list.set insert_iff empty_iff
        prod.inject simp_thms id_request.intros(2)\<close>)
  show "id_claim ''h1'' (st_cell demo_id_system) = Some (new_claim ''h1'' (demo_owner ''c1'') ''c1'' 2)"
    by (simp add: demo_id_system_def idle_system_def demo_evals expired_claim_def idReserveTxn_def put_claim_def
        new_claim_def)
qed

theorem hook_id_claim_never_stranded_witness:
  "(\<exists>row. get_row (deadlineKey claim_deadline_prefix ''h1'' (2 + hook_claim_lease_ms)) (st_cell demo_id_system) = Some row) \<and>
   ((\<exists>a. sh_alarm (st_cell demo_id_system) = Some a) \<or>
    (\<exists>p \<in> set (st_flights demo_id_system). reaches id_ok will_wake False p))"
  using hook_id_claim_never_stranded [OF demo_id_facts(1) _ demo_id_facts(2)]
  by (simp add: new_claim_def in_time_def bound_defs)



text \<open>A release of up to 64 tokens stays within the 128 keys of a storage call: because a token never
  has a record and a claim, it counts at most one deleted key and at most two more per hook.\<close>

lemma releaseRow_lengths:
  assumes "token_slot ids (fst x) s"
  shows "length (fst (releaseRow ended now s x)) \<le> 1" "length (fst (snd (releaseRow ended now s x))) \<le> 2"
  using assms by (cases x; auto simp: releaseRow_def Let_def token_slot_def split: option.splits)+

lemma sum_bounded: "(\<And>x. x \<in> set xs \<Longrightarrow> f x \<le> n) \<Longrightarrow> sum_list (map f xs) \<le> n * length xs" for f :: "'x \<Rightarrow> nat"
  by (induction xs) (simp_all add: add_mono)

theorem release_batch_fits_storage:
  assumes "(token_system_step ids given)\<^sup>*\<^sup>* (idle_system empty_shard t0) y" "length hooks \<le> max_release_batch"
    and "rs = map (releaseRow ended now (st_cell y)) hooks"
  shows "length (concat (map fst rs)) \<le> 64 \<and> length (concat (map (fst \<circ> snd) rs)) \<le> storage_batch_size"
proof -
  have slot: "token_slot ids t (st_cell y)" for t
    using token_system_sound [OF assms(1) idle_sound [OF empty_ok]] by (simp add: token.sound_system_def token_ok_def)
  have "length (concat (map fst rs)) \<le> 1 * length hooks" "length (concat (map (fst \<circ> snd) rs)) \<le> 2 * length hooks"
    using sum_bounded [of hooks "\<lambda>x. length (fst (releaseRow ended now (st_cell y) x))" 1]
      sum_bounded [of hooks "\<lambda>x. length (fst (snd (releaseRow ended now (st_cell y) x)))" 2]
      releaseRow_lengths [OF slot] by (simp_all add: assms(3) length_concat comp_def)
  then show ?thesis using assms(2) by (simp add: max_release_batch_def storage_batch_size_def)
qed

theorem release_batch_fits_storage_witness:
  "length (concat (map fst (map (releaseRow False 9 (st_cell demo_taken)) [(''t'', demo_owner ''c1'')]))) \<le> 64"
  using release_batch_fits_storage [OF demo_reach(2) [where given = no_claims], of "[(''t'', demo_owner ''c1'')]"]
  by (simp add: max_release_batch_def)

text \<open>C36: The loops of \<open>reserve\<close> and \<open>forceReserve\<close> end: on any reachable shard, with nothing interfering,
  two and four rounds answer or fail on a call, whatever the clock shows and the run cells answer.\<close>

theorem reservation_loops_end:
  assumes "(token_system_step ids given)\<^sup>*\<^sup>* (idle_system empty_shard t0) y"
  shows "solo (\<lambda>e. e \<noteq> Out_Of_Rounds) (\<lambda>_ _ _. True) (tokenReserve (Suc (Suc n)) t who c) now (st_cell y) \<and>
    solo (\<lambda>e. e \<noteq> Out_Of_Rounds) (\<lambda>_ _ _. True)
      (forceReserve (Suc (Suc (Suc (Suc n)))) L t who c preempt) now (st_cell y)"
proof -
  have slot: "token_slot ids t (st_cell y)"
    using token_system_sound [OF assms idle_sound [OF empty_ok]] by (simp add: token.sound_system_def token_ok_def)
  show ?thesis using reserve_ends [OF slot] force_ends [OF slot] by blast
qed

theorem reservation_loops_end_witness:
  "solo (\<lambda>e. e \<noteq> Out_Of_Rounds) (\<lambda>_ _ _. True)
     (forceReserve (Suc (Suc (Suc (Suc 0)))) \<lparr>fs_legacy = 1, fs_force_claim = 3\<rparr> ''t'' (demo_owner ''c2'') ''c3'' True)
     20 (st_cell demo_taken)"
  using reservation_loops_end [OF demo_reach(2) [where given = no_claims], of 0] by blast

section \<open>Fencing\<close>

text \<open>What the two resolvers of the run cell leave when they give a claim up: the run is over, or both
  claim ids a creation under the claim can carry are cancelled.\<close>

definition claim_fenced :: "world_api \<Rightarrow> string \<Rightarrow> int \<Rightarrow> rval kv \<Rightarrow> bool" where
  "claim_fenced W c now s \<longleftrightarrow> fenced now s \<or> run_done W s \<or>
     (claim_cancelled (c @ '':'' @ c) s \<and> claim_cancelled (''-:'' @ c) s)"

lemma cancel_claim_cancels: "claim_cancelled (c @ '':'' @ c) (cancel_claim c v s) \<and> claim_cancelled (''-:'' @ c) (cancel_claim c v s)"
  by (simp add: cancel_claim_def claim_cancelled_def)

lemma resolvers_fence:
  "resolveExpiredHookClaim W h (JStr c) tok now s = Inr (None, s1) \<Longrightarrow> claim_fenced W c now (rc_kv s1)"
  "cellResolveForcedHookClaim W rq now s = Inr ((False, hk), s1) \<Longrightarrow> claim_fenced W (fr_claim rq) now (rc_kv s1)"
  using cancel_claim_cancels
  by (auto simp: resolveExpiredHookClaim_def cellResolveForcedHookClaim_def resolveForcedHookClaim_def claim_fenced_def
      fenced_def run_done_def bindE_split Let_def split: if_splits option.splits)

lemma claim_fenced_lasts:
  assumes W: "schemas_ok W" "slots_ok W" "terminal_specs W" "child_creation_ok W"
    and y: "cell_steps W y y'" "sound_sys W y" and f: "claim_fenced W c (sy_clock y) (rc_kv (sy_cell y))"
  shows "claim_fenced W c (sy_clock y') (rc_kv (sy_cell y'))"
proof (cases "fenced (sy_clock y') (rc_kv (sy_cell y'))")
  case True
  then show ?thesis by (simp add: claim_fenced_def)
next
  case False
  have ok: "sys_ok y" using y(2) by (simp add: sound_sys_def)
  have "later_run W (rc_kv (sy_cell y)) (rc_kv (sy_cell y'))"
    by (rule cell_steps_later [OF W y unfenced_stage [OF False]])
  then have "run_done W (rc_kv (sy_cell y)) \<Longrightarrow> run_done W (rc_kv (sy_cell y'))" by (simp add: later_run_def)
  moreover have "fenced (sy_clock y) (rc_kv (sy_cell y)) \<Longrightarrow> False"
    using cell_steps_keep_fence [OF y(1) ok] False by simp
  ultimately show ?thesis
    using f cell_steps_cancelled [OF y(1) ok _ unfenced_stage [OF False]] unfolding claim_fenced_def by blast
qed

lemma ended_creation_fails:
  assumes "child_creation_ok W" "c_body ctx = HookCreated h d" "run_done W (rc_kv s)" "\<not> fenced now (rc_kv s)"
    "cellApplyEvent W name ctx now s = Inr (out, s')"
  shows "\<exists>f. out = Failure f"
proof -
  let ?ctx = "ctx\<lparr>c_now := now, c_defer_cleanup := True\<rparr>"
  obtain r where r: "get_run (rc_kv s) = Some r" "terminal_run W (run_state r)" using assms(3) by (auto simp: run_done_def)
  have "\<exists>f. applyEvent W ?ctx (eventStore (rc_kv s)) = Inr (Failure f, eventStore (rc_kv s))"
    using assms(1,2) r
    by (auto simp: applyEvent_def Let_def resilientStart_def eventStore_def afterBootstrap_def terminalRunGuard_def
        child_creation_ok_def split: option.splits)
  then obtain f where a: "applyEvent W ?ctx (eventStore (rc_kv s)) = Inr (Failure f, eventStore (rc_kv s))" by blast
  have "tombstoneFrom now (rc_kv s) = None" using assms(4) by (simp add: fenced_def)
  then show ?thesis using assms(5) a by (auto simp: cellApplyEvent_def bindE_eq_Inr Let_def)
qed

text \<open>C37: What a hook index shard relies on when it gives a claim away: once the run cell answered that
  the claim is not committed, no later event creates a hook under it, along any history of the cell.\<close>

theorem given_up_claim_never_creates_hook:
  assumes W: "schemas_ok W" "slots_ok W" "terminal_specs W" "child_creation_ok W"
    and "cell_steps W (fresh_sys t) y" "sy_clock y \<le> now"
    and "resolveExpiredHookClaim W h (JStr c) tok now (sy_cell y) = Inr (None, s1) \<or>
      (\<exists>rq hk. fr_claim rq = c \<and> cellResolveForcedHookClaim W rq now (sy_cell y) = Inr ((False, hk), s1))"
    and "cell_steps W \<lparr>sy_clock = now, sy_cell = s1, sy_passes = sy_passes y\<rparr> y'" "sy_clock y' \<le> now'"
    and "c_body ctx = HookCreated h' d" "c_hook_claim_id ctx = Some i" "i = c @ '':'' @ c \<or> i = ''-:'' @ c"
    and "cellApplyEvent W name ctx now' (sy_cell y') = Inr (out, s')"
  shows "\<exists>f. out = Failure f"
proof -
  let ?y1 = "\<lparr>sy_clock = now, sy_cell = s1, sy_passes = sy_passes y\<rparr>"
  have "\<exists>q. serve W now q (sy_cell y) = s1"
    using assms(7) by (metis after_simps(2) serve.simps(3) serve.simps(5))
  then have step: "cell_step W y ?y1"
    using cell_step.serve_request [of "sy_clock y" now W "sy_cell y" "sy_passes y"] assms(6) by (cases y) auto
  have sound: "sound_sys W ?y1"
    using cell_steps_sound [OF W rtranclp.rtrancl_into_rtrancl [OF assms(5) step] fresh_sys_sound] .
  have "claim_fenced W c now (rc_kv s1)" using assms(7) resolvers_fence by blast
  then have "claim_fenced W c (sy_clock y') (rc_kv (sy_cell y'))"
    using claim_fenced_lasts [OF W assms(8) sound] by simp
  then consider "fenced now' (rc_kv (sy_cell y'))" | "claim_cancelled i (rc_kv (sy_cell y'))"
    | "run_done W (rc_kv (sy_cell y'))" "\<not> fenced now' (rc_kv (sy_cell y'))"
    using fenced_mono [OF _ assms(9)] assms(12) unfolding claim_fenced_def by blast
  then show ?thesis
  proof cases
    case 3
    then show ?thesis by (rule ended_creation_fails [OF W(4) assms(10) _ _ assms(13)])
  qed (use cancelled_event_fails [OF assms(10,11) _ _ assms(13)] assms(12) in auto)
qed

definition demo_given_up :: sys where
  "demo_given_up = serve_all demo_world [(30, R_Expired_Claim (JStr ''h1'') (JStr ''c1'') JUndefined)] demo_active"

lemma demo_given_up_event:
  "\<not> isl (cellApplyEvent demo_world None ((demo_ctx (HookCreated ''h1'' demo_hook) 0)\<lparr>c_hook_claim_id := Some ''c1:c1''\<rparr>)
     40 (sy_cell demo_given_up))"
  by code_simp

theorem given_up_claim_never_creates_hook_witness:
  "\<exists>f s'. cellApplyEvent demo_world None ((demo_ctx (HookCreated ''h1'' demo_hook) 0)\<lparr>c_hook_claim_id := Some ''c1:c1''\<rparr>)
     40 (sy_cell demo_given_up) = Inr (Failure f, s')"
proof -
  let ?ctx = "(demo_ctx (HookCreated ''h1'' demo_hook) 0)\<lparr>c_hook_claim_id := Some ''c1:c1''\<rparr>"
  obtain out s' where e: "cellApplyEvent demo_world None ?ctx 40 (sy_cell demo_given_up) = Inr (out, s')"
    using demo_given_up_event by (metis isl_def surj_pair sum.exhaust)
  have i: "''c1:c1'' = ''c1'' @ '':'' @ ''c1'' \<or> ''c1:c1'' = ''-:'' @ ''c1''" by simp
  have "getLifecycleStatus demo_world 20 (rc_kv (sy_cell demo_active)) = Life_Active" by (rule demo_active_facts)
  then have live: "\<not> (case get_run (rc_kv (sy_cell demo_active)) of None \<Rightarrow> False
      | Some r \<Rightarrow> terminal_run demo_world (run_state r))"
    by (auto simp: getLifecycleStatus_def tombstoneFrom_def demo_active_facts split: option.splits if_splits)
  have r: "resolveExpiredHookClaim demo_world (JStr ''h1'') (JStr ''c1'') JUndefined 30 (sy_cell demo_active)
      = Inr (None, sy_cell demo_given_up)"
    using live by (simp add: demo_given_up_def resolveExpiredHookClaim_def tombstoneFrom_def demo_active_facts Let_def
        isNonEmptyString_def optional_string_def)
  have "\<lparr>sy_clock = 30, sy_cell = sy_cell demo_given_up, sy_passes = sy_passes demo_active\<rparr> = demo_given_up"
    "sy_clock demo_given_up = 30"
    by (simp_all add: demo_given_up_def demo_active_facts Let_def)
  then have "\<exists>f. out = Failure f"
    by (intro given_up_claim_never_creates_hook [OF demo_ok demo_steps(1) _ disjI1 [OF r] _ _ _ _ i e])
      (simp_all add: demo_active_facts demo_ctx_def)
  then show ?thesis using e by blast
qed

end
