(* ===== verification/RunCatalog.thy ===== *)
theory RunCatalog
  imports HookShard
begin

text \<open>
  A shard of the run catalog (\<open>src/worker/durable-objects/RunCatalogDO.ts\<close>): two public rows per
  run, by workflow and overall, and a fence that keeps a late publication from bringing an expired
  run back.  Serialized metadata is the metadata itself.
\<close>

section \<open>Stored values\<close>

record run_meta =
  rm_run :: string
  rm_created_at :: int
  rm_status :: run_status

record catalog_fence =
  fe_expired_at :: int
  fe_compact_at :: int

record catalog_gc =
  gc_run :: string
  gc_compact_at :: int

datatype cval = CMeta run_meta | CKeys string string | CFence catalog_fence | CGc catalog_gc

fun as_meta :: "cval \<Rightarrow> run_meta option" where "as_meta (CMeta x) = Some x" | "as_meta _ = None"
fun as_keys :: "cval \<Rightarrow> (string \<times> string) option" where "as_keys (CKeys a b) = Some (a, b)" | "as_keys _ = None"
fun as_fence :: "cval \<Rightarrow> catalog_fence option" where "as_fence (CFence x) = Some x" | "as_fence _ = None"
fun as_gc :: "cval \<Rightarrow> catalog_gc option" where "as_gc (CGc x) = Some x" | "as_gc _ = None"

record catalog =
  ct_kv :: "cval kv"
  ct_alarm :: "int option"

definition get_meta :: "string \<Rightarrow> catalog \<Rightarrow> run_meta option" where
  "get_meta k s = Option.bind (kv_get k (ct_kv s)) as_meta"
definition get_keys :: "string \<Rightarrow> catalog \<Rightarrow> (string \<times> string) option" where
  "get_keys k s = Option.bind (kv_get k (ct_kv s)) as_keys"
definition get_fence :: "string \<Rightarrow> catalog \<Rightarrow> catalog_fence option" where
  "get_fence k s = Option.bind (kv_get k (ct_kv s)) as_fence"
definition get_gc :: "string \<Rightarrow> catalog \<Rightarrow> catalog_gc option" where
  "get_gc k s = Option.bind (kv_get k (ct_kv s)) as_gc"

definition put_catalog :: "string \<Rightarrow> cval \<Rightarrow> catalog \<Rightarrow> catalog" where
  "put_catalog k v s = s\<lparr>ct_kv := kv_put k v (ct_kv s)\<rparr>"
definition del_catalog :: "string list \<Rightarrow> catalog \<Rightarrow> catalog" where
  "del_catalog ks s = s\<lparr>ct_kv := kv_del_all ks (ct_kv s)\<rparr>"

section \<open>Keys\<close>

definition max_index_list_size :: nat where "max_index_list_size = 1001"
definition expiry_gc_prefix :: string where "expiry_gc_prefix = ''expiry-gc:''"
definition catalog_keys_prefix :: string where "catalog_keys_prefix = ''catalog-keys:''"

definition expiredKey :: "string \<Rightarrow> string" where "expiredKey runId = ''expired:'' @ runId"
definition catalogKeysKey :: "string \<Rightarrow> string" where
  "catalogKeysKey runId = catalog_keys_prefix @ encodeURIComponent runId"
definition expiryGcKey :: "string \<Rightarrow> int \<Rightarrow> string" where
  "expiryGcKey runId at = deadlineKey expiry_gc_prefix runId at"

text \<open>A \<open>.\<close> of a regular expression matches anything but a line terminator (also \<open>U+2028\<close> and
  \<open>U+2029\<close>, three bytes in UTF-8).\<close>

fun no_line_end :: "string \<Rightarrow> bool" where
  "no_line_end [] = True"
| "no_line_end (c # cs) =
     ((of_char c :: nat) \<noteq> 10 \<and> (of_char c :: nat) \<noteq> 13 \<and>
      \<not> ((of_char c :: nat) = 226 \<and> (case cs of a # b # _ \<Rightarrow>
            (of_char a :: nat) = 128 \<and> ((of_char b :: nat) = 168 \<or> (of_char b :: nat) = 169) | _ \<Rightarrow> False)) \<and>
      no_line_end cs)"

definition decimal_digit :: "char \<Rightarrow> bool" where
  "decimal_digit c \<longleftrightarrow> 48 \<le> (of_char c :: nat) \<and> (of_char c :: nat) \<le> 57"

text \<open>\<open>/^run:(.+):(\d{13}):/\<close>: the groups of the greedy match, at the last place where it can end.\<close>

definition match_at :: "string \<Rightarrow> nat \<Rightarrow> bool" where
  "match_at k i \<longleftrightarrow> 5 \<le> i \<and> i + 15 \<le> length k \<and> k ! i = CHR '':'' \<and> k ! (i + 14) = CHR '':'' \<and>
     list_all decimal_digit (take 13 (drop (i + 1) k)) \<and> no_line_end (take (i - 4) (drop 4 k))"

definition workflowMatch :: "string \<Rightarrow> (string \<times> string) option" where
  "workflowMatch k =
     (if \<not> has_prefix ''run:'' k then None
      else case filter (match_at k) [0..<length k] of
        [] \<Rightarrow> None
      | i # is \<Rightarrow> let j = last (i # is) in Some (take (j - 4) (drop 4 k), take 13 (drop (j + 1) k)))"

datatype catalog_exn = Bad_Keys | Bad_Stale_Key

definition canonicalCatalogKeys :: "string \<Rightarrow> string list \<Rightarrow> catalog_exn + string \<times> string" where
  "canonicalCatalogKeys runId ks =
     (case ks of
        [a, b] \<Rightarrow>
          (case workflowMatch a of
             None \<Rightarrow> Inl Bad_Keys
           | Some (name, at) \<Rightarrow>
               if a = ''run:'' @ name @ '':'' @ at @ '':'' @ runId \<and> b = ''runall:'' @ at @ '':'' @ runId
               then Inr (a, b) else Inl Bad_Keys)
      | _ \<Rightarrow> Inl Bad_Keys)"

section \<open>Publication\<close>

definition upsertRun :: "string \<Rightarrow> string list \<Rightarrow> run_meta \<Rightarrow> int \<Rightarrow> int \<Rightarrow> catalog \<Rightarrow> catalog_exn + bool \<times> catalog" where
  "upsertRun runId keys meta publicationExpiresAt now s =
     bindE (canonicalCatalogKeys runId keys) (\<lambda>(a, b).
       if kv_get (expiredKey runId) (ct_kv s) \<noteq> None then Inr (False, s)
       else if \<not> safe_int publicationExpiresAt \<or> publicationExpiresAt \<le> now
            \<or> publicationExpiresAt > now + max_run_index_publication_lifetime_ms
       then Inr (False, s)
       else if get_meta a s = Some meta \<and> get_meta b s = Some meta \<and> get_keys (catalogKeysKey runId) s = Some (a, b)
       then Inr (True, s)
       else Inr (True, put_catalog (catalogKeysKey runId) (CKeys a b)
                         (put_catalog b (CMeta meta) (put_catalog a (CMeta meta) s))))"

section \<open>Listing\<close>

text \<open>The limit of a request is a whole number; a fractional one is rounded down first.\<close>

record list_options =
  lo_prefix :: "string option"
  lo_cursor :: "string option"
  lo_end :: "string option"
  lo_limit :: "int option"
  lo_reverse :: bool

record 'v index_page =
  ip_keys :: "(string \<times> 'v) list"
  ip_complete :: bool
  ip_cursor :: "string option"

definition clamp_limit :: "nat \<Rightarrow> int option \<Rightarrow> nat" where
  "clamp_limit m limit = nat (min (int m) (max 1 (nullish limit (int m))))"

definition list_query :: "list_options \<Rightarrow> nat \<Rightarrow> kv_query" where
  "list_query rq limit =
     (prefix_query (case lo_prefix rq of None \<Rightarrow> ''run'' | Some p \<Rightarrow> if p = [] then ''run'' else p))
       \<lparr>q_limit := Some (limit + 1),
        q_reverse := lo_reverse rq,
        q_start_after := (if lo_reverse rq then None else lo_cursor rq),
        q_end := (if lo_reverse rq then (case lo_cursor rq of Some c \<Rightarrow> Some c | None \<Rightarrow> lo_end rq) else lo_end rq)\<rparr>"

definition index_page :: "nat \<Rightarrow> (string \<times> 'v) list \<Rightarrow> 'v index_page" where
  "index_page limit entries =
     (let page = take limit entries; complete = length entries \<le> limit
      in \<lparr>ip_keys = page, ip_complete = complete,
          ip_cursor = (if complete \<or> page = [] then None else Some (fst (last page)))\<rparr>)"

definition catalogList :: "list_options \<Rightarrow> catalog \<Rightarrow> cval index_page" where
  "catalogList rq s =
     (let limit = clamp_limit max_index_list_size (lo_limit rq)
      in index_page limit (kv_list (list_query rq limit) (ct_kv s)))"

section \<open>Removal\<close>

definition has_suffix :: "string \<Rightarrow> string \<Rightarrow> bool" where
  "has_suffix p k \<longleftrightarrow> drop (length k - length p) k = p"

definition deleteStaleGlobalRun :: "string \<Rightarrow> string \<Rightarrow> run_meta \<Rightarrow> catalog \<Rightarrow> catalog_exn + bool \<times> catalog" where
  "deleteStaleGlobalRun runId k expected s =
     bindE (ensure (has_prefix ''runall:'' k \<and> has_suffix ('':'' @ runId) k) Bad_Stale_Key) (\<lambda>_.
       if get_meta k s \<noteq> Some expected then Inr (False, s)
       else Inr (True, del_catalog [k] s))"

definition armCatalog :: "int \<Rightarrow> catalog \<Rightarrow> catalog" where
  "armCatalog at s =
     (if (case ct_alarm s of None \<Rightarrow> True | Some a \<Rightarrow> at < a) then s\<lparr>ct_alarm := Some at\<rparr> else s)"

definition expireRun :: "string \<Rightarrow> int \<Rightarrow> int \<Rightarrow> catalog \<Rightarrow> catalog_exn + nat \<times> catalog" where
  "expireRun runId expiredAt now s =
     (case get_keys (catalogKeysKey runId) s of
        None \<Rightarrow> Inr (0, s)
      | Some (a0, b0) \<Rightarrow>
          bindE (canonicalCatalogKeys runId [a0, b0]) (\<lambda>(a, b).
            let compactAt = (case get_fence (expiredKey runId) s of
                               Some f \<Rightarrow> fe_compact_at f | None \<Rightarrow> now + catalog_fence_grace_ms);
                s1 = armCatalog compactAt
                       (put_catalog (expiryGcKey runId compactAt) (CGc \<lparr>gc_run = runId, gc_compact_at = compactAt\<rparr>)
                         (put_catalog (expiredKey runId)
                           (CFence \<lparr>fe_expired_at = expiredAt, fe_compact_at = compactAt\<rparr>) s))
            in Inr (kv_del_count [a, b] (ct_kv s1), del_catalog [catalogKeysKey runId] (del_catalog [a, b] s1))))"

section \<open>Compaction of fences\<close>

definition gc_rows :: "kv_query \<Rightarrow> catalog \<Rightarrow> (string \<times> catalog_gc) list" where
  "gc_rows q s = List.map_filter (\<lambda>(k, v). map_option (Pair k) (as_gc v)) (kv_list q (ct_kv s))"

definition due_gc :: "int \<Rightarrow> kv_query" where
  "due_gc now = (prefix_query expiry_gc_prefix)
     \<lparr>q_end := Some (expiry_gc_prefix @ pad (now + 1)), q_limit := Some (lifecycle_compaction_batch + 1)\<rparr>"

definition compactExpiryFences :: "int \<Rightarrow> catalog \<Rightarrow> catalog" where
  "compactExpiryFences now s =
     (let due = gc_rows (due_gc now) s; page = take lifecycle_compaction_batch due;
          deletes = concat (map (\<lambda>(k, item).
            if map_option fe_compact_at (get_fence (expiredKey (gc_run item)) s) = Some (gc_compact_at item)
            then [k, expiredKey (gc_run item)] else [k]) page);
          s1 = del_catalog deletes s
      in if length due > lifecycle_compaction_batch then s1\<lparr>ct_alarm := Some (now + 1)\<rparr>
         else case gc_rows ((prefix_query expiry_gc_prefix)\<lparr>q_limit := Some 1\<rparr>) s1 of
           [] \<Rightarrow> s1\<lparr>ct_alarm := None\<rparr>
         | row # _ \<Rightarrow> s1\<lparr>ct_alarm := Some (max (now + 1) (gc_compact_at (snd row)))\<rparr>)"

text \<open>The handler: a failing transaction is retried soon.\<close>

definition catalogAlarm :: "bool \<Rightarrow> int \<Rightarrow> catalog \<Rightarrow> catalog" where
  "catalogAlarm failing now s =
     (if failing then s\<lparr>ct_alarm := Some (now + lifecycle_compaction_retry_ms)\<rparr> else compactExpiryFences now s)"

section \<open>The shard as a transition system\<close>

record catalog_sys =
  cy_clock :: int
  cy_cell :: catalog

inductive catalog_step :: "catalog_sys \<Rightarrow> catalog_sys \<Rightarrow> bool" where
  upsert: "t \<le> now \<Longrightarrow> upsertRun runId keys meta at now s = Inr (r, s') \<Longrightarrow>
     catalog_step \<lparr>cy_clock = t, cy_cell = s\<rparr> \<lparr>cy_clock = now, cy_cell = s'\<rparr>"
| stale: "t \<le> now \<Longrightarrow> deleteStaleGlobalRun runId k meta s = Inr (r, s') \<Longrightarrow>
     catalog_step \<lparr>cy_clock = t, cy_cell = s\<rparr> \<lparr>cy_clock = now, cy_cell = s'\<rparr>"
| expire: "t \<le> now \<Longrightarrow> expireRun runId expiredAt now s = Inr (n, s') \<Longrightarrow>
     catalog_step \<lparr>cy_clock = t, cy_cell = s\<rparr> \<lparr>cy_clock = now, cy_cell = s'\<rparr>"
| wake: "t \<le> now \<Longrightarrow> catalog_step \<lparr>cy_clock = t, cy_cell = s\<rparr> \<lparr>cy_clock = now, cy_cell = catalogAlarm failing now s\<rparr>"

definition empty_catalog :: catalog where "empty_catalog = \<lparr>ct_kv = [], ct_alarm = None\<rparr>"

end
