(* ===== verification/CatalogFacts.thy ===== *)
theory CatalogFacts
  imports RunCatalog DeadlineKeys
begin

text \<open>
  The fence of an expired run: once a run's rows were removed, no publication that was issued before
  the removal brings them back, because the fence stays for as long as such a publication lives.
\<close>

named_theorems catalog_simps

lemmas [catalog_simps] = put_catalog_def del_catalog_def armCatalog_def expiredKey_def catalogKeysKey_def
  expiryGcKey_def deadlineKey_def expiry_gc_prefix_def catalog_keys_prefix_def get_fence_def get_gc_def get_keys_def get_meta_def

lemma canonical_keys:
  assumes "canonicalCatalogKeys r ks = Inr (a, b)"
  shows "has_prefix ''run:'' a \<and> has_prefix ''runall:'' b \<and> ks = [a, b]"
  using assms by (auto simp: canonicalCatalogKeys_def has_prefix_iff split: list.splits option.splits if_splits)

lemma key_kinds [simp]:
  "\<not> has_prefix ''run:'' (expiredKey r)" "\<not> has_prefix ''runall:'' (expiredKey r)"
  "expiredKey r \<noteq> catalogKeysKey q" "expiredKey r \<noteq> expiryGcKey q t"
  "\<not> has_prefix ''run:'' (expiryGcKey r t)" "\<not> has_prefix ''runall:'' (expiryGcKey r t)"
  "expiryGcKey r t \<noteq> catalogKeysKey q"
  by (auto simp: catalog_simps has_prefix_iff)

lemma expiredKey_inj [simp]: "expiredKey r = expiredKey q \<longleftrightarrow> r = q"
  by (simp add: expiredKey_def)

section \<open>Rows of the compaction queue\<close>

definition gc_ok :: "catalog \<Rightarrow> bool" where
  "gc_ok s \<longleftrightarrow> kv_wf (ct_kv s) \<and>
     (\<forall>k x. kv_get k (ct_kv s) = Some (CGc x) \<longrightarrow> k = expiryGcKey (gc_run x) (gc_compact_at x) \<and>
        0 \<le> gc_compact_at x \<and> gc_compact_at x < 10 ^ 13) \<and>
     (\<forall>k f. kv_get k (ct_kv s) = Some (CFence f) \<longrightarrow> 0 \<le> fe_compact_at f \<and> fe_compact_at f < 10 ^ 13)"

lemma gc_ok_put_plain:
  "gc_ok s \<Longrightarrow> as_gc v = None \<Longrightarrow> as_fence v = None \<Longrightarrow> gc_ok (put_catalog k v s)"
  by (auto simp: gc_ok_def put_catalog_def kv_wf_put)

lemma gc_ok_del: "gc_ok s \<Longrightarrow> gc_ok (del_catalog ks s)"
  by (auto simp: gc_ok_def del_catalog_def kv_wf_del_all)

lemma gc_ok_alarm [simp]: "gc_ok (s\<lparr>ct_alarm := a\<rparr>) = gc_ok s" "gc_ok (armCatalog t s) = gc_ok s"
  by (simp_all add: gc_ok_def armCatalog_def)

lemma gc_ok_fence:
  assumes "gc_ok s" "0 \<le> t" "t < 10 ^ 13" "fe_compact_at f = t"
  shows "gc_ok (put_catalog (expiryGcKey r t) (CGc \<lparr>gc_run = r, gc_compact_at = t\<rparr>) (put_catalog k (CFence f) s))"
  using assms by (auto simp: gc_ok_def put_catalog_def kv_wf_put)

lemma upsert_gc_ok: "gc_ok s \<Longrightarrow> upsertRun r ks m pe now s = Inr (x, s') \<Longrightarrow> gc_ok s'"
  by (auto simp: upsertRun_def bindE_eq_Inr gc_ok_put_plain split: if_splits)

lemma stale_gc_ok: "gc_ok s \<Longrightarrow> deleteStaleGlobalRun r k m s = Inr (x, s') \<Longrightarrow> gc_ok s'"
  by (auto simp: deleteStaleGlobalRun_def bindE_eq_Inr gc_ok_del split: if_splits)

lemma compact_gc_ok: "gc_ok s \<Longrightarrow> gc_ok (catalogAlarm failing now s)"
  by (auto simp: catalogAlarm_def compactExpiryFences_def Let_def gc_ok_del split: list.splits)

lemma gc_rows_mem: "gc_ok s \<Longrightarrow> (k, x) \<in> set (gc_rows q s) \<Longrightarrow> kv_get k (ct_kv s) = Some (CGc x) \<and> in_query q k"
  by (auto simp: gc_rows_def List.map_filter_def gc_ok_def elim!: as_gc.elims dest: kv_list_get kv_list_in_query)

section \<open>Access\<close>

lemma get_fence_put [simp]:
  "get_fence k (put_catalog k' v s) = (if k = k' then as_fence v else get_fence k s)"
  by (simp add: get_fence_def put_catalog_def)

lemma get_fence_del [simp]: "get_fence k (del_catalog ks s) = (if k \<in> set ks then None else get_fence k s)"
  by (simp add: get_fence_def del_catalog_def)

lemma get_fence_alarm [simp]:
  "get_fence k (s\<lparr>ct_alarm := a\<rparr>) = get_fence k s" "get_fence k (armCatalog t s) = get_fence k s"
  by (simp_all add: get_fence_def armCatalog_def)

definition compact_time :: "string \<Rightarrow> int \<Rightarrow> catalog \<Rightarrow> int" where
  "compact_time r now s =
     (case get_fence (expiredKey r) s of Some f \<Rightarrow> fe_compact_at f | None \<Rightarrow> now + catalog_fence_grace_ms)"

lemma expire_cases:
  assumes "expireRun r at now s = Inr (n, s')"
  obtains "get_keys (catalogKeysKey r) s = None" "n = 0" "s' = s"
  | a b where "get_keys (catalogKeysKey r) s \<noteq> None" "has_prefix ''run:'' a" "has_prefix ''runall:'' b"
      "get_keys (catalogKeysKey r) s = Some (a, b)"
      "s' = del_catalog [catalogKeysKey r] (del_catalog [a, b] (armCatalog (compact_time r now s)
         (put_catalog (expiryGcKey r (compact_time r now s)) (CGc \<lparr>gc_run = r, gc_compact_at = compact_time r now s\<rparr>)
            (put_catalog (expiredKey r) (CFence \<lparr>fe_expired_at = at, fe_compact_at = compact_time r now s\<rparr>) s))))"
proof (cases "get_keys (catalogKeysKey r) s")
  case None
  from None assms have "Inr (0, s) = (Inr (n, s') :: catalog_exn + nat \<times> catalog)"
    unfolding expireRun_def by (simp only: option.case)
  then have "n = 0" "s' = s" by auto
  with None show ?thesis by (rule that(1))
next
  case (Some ks)
  obtain a0 b0 where ks: "ks = (a0, b0)" by fastforce
  obtain a b where c: "canonicalCatalogKeys r [a0, b0] = Inr (a, b)"
    and s': "s' = del_catalog [catalogKeysKey r] (del_catalog [a, b] (armCatalog (compact_time r now s)
         (put_catalog (expiryGcKey r (compact_time r now s)) (CGc \<lparr>gc_run = r, gc_compact_at = compact_time r now s\<rparr>)
            (put_catalog (expiredKey r) (CFence \<lparr>fe_expired_at = at, fe_compact_at = compact_time r now s\<rparr>) s))))"
    using assms unfolding expireRun_def compact_time_def [symmetric] Some ks
    by (simp only: option.case prod.case Let_def bindE_eq_Inr split_paired_Ex sum.inject prod.inject) blast
  show ?thesis using that(2) [of a b] canonical_keys [OF c] Some ks s' by simp
qed

lemma expire_gc_ok:
  assumes ok: "gc_ok s" and "expireRun r at now s = Inr (x, s')" "0 \<le> now" "now + catalog_fence_grace_ms < 10 ^ 13"
  shows "gc_ok s'"
  using assms(2)
proof (cases rule: expire_cases)
  case (2 a b)
  have "0 \<le> catalog_fence_grace_ms" by (simp add: bound_defs)
  then have t: "0 \<le> compact_time r now s" "compact_time r now s < 10 ^ 13"
    using ok assms(3,4)
    by (auto simp: compact_time_def gc_ok_def get_fence_def bind_eq_Some_conv split: option.splits elim!: as_fence.elims)
  show ?thesis using 2(5) gc_ok_fence [OF ok t] by (simp add: gc_ok_del)
qed (use ok in simp)

section \<open>The fence holds\<close>

text \<open>A run is fenced until \<open>T\<close> when its fence is there or the clock has reached \<open>T\<close>.\<close>

definition fenced :: "string \<Rightarrow> int \<Rightarrow> catalog_sys \<Rightarrow> bool" where
  "fenced r T y \<longleftrightarrow> gc_ok (cy_cell y) \<and>
     ((\<exists>f. get_fence (expiredKey r) (cy_cell y) = Some f \<and> fe_compact_at f = T) \<or> T \<le> cy_clock y)"

lemma fence_upsert:
  "upsertRun q ks m pe now s = Inr (x, s') \<Longrightarrow> get_fence (expiredKey r) s' = get_fence (expiredKey r) s"
  by (auto simp: upsertRun_def bindE_eq_Inr dest!: canonical_keys split: if_splits)

lemma fence_stale:
  "deleteStaleGlobalRun q k m s = Inr (x, s') \<Longrightarrow> get_fence (expiredKey r) s' = get_fence (expiredKey r) s"
  by (auto simp: deleteStaleGlobalRun_def bindE_eq_Inr ensure_def split: if_splits)

lemma fence_expire:
  assumes "expireRun q at now s = Inr (x, s')" "get_fence (expiredKey r) s = Some f"
  shows "\<exists>f'. get_fence (expiredKey r) s' = Some f' \<and> fe_compact_at f' = fe_compact_at f"
  using assms(1)
proof (cases rule: expire_cases)
  case 2
  then show ?thesis using assms(2) by (cases "r = q") (auto simp: compact_time_def)
qed (use assms(2) in simp)

definition fence_deletes :: "int \<Rightarrow> catalog \<Rightarrow> string list" where
  "fence_deletes now s = concat (map (\<lambda>(k, item).
     if map_option fe_compact_at (get_fence (expiredKey (gc_run item)) s) = Some (gc_compact_at item)
     then [k, expiredKey (gc_run item)] else [k]) (take lifecycle_compaction_batch (gc_rows (due_gc now) s)))"

lemma get_fence_compact:
  "get_fence k (compactExpiryFences now s) = (if k \<in> set (fence_deletes now s) then None else get_fence k s)"
  unfolding compactExpiryFences_def Let_def fence_deletes_def [symmetric] by (simp split: list.split)

lemma due_row:
  assumes ok: "gc_ok s" and row: "(k, x) \<in> set (gc_rows (due_gc now) s)" and now: "0 \<le> now" "now + 1 < 10 ^ 13"
  shows "k = expiryGcKey (gc_run x) (gc_compact_at x)" "gc_compact_at x \<le> now"
proof -
  have g: "kv_get k (ct_kv s) = Some (CGc x)" "in_query (due_gc now) k" using gc_rows_mem [OF ok row] by auto
  then have k: "k = expiryGcKey (gc_run x) (gc_compact_at x)" "0 \<le> gc_compact_at x" "gc_compact_at x < 10 ^ 13"
    using ok unfolding gc_ok_def by blast+
  have "k < expiry_gc_prefix @ pad (now + 1)"
    using g(2) by (simp add: in_query_def due_gc_def prefix_query_def)
  then show "gc_compact_at x \<le> now" using due_key [OF k(2,3) now] k(1) by (simp add: expiryGcKey_def)
  show "k = expiryGcKey (gc_run x) (gc_compact_at x)" by (fact k)
qed

lemma fence_compact:
  assumes ok: "gc_ok s" and f: "get_fence (expiredKey r) s = Some f"
    and now: "0 \<le> now" "now + 1 < 10 ^ 13" and ahead: "now < fe_compact_at f"
  shows "get_fence (expiredKey r) (catalogAlarm failing now s) = Some f"
proof -
  have "expiredKey r \<noteq> k \<and> (map_option fe_compact_at (get_fence (expiredKey (gc_run x)) s) = Some (gc_compact_at x) \<longrightarrow> gc_run x \<noteq> r)"
    if "(k, x) \<in> set (gc_rows (due_gc now) s)" for k x
    using due_row [OF ok that now] f ahead by auto
  then have "expiredKey r \<notin> set (fence_deletes now s)"
    unfolding fence_deletes_def by (fastforce dest: in_set_takeD split: if_splits)
  then show ?thesis using f by (simp add: catalogAlarm_def get_fence_compact)
qed

lemma catalog_step_clock: "catalog_step y z \<Longrightarrow> cy_clock y \<le> cy_clock z"
  by (induction rule: catalog_step.induct) auto

lemma catalog_run_clock: "catalog_step\<^sup>*\<^sup>* y z \<Longrightarrow> cy_clock y \<le> cy_clock z"
  by (induction rule: rtranclp_induct) (auto dest: catalog_step_clock)

definition catalog_time :: "int \<Rightarrow> bool" where
  "catalog_time t \<longleftrightarrow> t + catalog_fence_grace_ms + 1 < 10 ^ 13"

lemma fenced_step:
  assumes "catalog_step y z" "fenced r T y" "0 \<le> cy_clock y" "catalog_time (cy_clock z)"
  shows "fenced r T z"
  using assms
proof (induction rule: catalog_step.induct)
  case (upsert t now q ks m pe s x s')
  then show ?case using fence_upsert [OF upsert(2)] upsert_gc_ok [OF _ upsert(2)] by (auto simp: fenced_def)
next
  case (stale t now q k m s x s')
  then show ?case using fence_stale [OF stale(2)] stale_gc_ok [OF _ stale(2)] by (auto simp: fenced_def)
next
  case (expire t now q at s x s')
  then have "gc_ok s'" using expire_gc_ok [OF _ expire(2)] by (auto simp: fenced_def catalog_time_def)
  then show ?case using fence_expire [OF expire(2)] expire by (fastforce simp: fenced_def)
next
  case (wake t now s failing)
  show ?case
  proof (cases "T \<le> now")
    case True
    then show ?thesis using wake by (auto simp: fenced_def compact_gc_ok)
  next
    case False
    have "0 \<le> catalog_fence_grace_ms" by (simp add: bound_defs)
    then have now: "0 \<le> now" "now + 1 < 10 ^ 13" using wake by (auto simp: catalog_time_def)
    from False wake obtain f where f: "get_fence (expiredKey r) s = Some f" "fe_compact_at f = T"
      by (auto simp: fenced_def)
    then have "get_fence (expiredKey r) (catalogAlarm failing now s) = Some f"
      using fence_compact [OF _ f(1) now] False wake by (auto simp: fenced_def)
    then show ?thesis using f wake by (auto simp: fenced_def compact_gc_ok)
  qed
qed

lemma fenced_run:
  assumes "catalog_step\<^sup>*\<^sup>* y z" "fenced r T y" "0 \<le> cy_clock y" "catalog_time (cy_clock z)"
  shows "fenced r T z"
  using assms
proof (induction rule: rtranclp_induct)
  case (step z w)
  have "catalog_time (cy_clock z)" using catalog_step_clock [OF step(2)] step(6) by (simp add: catalog_time_def)
  then show ?case using step catalog_run_clock [OF step(1)] fenced_step [OF step(2)] by auto
qed simp

lemma gc_ok_run:
  assumes "catalog_step\<^sup>*\<^sup>* y z" "gc_ok (cy_cell y)" "0 \<le> cy_clock y" "catalog_time (cy_clock z)"
  shows "gc_ok (cy_cell z)"
  using fenced_run [OF assms(1), of "[]" "cy_clock y"] assms by (simp add: fenced_def)

lemma gc_ok_empty: "gc_ok empty_catalog"
  by (simp add: gc_ok_def empty_catalog_def kv_wf_def)

lemma expire_fences:
  assumes "expireRun r at now s = Inr (x, s')" "get_keys (catalogKeysKey r) s \<noteq> None" "get_fence (expiredKey r) s = None"
  shows "\<exists>f. get_fence (expiredKey r) s' = Some f \<and> fe_compact_at f = now + catalog_fence_grace_ms"
  using assms(1)
proof (cases rule: expire_cases)
  case 2
  then show ?thesis using assms(3) by (auto simp: compact_time_def)
qed (use assms(2) in simp)

lemma upsert_fenced: "get_fence (expiredKey r) s = Some f \<Longrightarrow> upsertRun r ks m pe now s = Inr (b, s') \<Longrightarrow> \<not> b \<and> s' = s"
  by (auto simp: upsertRun_def bindE_eq_Inr get_fence_def bind_eq_Some_conv split: if_splits)

section \<open>Keys and fences\<close>

lemma catalogKeysKey_inj [simp]: "catalogKeysKey q = catalogKeysKey r \<longleftrightarrow> q = r"
  by (simp add: catalogKeysKey_def encodeURIComponent_inj)

lemma keys_kinds [simp]:
  "\<not> has_prefix ''run:'' (catalogKeysKey q)" "\<not> has_prefix ''runall:'' (catalogKeysKey q)"
  by (auto simp: catalog_simps has_prefix_iff)

lemma get_keys_put [simp]: "get_keys k (put_catalog k' v s) = (if k = k' then as_keys v else get_keys k s)"
  by (simp add: get_keys_def put_catalog_def)

lemma get_keys_del [simp]: "get_keys k (del_catalog ks s) = (if k \<in> set ks then None else get_keys k s)"
  by (simp add: get_keys_def del_catalog_def)

lemma get_keys_alarm [simp]:
  "get_keys k (s\<lparr>ct_alarm := a\<rparr>) = get_keys k s" "get_keys k (armCatalog t s) = get_keys k s"
  by (simp_all add: get_keys_def armCatalog_def)

text \<open>A run with stored keys is not fenced.\<close>

definition unfenced :: "catalog \<Rightarrow> bool" where
  "unfenced s \<longleftrightarrow> (\<forall>q. get_keys (catalogKeysKey q) s \<noteq> None \<longrightarrow> get_fence (expiredKey q) s = None)"

lemma unfenced_upsert: "upsertRun r ks m pe now s = Inr (x, s') \<Longrightarrow> unfenced s \<Longrightarrow> unfenced s'"
  by (auto simp: upsertRun_def bindE_eq_Inr unfenced_def get_fence_def [of "expiredKey r" s]
      dest!: canonical_keys split: if_splits)

lemma unfenced_stale: "deleteStaleGlobalRun r k m s = Inr (x, s') \<Longrightarrow> unfenced s \<Longrightarrow> unfenced s'"
  by (auto simp: deleteStaleGlobalRun_def bindE_eq_Inr ensure_def unfenced_def split: if_splits)

lemma unfenced_expire:
  assumes "expireRun r at now s = Inr (x, s')" "unfenced s"
  shows "unfenced s'"
  using assms(1)
proof (cases rule: expire_cases)
  case 2
  then show ?thesis using assms(2) by (auto simp: unfenced_def)
qed (use assms in simp)

lemma get_keys_compact:
  "get_keys k (compactExpiryFences now s) = (if k \<in> set (fence_deletes now s) then None else get_keys k s)"
  unfolding compactExpiryFences_def Let_def fence_deletes_def [symmetric] by (simp split: list.split)

lemma unfenced_wake: "unfenced s \<Longrightarrow> unfenced (catalogAlarm failing now s)"
  by (auto simp: catalogAlarm_def unfenced_def get_keys_compact get_fence_compact split: if_splits)

lemma unfenced_run: "catalog_step\<^sup>*\<^sup>* y z \<Longrightarrow> unfenced (cy_cell y) \<Longrightarrow> unfenced (cy_cell z)"
proof (induction rule: rtranclp_induct)
  case (step y z)
  from step(2) have "unfenced (cy_cell y) \<Longrightarrow> unfenced (cy_cell z)"
    by (induction rule: catalog_step.induct) (auto intro: unfenced_upsert unfenced_stale unfenced_expire unfenced_wake)
  then show ?case using step by blast
qed simp

lemma unfenced_empty [simp]: "unfenced empty_catalog"
  by (simp add: unfenced_def get_keys_def empty_catalog_def)

end
