(* ===== verification/IndexClient.thy ===== *)
theory IndexClient
  imports CatalogFacts "HOL-Library.Word"
begin

text \<open>
  The client of the index shards (\<open>src/indexes.ts\<close>): how keys are spread over the shards of the run
  catalog, of hook tokens and of hook ids, and the operations that need several shards.  A call to a
  shard is an \<open>Ask\<close>; a rejected call is the answer \<open>R_Failed\<close>.  Calls that the code starts together
  (\<open>Promise.all\<close>) go to different shards and are made one after the other, none of them
  skipped when another fails.
\<close>

section \<open>Shards\<close>

definition run_catalog_shards :: nat where "run_catalog_shards = 16"
definition hook_token_shards :: nat where "hook_token_shards = 32"
definition hook_id_shards :: nat where "hook_id_shards = 32"
definition index_protocol_version :: string where "index_protocol_version = ''v1''"
definition hook_release_batch :: nat where "hook_release_batch = 64"

text \<open>FNV-1a on the UTF-8 bytes: \<open>Math.imul\<close> and \<open>>>> 0\<close> compute modulo \<open>2 ^ 32\<close>.\<close>

definition stableIndexHash :: "string \<Rightarrow> 32 word" where
  "stableIndexHash s = fold (\<lambda>c h. xor h (of_nat (of_char c)) * 0x01000193) s 0x811c9dc5"

definition hex_lower :: "nat \<Rightarrow> char" where
  "hex_lower d = (if d < 10 then char_of (48 + d) else char_of (87 + d))"

fun hex_nat :: "nat \<Rightarrow> string" where
  "hex_nat n = (if n < 16 then [hex_lower n] else hex_nat (n div 16) @ [hex_lower (n mod 16)])"

declare hex_nat.simps [simp del]

definition shardName :: "string \<Rightarrow> string \<Rightarrow> nat \<Rightarrow> string" where
  "shardName domain v cardinality =
     domain @ '':'' @ index_protocol_version @ '':'' @
       pad_start (max 2 (length (hex_nat (cardinality - 1)))) (CHR ''0'') (hex_nat (unat (stableIndexHash v) mod cardinality))"

definition runCatalogShardName :: "string \<Rightarrow> string" where
  "runCatalogShardName runId = shardName ''run-catalog'' runId run_catalog_shards"
definition hookTokenShardName :: "string \<Rightarrow> string" where
  "hookTokenShardName token = shardName ''hook-token'' token hook_token_shards"
definition hookIdShardName :: "string \<Rightarrow> string" where
  "hookIdShardName hookId = shardName ''hook-id'' hookId hook_id_shards"

definition allRunCatalogShardNames :: "string list" where
  "allRunCatalogShardNames =
     map (\<lambda>shard. ''run-catalog:'' @ index_protocol_version @ '':'' @ pad_start 2 (CHR ''0'') (hex_nat shard))
       [0..<run_catalog_shards]"

section \<open>Calls\<close>

record 'v sharded_entry =
  se_name :: string
  se_value :: 'v
  se_shard :: string

datatype index_call =
    Upsert_Run string string "string list" run_meta int
  | List_Runs string list_options
  | Expire_Run string string int
  | Token_Get string string
  | Token_Reserve string string owner string
  | Token_Force string string owner string bool
  | Token_Finalize string string hook owner "string option"
  | Token_Release string string owner string
  | Token_Batch string "(string \<times> owner) list" bool
  | Token_Settle string string "(owner \<times> string option) option" "hook option"
  | Id_Get string string
  | Id_Reserve string string owner string
  | Id_Publish string string hook owner "string option"
  | Id_Release string string owner string
  | Id_Batch string "(string \<times> owner) list"

datatype index_answer =
    R_Failed
  | R_Done
  | R_Stored bool
  | R_Deleted nat
  | R_Page "cval index_page"
  | R_Hook "hook option"
  | R_Claim claim_result
  | R_Force force_result
  | R_Owner "owner option"

datatype index_exn = Call_Rejected

type_synonym 'r client = "(index_exn, index_call, index_answer, unit, 'r) proc"

definition ask :: "index_call \<Rightarrow> (index_answer \<Rightarrow> 'r option) \<Rightarrow> 'r client" where
  "ask q take_answer = Ask q (\<lambda>a. case take_answer a of None \<Rightarrow> Throw Call_Rejected | Some x \<Rightarrow> Return x)"

fun as_done :: "index_answer \<Rightarrow> unit option" where "as_done R_Done = Some ()" | "as_done _ = None"
fun as_stored :: "index_answer \<Rightarrow> bool option" where "as_stored (R_Stored b) = Some b" | "as_stored _ = None"
fun as_deleted :: "index_answer \<Rightarrow> nat option" where "as_deleted (R_Deleted n) = Some n" | "as_deleted _ = None"
fun as_page :: "index_answer \<Rightarrow> cval index_page option" where "as_page (R_Page p) = Some p" | "as_page _ = None"
fun as_hook_answer :: "index_answer \<Rightarrow> hook option option" where "as_hook_answer (R_Hook h) = Some h" | "as_hook_answer _ = None"
fun as_claimed :: "index_answer \<Rightarrow> claim_result option" where "as_claimed (R_Claim r) = Some r" | "as_claimed _ = None"
fun as_forced :: "index_answer \<Rightarrow> force_result option" where "as_forced (R_Force r) = Some r" | "as_forced _ = None"
fun as_owner :: "index_answer \<Rightarrow> owner option option" where "as_owner (R_Owner h) = Some h" | "as_owner _ = None"

text \<open>\<open>Promise.allSettled\<close> and \<open>Promise.all\<close>\<close>

fun settledP :: "'r client list \<Rightarrow> 'r option list client" where
  "settledP [] = Return []"
| "settledP (p # ps) =
     bindP (catchP (bindP p (\<lambda>x. Return (Some x))) (\<lambda>_. Return None)) (\<lambda>r.
     bindP (settledP ps) (\<lambda>rs. Return (r # rs)))"

definition allP :: "'r client list \<Rightarrow> 'r list client" where
  "allP ps = bindP (settledP ps) (\<lambda>rs. if None \<in> set rs then Throw Call_Rejected else Return (map the rs))"

section \<open>Helpers\<close>

definition runIndexMetadata :: "wf_run \<Rightarrow> run_meta" where
  "runIndexMetadata r = \<lparr>rm_run = run_id r, rm_created_at = run_created_at r, rm_status = run_state r\<rparr>"

definition runKeys :: "wf_run \<Rightarrow> string list" where
  "runKeys r =
     (let timestamp = pad_dec 13 (run_created_at r)
      in [''run:'' @ run_name r @ '':'' @ timestamp @ '':'' @ run_id r,
          ''runall:'' @ timestamp @ '':'' @ run_id r])"

fun add_to_group :: "string \<Rightarrow> 'a \<Rightarrow> (string \<times> 'a list) list \<Rightarrow> (string \<times> 'a list) list" where
  "add_to_group name v [] = [(name, [v])]"
| "add_to_group name v ((m, g) # gs) =
     (if m = name then (m, g @ [v]) # gs else (m, g) # add_to_group name v gs)"

definition groupByShard :: "('a \<Rightarrow> string) \<Rightarrow> 'a list \<Rightarrow> (string \<times> 'a list) list" where
  "groupByShard route vs = fold (\<lambda>v. add_to_group (route v) v) vs []"

definition inBatches :: "('a list \<Rightarrow> nat client) \<Rightarrow> 'a list \<Rightarrow> nat client" where
  "inBatches operation vs = bindP (eachP operation (pages hook_release_batch vs)) (\<lambda>ns. Return (sum_list ns))"

fun compareBytes :: "string \<Rightarrow> string \<Rightarrow> int" where
  "compareBytes (a # as) (b # bs) =
     (if int (of_char a) - int (of_char b) \<noteq> 0 then int (of_char a) - int (of_char b) else compareBytes as bs)"
| "compareBytes as bs = int (length as) - int (length bs)"

text \<open>\<open>toSorted\<close> is a stable sort.\<close>

fun insert_by :: "('a \<Rightarrow> 'a \<Rightarrow> int) \<Rightarrow> 'a \<Rightarrow> 'a list \<Rightarrow> 'a list" where
  "insert_by cmp x [] = [x]"
| "insert_by cmp x (y # ys) = (if cmp x y \<le> 0 then x # y # ys else y # insert_by cmp x ys)"

definition toSorted :: "('a \<Rightarrow> 'a \<Rightarrow> int) \<Rightarrow> 'a list \<Rightarrow> 'a list" where
  "toSorted cmp xs = foldr (insert_by cmp) xs []"

section \<open>Runs\<close>

definition commitRunIndex :: "wf_run \<Rightarrow> run_meta \<Rightarrow> int \<Rightarrow> bool client" where
  "commitRunIndex r meta publicationExpiresAt =
     ask (Upsert_Run (runCatalogShardName (run_id r)) (run_id r) (runKeys r) meta publicationExpiresAt) as_stored"

definition by_name :: "bool \<Rightarrow> 'v sharded_entry \<Rightarrow> 'v sharded_entry \<Rightarrow> int" where
  "by_name backwards x y =
     (let compared = compareBytes (se_name x) (se_name y) in if backwards then - compared else compared)"

definition merge_pages :: "bool \<Rightarrow> nat \<Rightarrow> (string \<times> cval index_page) list \<Rightarrow> cval sharded_entry list \<times> bool \<times> string option" where
  "merge_pages backwards limit named =
     (let candidates = toSorted (by_name backwards)
            (concat (map (\<lambda>(shard, p). map (\<lambda>(k, v). \<lparr>se_name = k, se_value = v, se_shard = shard\<rparr>) (ip_keys p)) named));
          page = take limit candidates;
          complete = length candidates \<le> limit \<and> list_all (\<lambda>(_, p). ip_complete p) named
      in (page, complete, if complete \<or> page = [] then None else Some (se_name (last page))))"

definition run_list_limit :: "list_options \<Rightarrow> nat" where
  "run_list_limit rq = clamp_limit 1000 (lo_limit rq)"

definition listRuns :: "list_options \<Rightarrow> (cval sharded_entry list \<times> bool \<times> string option) client" where
  "listRuns rq =
     (let limit = run_list_limit rq
      in bindP (allP (map (\<lambda>name. ask (List_Runs name (rq\<lparr>lo_limit := Some (int limit + 1)\<rparr>)) as_page) allRunCatalogShardNames))
           (\<lambda>ps. Return (merge_pages (lo_reverse rq) limit (zip allRunCatalogShardNames ps))))"

section \<open>Hooks\<close>

definition getHookByToken :: "string \<Rightarrow> hook option client" where
  "getHookByToken token = ask (Token_Get (hookTokenShardName token) token) as_hook_answer"

definition getHookById :: "string \<Rightarrow> hook option client" where
  "getHookById hookId = ask (Id_Get (hookIdShardName hookId) hookId) as_hook_answer"

record hook_reservation =
  hv_claim :: string
  hv_token_claim :: "string option"
  hv_id_claim :: "string option"
  hv_takeover :: bool

datatype reservation_result =
    Admitted hook_reservation "claimed_from option"
  | Not_Admitted owner
  | Refused_Force owner
  | Refused_Pending owner

text \<open>The answer of the token shard in one shape: the claim with the origin of a takeover, or the
  refusal.\<close>

fun token_claim :: "owner \<Rightarrow> force_result \<Rightarrow> (string option \<times> claimed_from option) + reservation_result" where
  "token_claim who (Force_Claimed c from1) = Inl (Some c, from1)"
| "token_claim who (Force_Held o1) = (if o1 = who then Inl (None, None) else Inr (Not_Admitted o1))"
| "token_claim who (Force_Pending o1) = (if o1 = who then Inl (None, None) else Inr (Refused_Pending o1))"
| "token_claim who (Force_Refused o1) = (if o1 = who then Inl (None, None) else Inr (Refused_Force o1))"

definition plain_claim :: "claim_result \<Rightarrow> force_result" where
  "plain_claim r = (case r of Claimed c \<Rightarrow> Force_Claimed c None | Held o1 \<Rightarrow> Force_Held o1)"

definition releaseTokenClaim :: "string \<Rightarrow> owner \<Rightarrow> string option \<Rightarrow> bool \<Rightarrow> unit client" where
  "releaseTokenClaim token who tokenClaimId takeover =
     (if takeover then
        bindP (ask (Token_Settle (hookTokenShardName token) token (Some (who, tokenClaimId)) None) as_owner) (\<lambda>_. Return ())
      else case tokenClaimId of
        None \<Rightarrow> Return ()
      | Some c \<Rightarrow> if c = [] then Return () else ask (Token_Release (hookTokenShardName token) token who c) as_done)"

definition reserveHook :: "string \<Rightarrow> string \<Rightarrow> owner \<Rightarrow> bool option \<Rightarrow> reservation_result client" where
  "reserveHook proposed token who force =
     (let tokens = hookTokenShardName token; ids = hookIdShardName (own_hook who)
      in bindP (case force of
                  None \<Rightarrow> bindP (ask (Token_Reserve tokens token who proposed) as_claimed) (\<lambda>r. Return (plain_claim r))
                | Some preempt \<Rightarrow> ask (Token_Force tokens token who proposed preempt) as_forced) (\<lambda>claimed.
         case token_claim who claimed of
           Inr refused \<Rightarrow> Return refused
         | Inl (tokenClaimId, from1) \<Rightarrow>
             let takeover = (from1 \<noteq> None); shared = nullish tokenClaimId proposed
             in bindP (catchP (ask (Id_Reserve ids (own_hook who) who shared) as_claimed)
                  (\<lambda>e. bindP (settledP [releaseTokenClaim token who tokenClaimId takeover,
                                        ask (Id_Release ids (own_hook who) who shared) as_done]) (\<lambda>_. Throw e))) (\<lambda>r.
                case r of
                  Held o1 \<Rightarrow>
                    bindP (releaseTokenClaim token who tokenClaimId takeover) (\<lambda>_. Return (Not_Admitted o1))
                | Claimed idClaim \<Rightarrow>
                    Return (Admitted \<lparr>hv_claim = nullish tokenClaimId ''-'' @ '':'' @ idClaim,
                                      hv_token_claim = tokenClaimId, hv_id_claim = Some idClaim,
                                      hv_takeover = takeover\<rparr> from1))))"

definition completeHookTakeover :: "string \<Rightarrow> string \<Rightarrow> hook \<Rightarrow> owner \<Rightarrow> hook_reservation \<Rightarrow> unit client" where
  "completeHookTakeover token hookId h who reservation =
     bindP (ask (Token_Settle (hookTokenShardName token) token (Some (who, hv_token_claim reservation)) (Some h)) as_owner)
       (\<lambda>settled.
         if settled = Some who then
           bindP (ask (Id_Publish (hookIdShardName hookId) hookId h who (hv_id_claim reservation)) as_stored) (\<lambda>_. Return ())
         else if truthy (hv_id_claim reservation) then
           ask (Id_Release (hookIdShardName hookId) hookId who (the (hv_id_claim reservation))) as_done
         else Return ())"

definition settleHookTakeover :: "string \<Rightarrow> owner option \<Rightarrow> owner option client" where
  "settleHookTakeover token claimer =
     ask (Token_Settle (hookTokenShardName token) token (map_option (\<lambda>c. (c, None)) claimer) None) as_owner"

definition finalizeHookIndexes :: "string \<Rightarrow> string \<Rightarrow> hook \<Rightarrow> owner \<Rightarrow> hook_reservation option \<Rightarrow> unit client" where
  "finalizeHookIndexes token hookId h who reservation =
     bindP (ask (Token_Finalize (hookTokenShardName token) token h who (Option.bind reservation hv_token_claim)) as_stored)
       (\<lambda>stored.
         if \<not> stored then Return ()
         else bindP (ask (Id_Publish (hookIdShardName hookId) hookId h who (Option.bind reservation hv_id_claim)) as_stored)
                (\<lambda>_. Return ()))"

definition releaseHookReservation :: "string \<Rightarrow> owner \<Rightarrow> hook_reservation \<Rightarrow> unit client" where
  "releaseHookReservation token who reservation =
     bindP (allP
       ((if hv_takeover reservation \<or> truthy (hv_token_claim reservation)
         then [releaseTokenClaim token who (hv_token_claim reservation) (hv_takeover reservation)] else []) @
        (if truthy (hv_id_claim reservation)
         then [ask (Id_Release (hookIdShardName (own_hook who)) (own_hook who) who (the (hv_id_claim reservation))) as_done]
         else []))) (\<lambda>_. Return ())"

text \<open>A hook of a run to release: its token and its id.\<close>

definition releaseHooks :: "string \<Rightarrow> (string \<times> string) list \<Rightarrow> bool \<Rightarrow> nat client" where
  "releaseHooks runId hooks runEnded =
     bindP (allP
       (map (\<lambda>(name, group).
          inBatches (\<lambda>batch. ask (Token_Batch name batch runEnded) as_deleted)
            (map (\<lambda>(token, hookId). (token, \<lparr>own_run = runId, own_hook = hookId\<rparr>)) group))
          (groupByShard (\<lambda>h. hookTokenShardName (fst h)) hooks) @
        map (\<lambda>(name, group).
          inBatches (\<lambda>batch. ask (Id_Batch name batch) as_deleted)
            (map (\<lambda>(token, hookId). (hookId, \<lparr>own_run = runId, own_hook = hookId\<rparr>)) group))
          (groupByShard (\<lambda>h. hookIdShardName (snd h)) hooks))) (\<lambda>ns. Return (sum_list ns))"

definition indexExpireRun :: "string \<Rightarrow> int \<Rightarrow> (string \<times> string) list \<Rightarrow> nat client" where
  "indexExpireRun runId expiredAt hooks =
     bindP (allP [ask (Expire_Run (runCatalogShardName runId) runId expiredAt) as_deleted, releaseHooks runId hooks False])
       (\<lambda>ns. Return (sum_list ns))"

section \<open>Running a client\<close>

text \<open>\<open>against F p\<close>: every call is answered by \<open>F\<close>; \<open>issued as p\<close>: the calls made when the answers
  are \<open>as\<close>, and how it ended, if it did.\<close>

primrec against :: "('q \<Rightarrow> 'a) \<Rightarrow> ('e, 'q, 'a, unit, 'r) proc \<Rightarrow> 'e + 'r" where
  "against F (Return x) = Inr x"
| "against F (Throw e) = Inl e"
| "against F (Act g) = fst (map_prod (against F) id (g 0 ()))"
| "against F (Ask q k) = against F (k (F q))"

primrec issued :: "('e, 'q, 'a, unit, 'r) proc \<Rightarrow> 'a list \<Rightarrow> 'q list \<times> ('e + 'r) option" where
  "issued (Return x) = (\<lambda>as. ([], Some (Inr x)))"
| "issued (Throw e) = (\<lambda>as. ([], Some (Inl e)))"
| "issued (Act g) = (\<lambda>as. fst (map_prod issued id (g 0 ())) as)"
| "issued (Ask q k) = (\<lambda>as. case as of [] \<Rightarrow> ([q], None) | a # as' \<Rightarrow> (case issued (k a) as' of (qs, r) \<Rightarrow> (q # qs, r)))"

end
