(* ===== verification/IndexListing.thy ===== *)
theory IndexListing
  imports IndexClient JournalFacts "HOL-Library.Multiset"
begin

text \<open>
  The merged listing of the run catalog: the page the client makes out of a page of every shard is the
  page of all their entries together, and the next page begins where it ends.
\<close>

section \<open>Stable sorting and merging\<close>

locale comparator =
  fixes cmp :: "'a \<Rightarrow> 'a \<Rightarrow> int"
  assumes cmp_total: "cmp x y \<le> 0 \<or> cmp y x \<le> 0"
    and cmp_trans: "cmp x y \<le> 0 \<Longrightarrow> cmp y z \<le> 0 \<Longrightarrow> cmp x z \<le> 0"
begin

lemma cmp_refl [simp]: "cmp x x \<le> 0"
  using cmp_total [of x x] by simp

definition in_order :: "'a list \<Rightarrow> bool" where
  "in_order xs \<longleftrightarrow> sorted_wrt (\<lambda>x y. cmp x y \<le> 0) xs"

lemma in_order_simps [simp]:
  "in_order []" "in_order (x # xs) \<longleftrightarrow> (\<forall>y \<in> set xs. cmp x y \<le> 0) \<and> in_order xs"
  by (simp_all add: in_order_def)

fun merge_two :: "'a list \<Rightarrow> 'a list \<Rightarrow> 'a list" where
  "merge_two [] ys = ys"
| "merge_two xs [] = xs"
| "merge_two (x # xs) (y # ys) = (if cmp x y \<le> 0 then x # merge_two xs (y # ys) else y # merge_two (x # xs) ys)"

lemma merge_two_Nil [simp]: "merge_two xs [] = xs"
  by (cases xs) simp_all

lemma set_insert_by [simp]: "set (insert_by cmp x ys) = insert x (set ys)"
  by (induction ys) auto

lemma mset_insert_by [simp]: "mset (insert_by cmp x ys) = add_mset x (mset ys)"
  by (induction ys) auto

lemma in_order_insert: "in_order ys \<Longrightarrow> in_order (insert_by cmp x ys)"
proof (induction ys)
  case (Cons y ys)
  then show ?case using cmp_total [of x y] by (auto intro: cmp_trans)
qed simp

lemma toSorted_simps [simp]: "toSorted cmp [] = []" "toSorted cmp (x # xs) = insert_by cmp x (toSorted cmp xs)"
  by (simp_all add: toSorted_def)

lemma mset_toSorted [simp]: "mset (toSorted cmp xs) = mset xs"
  by (induction xs) simp_all

lemma set_toSorted [simp]: "set (toSorted cmp xs) = set xs"
  by (induction xs) simp_all

lemma length_toSorted [simp]: "length (toSorted cmp xs) = length xs"
  by (metis mset_toSorted size_mset)

lemma in_order_toSorted [simp]: "in_order (toSorted cmp xs)"
  by (induction xs) (auto simp: in_order_insert)

lemma insert_by_merge:
  "\<forall>z \<in> set xs. cmp x z \<le> 0 \<Longrightarrow> insert_by cmp x (merge_two xs ys) = merge_two (x # xs) ys"
proof (induction ys arbitrary: xs)
  case Nil
  then show ?case by (cases xs) auto
next
  case (Cons y ys)
  show ?case
  proof (cases "cmp x y \<le> 0")
    case True
    then show ?thesis using Cons.prems by (cases xs) auto
  next
    case False
    have "merge_two xs (y # ys) = y # merge_two xs ys"
    proof (cases xs)
      case (Cons z zs)
      have "\<not> cmp z y \<le> 0" using False Cons.prems cmp_trans by (auto simp: Cons)
      then show ?thesis by (simp add: Cons)
    qed simp
    then show ?thesis using Cons.IH [OF Cons.prems] False by simp
  qed
qed

lemma sort_append: "in_order xs \<Longrightarrow> toSorted cmp (xs @ ys) = merge_two xs (toSorted cmp ys)"
  by (induction xs) (simp_all add: insert_by_merge)

lemma sort_concat: "\<forall>xs \<in> set xss. in_order xs \<Longrightarrow> toSorted cmp (concat xss) = foldr merge_two xss []"
  by (induction xss) (simp_all add: sort_append)

lemma sort_id: "in_order xs \<Longrightarrow> toSorted cmp xs = xs"
  using sort_append [of xs "[]"] by simp

text \<open>The first \<open>n\<close> of a merge come from the first \<open>n\<close> of both.\<close>

lemma take_merge: "n \<le> i \<Longrightarrow> n \<le> j \<Longrightarrow> take n (merge_two (take i xs) (take j ys)) = take n (merge_two xs ys)"
proof (induction xs ys arbitrary: n i j rule: merge_two.induct)
  case (3 x xs y ys)
  show ?case
  proof (cases n)
    case (Suc m)
    obtain i' j' where ij: "i = Suc i'" "j = Suc j'" using 3(3,4) Suc by (cases i; cases j) auto
    show ?thesis
      using 3(1) [of m i' "Suc j'"] 3(2) [of m "Suc i'" j'] 3(3,4) by (simp add: Suc ij)
  qed simp
qed (simp_all add: min_def)

lemma take_merge_right: "take n (merge_two xs (take n ys)) = take n (merge_two xs ys)"
  using take_merge [of n "n + length xs" n xs ys] by simp

lemma take_merges:
  "n \<le> m \<Longrightarrow> take n (foldr merge_two (map (take m) xss) []) = take n (foldr merge_two xss [])"
proof (induction xss)
  case (Cons xs xss)
  let ?f = "\<lambda>xss. foldr merge_two xss []"
  have "take n (merge_two (take m xs) (?f (map (take m) xss)))
      = take n (merge_two (take m xs) (take n (?f (map (take m) xss))))"
    by (simp only: take_merge_right)
  also have "\<dots> = take n (merge_two (take m xs) (take n (?f xss)))" using Cons by simp
  also have "\<dots> = take n (merge_two xs (?f xss))"
    using take_merge [of n m n xs "?f xss"] Cons.prems by simp
  finally show ?case by simp
qed simp

lemma in_order_take: "in_order xs \<Longrightarrow> in_order (take n xs)"
  by (simp add: in_order_def sorted_wrt_take)

lemma insert_by_first: "\<forall>y \<in> set ys. cmp x y \<le> 0 \<Longrightarrow> insert_by cmp x ys = x # ys"
  by (cases ys) simp_all

lemma filter_insert_by:
  "in_order ys \<Longrightarrow> filter P (insert_by cmp x ys) = (if P x then insert_by cmp x (filter P ys) else filter P ys)"
proof (induction ys)
  case (Cons y ys)
  show ?case
  proof (cases "cmp x y \<le> 0")
    case True
    then have "\<forall>z \<in> set (filter P (y # ys)). cmp x z \<le> 0" using Cons.prems by (auto intro: cmp_trans)
    then show ?thesis using True by (simp add: insert_by_first)
  next
    case False
    then show ?thesis using Cons by simp
  qed
qed simp

lemma filter_toSorted: "filter P (toSorted cmp xs) = toSorted cmp (filter P xs)"
  by (induction xs) (simp_all add: filter_insert_by)

theorem take_sort_concat:
  assumes "\<forall>xs \<in> set xss. in_order xs" "n \<le> m"
  shows "take n (toSorted cmp (concat (map (take m) xss))) = take n (toSorted cmp (concat xss))"
proof -
  have "\<forall>xs \<in> set (map (take m) xss). in_order xs" using assms(1) by (auto intro: in_order_take)
  then show ?thesis using assms by (simp add: sort_concat take_merges)
qed

end

section \<open>The order of the listing\<close>

lemma compareBytes_Nil [simp]: "compareBytes as [] = int (length as)"
  by (cases as) simp_all

lemma compareBytes_less: "compareBytes a b < 0 \<longleftrightarrow> a < b"
proof (induction a arbitrary: b)
  case Nil
  then show ?case by (cases b) auto
next
  case (Cons c cs)
  have "(of_char c :: nat) = of_char d \<longleftrightarrow> c = d" for d by (simp add: of_char_eq_iff)
  then show ?case using Cons by (cases b) (auto simp: less_char_def)
qed

lemma compareBytes_swap: "compareBytes b a = - compareBytes a b"
  by (induction a b rule: compareBytes.induct) auto

lemma compareBytes_le: "compareBytes a b \<le> 0 \<longleftrightarrow> a \<le> b"
  using compareBytes_less [of b a] compareBytes_swap [of a b] by (auto simp: not_less [symmetric])

lemma by_name_le:
  "by_name backwards x y \<le> 0 \<longleftrightarrow> (if backwards then se_name y \<le> se_name x else se_name x \<le> se_name y)"
  using compareBytes_le [of "se_name y" "se_name x"] compareBytes_swap [of "se_name y" "se_name x"]
  by (simp add: by_name_def Let_def compareBytes_le)

interpretation names: comparator "by_name backwards" for backwards
  by unfold_locales (auto simp: by_name_le split: if_splits)

section \<open>A client and its answers\<close>

lemma against_bind: "against F (bindP p f) = (case against F p of Inl e \<Rightarrow> Inl e | Inr x \<Rightarrow> against F (f x))"
proof (induction p)
  case (Act g)
  then show ?case by (cases "g 0 ()") (simp, metis fst_conv)
qed simp_all

lemma against_catch: "against F (catchP p h) = (case against F p of Inl e \<Rightarrow> against F (h e) | Inr x \<Rightarrow> Inr x)"
proof (induction p)
  case (Act g)
  then show ?case by (cases "g 0 ()") (simp, metis fst_conv)
qed simp_all

lemma against_ask: "against F (ask q get) = (case get (F q) of None \<Rightarrow> Inl Call_Rejected | Some x \<Rightarrow> Inr x)"
  by (simp add: ask_def split: option.split)

lemma against_settled:
  "against F (settledP ps) = Inr (map (\<lambda>p. case against F p of Inl e \<Rightarrow> None | Inr x \<Rightarrow> Some x) ps)"
  by (induction ps) (simp_all add: against_bind against_catch split: sum.split)

lemma against_all:
  "against F (allP ps) =
     (if \<forall>p \<in> set ps. \<exists>x. against F p = Inr x then Inr (map (\<lambda>p. projr (against F p)) ps) else Inl Call_Rejected)"
proof -
  have "None \<in> set (map (\<lambda>p. case against F p of Inl e \<Rightarrow> None | Inr x \<Rightarrow> Some x) ps) \<longleftrightarrow>
      \<not> (\<forall>p \<in> set ps. \<exists>x. against F p = Inr x)"
    by (auto simp: image_iff split: sum.splits)
  moreover have "map (the \<circ> (\<lambda>p. case against F p of Inl e \<Rightarrow> None | Inr x \<Rightarrow> Some x)) ps = map (\<lambda>p. projr (against F p)) ps"
    if "\<forall>p \<in> set ps. \<exists>x. against F p = Inr x" using that by (auto split: sum.split)
  ultimately show ?thesis by (auto simp: allP_def against_bind against_settled simp del: set_map)
qed

section \<open>The whole listing\<close>

text \<open>The answers of a fleet of catalog shards, and what all of them hold together.\<close>

definition catalog_answers :: "(string \<Rightarrow> catalog) \<Rightarrow> index_call \<Rightarrow> index_answer" where
  "catalog_answers F q = (case q of List_Runs name rq \<Rightarrow> R_Page (catalogList rq (F name)) | _ \<Rightarrow> R_Failed)"

definition all_rows :: "list_options \<Rightarrow> catalog \<Rightarrow> (string \<times> cval) list" where
  "all_rows rq s = kv_list ((list_query rq 0)\<lparr>q_limit := None\<rparr>) (ct_kv s)"

definition tagged :: "string \<Rightarrow> (string \<times> 'v) list \<Rightarrow> 'v sharded_entry list" where
  "tagged shard rows = map (\<lambda>(k, v). \<lparr>se_name = k, se_value = v, se_shard = shard\<rparr>) rows"

definition whole_listing :: "list_options \<Rightarrow> (string \<Rightarrow> catalog) \<Rightarrow> cval sharded_entry list" where
  "whole_listing rq F = toSorted (by_name (lo_reverse rq))
     (concat (map (\<lambda>name. tagged name (all_rows rq (F name))) allRunCatalogShardNames))"

lemma list_rows: "kv_list (list_query rq n) s = take (n + 1) (kv_list ((list_query rq 0)\<lparr>q_limit := None\<rparr>) s)"
  by (simp add: kv_list_def list_query_def take_limit_def Let_def in_query_def prefix_query_def)

lemma index_page_take: "index_page n (take (n + 1) xs) = index_page n xs"
  by (cases "length xs \<le> n") (auto simp: index_page_def Let_def min_def)

lemma catalogList_rows:
  "catalogList rq s = index_page (clamp_limit max_index_list_size (lo_limit rq)) (all_rows rq s)"
  unfolding catalogList_def Let_def list_rows index_page_take by (simp add: all_rows_def)

lemma run_list_limit_bounds: "1 \<le> run_list_limit rq" "run_list_limit rq \<le> 1000"
  by (auto simp: run_list_limit_def clamp_limit_def)

lemma client_limit:
  "clamp_limit max_index_list_size (Some (int (run_list_limit rq) + 1)) = Suc (run_list_limit rq)"
  using run_list_limit_bounds [of rq] by (simp add: clamp_limit_def max_index_list_size_def nullish_def min_def max_def nat_add_distrib)

lemma all_rows_limit [simp]: "all_rows (rq\<lparr>lo_limit := n\<rparr>) s = all_rows rq s"
  by (cases "lo_reverse rq"; cases "lo_cursor rq") (simp_all add: all_rows_def list_query_def)

lemma rows_in_order:
  assumes "kv_wf (ct_kv s)"
  shows "names.in_order (lo_reverse rq) (tagged shard (all_rows rq s))"
proof -
  have "sorted_wrt (<) (map fst (filter P (ct_kv s)))" for P using kv_wf_filter [OF assms] by (simp add: kv_wf_def)
  then have "sorted_wrt (\<lambda>x y. fst x < fst y) (filter P (ct_kv s))" for P by (simp add: sorted_wrt_map)
  then have srt: "sorted_wrt (\<lambda>x y. fst x \<le> fst y) (filter P (ct_kv s))" for P
    by (rule sorted_wrt_mono_rel [rotated]) auto
  show ?thesis
    using srt
    by (auto simp: names.in_order_def tagged_def all_rows_def kv_list_def take_limit_def Let_def list_query_def
        sorted_wrt_map by_name_le split_def sorted_wrt_rev)
qed

text \<open>The page of all shards together.\<close>

lemma listRuns_page:
  fixes rq F
  assumes "\<And>name. name \<in> set allRunCatalogShardNames \<Longrightarrow> kv_wf (ct_kv (F name))"
  defines "l \<equiv> run_list_limit rq" and "W \<equiv> whole_listing rq F"
  shows "against (catalog_answers F) (listRuns rq) =
     Inr (take l W, length W \<le> l, if length W \<le> l then None else Some (se_name (last (take l W))))"
proof -
  let ?names = allRunCatalogShardNames and ?rows = "\<lambda>name. all_rows rq (F name)"
  let ?pages = "map (\<lambda>name. index_page (l + 1) (?rows name)) ?names"
  have page: "against (catalog_answers F) (ask (List_Runs name (rq\<lparr>lo_limit := Some (int l + 1)\<rparr>)) as_page)
      = Inr (index_page (l + 1) (?rows name))" for name
    by (simp add: against_ask catalog_answers_def catalogList_rows client_limit l_def)
  have pages: "against (catalog_answers F)
      (allP (map (\<lambda>name. ask (List_Runs name (rq\<lparr>lo_limit := Some (int l + 1)\<rparr>)) as_page) ?names)) = Inr ?pages"
    by (simp add: against_all page)
  have zip: "zip ?names ?pages = map (\<lambda>name. (name, index_page (l + 1) (?rows name))) ?names"
    by (simp add: zip_map2 zip_same_conv_map)
  let ?tag = "\<lambda>name. tagged name (?rows name)"
  let ?cands = "toSorted (by_name (lo_reverse rq)) (concat (map (take (l + 1)) (map ?tag ?names)))"
  have cands: "concat (map (\<lambda>(shard, p). map (\<lambda>(k, v). \<lparr>se_name = k, se_value = v, se_shard = shard\<rparr>) (ip_keys p))
      (zip ?names ?pages)) = concat (map (take (l + 1)) (map ?tag ?names))"
    unfolding zip by (simp add: comp_def tagged_def take_map index_page_def Let_def split_def)
  have flags: "list_all (\<lambda>(_, p). ip_complete p) (zip ?names ?pages) \<longleftrightarrow> (\<forall>name \<in> set ?names. length (?rows name) \<le> l + 1)"
    unfolding zip by (simp add: list_all_iff index_page_def Let_def)
  have ordered: "\<forall>xs \<in> set (map ?tag ?names). names.in_order (lo_reverse rq) xs"
    using assms(1) rows_in_order by auto
  have W: "W = toSorted (by_name (lo_reverse rq)) (concat (map ?tag ?names))"
    by (simp add: W_def whole_listing_def)
  have take: "take l ?cands = take l W"
    unfolding W by (rule names.take_sort_concat [OF ordered]) simp
  have complete: "length ?cands \<le> l \<and> list_all (\<lambda>(_, p). ip_complete p) (zip ?names ?pages) \<longleftrightarrow> length W \<le> l"
  proof
    assume a: "length ?cands \<le> l \<and> list_all (\<lambda>(_, p). ip_complete p) (zip ?names ?pages)"
    then have "length (?rows name) \<le> l + 1" if "name \<in> set ?names" for name
      using that unfolding flags by blast
    then have eq: "map (take (l + 1)) (map ?tag ?names) = map ?tag ?names" by (simp add: tagged_def)
    show "length W \<le> l" using a unfolding W eq by blast
  next
    assume len: "length W \<le> l"
    have small: "length (?rows name) \<le> l" if "name \<in> set ?names" for name
    proof -
      have "length (?tag name) \<le> sum_list (map length (map ?tag ?names))"
        using that by (intro member_le_sum_list) auto
      then show ?thesis using len by (simp add: W length_concat tagged_def comp_def)
    qed
    then have eq: "map (take (l + 1)) (map ?tag ?names) = map ?tag ?names" by (auto simp: tagged_def le_SucI)
    show "length ?cands \<le> l \<and> list_all (\<lambda>(_, p). ip_complete p) (zip ?names ?pages)"
      unfolding flags eq using len small unfolding W by (simp add: le_SucI)
  qed
  have "take l W = [] \<Longrightarrow> length W \<le> l" using run_list_limit_bounds(1) [of rq] by (cases W; cases l) (auto simp: l_def)
  then show ?thesis
    unfolding listRuns_def Let_def l_def [symmetric] against_bind pages sum.case against.simps merge_pages_def cands take complete
    by auto
qed

section \<open>The next page\<close>

definition beyond :: "list_options \<Rightarrow> string \<Rightarrow> string \<Rightarrow> bool" where
  "beyond rq c k \<longleftrightarrow> (if lo_reverse rq then k < c else c < k)"

lemma all_rows_beyond:
  assumes "\<And>c'. lo_cursor rq = Some c' \<Longrightarrow> beyond rq c' c" "\<And>b. lo_reverse rq \<Longrightarrow> lo_cursor rq = None \<Longrightarrow> lo_end rq = Some b \<Longrightarrow> c < b"
  shows "all_rows (rq\<lparr>lo_cursor := Some c\<rparr>) s = filter (\<lambda>(k, v). beyond rq c k) (all_rows rq s)"
proof -
  let ?q = "\<lambda>rq. (list_query rq 0)\<lparr>q_limit := None\<rparr>"
  have q: "in_query (?q (rq\<lparr>lo_cursor := Some c\<rparr>)) k \<longleftrightarrow> in_query (?q rq) k \<and> beyond rq c k" for k
    using assms
    by (cases "lo_reverse rq"; cases "lo_cursor rq"; cases "lo_end rq")
      (auto simp: in_query_def list_query_def prefix_query_def beyond_def)
  have f: "filter (\<lambda>(k, v). in_query (?q (rq\<lparr>lo_cursor := Some c\<rparr>)) k) s =
      filter (\<lambda>(k, v). beyond rq c k) (filter (\<lambda>(k, v). in_query (?q rq) k) s)" for s :: "cval kv"
    by (rule trans [OF _ filter_filter [symmetric]], rule filter_cong) (auto simp: q)
  have r: "q_reverse (?q rq') = lo_reverse rq'" "q_limit (?q rq') = None" for rq'
    by (simp_all add: list_query_def)
  show ?thesis
    unfolding all_rows_def kv_list_def Let_def r take_limit_def by (simp add: f rev_filter)
qed

lemma tagged_filter: "tagged name (filter (\<lambda>(k, v). P k) rows) = filter (\<lambda>e. P (se_name e)) (tagged name rows)"
  by (induction rows) (auto simp: tagged_def)

lemma whole_listing_beyond:
  assumes "\<And>c'. lo_cursor rq = Some c' \<Longrightarrow> beyond rq c' c" "\<And>b. lo_reverse rq \<Longrightarrow> lo_cursor rq = None \<Longrightarrow> lo_end rq = Some b \<Longrightarrow> c < b"
  shows "whole_listing (rq\<lparr>lo_cursor := Some c\<rparr>) F = filter (\<lambda>e. beyond rq c (se_name e)) (whole_listing rq F)"
  by (simp add: whole_listing_def names.filter_toSorted filter_concat comp_def all_rows_beyond [OF assms] tagged_filter)

lemma whole_listing_limit [simp]: "whole_listing (rq\<lparr>lo_limit := n\<rparr>) F = whole_listing rq F"
  by (simp add: whole_listing_def)

lemma whole_listing_mem:
  "e \<in> set (whole_listing rq F) \<Longrightarrow> in_query ((list_query rq 0)\<lparr>q_limit := None\<rparr>) (se_name e)"
  by (auto simp: whole_listing_def tagged_def all_rows_def dest: kv_list_in_query)

text \<open>What lies beyond the last key of a page is the rest of the listing.\<close>

lemma filter_beyond_drop:
  assumes "sorted_wrt (\<lambda>x y. P (f x) (f y)) xs" "0 < n" "n \<le> length xs"
    and "\<And>x y. P x y \<Longrightarrow> \<not> P y x" "\<And>x. \<not> P x x"
  shows "filter (\<lambda>y. P (f (xs ! (n - 1))) (f y)) xs = drop n xs"
proof -
  let ?x = "xs ! (n - 1)"
  have "\<not> P (f ?x) (f y)" if "y \<in> set (take n xs)" for y
  proof -
    obtain i where "i < length (take n xs)" "take n xs ! i = y" using \<open>y \<in> set (take n xs)\<close> by (metis in_set_conv_nth)
    then have i: "i < n" "y = xs ! i" by auto
    show ?thesis
    proof (cases "i = n - 1")
      case False
      then have "P (f (xs ! i)) (f ?x)" using sorted_wrt_nth_less [OF assms(1), of i "n - 1"] i assms(2,3) by simp
      then show ?thesis using assms(4) i by blast
    qed (use assms(5) i in auto)
  qed
  moreover have "P (f ?x) (f y)" if "y \<in> set (drop n xs)" for y
  proof -
    obtain i where "i < length (drop n xs)" "drop n xs ! i = y" using \<open>y \<in> set (drop n xs)\<close> by (metis in_set_conv_nth)
    then have i: "n \<le> n + i" "n + i < length xs" "y = xs ! (n + i)" by auto
    then show ?thesis using sorted_wrt_nth_less [OF assms(1), of "n - 1" "n + i"] assms(2) by simp
  qed
  ultimately have "filter (\<lambda>y. P (f ?x) (f y)) (take n xs @ drop n xs) = drop n xs"
    unfolding filter_append by (simp add: filter_empty_conv filter_id_conv)
  then show ?thesis by simp
qed

lemma whole_listing_strict:
  assumes "distinct (map se_name (whole_listing rq F))"
  shows "sorted_wrt (\<lambda>x y. beyond rq (se_name x) (se_name y)) (whole_listing rq F)"
proof -
  have "sorted_wrt (\<lambda>x y. by_name (lo_reverse rq) x y \<le> 0) (whole_listing rq F)"
    using names.in_order_toSorted by (simp add: whole_listing_def names.in_order_def)
  moreover have "sorted_wrt (\<lambda>x y. se_name x \<noteq> se_name y) (whole_listing rq F)"
    using assms by (auto simp: sorted_wrt_iff_nth_less distinct_conv_nth)
  ultimately have "sorted_wrt (\<lambda>x y. by_name (lo_reverse rq) x y \<le> 0 \<and> se_name x \<noteq> se_name y) (whole_listing rq F)"
    by (simp add: sorted_wrt_iff_nth_less)
  then show ?thesis by (rule sorted_wrt_mono_rel [rotated]) (auto simp: by_name_le beyond_def less_le split: if_splits)
qed

lemma next_page:
  assumes "distinct (map se_name (whole_listing rq F))" "0 < n" "n \<le> length (whole_listing rq F)"
    and c: "c = se_name (whole_listing rq F ! (n - 1))"
  shows "whole_listing (rq\<lparr>lo_cursor := Some c\<rparr>) F = drop n (whole_listing rq F)"
proof -
  have "whole_listing rq F ! (n - 1) \<in> set (whole_listing rq F)" using assms(2,3) by simp
  then have q: "in_query ((list_query rq 0)\<lparr>q_limit := None\<rparr>) c" unfolding c by (rule whole_listing_mem)
  have "whole_listing (rq\<lparr>lo_cursor := Some c\<rparr>) F = filter (\<lambda>e. beyond rq c (se_name e)) (whole_listing rq F)"
    by (rule whole_listing_beyond) (use q in \<open>auto simp: in_query_def list_query_def prefix_query_def beyond_def split: if_splits option.splits\<close>)
  also have "\<dots> = drop n (whole_listing rq F)"
    unfolding c
    by (rule filter_beyond_drop [where P = "beyond rq" and f = se_name, OF whole_listing_strict [OF assms(1)] assms(2,3)]) (auto simp: beyond_def split: if_splits)
  finally show ?thesis .
qed

end
