(* ===== verification/RunList.thy ===== *)
theory RunList
  imports IndexListing
begin

text \<open>
  Listing runs (\<open>src/run-list.ts\<close>): pages of the index, whose rows may be stale, are read until the
  requested page of authoritative runs is full.
\<close>

section \<open>Requests\<close>

definition run_list_concurrency :: nat where "run_list_concurrency = 8"
definition max_run_list_limit :: nat where "max_run_list_limit = 1000"

record run_list_request =
  rl_workflow :: "string option"
  rl_statuses :: "run_status list option"
  rl_limit :: nat
  rl_cursor :: "string option"
  rl_descending :: bool
  rl_strip :: bool

record run_list_page =
  rp_data :: "wf_run list"
  rp_cursor :: "string option"
  rp_more :: bool

datatype list_exn = Listing_Failed | Bad_Metadata | Rounds_Over

definition indexStatusExcludes :: "world_api \<Rightarrow> run_status \<Rightarrow> run_status option \<Rightarrow> bool" where
  "indexStatusExcludes W indexed requested =
     (if requested = None \<or> Some indexed = requested then False
      else terminal_run W indexed \<or> requested = Some Pending)"

definition stripRunData :: "wf_run \<Rightarrow> wf_run" where
  "stripRunData r = r\<lparr>run_input := None, run_output := None\<rparr>"

section \<open>The scan\<close>

text \<open>The candidates of an index page, with the run their metadata names.\<close>

fun candidates :: "world_api \<Rightarrow> run_status list option \<Rightarrow> cval sharded_entry list \<Rightarrow> list_exn + (string \<times> string) list" where
  "candidates W statuses [] = Inr []"
| "candidates W statuses (e # es) =
     (case as_meta (se_value e) of
        None \<Rightarrow> Inl Bad_Metadata
      | Some m \<Rightarrow> bindE (candidates W statuses es) (\<lambda>cs.
          if (case statuses of None \<Rightarrow> False | Some ss \<Rightarrow> list_all (\<lambda>s. indexStatusExcludes W (rm_status m) (Some s)) ss)
          then Inr cs else Inr ((se_name e, rm_run m) # cs)))"

definition hit :: "(string \<Rightarrow> wf_run option) \<Rightarrow> run_status list option \<Rightarrow> string \<times> string \<Rightarrow> (string \<times> wf_run) option" where
  "hit readRun statuses c =
     (case readRun (snd c) of
        None \<Rightarrow> None
      | Some r \<Rightarrow> if (case statuses of None \<Rightarrow> True | Some ss \<Rightarrow> run_state r \<in> set ss) then Some (fst c, r) else None)"

function resolve ::
    "(string \<Rightarrow> wf_run option) \<Rightarrow> run_status list option \<Rightarrow> nat \<Rightarrow> (string \<times> wf_run) list \<Rightarrow> (string \<times> string) list
      \<Rightarrow> (string \<times> wf_run) list" where
  "resolve readRun statuses limit matches cs =
     (if cs = [] \<or> limit < length matches then matches
      else let batch = min run_list_concurrency (limit + 1 - length matches)
           in resolve readRun statuses limit
                (matches @ List.map_filter (hit readRun statuses) (take batch cs)) (drop batch cs))"
  by auto
termination by (relation "measure (\<lambda>(_, _, _, _, cs). length cs)") (auto simp: run_list_concurrency_def)

declare resolve.simps [simp del]

definition scan_options :: "run_list_request \<Rightarrow> string option \<Rightarrow> list_options" where
  "scan_options rq scanCursor =
     \<lparr>lo_prefix = Some (if truthy (rl_workflow rq) then ''run:'' @ the (rl_workflow rq) @ '':'' else ''runall:''),
      lo_cursor = scanCursor, lo_end = None,
      lo_limit = Some (int (min max_run_list_limit (max 50 (rl_limit rq)))), lo_reverse = rl_descending rq\<rparr>"

text \<open>The loop over index pages; \<open>listed\<close> is the index, \<open>readRun\<close> the run cells.\<close>

fun scan ::
    "nat \<Rightarrow> world_api \<Rightarrow> (list_options \<Rightarrow> index_exn + cval sharded_entry list \<times> bool \<times> string option) \<Rightarrow>
     (string \<Rightarrow> wf_run option) \<Rightarrow> run_list_request \<Rightarrow> (string \<times> wf_run) list \<Rightarrow> string option
      \<Rightarrow> list_exn + (string \<times> wf_run) list" where
  "scan 0 W listed readRun rq matches scanCursor = Inl Rounds_Over"
| "scan (Suc n) W listed readRun rq matches scanCursor =
     (if rl_limit rq < length matches then Inr matches
      else case listed (scan_options rq scanCursor) of
        Inl _ \<Rightarrow> Inl Listing_Failed
      | Inr (page, complete, next) \<Rightarrow>
          if page = [] then Inr matches
          else bindE (candidates W (rl_statuses rq) page) (\<lambda>cs.
            let matches' = resolve readRun (rl_statuses rq) (rl_limit rq) matches cs
            in if complete then Inr matches'
               else scan n W listed readRun rq matches' (case next of Some c \<Rightarrow> Some c | None \<Rightarrow> Some (se_name (last page)))))"

definition listRunsPage ::
    "nat \<Rightarrow> world_api \<Rightarrow> (list_options \<Rightarrow> index_exn + cval sharded_entry list \<times> bool \<times> string option) \<Rightarrow>
     (string \<Rightarrow> wf_run option) \<Rightarrow> run_list_request \<Rightarrow> list_exn + run_list_page" where
  "listRunsPage rounds W listed readRun rq =
     bindE (scan rounds W listed readRun rq [] (rl_cursor rq)) (\<lambda>matches.
       let page = take (rl_limit rq) matches; hasMore = rl_limit rq < length matches
       in Inr \<lparr>rp_data = map (\<lambda>(k, r). if rl_strip rq then stripRunData r else r) page,
               rp_cursor = (if hasMore then (if page = [] then None else Some (fst (last page))) else None),
               rp_more = hasMore\<rparr>)"

section \<open>What is found\<close>

definition match_of ::
    "(string \<Rightarrow> wf_run option) \<Rightarrow> run_status list option \<Rightarrow> cval sharded_entry \<Rightarrow> (string \<times> wf_run) option" where
  "match_of readRun statuses e =
     (case as_meta (se_value e) of None \<Rightarrow> None | Some m \<Rightarrow> hit readRun statuses (se_name e, rm_run m))"

text \<open>A row is at most stale: its run has moved on from the status it names.\<close>

definition row_stale :: "(string \<Rightarrow> wf_run option) \<Rightarrow> cval sharded_entry \<Rightarrow> bool" where
  "row_stale readRun e \<longleftrightarrow> (\<exists>m. as_meta (se_value e) = Some m \<and>
     (\<forall>r. readRun (rm_run m) = Some r \<longrightarrow> run_moves (rm_status m) (run_state r)))"

lemma excluded_status:
  assumes "terminal_specs W" "run_moves indexed actual" "indexStatusExcludes W indexed (Some requested)"
  shows "actual \<noteq> requested"
  using assms by (cases indexed; cases actual) (auto simp: indexStatusExcludes_def terminal_specs_def split: if_splits)

lemma candidates_found:
  assumes "terminal_specs W" "\<forall>e \<in> set es. row_stale readRun e"
  shows "\<exists>cs. candidates W statuses es = Inr cs \<and>
     List.map_filter (hit readRun statuses) cs = List.map_filter (match_of readRun statuses) es"
  using assms(2)
proof (induction es)
  case (Cons e es)
  then obtain cs m where cs: "candidates W statuses es = Inr cs"
      "List.map_filter (hit readRun statuses) cs = List.map_filter (match_of readRun statuses) es"
    and m: "as_meta (se_value e) = Some m" "\<forall>r. readRun (rm_run m) = Some r \<longrightarrow> run_moves (rm_status m) (run_state r)"
    by (auto simp: row_stale_def)
  show ?case
  proof (cases "case statuses of None \<Rightarrow> False | Some ss \<Rightarrow> list_all (\<lambda>s. indexStatusExcludes W (rm_status m) (Some s)) ss")
    case True
    then obtain ss where ss: "statuses = Some ss" "list_all (\<lambda>s. indexStatusExcludes W (rm_status m) (Some s)) ss"
      by (cases statuses) auto
    have "run_state r \<notin> set ss" if "readRun (rm_run m) = Some r" for r
      using excluded_status [OF assms(1)] m(2) that ss(2) by (fastforce simp: list_all_iff)
    then have "match_of readRun statuses e = None"
      by (auto simp: match_of_def m hit_def ss(1) split: option.split)
    then show ?thesis using cs m True by (simp add: bindE_def List.map_filter_simps)
  next
    case False
    have "match_of readRun statuses e = hit readRun statuses (se_name e, rm_run m)" by (simp add: match_of_def m)
    then show ?thesis using cs m False
      by (cases "hit readRun statuses (se_name e, rm_run m)") (auto simp: bindE_def List.map_filter_simps)
  qed
qed (simp add: List.map_filter_simps)

lemma map_filter_append: "List.map_filter f (xs @ ys) = List.map_filter f xs @ List.map_filter f ys"
  by (simp add: List.map_filter_def)

lemma length_map_filter: "length (List.map_filter f xs) \<le> length xs"
  by (simp add: List.map_filter_def)

lemma resolve_found:
  assumes "length matches \<le> limit + 1"
  shows "resolve readRun statuses limit matches cs =
     take (limit + 1) (matches @ List.map_filter (hit readRun statuses) cs)"
  using assms
proof (induction readRun statuses limit matches cs rule: resolve.induct)
  case (1 readRun statuses limit matches cs)
  show ?case
  proof (cases "cs = [] \<or> limit < length matches")
    case True
    then show ?thesis using 1(2) by (auto simp: resolve.simps [of readRun] List.map_filter_simps)
  next
    case False
    let ?b = "min run_list_concurrency (limit + 1 - length matches)"
    let ?f = "List.map_filter (hit readRun statuses)"
    have "length (?f (take ?b cs)) \<le> limit + 1 - length matches"
      by (rule order_trans [OF length_map_filter]) simp
    then have "resolve readRun statuses limit (matches @ ?f (take ?b cs)) (drop ?b cs)
        = take (limit + 1) ((matches @ ?f (take ?b cs)) @ ?f (drop ?b cs))"
      using 1(1) [OF False refl] 1(2) by simp
    moreover have "?f (take ?b cs) @ ?f (drop ?b cs) = ?f cs"
      by (simp add: map_filter_append [symmetric])
    ultimately show ?thesis using False by (simp add: resolve.simps [of readRun] Let_def del: take_append)
  qed
qed

section \<open>The page that is returned\<close>

definition sound_index :: "(string \<Rightarrow> catalog) \<Rightarrow> (string \<Rightarrow> wf_run option) \<Rightarrow> list_options \<Rightarrow> bool" where
  "sound_index F readRun rq \<longleftrightarrow>
     (\<forall>name \<in> set allRunCatalogShardNames. kv_wf (ct_kv (F name))) \<and>
     distinct (map se_name (whole_listing rq F)) \<and>
     (\<forall>e \<in> set (whole_listing rq F). row_stale readRun e)"

lemma scan_limit: "run_list_limit (scan_options rq c) = min max_run_list_limit (max 50 (rl_limit rq))"
  by (simp add: run_list_limit_def scan_options_def clamp_limit_def nullish_def max_run_list_limit_def min_def max_def)

lemma scan_cursor: "scan_options rq (Some c) = (scan_options rq c0)\<lparr>lo_cursor := Some c\<rparr>"
  by (simp add: scan_options_def)

lemma last_take: "0 < n \<Longrightarrow> n \<le> length xs \<Longrightarrow> last (take n xs) = xs ! (n - 1)"
  by (subst last_conv_nth) auto

lemma scan_found:
  assumes "terminal_specs W"
  shows "sound_index F readRun (scan_options rq c) \<Longrightarrow> length (whole_listing (scan_options rq c) F) < rounds \<Longrightarrow>
     length matches \<le> rl_limit rq + 1 \<Longrightarrow>
     scan rounds W (\<lambda>o1. against (catalog_answers F) (listRuns o1)) readRun rq matches c =
       Inr (take (rl_limit rq + 1) (matches @
         List.map_filter (match_of readRun (rl_statuses rq)) (whole_listing (scan_options rq c) F)))"
proof (induction rounds arbitrary: matches c)
  case (Suc n)
  let ?L = "rl_limit rq" and ?V = "whole_listing (scan_options rq c) F"
  let ?l = "min max_run_list_limit (max 50 ?L)" and ?f = "List.map_filter (match_of readRun (rl_statuses rq))"
  let ?R = "resolve readRun (rl_statuses rq) ?L matches"
  show ?case
  proof (cases "?L < length matches")
    case True
    then show ?thesis using Suc.prems(3) by simp
  next
    case False
    have l: "0 < ?l" by (simp add: max_run_list_limit_def)
    have page: "against (catalog_answers F) (listRuns (scan_options rq c)) =
        Inr (take ?l ?V, length ?V \<le> ?l, if length ?V \<le> ?l then None else Some (se_name (last (take ?l ?V))))"
      using listRuns_page [of F "scan_options rq c"] Suc.prems(1) unfolding scan_limit sound_index_def by blast
    have "\<forall>e \<in> set (take ?l ?V). row_stale readRun e" using Suc.prems(1) by (auto simp: sound_index_def dest: in_set_takeD)
    then obtain cs where cs: "candidates W (rl_statuses rq) (take ?l ?V) = Inr cs"
        "List.map_filter (hit readRun (rl_statuses rq)) cs = ?f (take ?l ?V)"
      using candidates_found [OF assms] by blast
    have res: "?R cs = take (?L + 1) (matches @ ?f (take ?l ?V))" using resolve_found [OF Suc.prems(3)] cs(2) by simp
    show ?thesis
    proof (cases "length ?V \<le> ?l")
      case True
      then show ?thesis using False page cs(1) res Suc.prems(3) by (auto simp: bindE_def List.map_filter_simps)
    next
      case more_rows: False
      have ne: "take ?l ?V \<noteq> []" using more_rows l by auto
      let ?c = "se_name (last (take ?l ?V))"
      have c: "?c = se_name (?V ! (?l - 1))" using last_take [OF l, of ?V] more_rows by (simp only: linorder_not_le less_imp_le)
      have rest: "whole_listing (scan_options rq (Some ?c)) F = drop ?l ?V"
        unfolding scan_cursor [of rq _ c] using next_page [OF _ l _ c] Suc.prems(1) more_rows by (simp add: sound_index_def)
      have sound: "sound_index F readRun (scan_options rq (Some ?c))"
        using Suc.prems(1) unfolding sound_index_def rest by (auto simp: drop_map [symmetric] dest: in_set_dropD)
      have short: "length (whole_listing (scan_options rq (Some ?c)) F) < n"
        unfolding rest length_drop using Suc.prems(2) l more_rows by linarith
      have "length (?R cs) \<le> ?L + 1" unfolding res by simp
      from Suc.IH [OF sound short this]
      have "scan n W (\<lambda>o1. against (catalog_answers F) (listRuns o1)) readRun rq (?R cs) (Some ?c) =
          Inr (take (?L + 1) (?R cs @ ?f (drop ?l ?V)))" unfolding rest .
      also have "take (?L + 1) (?R cs @ ?f (drop ?l ?V)) = take (?L + 1) (matches @ ?f ?V)"
      proof -
        have "?f ?V = ?f (take ?l ?V) @ ?f (drop ?l ?V)" by (simp add: map_filter_append [symmetric])
        moreover have "take k (take k xs @ ys) = take k (xs @ ys)" for k and xs ys :: "(string \<times> wf_run) list"
          by (cases "k \<le> length xs") simp_all
        ultimately show ?thesis unfolding res by (simp only: append_assoc [symmetric])
      qed
      finally have more: "scan n W (\<lambda>o1. against (catalog_answers F) (listRuns o1)) readRun rq (?R cs) (Some ?c) =
          Inr (take (?L + 1) (matches @ ?f ?V))" .
      show ?thesis
        unfolding scan.simps(2) page sum.case prod.case if_not_P [OF False] if_not_P [OF ne] cs(1) bindE_def Let_def
          if_not_P [OF more_rows] option.case more by (simp add: more_rows)
    qed
  qed
qed simp

text \<open>The runs a request is about, in index order, each with the key of its row.\<close>

definition runs_found :: "(string \<Rightarrow> catalog) \<Rightarrow> (string \<Rightarrow> wf_run option) \<Rightarrow> run_list_request \<Rightarrow> (string \<times> wf_run) list" where
  "runs_found F readRun rq =
     List.map_filter (match_of readRun (rl_statuses rq)) (whole_listing (scan_options rq (rl_cursor rq)) F)"

lemma listRunsPage_found:
  assumes "terminal_specs W" and "sound_index F readRun (scan_options rq (rl_cursor rq))"
    and "length (whole_listing (scan_options rq (rl_cursor rq)) F) < rounds"
  shows "listRunsPage rounds W (\<lambda>o1. against (catalog_answers F) (listRuns o1)) readRun rq =
     Inr \<lparr>rp_data = map (\<lambda>(k, r). if rl_strip rq then stripRunData r else r) (take (rl_limit rq) (runs_found F readRun rq)),
          rp_cursor = (if rl_limit rq < length (runs_found F readRun rq) \<and> 0 < rl_limit rq
                       then Some (fst (runs_found F readRun rq ! (rl_limit rq - 1))) else None),
          rp_more = rl_limit rq < length (runs_found F readRun rq)\<rparr>"
proof -
  let ?L = "rl_limit rq"
  have "scan rounds W (\<lambda>o1. against (catalog_answers F) (listRuns o1)) readRun rq [] (rl_cursor rq)
      = Inr (take (?L + 1) (runs_found F readRun rq))"
    using scan_found [OF assms, of "[]"] by (simp add: runs_found_def)
  moreover have "take ?L (take (?L + 1) xs) = take ?L xs" "?L < length (take (?L + 1) xs) \<longleftrightarrow> ?L < length xs"
    for xs :: "(string \<times> wf_run) list" by auto
  moreover have "?L < length xs \<Longrightarrow> (take ?L xs = []) \<longleftrightarrow> ?L = 0" for xs :: "(string \<times> wf_run) list" by auto
  ultimately show ?thesis
    unfolding listRunsPage_def bindE_def Let_def using last_take [of ?L "runs_found F readRun rq"] by auto
qed

end
