(* ===== verification/IndexProperties.thy ===== *)
theory IndexProperties
  imports RunList
begin

section \<open>The catalog of runs\<close>

text \<open>C38: Once a catalog shard has removed the rows of a run, no publication that was issued before the
  removal (a publication lives for at most \<open>max_run_index_publication_lifetime_ms\<close>) is stored again,
  whatever requests and alarms the shard serves in between; it changes nothing.\<close>

theorem expired_run_stays_expired:
  assumes "catalog_step\<^sup>*\<^sup>* \<lparr>cy_clock = t0, cy_cell = empty_catalog\<rparr> y" "0 \<le> t0"
    and "cy_clock y \<le> now" "get_keys (catalogKeysKey runId) (cy_cell y) \<noteq> None"
    and "expireRun runId expiredAt now (cy_cell y) = Inr (n, s)"
    and "catalog_step\<^sup>*\<^sup>* \<lparr>cy_clock = now, cy_cell = s\<rparr> z" "cy_clock z \<le> later" "catalog_time later"
    and "publicationExpiresAt \<le> now + max_run_index_publication_lifetime_ms"
    and "upsertRun runId keys meta publicationExpiresAt later (cy_cell z) = Inr (stored, s')"
  shows "\<not> stored \<and> s' = cy_cell z"
proof -
  let ?T = "now + catalog_fence_grace_ms"
  have grace: "0 \<le> catalog_fence_grace_ms" "max_run_index_publication_lifetime_ms = catalog_fence_grace_ms"
    by (simp_all add: bound_defs)
  have clocks: "t0 \<le> cy_clock y" "now \<le> cy_clock z"
    using catalog_run_clock [OF assms(1)] catalog_run_clock [OF assms(6)] by simp_all
  then have time: "catalog_time (cy_clock y)" "catalog_time (cy_clock z)" "catalog_time now"
    using assms(3,7,8) by (auto simp: catalog_time_def)
  have ok: "gc_ok (cy_cell y)" using gc_ok_run [OF assms(1)] assms(2) time gc_ok_empty by simp
  have "get_fence (expiredKey runId) (cy_cell y) = None"
    using unfenced_run [OF assms(1)] assms(4) unfolding unfenced_def [of "cy_cell y"] by simp
  then obtain f where "get_fence (expiredKey runId) s = Some f" "fe_compact_at f = ?T"
    using expire_fences [OF assms(5,4)] by blast
  moreover have "gc_ok s"
    using expire_gc_ok [OF ok assms(5)] clocks assms(2,3) time(3) by (simp add: catalog_time_def)
  ultimately have "fenced runId ?T \<lparr>cy_clock = now, cy_cell = s\<rparr>" by (simp add: fenced_def)
  then have "fenced runId ?T z" by (rule fenced_run [OF assms(6)]) (use clocks assms(2,3) time in simp_all)
  then consider f' where "get_fence (expiredKey runId) (cy_cell z) = Some f'" | "?T \<le> later"
    using assms(7) by (auto simp: fenced_def)
  then show ?thesis
  proof cases
    case 1
    then show ?thesis using upsert_fenced assms(10) by blast
  next
    case 2
    then show ?thesis using assms(9,10) grace by (auto simp: upsertRun_def bindE_eq_Inr split: if_splits)
  qed
qed

definition demo_catalog_keys :: "string list" where
  "demo_catalog_keys = [''run:w:0000000000010:r1'', ''runall:0000000000010:r1'']"

definition demo_meta :: run_meta where
  "demo_meta = \<lparr>rm_run = ''r1'', rm_created_at = 10, rm_status = Pending\<rparr>"

definition demo_catalog :: catalog where
  "demo_catalog = \<lparr>ct_kv = [(catalogKeysKey ''r1'', CKeys ''run:w:0000000000010:r1'' ''runall:0000000000010:r1''),
     (''run:w:0000000000010:r1'', CMeta demo_meta), (''runall:0000000000010:r1'', CMeta demo_meta)], ct_alarm = None\<rparr>"

definition demo_fenced :: catalog where
  "demo_fenced = snd (projr (expireRun ''r1'' 20 20 demo_catalog))"

lemma demo_canonical: "canonicalCatalogKeys ''r1'' demo_catalog_keys = Inr (''run:w:0000000000010:r1'', ''runall:0000000000010:r1'')"
  unfolding demo_catalog_keys_def by code_simp

lemma demo_published: "upsertRun ''r1'' demo_catalog_keys demo_meta 1000 10 empty_catalog = Inr (True, demo_catalog)"
  unfolding upsertRun_def demo_canonical by code_simp

lemma demo_keys_stored:
  "get_keys (catalogKeysKey ''r1'') demo_catalog = Some (''run:w:0000000000010:r1'', ''runall:0000000000010:r1'')"
  by (simp add: demo_catalog_def get_keys_def kv_get_def)

lemma demo_expired: "\<exists>n. expireRun ''r1'' 20 20 demo_catalog = Inr (n, demo_fenced)"
  unfolding demo_fenced_def expireRun_def demo_keys_stored
  using demo_canonical by (simp add: demo_catalog_keys_def bindE_def Let_def)

lemma upsert_answers: "canonicalCatalogKeys r ks = Inr p \<Longrightarrow> \<exists>x. upsertRun r ks m pe now s = Inr x"
  by (cases p) (auto simp: upsertRun_def bindE_def)

theorem expired_run_stays_expired_witness:
  "upsertRun ''r1'' demo_catalog_keys demo_meta 1000 30 demo_fenced = Inr (False, demo_fenced)"
proof -
  obtain stored s' where u: "upsertRun ''r1'' demo_catalog_keys demo_meta 1000 30 demo_fenced = Inr (stored, s')"
    using upsert_answers [OF demo_canonical] by force
  have "catalog_step \<lparr>cy_clock = 0, cy_cell = empty_catalog\<rparr> \<lparr>cy_clock = 10, cy_cell = demo_catalog\<rparr>"
    by (rule catalog_step.upsert [OF _ demo_published]) simp
  moreover obtain n where "expireRun ''r1'' 20 20 demo_catalog = Inr (n, demo_fenced)" using demo_expired by blast
  ultimately have "\<not> stored \<and> s' = cy_cell \<lparr>cy_clock = 20, cy_cell = demo_fenced\<rparr>"
    using expired_run_stays_expired [of 0 "\<lparr>cy_clock = 10, cy_cell = demo_catalog\<rparr>" 20 "''r1''" 20 n demo_fenced
        "\<lparr>cy_clock = 20, cy_cell = demo_fenced\<rparr>" 30 1000 demo_catalog_keys demo_meta stored s'] demo_keys_stored u
    by (auto simp: catalog_time_def bound_defs)
  then show ?thesis using u by simp
qed

section \<open>Listing runs\<close>

text \<open>C39: A page of runs is what the requested page of one index over all shards would be, checked against
  the runs themselves: with \<open>rows\<close> the rows of every shard under the request's prefix and beyond its
  cursor, in strict key order, it holds the first \<open>limit\<close> runs whose own status is asked for, and says
  whether there are more; that a row's status is stale and that rows come in pages from 16 shards
  makes no difference.  One round per row and one more are enough.\<close>

theorem runs_page_is_complete:
  assumes "terminal_specs W" and "sound_index F readRun (scan_options rq (rl_cursor rq))"
    and "length (whole_listing (scan_options rq (rl_cursor rq)) F) < rounds"
  shows "\<exists>rows found.
    set rows = (\<Union>name \<in> set allRunCatalogShardNames. set (tagged name (all_rows (scan_options rq (rl_cursor rq)) (F name)))) \<and>
    sorted_wrt (\<lambda>x y. if rl_descending rq then se_name y < se_name x else se_name x < se_name y) rows \<and>
    found = List.map_filter (match_of readRun (rl_statuses rq)) rows \<and>
    listRunsPage rounds W (\<lambda>o1. against (catalog_answers F) (listRuns o1)) readRun rq =
     Inr \<lparr>rp_data = map (\<lambda>(k, r). if rl_strip rq then stripRunData r else r) (take (rl_limit rq) found),
          rp_cursor = (if rl_limit rq < length found \<and> 0 < rl_limit rq then Some (fst (found ! (rl_limit rq - 1))) else None),
          rp_more = rl_limit rq < length found\<rparr>"
proof (intro exI conjI)
  let ?o = "scan_options rq (rl_cursor rq)"
  show "set (whole_listing ?o F) = (\<Union>name \<in> set allRunCatalogShardNames. set (tagged name (all_rows ?o (F name))))"
    by (simp add: whole_listing_def)
  show "sorted_wrt (\<lambda>x y. if rl_descending rq then se_name y < se_name x else se_name x < se_name y) (whole_listing ?o F)"
    using whole_listing_strict [of ?o F] assms(2) by (simp add: sound_index_def beyond_def scan_options_def)
  show "runs_found F readRun rq = List.map_filter (match_of readRun (rl_statuses rq)) (whole_listing ?o F)"
    by (simp add: runs_found_def)
qed (rule listRunsPage_found [OF assms])

definition demo_shards :: "string \<Rightarrow> catalog" where
  "demo_shards name = (if name = ''run-catalog:v1:0c'' then demo_catalog else empty_catalog)"

lemma demo_shard_of_run: "runCatalogShardName ''r1'' = ''run-catalog:v1:0c''"
  by (simp add: runCatalogShardName_def shardName_def stableIndexHash_def run_catalog_shards_def
      index_protocol_version_def hex_nat.simps hex_lower_def pad_start_def) code_simp

definition demo_list_request :: run_list_request where
  "demo_list_request = \<lparr>rl_workflow = Some ''w'', rl_statuses = Some [Running], rl_limit = 5, rl_cursor = None,
     rl_descending = False, rl_strip = True\<rparr>"

lemma demo_listing: "whole_listing (scan_options demo_list_request None) demo_shards =
  [\<lparr>se_name = ''run:w:0000000000010:r1'', se_value = CMeta demo_meta, se_shard = ''run-catalog:v1:0c''\<rparr>]"
  by code_simp

definition demo_listed_run :: wf_run where
  "demo_listed_run =
     \<lparr>run_id = ''r1'', run_deployment = ''d'', run_name = ''w'', run_spec = None, run_exec_ctx = None, run_attrs = [],
      run_enc_key = None, run_input = Some (JNum 1), run_state = Running, run_output = None, run_error = None,
      run_started_at = Some 15, run_completed_at = None, run_created_at = 10, run_updated_at = 15, run_expired_at = None\<rparr>"

definition demo_read :: "string \<Rightarrow> wf_run option" where
  "demo_read r = (if r = ''r1'' then Some demo_listed_run else None)"

lemma demo_sound: "sound_index demo_shards demo_read (scan_options demo_list_request None)"
proof -
  have "kv_wf (ct_kv demo_catalog)" by code_simp
  then show ?thesis
    by (simp add: sound_index_def demo_listing demo_shards_def row_stale_def demo_meta_def demo_read_def
        demo_listed_run_def empty_catalog_def kv_wf_def)
qed

text \<open>The index still calls the run pending; the request for running ones finds it.\<close>

theorem runs_page_is_complete_witness:
  "listRunsPage 2 demo_world (\<lambda>o1. against (catalog_answers demo_shards) (listRuns o1)) demo_read demo_list_request =
     Inr \<lparr>rp_data = [stripRunData demo_listed_run], rp_cursor = None, rp_more = False\<rparr>"
proof -
  let ?e = "\<lparr>se_name = ''run:w:0000000000010:r1'', se_value = CMeta demo_meta, se_shard = ''run-catalog:v1:0c''\<rparr>"
  have c: "rl_cursor demo_list_request = None" by (simp add: demo_list_request_def)
  have "set (whole_listing (scan_options demo_list_request None) demo_shards) =
      (\<Union>name \<in> set allRunCatalogShardNames. set (tagged name (all_rows (scan_options demo_list_request None) (demo_shards name))))"
    by (simp add: whole_listing_def)
  then have one: "(\<Union>name \<in> set allRunCatalogShardNames. set (tagged name (all_rows (scan_options demo_list_request None) (demo_shards name)))) = {?e}"
    by (simp add: demo_listing)
  have w: "terminal_specs demo_world" by (simp add: terminal_specs_def demo_world_def)
  have s: "sound_index demo_shards demo_read (scan_options demo_list_request (rl_cursor demo_list_request))"
    unfolding c by (rule demo_sound)
  have len: "length (whole_listing (scan_options demo_list_request (rl_cursor demo_list_request)) demo_shards) < 2"
    unfolding c demo_listing by simp
  obtain rows found where r: "set rows = {?e}"
    "sorted_wrt (\<lambda>x y. if rl_descending demo_list_request then se_name y < se_name x else se_name x < se_name y) rows"
    and found: "found = List.map_filter (match_of demo_read (rl_statuses demo_list_request)) rows"
    and page: "listRunsPage 2 demo_world (\<lambda>o1. against (catalog_answers demo_shards) (listRuns o1)) demo_read demo_list_request =
     Inr \<lparr>rp_data = map (\<lambda>(k, r). if rl_strip demo_list_request then stripRunData r else r) (take (rl_limit demo_list_request) found),
          rp_cursor = (if rl_limit demo_list_request < length found \<and> 0 < rl_limit demo_list_request
                       then Some (fst (found ! (rl_limit demo_list_request - 1))) else None),
          rp_more = rl_limit demo_list_request < length found\<rparr>"
    using runs_page_is_complete [OF w s len] unfolding c one by blast
  have "rows = [?e]"
  proof (cases rows)
    case (Cons x xs)
    then show ?thesis using r by (cases xs) (auto simp: demo_list_request_def)
  qed (use r(1) in simp)
  then have "found = [(''run:w:0000000000010:r1'', demo_listed_run)]"
    by (simp add: found List.map_filter_simps match_of_def demo_meta_def hit_def demo_read_def demo_listed_run_def
        demo_list_request_def)
  then show ?thesis using page by (simp add: demo_list_request_def)
qed

end
