(* ===== verification/StreamProtocol.thy ===== *)
theory StreamProtocol
  imports Prelude JsStd KeyStore "HOL-Library.Word"
begin

text \<open>
  The stream protocol (\<open>src/stream-protocol.ts\<close>): bounds of a request, binary frames for a batch of
  chunks, its acknowledgement and a read, and the error a failed stream keeps.  A frame is a list of
  bytes; names and messages are their UTF-8 bytes, so \<open>TextEncoder\<close> and \<open>TextDecoder\<close> only change
  the type.
\<close>

type_synonym bytes = "8 word list"

section \<open>Bounds\<close>

definition max_stream_chunk_bytes :: nat where "max_stream_chunk_bytes = 1024 * 1024"
definition max_stream_batch_bytes :: nat where "max_stream_batch_bytes = 8 * 1024 * 1024"
definition negotiated_stream_chunks :: nat where "negotiated_stream_chunks = 512"
definition max_stream_read_bytes :: nat where "max_stream_read_bytes = 8 * 1024 * 1024"
definition max_stream_error_bytes :: nat where "max_stream_error_bytes = 16 * 1024"
definition max_stream_long_poll_ms :: int where "max_stream_long_poll_ms = 20000"
definition max_stream_index :: int where "max_stream_index = 0x7fffffff"

lemmas stream_bounds = max_stream_chunk_bytes_def max_stream_batch_bytes_def negotiated_stream_chunks_def
  max_stream_read_bytes_def max_stream_error_bytes_def max_stream_long_poll_ms_def max_stream_index_def

datatype stream_state = Stream_Open | Stream_Closed | Stream_Errored | Stream_Expired

record stream_error =
  sx_name :: string
  sx_message :: string

record stream_write_result =
  wr_start :: int
  wr_count :: int
  wr_tail :: int

record stream_read_request =
  rr_run :: string
  rr_start :: int
  rr_max_chunks :: int
  rr_max_bytes :: int
  rr_wait_ms :: int

record stream_read_result =
  rd_start :: int
  rd_tail :: int
  rd_chunks :: "bytes list"
  rd_state :: stream_state
  rd_timed_out :: bool
  rd_error :: "stream_error option"

datatype stream_exn =
    Bad_Batch
  | Bad_Request
  | Bad_Frame
  | Out_Of_Range
  | Frame_Too_Large
  | No_Run_Id
  | Stream_Owned
  | Stream_Gone
  | Not_Writable
  | Offset_Limit
  | Corrupt_Stream
  | Registry_Owned
  | Registry_Not_Expired
  | Read_Aborted

section \<open>Integers in frames\<close>

text \<open>\<open>DataView\<close> is big-endian; \<open>setUint32\<close>, \<open>setUint16\<close> and \<open>setInt32\<close> wrap.\<close>

definition put_u16 :: "nat \<Rightarrow> bytes" where
  "put_u16 n = [of_nat (n div 2 ^ 8), of_nat n]"

definition put_u32 :: "nat \<Rightarrow> bytes" where
  "put_u32 n = [of_nat (n div 2 ^ 24), of_nat (n div 2 ^ 16), of_nat (n div 2 ^ 8), of_nat n]"

definition put_i32 :: "int \<Rightarrow> bytes" where
  "put_i32 i = put_u32 (nat (i mod 2 ^ 32))"

definition get_bytes :: "bytes \<Rightarrow> nat" where
  "get_bytes bs = foldl (\<lambda>n b. n * 256 + unat b) 0 bs"

definition get_u8 :: "nat \<Rightarrow> bytes \<Rightarrow> nat" where "get_u8 at bs = unat (bs ! at)"
definition get_u16 :: "nat \<Rightarrow> bytes \<Rightarrow> nat" where "get_u16 at bs = get_bytes (take 2 (drop at bs))"
definition get_u32 :: "nat \<Rightarrow> bytes \<Rightarrow> nat" where "get_u32 at bs = get_bytes (take 4 (drop at bs))"
definition get_i32 :: "nat \<Rightarrow> bytes \<Rightarrow> int" where
  "get_i32 at bs = (let n = int (get_u32 at bs) in if n < 2 ^ 31 then n else n - 2 ^ 32)"

section \<open>Validation\<close>

definition write_magic :: nat where "write_magic = 0x57435357"
definition write_ack_magic :: nat where "write_ack_magic = 0x57435341"
definition read_magic :: nat where "read_magic = 0x57435352"
definition protocol_version :: nat where "protocol_version = 1"
definition write_header_bytes :: nat where "write_header_bytes = 8"
definition write_ack_bytes :: nat where "write_ack_bytes = 16"
definition read_header_bytes :: nat where "read_header_bytes = 28"

definition requireSafeIndex :: "int \<Rightarrow> stream_exn + unit" where
  "requireSafeIndex v = ensure (safe_int v \<and> \<not> v < -1 \<and> \<not> v > max_stream_index) Out_Of_Range"

fun check_chunks :: "nat \<Rightarrow> bytes list \<Rightarrow> stream_exn + nat" where
  "check_chunks sofar [] = Inr sofar"
| "check_chunks sofar (c # cs) =
     bindE (ensure (\<not> length c > max_stream_chunk_bytes) Bad_Batch) (\<lambda>_.
     bindE (ensure (\<not> sofar + length c > max_stream_batch_bytes) Bad_Batch) (\<lambda>_.
       check_chunks (sofar + length c) cs))"

definition validateStreamWriteChunks :: "bytes list \<Rightarrow> stream_exn + nat" where
  "validateStreamWriteChunks chunks =
     bindE (ensure (chunks \<noteq> []) Bad_Batch) (\<lambda>_.
     bindE (ensure (\<not> length chunks > negotiated_stream_chunks) Bad_Batch) (\<lambda>_.
       check_chunks 0 chunks))"

definition validateStreamReadRequest :: "stream_read_request \<Rightarrow> stream_exn + unit" where
  "validateStreamReadRequest r =
     bindE (ensure (rr_run r \<noteq> []) Bad_Request) (\<lambda>_.
     bindE (ensure (safe_int (rr_start r) \<and> \<not> rr_start r < 0 \<and> \<not> rr_start r > max_stream_index) Bad_Request) (\<lambda>_.
     bindE (ensure (safe_int (rr_max_chunks r) \<and> \<not> rr_max_chunks r < 0 \<and>
              \<not> rr_max_chunks r > int negotiated_stream_chunks) Bad_Request) (\<lambda>_.
     bindE (ensure (safe_int (rr_max_bytes r) \<and> \<not> rr_max_bytes r < int max_stream_chunk_bytes \<and>
              \<not> rr_max_bytes r > int max_stream_read_bytes) Bad_Request) (\<lambda>_.
       ensure (safe_int (rr_wait_ms r) \<and> \<not> rr_wait_ms r < 0 \<and> \<not> rr_wait_ms r > max_stream_long_poll_ms) Bad_Request))))"

section \<open>A batch of chunks\<close>

definition put_chunks :: "bytes list \<Rightarrow> bytes" where
  "put_chunks chunks = concat (map (\<lambda>c. put_u32 (length c) @ c) chunks)"

definition encodeStreamWriteBatch :: "bytes list \<Rightarrow> stream_exn + bytes" where
  "encodeStreamWriteBatch chunks =
     bindE (validateStreamWriteChunks chunks) (\<lambda>_.
       Inr (put_u32 write_magic @ put_u16 protocol_version @ put_u16 (length chunks) @ put_chunks chunks))"

text \<open>\<open>bs\<close> is what is left of the frame from the current offset on.\<close>

fun get_chunks :: "nat \<Rightarrow> bytes \<Rightarrow> stream_exn + bytes list \<times> bytes" where
  "get_chunks 0 bs = Inr ([], bs)"
| "get_chunks (Suc n) bs =
     bindE (ensure (\<not> length bs < 4) Bad_Frame) (\<lambda>_.
       let len = get_u32 0 bs; rest = drop 4 bs
       in bindE (ensure (\<not> length rest < len) Bad_Frame) (\<lambda>_.
            bindE (get_chunks n (drop len rest)) (\<lambda>(cs, left). Inr (take len rest # cs, left))))"

definition decodeStreamWriteBatch :: "bytes \<Rightarrow> stream_exn + bytes list" where
  "decodeStreamWriteBatch e =
     bindE (ensure (\<not> length e < write_header_bytes) Bad_Frame) (\<lambda>_.
     bindE (ensure (get_u32 0 e = write_magic) Bad_Frame) (\<lambda>_.
     bindE (ensure (get_u16 4 e = protocol_version) Bad_Frame) (\<lambda>_.
     bindE (get_chunks (get_u16 6 e) (drop write_header_bytes e)) (\<lambda>(chunks, left).
     bindE (ensure (left = []) Bad_Frame) (\<lambda>_.
     bindE (validateStreamWriteChunks chunks) (\<lambda>_. Inr chunks))))))"

section \<open>The acknowledgement of a batch\<close>

definition encodeStreamWriteResult :: "stream_write_result \<Rightarrow> stream_exn + bytes" where
  "encodeStreamWriteResult r =
     bindE (requireSafeIndex (wr_start r)) (\<lambda>_.
     bindE (requireSafeIndex (wr_tail r)) (\<lambda>_.
     bindE (ensure (safe_int (wr_count r) \<and> \<not> wr_count r < 1 \<and> \<not> wr_count r > int negotiated_stream_chunks) Out_Of_Range) (\<lambda>_.
       Inr (put_u32 write_ack_magic @ put_u16 protocol_version @ put_u16 (nat (wr_count r)) @
            put_i32 (wr_start r) @ put_i32 (wr_tail r)))))"

definition decodeStreamWriteResult :: "bytes \<Rightarrow> stream_exn + stream_write_result" where
  "decodeStreamWriteResult e =
     bindE (ensure (length e = write_ack_bytes) Bad_Frame) (\<lambda>_.
     bindE (ensure (get_u32 0 e = write_ack_magic) Bad_Frame) (\<lambda>_.
     bindE (ensure (get_u16 4 e = protocol_version) Bad_Frame) (\<lambda>_.
       let count = get_u16 6 e; start = get_i32 8 e; tail = get_i32 12 e
       in bindE (ensure (\<not> (count < 1 \<or> count > negotiated_stream_chunks)) Bad_Frame) (\<lambda>_.
          bindE (requireSafeIndex start) (\<lambda>_.
          bindE (requireSafeIndex tail) (\<lambda>_.
          bindE (ensure (tail = start + int count - 1) Bad_Frame) (\<lambda>_.
            Inr \<lparr>wr_start = start, wr_count = int count, wr_tail = tail\<rparr>)))))))"

section \<open>The answer to a read\<close>

fun state_to_wire :: "stream_state \<Rightarrow> nat" where
  "state_to_wire Stream_Open = 0"
| "state_to_wire Stream_Closed = 1"
| "state_to_wire Stream_Errored = 2"
| "state_to_wire Stream_Expired = 3"

definition wire_to_state :: "nat \<Rightarrow> stream_state option" where
  "wire_to_state n =
     (if n < 4 then Some ([Stream_Open, Stream_Closed, Stream_Errored, Stream_Expired] ! n) else None)"

definition text_bytes :: "string \<Rightarrow> bytes" where "text_bytes s = map (\<lambda>c. of_nat (of_char c)) s"
definition bytes_text :: "bytes \<Rightarrow> string" where "bytes_text bs = map (\<lambda>b. char_of (unat b)) bs"

definition encodeStreamReadResult :: "stream_read_result \<Rightarrow> stream_exn + bytes" where
  "encodeStreamReadResult r =
     bindE (requireSafeIndex (rd_start r)) (\<lambda>_.
     bindE (requireSafeIndex (rd_tail r)) (\<lambda>_.
       let chunkBytes = sum_list (map (\<lambda>c. 4 + length c) (rd_chunks r));
           errorName = (case rd_error r of Some e \<Rightarrow> text_bytes (sx_name e) | None \<Rightarrow> []);
           errorMessage = (case rd_error r of Some e \<Rightarrow> text_bytes (sx_message e) | None \<Rightarrow> [])
       in bindE (ensure (\<not> (length (rd_chunks r) > negotiated_stream_chunks \<or>
                 chunkBytes > max_stream_read_bytes + 4 * negotiated_stream_chunks)) Frame_Too_Large) (\<lambda>_.
          bindE (ensure (\<not> length errorName + length errorMessage > max_stream_error_bytes) Frame_Too_Large) (\<lambda>_.
            Inr (put_u32 read_magic @
                 [of_nat protocol_version, of_nat (state_to_wire (rd_state r)), if rd_timed_out r then 1 else 0, 0] @
                 put_i32 (rd_start r) @ put_i32 (rd_tail r) @ put_u32 (length (rd_chunks r)) @
                 put_u32 (length errorName) @ put_u32 (length errorMessage) @
                 put_chunks (rd_chunks r) @ errorName @ errorMessage)))))"

fun get_read_chunks :: "nat \<Rightarrow> nat \<Rightarrow> bytes \<Rightarrow> stream_exn + bytes list \<times> bytes" where
  "get_read_chunks 0 sofar bs = Inr ([], bs)"
| "get_read_chunks (Suc n) sofar bs =
     bindE (ensure (\<not> length bs < 4) Bad_Frame) (\<lambda>_.
       let len = get_u32 0 bs; rest = drop 4 bs
       in bindE (ensure (\<not> length rest < len) Bad_Frame) (\<lambda>_.
          bindE (ensure (\<not> sofar + len > max_stream_read_bytes) Bad_Frame) (\<lambda>_.
          bindE (get_read_chunks n (sofar + len) (drop len rest)) (\<lambda>(cs, left). Inr (take len rest # cs, left)))))"

definition decodeStreamReadResult :: "bytes \<Rightarrow> stream_exn + stream_read_result" where
  "decodeStreamReadResult e =
     bindE (ensure (\<not> length e < read_header_bytes) Bad_Frame) (\<lambda>_.
     bindE (ensure (get_u32 0 e = read_magic) Bad_Frame) (\<lambda>_.
     bindE (ensure (get_u8 4 e = protocol_version) Bad_Frame) (\<lambda>_.
     bindE (case wire_to_state (get_u8 5 e) of None \<Rightarrow> Inl Bad_Frame | Some st \<Rightarrow> Inr st) (\<lambda>st.
       let start = get_i32 8 e; tail = get_i32 12 e; count = get_u32 16 e; nameLength = get_u32 20 e;
           messageLength = get_u32 24 e
       in bindE (requireSafeIndex start) (\<lambda>_.
          bindE (requireSafeIndex tail) (\<lambda>_.
          bindE (ensure (\<not> count > negotiated_stream_chunks) Bad_Frame) (\<lambda>_.
          bindE (ensure (\<not> nameLength + messageLength > max_stream_error_bytes) Bad_Frame) (\<lambda>_.
          bindE (get_read_chunks count 0 (drop read_header_bytes e)) (\<lambda>(chunks, left).
          bindE (ensure (nameLength + messageLength = length left) Bad_Frame) (\<lambda>_.
            Inr \<lparr>rd_start = start, rd_tail = tail, rd_chunks = chunks, rd_state = st,
                 rd_timed_out = odd (get_u8 6 e),
                 rd_error = (if nameLength > 0 \<or> messageLength > 0
                   then Some \<lparr>sx_name = bytes_text (take nameLength left), sx_message = bytes_text (drop nameLength left)\<rparr>
                   else None)\<rparr>))))))))))"

section \<open>The error of a failed stream\<close>

text \<open>A string is cut after a number of UTF-16 units: a character of four bytes has two, and half of it
  is encoded as the replacement character.\<close>

definition char_width :: "char \<Rightarrow> nat" where
  "char_width c = (let b = (of_char c :: nat) in if b < 0xC0 then 1 else if b < 0xE0 then 2 else if b < 0xF0 then 3 else 4)"

lemma char_width_pos [simp]: "0 < char_width c" "char_width c \<noteq> 0"
  by (simp_all add: char_width_def Let_def)

definition replacement_char :: string where "replacement_char = [char_of (0xEF :: nat), char_of (0xBF :: nat), char_of (0xBD :: nat)]"

function units :: "string \<Rightarrow> nat" where
  "units [] = 0"
| "units (c # s) = (if char_width c = 4 then 2 else 1) + units (drop (char_width c) (c # s))"
  by pat_completeness auto
termination by (relation "measure length") (auto simp: char_width_def Let_def)

function slice_units :: "nat \<Rightarrow> string \<Rightarrow> string" where
  "slice_units n [] = []"
| "slice_units n (c # s) =
     (let w = char_width c
      in if n = 0 then [] else if w = 4 \<and> n = 1 then replacement_char
         else take w (c # s) @ slice_units (if w = 4 then n - 2 else n - 1) (drop w (c # s)))"
  by pat_completeness auto
termination by (relation "measure (\<lambda>(n, s). length s)") (auto simp: char_width_def Let_def)

declare units.simps(2) [simp del] slice_units.simps(2) [simp del]

datatype thrown = Error_Object string string | Error_Text string | Named_Object string string | Anything string

text \<open>\<open>Anything s\<close>: a value of another kind whose \<open>String(value)\<close> is \<open>s\<close>.\<close>

fun error_parts :: "thrown \<Rightarrow> string \<times> string" where
  "error_parts (Error_Object name message) = (if name = [] then ''Error'' else name, message)"
| "error_parts (Error_Text s) = (''Error'', s)"
| "error_parts (Named_Object name message) = (name, message)"
| "error_parts (Anything s) = (''Error'', s)"

lemma units_eq_0 [simp]: "units s = 0 \<longleftrightarrow> s = []"
  by (cases s) (simp_all add: units.simps(2))

lemma units_append_char:
  "w = char_width c \<Longrightarrow> w \<le> length (c # s) \<Longrightarrow> units (take w (c # s) @ r) = (if w = 4 then 2 else 1) + units r"
proof -
  assume w: "w = char_width c" "w \<le> length (c # s)"
  have "0 < w" using w(1) by simp
  then obtain m where m: "w = Suc m" using gr0_implies_Suc by blast
  then have cs: "take w (c # s) = c # take m s" "length (c # take m s) = w" using w(2) by simp_all
  have "drop w (c # take m s @ r) = r" using m w(2) by simp
  then show ?thesis using cs w by (simp add: units.simps(2))
qed

lemma units_slice: "units (slice_units n s) \<le> n"
proof (induction n s rule: slice_units.induct)
  case (2 n c s)
  let ?w = "char_width c"
  have r: "units replacement_char = 1"
    by (simp add: replacement_char_def units.simps(2) char_width_def Let_def)
  show ?case
  proof (cases "n = 0 \<or> (?w = 4 \<and> n = 1)")
    case True
    then show ?thesis using r by (auto simp: slice_units.simps(2) Let_def)
  next
    case False
    have eq: "slice_units n (c # s) = take ?w (c # s) @ slice_units (if ?w = 4 then n - 2 else n - 1) (drop ?w (c # s))"
      using False by (auto simp: slice_units.simps(2) Let_def)
    have ih: "units (slice_units (if ?w = 4 then n - 2 else n - 1) (drop ?w (c # s))) \<le> (if ?w = 4 then n - 2 else n - 1)"
      using 2 [OF refl] False by auto
    show ?thesis
    proof (cases "?w \<le> length (c # s)")
      case True
      show ?thesis unfolding eq units_append_char [OF refl True] using ih False by (auto split: if_splits)
    next
      case short: False
      then have "drop ?w (c # s) = []" "take ?w (c # s) = c # s" by simp_all
      then have "slice_units n (c # s) = c # s" "units (c # s) = (if ?w = 4 then 2 else 1)"
        unfolding eq by (simp_all add: units.simps(2))
      then show ?thesis using False by auto
    qed
  qed
qed simp

lemma length_slice: "length (slice_units n s) \<le> 3 * n"
proof (induction n s rule: slice_units.induct)
  case (2 n c s)
  let ?w = "char_width c"
  have "?w = 1 \<or> ?w = 2 \<or> ?w = 3 \<or> ?w = 4" by (simp add: char_width_def Let_def)
  then have w: "?w \<le> 4" "?w \<noteq> 4 \<Longrightarrow> ?w \<le> 3" by auto
  show ?case
  proof (cases "n = 0 \<or> (?w = 4 \<and> n = 1)")
    case True
    then show ?thesis by (auto simp: slice_units.simps(2) Let_def replacement_char_def)
  next
    case False
    have eq: "slice_units n (c # s) = take ?w (c # s) @ slice_units (if ?w = 4 then n - 2 else n - 1) (drop ?w (c # s))"
      using False by (auto simp: slice_units.simps(2) Let_def)
    have ih: "length (slice_units (if ?w = 4 then n - 2 else n - 1) (drop ?w (c # s))) \<le> 3 * (if ?w = 4 then n - 2 else n - 1)"
      using 2 [OF refl] False by auto
    have "length (slice_units n (c # s)) \<le> ?w + 3 * (if ?w = 4 then n - 2 else n - 1)"
      unfolding eq length_append using ih by (simp add: min_def del: drop_Suc_Cons take_Suc_Cons)
    then show ?thesis using w False by (auto split: if_splits)
  qed
qed simp

lemma units_slice_less: "s \<noteq> [] \<Longrightarrow> units (slice_units (units s - 256) s) < units s"
  using units_slice [of "units s - 256" s] units_eq_0 [of s] by linarith

text \<open>The loop that shortens an error until it fits.\<close>

function shrink :: "stream_error \<Rightarrow> stream_error" where
  "shrink e =
     (if length (sx_name e) + length (sx_message e) > max_stream_error_bytes
      then let message = slice_units (units (sx_message e) - 256) (sx_message e);
               name = (if message = [] then slice_units (units (sx_name e) - 256) (sx_name e) else sx_name e)
           in shrink \<lparr>sx_name = name, sx_message = message\<rparr>
      else e)"
  by auto

termination
proof (relation "measure (\<lambda>e. units (sx_name e) + units (sx_message e))")
  fix e :: stream_error and message name
  assume over: "length (sx_name e) + length (sx_message e) > max_stream_error_bytes"
    and m: "message = slice_units (units (sx_message e) - 256) (sx_message e)"
    and n: "name = (if message = [] then slice_units (units (sx_name e) - 256) (sx_name e) else sx_name e)"
  have name: "units name \<le> units (sx_name e)" using units_slice [of "units (sx_name e) - 256" "sx_name e"] n by auto
  have "units name + units message < units (sx_name e) + units (sx_message e)"
  proof (cases "sx_message e = []")
    case True
    then have "message = []" "sx_name e \<noteq> []" using m over by auto
    then show ?thesis using True n units_slice_less [of "sx_name e"] by simp
  next
    case False
    then show ?thesis using name units_slice_less m by fastforce
  qed
  then show "(\<lparr>sx_name = name, sx_message = message\<rparr>, e) \<in> measure (\<lambda>e. units (sx_name e) + units (sx_message e))"
    by simp
qed simp

declare shrink.simps [simp del]

definition normalizeStreamError :: "thrown \<Rightarrow> stream_error" where
  "normalizeStreamError t =
     (case error_parts t of (name, message) \<Rightarrow>
        shrink \<lparr>sx_name = slice_units 1024 name, sx_message = slice_units 4096 message\<rparr>)"

text \<open>The two cuts are enough: the loop is never entered.\<close>

lemma normalized_error: "normalizeStreamError t =
    \<lparr>sx_name = slice_units 1024 (fst (error_parts t)), sx_message = slice_units 4096 (snd (error_parts t))\<rparr>"
  using length_slice [of 1024 "fst (error_parts t)"] length_slice [of 4096 "snd (error_parts t)"]
  by (simp add: normalizeStreamError_def split_def shrink.simps stream_bounds)

lemma normalized_error_fits:
  "length (sx_name (normalizeStreamError t)) + length (sx_message (normalizeStreamError t)) \<le> max_stream_error_bytes"
  using length_slice [of 1024 "fst (error_parts t)"] length_slice [of 4096 "snd (error_parts t)"]
  by (simp add: normalized_error stream_bounds)

end
