(* ===== verification/StreamCell.thy ===== *)
theory StreamCell
  imports StreamProtocol DeadlineKeys
begin

text \<open>
  A stream cell (\<open>src/worker/durable-objects/StreamDO.ts\<close>): chunks in order of their offset, packed into
  segment rows with a small size row each (an older layout has one row and one size row per chunk), a
  terminal state, and expiry in pages; the same class keeps the registry of a run's streams.
  A mutation is one transaction followed by the update of the cached metadata; readers wait for the
  next mutation.
\<close>

section \<open>Stored values\<close>

record stream_meta =
  me_count :: int
  me_state :: stream_state
  me_owner :: "string option"
  me_error :: "stream_error option"
  me_expired_at :: "int option"
  me_expired_count :: "int option"
  me_deleted :: "bool option"
  me_segments :: bool

record segment_size =
  sg_count :: nat
  sg_bytes :: nat

record registry_expiry =
  re_expired_at :: int
  re_deleted :: nat

datatype sval =
    SMeta stream_meta
  | SBytes bytes
  | SSize nat
  | SSegment segment_size
  | SMark
  | SOwner string
  | SExpiry registry_expiry

fun as_stream_meta :: "sval \<Rightarrow> stream_meta option" where "as_stream_meta (SMeta m) = Some m" | "as_stream_meta _ = None"
fun as_bytes :: "sval \<Rightarrow> bytes option" where "as_bytes (SBytes b) = Some b" | "as_bytes _ = None"
fun as_segment :: "sval \<Rightarrow> segment_size option" where "as_segment (SSegment x) = Some x" | "as_segment _ = None"
fun as_size :: "sval \<Rightarrow> nat option" where "as_size (SSize n) = Some n" | "as_size _ = None"
fun as_registry_owner :: "sval \<Rightarrow> string option" where "as_registry_owner (SOwner x) = Some x" | "as_registry_owner _ = None"
fun as_expiry :: "sval \<Rightarrow> registry_expiry option" where "as_expiry (SExpiry x) = Some x" | "as_expiry _ = None"

text \<open>\<open>st_meta\<close> and \<open>st_version\<close> are the fields \<open>meta\<close> and \<open>changeVersion\<close> of the object in memory.\<close>

record stream =
  st_kv :: "sval kv"
  st_meta :: "stream_meta option"
  st_version :: nat

section \<open>Keys and bounds\<close>

definition meta_key :: string where "meta_key = ''meta''"
definition chunk_key_prefix :: string where "chunk_key_prefix = ''chunk:''"
definition chunk_size_key_prefix :: string where "chunk_size_key_prefix = ''chunk-size:''"
definition stream_registry_prefix :: string where "stream_registry_prefix = ''stream:''"
definition registry_owner_key :: string where "registry_owner_key = ''registry:owner''"
definition registry_expired_key :: string where "registry_expired_key = ''registry:expired''"
definition segment_key_prefix :: string where "segment_key_prefix = ''seg:''"
definition segment_size_key_prefix :: string where "segment_size_key_prefix = ''segsize:''"

definition default_expire_chunk_limit :: nat where "default_expire_chunk_limit = 64"
definition max_expire_chunk_limit :: nat where "max_expire_chunk_limit = 256"
definition default_expire_byte_limit :: nat where "default_expire_byte_limit = 16 * 1024 * 1024"
definition max_segment_bytes :: nat where "max_segment_bytes = 1024 * 1024"

definition boundedLimit :: "int option \<Rightarrow> nat \<Rightarrow> nat \<Rightarrow> nat" where
  "boundedLimit v fallback maximum =
     (case v of None \<Rightarrow> fallback | Some n \<Rightarrow> nat (max 1 (min (int maximum) n)))"

definition chunkKey :: "int \<Rightarrow> string" where "chunkKey i = chunk_key_prefix @ pad_dec 12 i"
definition chunkSizeKey :: "int \<Rightarrow> string" where "chunkSizeKey i = chunk_size_key_prefix @ pad_dec 12 i"
definition segmentKey :: "int \<Rightarrow> string" where "segmentKey i = segment_key_prefix @ pad_dec 12 i"
definition segmentSizeKey :: "int \<Rightarrow> string" where "segmentSizeKey i = segment_size_key_prefix @ pad_dec 12 i"

definition emptyMeta :: stream_meta where
  "emptyMeta = \<lparr>me_count = 0, me_state = Stream_Open, me_owner = None, me_error = None, me_expired_at = None,
     me_expired_count = None, me_deleted = None, me_segments = False\<rparr>"

definition validateMeta :: "sval \<Rightarrow> stream_exn + stream_meta" where
  "validateMeta v =
     (case as_stream_meta v of
        None \<Rightarrow> Inl Corrupt_Stream
      | Some m \<Rightarrow>
          bindE (ensure (safe_int (me_count m) \<and> \<not> me_count m < 0 \<and> \<not> me_count m > max_stream_index) Corrupt_Stream) (\<lambda>_.
          bindE (ensure ((me_state m = Stream_Errored) = (me_error m \<noteq> None)) Corrupt_Stream) (\<lambda>_. Inr m)))"

text \<open>\<open>Number(suffix)\<close> of twelve digits; the index of a row.\<close>

definition index_of_key :: "string \<Rightarrow> string \<Rightarrow> stream_exn + int" where
  "index_of_key prefix k =
     (let suffix = drop (length prefix) k
      in bindE (ensure (has_prefix prefix k \<and> length suffix = 12 \<and> list_all is_digit suffix \<and>
             \<not> digits_value suffix > max_stream_index) Corrupt_Stream) (\<lambda>_. Inr (digits_value suffix)))"

definition validateSegmentSize :: "sval option \<Rightarrow> stream_exn + segment_size" where
  "validateSegmentSize v =
     (case Option.bind v as_segment of
        None \<Rightarrow> Inl Corrupt_Stream
      | Some z \<Rightarrow> bindE (ensure (safe_int (int (sg_count z)) \<and> \<not> sg_count z < 1 \<and> safe_int (int (sg_bytes z))) Corrupt_Stream)
                   (\<lambda>_. Inr z))"

definition validateChunkSize :: "sval option \<Rightarrow> stream_exn + nat" where
  "validateChunkSize v =
     (case Option.bind v as_size of
        None \<Rightarrow> Inl Corrupt_Stream
      | Some n \<Rightarrow> bindE (ensure (\<not> n > max_stream_chunk_bytes) Corrupt_Stream) (\<lambda>_. Inr n))"

section \<open>Segments\<close>

definition encodeSegment :: "bytes list \<Rightarrow> bytes" where
  "encodeSegment chunks = put_u32 (length chunks) @ concat (map (\<lambda>c. put_u32 (length c)) chunks) @ concat chunks"

fun segment_chunks :: "bytes \<Rightarrow> nat \<Rightarrow> nat \<Rightarrow> nat \<Rightarrow> stream_exn + bytes list \<times> nat" where
  "segment_chunks v 0 index offset = Inr ([], offset)"
| "segment_chunks v (Suc n) index offset =
     (let len = get_u32 (4 + 4 * index) v
      in bindE (ensure (\<not> offset + len > length v) Corrupt_Stream) (\<lambda>_.
         bindE (segment_chunks v n (index + 1) (offset + len)) (\<lambda>(cs, end1).
           Inr (take len (drop offset v) # cs, end1))))"

definition decodeSegment :: "sval option \<Rightarrow> segment_size \<Rightarrow> stream_exn + bytes list" where
  "decodeSegment stored z =
     (case Option.bind stored as_bytes of
        None \<Rightarrow> Inl Corrupt_Stream
      | Some v \<Rightarrow>
          bindE (ensure (\<not> length v < 4) Corrupt_Stream) (\<lambda>_.
            let count = get_u32 0 v; header = 4 + 4 * count
            in bindE (ensure (count = sg_count z \<and> header + sg_bytes z = length v) Corrupt_Stream) (\<lambda>_.
               bindE (segment_chunks v count 0 header) (\<lambda>(chunks, offset).
               bindE (ensure (offset = length v) Corrupt_Stream) (\<lambda>_. Inr chunks)))))"

fun packSegments :: "int \<Rightarrow> bytes list \<Rightarrow> nat \<Rightarrow> bytes list \<Rightarrow> (int \<times> bytes list) list" where
  "packSegments start current held [] = (if current = [] then [] else [(start, current)])"
| "packSegments start current held (c # cs) =
     (if current \<noteq> [] \<and> held + length c > max_segment_bytes
      then (start, current) # packSegments (start + int (length current)) [c] (length c) cs
      else packSegments start (current @ [c]) (held + length c) cs)"

section \<open>Metadata and ownership\<close>

definition stored_meta :: "sval kv \<Rightarrow> stream_exn + stream_meta" where
  "stored_meta kv = (case kv_get meta_key kv of None \<Rightarrow> Inr emptyMeta | Some v \<Rightarrow> validateMeta v)"

definition getMeta :: "stream \<Rightarrow> (stream_exn + stream_meta) \<times> stream" where
  "getMeta s =
     (case st_meta s of
        Some m \<Rightarrow> (Inr m, s)
      | None \<Rightarrow> (case stored_meta (st_kv s) of Inl e \<Rightarrow> (Inl e, s) | Inr m \<Rightarrow> (Inr m, s\<lparr>st_meta := Some m\<rparr>)))"

definition assertOwner :: "stream_meta \<Rightarrow> string \<Rightarrow> stream_exn + unit" where
  "assertOwner m runId =
     bindE (ensure (runId \<noteq> []) No_Run_Id) (\<lambda>_.
       ensure (me_owner m = None \<or> me_owner m = Some runId) Stream_Owned)"

definition assertWritable :: "stream_meta \<Rightarrow> string \<Rightarrow> stream_exn + unit" where
  "assertWritable m runId =
     bindE (assertOwner m runId) (\<lambda>_.
     bindE (ensure (me_state m \<noteq> Stream_Expired) Stream_Gone) (\<lambda>_.
     bindE (ensure (me_state m \<noteq> Stream_Closed) Not_Writable) (\<lambda>_.
       ensure (me_state m \<noteq> Stream_Errored) Not_Writable)))"

text \<open>\<open>runMutation\<close> of a transaction that yields the metadata to cache and an answer.\<close>

definition mutate :: "(sval kv \<Rightarrow> stream_exn + stream_meta \<times> 'r \<times> sval kv) \<Rightarrow> stream \<Rightarrow> stream_exn + 'r \<times> stream" where
  "mutate f s =
     bindE (f (st_kv s)) (\<lambda>(m, r, kv).
       Inr (r, s\<lparr>st_kv := kv, st_meta := Some m, st_version := st_version s + 1\<rparr>))"

section \<open>Writing\<close>

definition write_entries :: "stream_meta \<Rightarrow> int \<Rightarrow> bytes list \<Rightarrow> (string \<times> sval) list" where
  "write_entries nextMeta startIndex chunks =
     (meta_key, SMeta nextMeta) #
     (if me_segments nextMeta
      then concat (map (\<lambda>(start, seg).
             [(segmentKey start, SBytes (encodeSegment seg)),
              (segmentSizeKey start, SSegment \<lparr>sg_count = length seg, sg_bytes = sum_list (map length seg)\<rparr>)])
             (packSegments startIndex [] 0 chunks))
      else concat (map (\<lambda>(index, c). [(chunkKey index, SBytes c), (chunkSizeKey index, SSize (length c))])
             (zip (map (\<lambda>n. startIndex + int n) [0..<length chunks]) chunks)))"

definition writeTxn :: "string \<Rightarrow> bytes list \<Rightarrow> sval kv \<Rightarrow> stream_exn + stream_meta \<times> stream_write_result \<times> sval kv" where
  "writeTxn runId chunks kv =
     bindE (stored_meta kv) (\<lambda>meta.
     bindE (assertWritable meta runId) (\<lambda>_.
       let startIndex = me_count meta
       in bindE (ensure (\<not> startIndex + int (length chunks) > max_stream_index) Offset_Limit) (\<lambda>_.
            let nextMeta = emptyMeta\<lparr>me_count := startIndex + int (length chunks), me_owner := Some runId,
                  me_segments := (if kv_get meta_key kv = None then True else me_segments meta)\<rparr>
            in Inr (nextMeta,
                    \<lparr>wr_start = startIndex, wr_count = int (length chunks), wr_tail = me_count nextMeta - 1\<rparr>,
                    putStorageEntries (write_entries nextMeta startIndex chunks) kv))))"

definition writeChunks :: "string \<Rightarrow> bytes list \<Rightarrow> stream \<Rightarrow> stream_exn + stream_write_result \<times> stream" where
  "writeChunks runId chunks s = bindE (validateStreamWriteChunks chunks) (\<lambda>_. mutate (writeTxn runId chunks) s)"

section \<open>Ending a stream\<close>

definition endTxn :: "string \<Rightarrow> stream_state \<Rightarrow> stream_error option \<Rightarrow> sval kv \<Rightarrow> stream_exn + stream_meta \<times> unit \<times> sval kv" where
  "endTxn runId state err kv =
     bindE (stored_meta kv) (\<lambda>meta.
     bindE (assertOwner meta runId) (\<lambda>_.
     bindE (ensure (me_state meta \<noteq> Stream_Expired) Stream_Gone) (\<lambda>_.
       if me_state meta \<noteq> Stream_Open then Inr (meta, (), kv)
       else let m = meta\<lparr>me_owner := Some runId, me_state := state, me_error := (if err = None then me_error meta else err)\<rparr>
            in Inr (m, (), kv_put meta_key (SMeta m) kv))))"

definition closeStream :: "string \<Rightarrow> stream \<Rightarrow> stream_exn + unit \<times> stream" where
  "closeStream runId = mutate (endTxn runId Stream_Closed None)"

definition failStream :: "string \<Rightarrow> thrown \<Rightarrow> stream \<Rightarrow> stream_exn + unit \<times> stream" where
  "failStream runId err = mutate (endTxn runId Stream_Errored (Some (normalizeStreamError err)))"

section \<open>Reading\<close>

text \<open>A read loads the metadata, plans from the size rows which chunks to return, and loads their payload;
  other requests may run in between.\<close>

datatype read_plan =
    No_Chunks
  | Chunk_Rows "(int \<times> nat) list"
  | Segment_Rows int "(int \<times> segment_size) list"

fun plan_rows :: "(string \<times> sval) list \<Rightarrow> nat \<Rightarrow> nat \<Rightarrow> int list \<Rightarrow> stream_exn + (int \<times> nat) list" where
  "plan_rows sizes maxBytes held [] = Inr []"
| "plan_rows sizes maxBytes held (index # rest) =
     bindE (validateChunkSize (map_of sizes (chunkSizeKey index))) (\<lambda>z.
       if held + z > maxBytes then Inr []
       else bindE (plan_rows sizes maxBytes (held + z) rest) (\<lambda>r. Inr ((index, z) # r)))"

fun load_rows :: "(string \<times> sval) list \<Rightarrow> (int \<times> nat) list \<Rightarrow> stream_exn + bytes list" where
  "load_rows stored [] = Inr []"
| "load_rows stored ((index, z) # rest) =
     (case Option.bind (map_of stored (chunkKey index)) as_bytes of
        None \<Rightarrow> Inl Corrupt_Stream
      | Some c \<Rightarrow> bindE (ensure (length c = z) Corrupt_Stream) (\<lambda>_. bindE (load_rows stored rest) (\<lambda>cs. Inr (c # cs))))"

fun plan_segments :: "(string \<times> sval) list \<Rightarrow> stream_exn + (int \<times> segment_size) list" where
  "plan_segments [] = Inr []"
| "plan_segments ((k, v) # rest) =
     bindE (index_of_key segment_size_key_prefix k) (\<lambda>start.
     bindE (validateSegmentSize (Some v)) (\<lambda>z.
     bindE (plan_segments rest) (\<lambda>ps. Inr ((start, z) # ps))))"

text \<open>The size rows must cover the range without a gap; only the first may begin before it.\<close>

fun covers :: "bool \<Rightarrow> int \<Rightarrow> (int \<times> segment_size) list \<Rightarrow> stream_exn + int" where
  "covers first covered [] = Inr covered"
| "covers first covered ((start, z) # rest) =
     bindE (ensure (\<not> start > covered) Corrupt_Stream) (\<lambda>_.
     bindE (ensure (first \<or> start = covered) Corrupt_Stream) (\<lambda>_.
     bindE (ensure (\<not> start + int (sg_count z) \<le> covered) Corrupt_Stream) (\<lambda>_.
       covers False (start + int (sg_count z)) rest)))"

fun select_segments :: "nat \<Rightarrow> bool \<Rightarrow> nat \<Rightarrow> (int \<times> segment_size) list \<Rightarrow> (int \<times> segment_size) list" where
  "select_segments maxBytes first held [] = []"
| "select_segments maxBytes first held ((start, z) # rest) =
     (if \<not> first \<and> maxBytes \<le> held then []
      else (start, z) # select_segments maxBytes False (held + sg_bytes z) rest)"

text \<open>Chunks of one segment from \<open>expected\<close> on, and whether the read is full.\<close>

fun take_chunks :: "int \<Rightarrow> nat \<Rightarrow> int \<Rightarrow> nat \<Rightarrow> bytes list \<Rightarrow> bytes list \<times> int \<times> nat \<times> bool" where
  "take_chunks endIndex maxBytes expected held [] = ([], expected, held, False)"
| "take_chunks endIndex maxBytes expected held (c # cs) =
     (if expected \<ge> endIndex \<or> held + length c > maxBytes then ([], expected, held, True)
      else case take_chunks endIndex maxBytes (expected + 1) (held + length c) cs of
             (taken, e, b, full) \<Rightarrow> (c # taken, e, b, full))"

fun load_segments ::
    "(string \<times> sval) list \<Rightarrow> int \<Rightarrow> nat \<Rightarrow> int \<Rightarrow> nat \<Rightarrow> (int \<times> segment_size) list \<Rightarrow> stream_exn + bytes list" where
  "load_segments stored endIndex maxBytes expected held [] = Inr []"
| "load_segments stored endIndex maxBytes expected held ((start, z) # rest) =
     bindE (ensure (\<not> start > expected) Corrupt_Stream) (\<lambda>_.
     bindE (decodeSegment (map_of stored (segmentKey start)) z) (\<lambda>seg.
       case take_chunks endIndex maxBytes expected held (drop (nat (expected - start)) seg) of
         (taken, e, b, full) \<Rightarrow>
           if full then Inr taken
           else bindE (load_segments stored endIndex maxBytes e b rest) (\<lambda>cs. Inr (taken @ cs))))"

definition containing_segment :: "int \<Rightarrow> sval kv \<Rightarrow> stream_exn + (int \<times> segment_size)" where
  "containing_segment startIndex kv =
     (case kv_list ((prefix_query segment_size_key_prefix)\<lparr>q_end := Some (segmentSizeKey (startIndex + 1)),
                      q_reverse := True, q_limit := Some 1\<rparr>) kv of
        [] \<Rightarrow> Inl Corrupt_Stream
      | (k, v) # _ \<Rightarrow>
          bindE (index_of_key segment_size_key_prefix k) (\<lambda>start.
          bindE (validateSegmentSize (Some v)) (\<lambda>z. Inr (start, z))))"

definition planChunkRows :: "int \<Rightarrow> nat \<Rightarrow> nat \<Rightarrow> sval kv \<Rightarrow> stream_exn + read_plan" where
  "planChunkRows startIndex available maxBytes kv =
     (let indexes = map (\<lambda>n. startIndex + int n) [0..<available]
      in bindE (plan_rows (getMany (map chunkSizeKey indexes) kv) maxBytes 0 indexes) (\<lambda>selected. Inr (Chunk_Rows selected)))"

definition planSegmentRows :: "int \<Rightarrow> nat \<Rightarrow> nat \<Rightarrow> sval kv \<Rightarrow> stream_exn + read_plan" where
  "planSegmentRows startIndex available maxBytes kv =
     (let endIndex = startIndex + int available
      in bindE (plan_segments (kv_list ((prefix_query segment_size_key_prefix)\<lparr>q_start := Some (segmentSizeKey startIndex),
              q_end := Some (segmentSizeKey endIndex), q_limit := Some available\<rparr>) kv)) (\<lambda>listed.
         bindE (case listed of
                  (start, z) # _ \<Rightarrow> if start = startIndex then Inr listed
                                 else bindE (containing_segment startIndex kv) (\<lambda>p. Inr (p # listed))
                | [] \<Rightarrow> bindE (containing_segment startIndex kv) (\<lambda>p. Inr (p # listed))) (\<lambda>planned.
         bindE (covers True startIndex planned) (\<lambda>covered.
         bindE (ensure (\<not> covered < endIndex) Corrupt_Stream) (\<lambda>_.
           Inr (Segment_Rows endIndex (select_segments maxBytes True 0 planned)))))))"

definition available_chunks :: "stream_meta \<Rightarrow> stream_read_request \<Rightarrow> nat" where
  "available_chunks meta rq =
     (if me_state meta = Stream_Expired then 0
      else nat (max 0 (min (rr_max_chunks rq) (me_count meta - rr_start rq))))"

definition planRead :: "stream_meta \<Rightarrow> stream_read_request \<Rightarrow> sval kv \<Rightarrow> stream_exn + read_plan" where
  "planRead meta rq kv =
     bindE (assertOwner meta (rr_run rq)) (\<lambda>_.
       let available = available_chunks meta rq; maxBytes = nat (rr_max_bytes rq)
       in if available = 0 then Inr No_Chunks
          else if me_segments meta then planSegmentRows (rr_start rq) available maxBytes kv
          else planChunkRows (rr_start rq) available maxBytes kv)"

definition loadRead :: "stream_read_request \<Rightarrow> read_plan \<Rightarrow> sval kv \<Rightarrow> stream_exn + bytes list" where
  "loadRead rq plan kv =
     (case plan of
        No_Chunks \<Rightarrow> Inr []
      | Chunk_Rows selected \<Rightarrow> load_rows (getMany (map (chunkKey \<circ> fst) selected) kv) selected
      | Segment_Rows endIndex selected \<Rightarrow>
          load_segments (getMany (map (segmentKey \<circ> fst) selected) kv) endIndex (nat (rr_max_bytes rq)) (rr_start rq) 0 selected)"

definition readResult :: "stream_meta \<Rightarrow> stream_read_request \<Rightarrow> bool \<Rightarrow> bytes list \<Rightarrow> stream_read_result" where
  "readResult meta rq timedOut chunks =
     \<lparr>rd_start = rr_start rq, rd_tail = me_count meta - 1, rd_chunks = chunks, rd_state = me_state meta,
      rd_timed_out = timedOut, rd_error = me_error meta\<rparr>"

text \<open>A long poll: what the wait for a change (or its end by time or by the caller) resolves with is an
  answer.\<close>

datatype wait_query = Wait_Change nat int
datatype wait_answer = Changed | Timed_Out | Aborted

type_synonym 'r stream_handler = "(stream_exn, wait_query, wait_answer, stream, 'r) proc"

definition readSnapshot :: "stream_read_request \<Rightarrow> bool \<Rightarrow> stream_read_result stream_handler" where
  "readSnapshot rq timedOut =
     bindP (Act (\<lambda>now s. case getMeta s of (Inl e, s') \<Rightarrow> (Throw e, s') | (Inr m, s') \<Rightarrow> (Return m, s'))) (\<lambda>meta.
     bindP (txn (\<lambda>now s. bindE (planRead meta rq (st_kv s)) (\<lambda>x. Inr (x, s)))) (\<lambda>plan.
     bindP (txn (\<lambda>now s. bindE (loadRead rq plan (st_kv s)) (\<lambda>x. Inr (x, s)))) (\<lambda>chunks.
       Return (readResult meta rq timedOut chunks))))"

definition readChunks :: "stream_read_request \<Rightarrow> stream_read_result stream_handler" where
  "readChunks rq =
     (case validateStreamReadRequest rq of
        Inl e \<Rightarrow> Throw e
      | Inr _ \<Rightarrow>
          bindP (look (\<lambda>now s. st_version s)) (\<lambda>observed.
          bindP (readSnapshot rq False) (\<lambda>immediate.
            if rd_chunks immediate \<noteq> [] \<or> rd_state immediate \<noteq> Stream_Open \<or> rr_wait_ms rq = 0 \<or> rr_max_chunks rq = 0
            then Return immediate
            else Ask (Wait_Change observed (rr_wait_ms rq)) (\<lambda>a.
              if a = Aborted then Throw Read_Aborted else readSnapshot rq (a = Timed_Out)))))"

section \<open>The registry of a run's streams\<close>

definition registered :: "nat option \<Rightarrow> sval kv \<Rightarrow> string list" where
  "registered limit kv =
     map (\<lambda>(k, _). drop (length stream_registry_prefix) k) (kv_list ((prefix_query stream_registry_prefix)\<lparr>q_limit := limit\<rparr>) kv)"

definition registry_owner :: "sval kv \<Rightarrow> string option" where
  "registry_owner kv = Option.bind (kv_get registry_owner_key kv) as_registry_owner"
definition registry_expired :: "sval kv \<Rightarrow> registry_expiry option" where
  "registry_expired kv = Option.bind (kv_get registry_expired_key kv) as_expiry"

definition registerStream :: "string \<Rightarrow> string \<Rightarrow> stream \<Rightarrow> stream_exn + unit \<times> stream" where
  "registerStream runId name s =
     bindE (ensure (kv_get registry_expired_key (st_kv s) = None) Stream_Gone) (\<lambda>_.
     bindE (ensure (registry_owner (st_kv s) = None \<or> registry_owner (st_kv s) = Some runId) Registry_Owned) (\<lambda>_.
       Inr ((), s\<lparr>st_kv := kv_put (stream_registry_prefix @ name) SMark (kv_put registry_owner_key (SOwner runId) (st_kv s))\<rparr>)))"

definition listStreams :: "stream \<Rightarrow> stream_exn + string list" where
  "listStreams s =
     bindE (ensure (kv_get registry_expired_key (st_kv s) = None) Stream_Gone) (\<lambda>_. Inr (registered None (st_kv s)))"

definition expireRegistry :: "string \<Rightarrow> int \<Rightarrow> int option \<Rightarrow> stream \<Rightarrow> stream_exn + string list \<times> stream" where
  "expireRegistry runId expiredAt limit s =
     bindE (ensure (registry_owner (st_kv s) = None \<or> registry_owner (st_kv s) = Some runId) Registry_Owned) (\<lambda>_.
       let expiry = (case registry_expired (st_kv s) of Some x \<Rightarrow> x | None \<Rightarrow> \<lparr>re_expired_at = expiredAt, re_deleted = 0\<rparr>);
           kv = kv_put registry_expired_key (SExpiry expiry) (kv_put registry_owner_key (SOwner runId) (st_kv s))
       in Inr (registered (Some (boundedLimit limit 16 128)) kv, s\<lparr>st_kv := kv\<rparr>))"

definition finalizeRegistry :: "string \<Rightarrow> string list \<Rightarrow> stream \<Rightarrow> stream_exn + (nat \<times> bool) \<times> stream" where
  "finalizeRegistry runId streams s =
     (case (registry_owner (st_kv s) = Some runId, registry_expired (st_kv s)) of
        (True, Some expiry) \<Rightarrow>
          let keys = map (\<lambda>name. stream_registry_prefix @ name) (remdups streams);
              deleted = re_deleted expiry + kv_del_count keys (st_kv s);
              kv = kv_put registry_expired_key (SExpiry (expiry\<lparr>re_deleted := deleted\<rparr>)) (kv_del_all keys (st_kv s))
          in Inr ((deleted, registered (Some 1) kv = []), s\<lparr>st_kv := kv\<rparr>)
      | _ \<Rightarrow> Inl Registry_Not_Expired)"

section \<open>Expiry\<close>

fun expire_rows :: "nat \<Rightarrow> bool \<Rightarrow> nat \<Rightarrow> (string \<times> sval) list \<Rightarrow> stream_exn + int list \<times> nat" where
  "expire_rows byteLimit first held [] = Inr ([], held)"
| "expire_rows byteLimit first held ((k, v) # rest) =
     bindE (index_of_key chunk_size_key_prefix k) (\<lambda>index.
     bindE (validateChunkSize (Some v)) (\<lambda>z.
       if \<not> first \<and> held + z > byteLimit then Inr ([], held)
       else bindE (expire_rows byteLimit False (held + z) rest) (\<lambda>(is, b). Inr (index # is, b))))"

text \<open>A page: the number of chunks and bytes deleted, whether nothing is left, and the store.\<close>

definition first_row :: "string \<Rightarrow> sval kv \<Rightarrow> (string \<times> sval) list" where
  "first_row prefix kv = kv_list ((prefix_query prefix)\<lparr>q_limit := Some 1\<rparr>) kv"

definition expireChunkPage :: "nat \<Rightarrow> nat \<Rightarrow> sval kv \<Rightarrow> stream_exn + (nat \<times> nat \<times> bool) \<times> sval kv" where
  "expireChunkPage limit byteLimit kv =
     (let candidates = kv_list ((prefix_query chunk_size_key_prefix)\<lparr>q_limit := Some (limit + 1)\<rparr>) kv
      in bindE (expire_rows byteLimit True 0 (take limit candidates)) (\<lambda>(page0, bytes0).
         bindE (if candidates \<noteq> [] then Inr (page0, bytes0, False)
                else case first_row chunk_key_prefix kv of
                  [] \<Rightarrow> Inr (page0, bytes0, False)
                | (k, v) # _ \<Rightarrow> bindE (index_of_key chunk_key_prefix k) (\<lambda>index.
                    Inr ([index], (case as_bytes v of Some c \<Rightarrow> length c | None \<Rightarrow> 0), True))) (\<lambda>(page, bytes1, fallback).
           let kv' = kv_del_all (concat (map (\<lambda>i. [chunkKey i, chunkSizeKey i]) page)) kv;
               empty = (first_row chunk_key_prefix kv' = []);
               done0 = (length candidates = length page)
           in Inr ((length page, bytes1, if fallback \<or> (done0 \<and> candidates \<noteq> []) then empty else done0), kv'))))"

fun expire_segments :: "nat \<Rightarrow> nat \<Rightarrow> bool \<Rightarrow> nat \<Rightarrow> nat \<Rightarrow> (string \<times> sval) list \<Rightarrow> stream_exn + int list \<times> nat \<times> nat" where
  "expire_segments limit byteLimit first chunks held [] = Inr ([], chunks, held)"
| "expire_segments limit byteLimit first chunks held ((k, v) # rest) =
     bindE (index_of_key segment_size_key_prefix k) (\<lambda>start.
     bindE (validateSegmentSize (Some v)) (\<lambda>z.
       if \<not> first \<and> (chunks + sg_count z > limit \<or> held + sg_bytes z > byteLimit) then Inr ([], chunks, held)
       else bindE (expire_segments limit byteLimit False (chunks + sg_count z) (held + sg_bytes z) rest) (\<lambda>(ss, c, b).
              Inr (start # ss, c, b))))"

definition expireSegmentPage :: "nat \<Rightarrow> nat \<Rightarrow> sval kv \<Rightarrow> stream_exn + (nat \<times> nat \<times> bool) \<times> sval kv" where
  "expireSegmentPage limit byteLimit kv =
     (let candidates = kv_list ((prefix_query segment_size_key_prefix)\<lparr>q_limit := Some (limit + 1)\<rparr>) kv
      in bindE (expire_segments limit byteLimit True 0 0 candidates) (\<lambda>(page0, chunks0, bytes0).
         bindE (if candidates \<noteq> [] then Inr (page0, chunks0, bytes0, False)
                else case first_row segment_key_prefix kv of
                  [] \<Rightarrow> Inr (page0, chunks0, bytes0, False)
                | (k, v) # _ \<Rightarrow> bindE (index_of_key segment_key_prefix k) (\<lambda>start.
                    Inr ([start], 1, (case as_bytes v of Some c \<Rightarrow> length c | None \<Rightarrow> 0), True))) (\<lambda>(page, chunks, bytes1, orphan).
           let kv' = kv_del_all (concat (map (\<lambda>i. [segmentKey i, segmentSizeKey i]) page)) kv;
               done0 = (\<not> orphan \<and> length candidates = length page)
           in Inr ((chunks, bytes1, if orphan \<or> done0 then first_row segment_key_prefix kv' = [] else done0), kv'))))"

record expire_result =
  ex_deleted :: bool
  ex_chunks :: nat
  ex_bytes :: nat
  ex_done :: bool

definition expireTxn :: "string \<Rightarrow> int \<Rightarrow> nat \<Rightarrow> nat \<Rightarrow> sval kv \<Rightarrow> stream_exn + stream_meta \<times> expire_result \<times> sval kv" where
  "expireTxn runId expiredAt limit byteLimit kv =
     bindE (stored_meta kv) (\<lambda>meta.
     bindE (assertOwner meta runId) (\<lambda>_.
     bindE (if me_segments meta then expireSegmentPage limit byteLimit kv else expireChunkPage limit byteLimit kv)
       (\<lambda>((chunks, bytes1, finished), kv').
       if finished \<and> chunks = 0 \<and> me_state meta = Stream_Expired \<and> me_deleted meta = Some True
       then Inr (meta, \<lparr>ex_deleted = False, ex_chunks = 0, ex_bytes = 0, ex_done = True\<rparr>, kv')
       else let m = meta\<lparr>me_count := (if finished then 0 else me_count meta), me_owner := Some runId,
                     me_state := Stream_Expired, me_error := None,
                     me_expired_at := (if me_expired_at meta = None then Some expiredAt else me_expired_at meta),
                     me_expired_count := (if me_expired_count meta = None then Some (me_count meta) else me_expired_count meta),
                     me_deleted := Some finished\<rparr>
            in Inr (m, \<lparr>ex_deleted = (me_state meta \<noteq> Stream_Expired), ex_chunks = chunks, ex_bytes = bytes1, ex_done = finished\<rparr>,
                    kv_put meta_key (SMeta m) kv'))))"

definition expireStream :: "string \<Rightarrow> int \<Rightarrow> int option \<Rightarrow> int option \<Rightarrow> stream \<Rightarrow> stream_exn + expire_result \<times> stream" where
  "expireStream runId expiredAt limit byteLimit =
     mutate (expireTxn runId expiredAt (boundedLimit limit default_expire_chunk_limit max_expire_chunk_limit)
              (boundedLimit byteLimit default_expire_byte_limit default_expire_byte_limit))"

end
