(* ===== verification/StreamFrames.thy ===== *)
theory StreamFrames
  imports StreamProtocol
begin

text \<open>
  Frames of the stream protocol: what an encoder produced the decoder reads back, and the decoder of a
  batch accepts nothing else.
\<close>

section \<open>Integers\<close>

lemma get_bytes_simps [simp]: "get_bytes [] = 0" "get_bytes (bs @ [b]) = get_bytes bs * 256 + unat b"
  by (simp_all add: get_bytes_def)

lemma get_bytes_two: "get_bytes [a, b] = unat a * 256 + unat b"
  by (simp add: get_bytes_def)

lemma get_bytes_four: "get_bytes [a, b, c, d] = ((unat a * 256 + unat b) * 256 + unat c) * 256 + unat d"
  by (simp add: get_bytes_def)

lemma unat_byte: "unat (of_nat n :: 8 word) = n mod 256"
  by (simp add: unat_of_nat take_bit_eq_mod)

lemma length_put [simp]: "length (put_u16 n) = 2" "length (put_u32 n) = 4" "length (put_i32 i) = 4"
  by (simp_all add: put_u16_def put_u32_def put_i32_def)

lemma div_bytes: "n div 65536 = n div 256 div (256 :: nat)" "n div 16777216 = n div 256 div 256 div (256 :: nat)"
  by (simp_all add: div_mult2_eq [symmetric])

lemma low_byte: "d < 256 \<Longrightarrow> (x * 256 + d) div 256 = x" "d < 256 \<Longrightarrow> (x * 256 + d) mod 256 = (d :: nat)"
  by simp_all

lemma get_put_u16:
  assumes "n < 2 ^ 16"
  shows "get_bytes (put_u16 n) = n"
proof -
  have "n div 256 < 256" using assms by (simp add: less_mult_imp_div_less)
  then show ?thesis by (simp add: put_u16_def get_bytes_two unat_byte)
qed

lemma get_put_u32:
  assumes "n < 2 ^ 32"
  shows "get_bytes (put_u32 n) = n"
proof -
  have "n div 16777216 < 256" using assms by (simp add: less_mult_imp_div_less)
  then show ?thesis by (simp add: put_u32_def get_bytes_four unat_byte div_bytes)
qed

lemma byte_of_unat: "(of_nat (unat b) :: 8 word) = b"
  by simp

lemma byte_cong: "m mod 256 = n mod 256 \<Longrightarrow> (of_nat m :: 8 word) = of_nat n"
  by (rule word_unat_eq_iff [THEN iffD2]) (simp only: unat_byte)

lemma unat_byte_less: "unat (b :: 8 word) < 256"
  using unsigned_less [of b] by simp

lemma put_get_u16:
  assumes "length bs = 2"
  shows "put_u16 (get_bytes bs) = bs"
proof -
  obtain a b where bs: "bs = [a, b]" using assms by (auto simp: numeral_eq_Suc length_Suc_conv)
  have "(of_nat ((unat a * 256 + unat b) div 256) :: 8 word) = of_nat (unat a)" "(of_nat (unat a * 256 + unat b) :: 8 word) = of_nat (unat b)"
    by (simp only: low_byte [OF unat_byte_less], rule byte_cong, simp only: low_byte [OF unat_byte_less] mod_less [OF unat_byte_less])
  then show ?thesis by (simp add: bs put_u16_def get_bytes_two)
qed

lemma put_get_u32:
  assumes "length bs = 4"
  shows "put_u32 (get_bytes bs) = bs"
proof -
  obtain a b c d where bs: "bs = [a, b, c, d]" using assms by (auto simp: numeral_eq_Suc length_Suc_conv)
  let ?n = "((unat a * 256 + unat b) * 256 + unat c) * 256 + unat d"
  have low: "(of_nat (x * 256 + unat e) :: 8 word) = e" for x and e :: "8 word"
    using byte_cong [of "x * 256 + unat e" "unat e"] by (simp only: low_byte [OF unat_byte_less] mod_less [OF unat_byte_less] byte_of_unat)
  have powers: "(2 :: nat) ^ 8 = 256" "(2 :: nat) ^ 16 = 65536" "(2 :: nat) ^ 24 = 16777216" by simp_all
  have "?n div 2 ^ 8 = (unat a * 256 + unat b) * 256 + unat c"
    "?n div 2 ^ 16 = unat a * 256 + unat b" "?n div 2 ^ 24 = unat a"
    by (simp_all only: powers div_bytes low_byte(1) [OF unat_byte_less])
  then show ?thesis using low [of 0 a] by (simp only: bs put_u32_def get_bytes_four low) simp
qed

lemma get_u32_append [simp]: "n < 2 ^ 32 \<Longrightarrow> get_u32 0 (put_u32 n @ bs) = n"
  by (simp add: get_u32_def get_put_u32)

lemma get_u32_at: "length xs = k \<Longrightarrow> n < 2 ^ 32 \<Longrightarrow> get_u32 k (xs @ put_u32 n @ bs) = n"
  by (simp add: get_u32_def get_put_u32)

lemma get_u16_at: "length xs = k \<Longrightarrow> n < 2 ^ 16 \<Longrightarrow> get_u16 k (xs @ put_u16 n @ bs) = n"
  by (simp add: get_u16_def get_put_u16)

lemma get_i32_at:
  assumes "length xs = k" "- (2 ^ 31) \<le> i" "i < 2 ^ 31"
  shows "get_i32 k (xs @ put_i32 i @ bs) = i"
proof -
  have "nat (i mod 2 ^ 32) < 2 ^ 32" by (simp add: nat_less_iff)
  then have "get_u32 k (xs @ put_i32 i @ bs) = nat (i mod 2 ^ 32)"
    unfolding put_i32_def by (rule get_u32_at [OF assms(1)])
  then have "get_i32 k (xs @ put_i32 i @ bs) = (if i mod 2 ^ 32 < 2 ^ 31 then i mod 2 ^ 32 else i mod 2 ^ 32 - 2 ^ 32)"
    by (simp add: get_i32_def Let_def)
  also have "\<dots> = i"
  proof (cases "0 \<le> i")
    case False
    have "i mod 2 ^ 32 = (i + 2 ^ 32) mod 2 ^ 32" by simp
    also have "\<dots> = i + 2 ^ 32" by (rule mod_pos_pos_trivial) (use False assms(2) in simp_all)
    finally show ?thesis using assms(2) False by simp
  qed (use assms(3) in \<open>simp add: mod_pos_pos_trivial\<close>)
  finally show ?thesis .
qed

section \<open>Chunks\<close>

lemma check_chunks_sum:
  "check_chunks n cs = Inr m \<longleftrightarrow> m = n + sum_list (map length cs) \<and>
     (\<forall>c \<in> set cs. length c \<le> max_stream_chunk_bytes) \<and> (cs \<noteq> [] \<longrightarrow> m \<le> max_stream_batch_bytes)"
proof (induction cs arbitrary: n)
  case (Cons c cs)
  have "check_chunks n (c # cs) = Inr m \<longleftrightarrow> length c \<le> max_stream_chunk_bytes \<and> n + length c \<le> max_stream_batch_bytes \<and>
      check_chunks (n + length c) cs = Inr m"
    by (simp add: bindE_eq_Inr not_less conj_assoc)
  then show ?case unfolding Cons.IH by (cases cs) auto
qed auto

lemma valid_batch:
  "validateStreamWriteChunks cs = Inr m \<longleftrightarrow> m = sum_list (map length cs) \<and> cs \<noteq> [] \<and>
     length cs \<le> negotiated_stream_chunks \<and> (\<forall>c \<in> set cs. length c \<le> max_stream_chunk_bytes) \<and> m \<le> max_stream_batch_bytes"
  by (auto simp: validateStreamWriteChunks_def bindE_eq_Inr ensure_def check_chunks_sum)

lemma put_chunks_simps [simp]: "put_chunks [] = []" "put_chunks (c # cs) = put_u32 (length c) @ c @ put_chunks cs"
  by (simp_all add: put_chunks_def)

lemma length_put_chunks: "length (put_chunks cs) = sum_list (map (\<lambda>c. 4 + length c) cs)"
  by (induction cs) simp_all

lemma drop_put [simp]: "drop 4 (put_u32 n @ bs) = bs" "drop 2 (put_u16 n @ bs) = bs"
  by simp_all

lemma get_put_chunks:
  "\<forall>c \<in> set cs. length c < 2 ^ 32 \<Longrightarrow> get_chunks (length cs) (put_chunks cs @ r) = Inr (cs, r)"
  by (induction cs) (auto simp: bindE_def ensure_def Let_def)

lemma get_bytes_less: "get_bytes bs < 256 ^ length bs"
proof (induction bs rule: rev_induct)
  case (snoc b bs)
  then have "get_bytes bs * 256 + 256 \<le> 256 ^ length bs * 256" by simp
  then show ?case using unat_byte_less [of b] by simp
qed simp

lemma put_get_u32_at: "4 \<le> length bs \<Longrightarrow> put_u32 (get_u32 0 bs) @ drop 4 bs = bs"
  by (simp add: get_u32_def put_get_u32)

lemma get_chunks_inv: "get_chunks n bs = Inr (cs, r) \<Longrightarrow> length cs = n \<and> bs = put_chunks cs @ r"
proof (induction n arbitrary: bs cs)
  case (Suc n)
  let ?len = "get_u32 0 bs" and ?rest = "drop 4 bs"
  obtain cs' where b: "\<not> length bs < 4" "\<not> length ?rest < ?len" and g: "get_chunks n (drop ?len ?rest) = Inr (cs', r)"
    and cs: "cs = take ?len ?rest # cs'"
    using Suc.prems by (auto simp: bindE_eq_Inr ensure_def Let_def split: if_splits)
  have "put_u32 ?len @ ?rest = bs" using b(1) by (simp only: not_less put_get_u32_at)
  moreover have "?rest = take ?len ?rest @ put_chunks cs' @ r" using Suc.IH [OF g] append_take_drop_id [of ?len ?rest] by simp
  moreover have "length (take ?len ?rest) = ?len" using b(2) by simp
  ultimately show ?case using Suc.IH [OF g] unfolding cs by (simp only: put_chunks_simps append_assoc length_Cons)
qed simp

section \<open>Frames\<close>

lemma batch_roundtrip:
  assumes "encodeStreamWriteBatch cs = Inr e"
  shows "decodeStreamWriteBatch e = Inr cs"
proof -
  let ?body = "put_chunks cs"
  have v: "validateStreamWriteChunks cs = Inr (sum_list (map length cs))" and n: "length cs \<le> 512"
    and small: "\<forall>c \<in> set cs. length c < 2 ^ 32"
    and e: "e = put_u32 write_magic @ put_u16 protocol_version @ put_u16 (length cs) @ ?body"
    using assms by (auto simp: encodeStreamWriteBatch_def bindE_eq_Inr valid_batch stream_bounds)
  have parts: "get_u32 0 e = write_magic" "get_u16 4 e = protocol_version" "get_u16 6 e = length cs" "drop 8 e = ?body"
    "\<not> length e < 8"
    using get_u16_at [of "put_u32 write_magic" 4 protocol_version "put_u16 (length cs) @ ?body"]
      get_u16_at [of "put_u32 write_magic @ put_u16 protocol_version" 6 "length cs" ?body] n
    by (simp_all add: e write_magic_def protocol_version_def)
  show ?thesis
    using get_put_chunks [OF small, of "[]"] v parts
    by (simp add: decodeStreamWriteBatch_def bindE_def ensure_def write_header_bytes_def)
qed

lemma batch_canonical:
  assumes "decodeStreamWriteBatch e = Inr cs"
  shows "encodeStreamWriteBatch cs = Inr e"
proof -
  have h: "8 \<le> length e" "get_u32 0 e = write_magic" "get_u16 4 e = protocol_version"
    and g: "get_chunks (get_u16 6 e) (drop 8 e) = Inr (cs, [])"
    and v: "validateStreamWriteChunks cs = Inr (sum_list (map length cs))"
    using assms by (auto simp: decodeStreamWriteBatch_def bindE_eq_Inr ensure_def write_header_bytes_def valid_batch split: if_splits)
  have body: "length cs = get_u16 6 e" "drop 8 e = put_chunks cs" using get_chunks_inv [OF g] by simp_all
  have "e = take 4 e @ take 2 (drop 4 e) @ take 2 (drop 6 e) @ drop 8 e"
    using append_take_drop_id [of 4 e] append_take_drop_id [of 2 "drop 4 e"] append_take_drop_id [of 2 "drop 6 e"]
    by (simp add: drop_drop del: append_take_drop_id)
  moreover have "take 4 e = put_u32 write_magic" "take 2 (drop 4 e) = put_u16 protocol_version" "take 2 (drop 6 e) = put_u16 (length cs)"
    using h put_get_u32 [of "take 4 e"] put_get_u16 [of "take 2 (drop 4 e)"] put_get_u16 [of "take 2 (drop 6 e)"] body(1)
    by (simp_all add: get_u32_def get_u16_def)
  ultimately show ?thesis using v body(2) by (simp add: encodeStreamWriteBatch_def bindE_def)
qed

lemma safe_index:
  "requireSafeIndex v = Inr u \<longleftrightarrow> -1 \<le> v \<and> v \<le> max_stream_index"
  by (auto simp: requireSafeIndex_def safe_int_def stream_bounds max_safe_integer_def)

lemma ack_roundtrip:
  assumes "encodeStreamWriteResult r = Inr e" and tail: "wr_tail r = wr_start r + wr_count r - 1"
  shows "decodeStreamWriteResult e = Inr r"
proof -
  have s: "-1 \<le> wr_start r" "wr_start r \<le> max_stream_index" "-1 \<le> wr_tail r" "wr_tail r \<le> max_stream_index"
    and c: "1 \<le> wr_count r" "wr_count r \<le> 512"
    and e: "e = put_u32 write_ack_magic @ put_u16 protocol_version @ put_u16 (nat (wr_count r)) @ put_i32 (wr_start r) @ put_i32 (wr_tail r)"
    using assms(1) by (auto simp: encodeStreamWriteResult_def bindE_eq_Inr safe_index negotiated_stream_chunks_def not_less)
  have "get_u32 0 e = write_ack_magic" "length e = 16" by (simp_all add: e write_ack_magic_def)
  moreover have "get_u16 4 e = protocol_version"
    using get_u16_at [of "put_u32 write_ack_magic" 4 protocol_version] by (simp add: e protocol_version_def)
  moreover have "get_u16 6 e = nat (wr_count r)"
    using get_u16_at [of "put_u32 write_ack_magic @ put_u16 protocol_version" 6 "nat (wr_count r)"] c by (simp add: e)
  moreover have "get_i32 8 e = wr_start r"
    using get_i32_at [of "put_u32 write_ack_magic @ put_u16 protocol_version @ put_u16 (nat (wr_count r))" 8 "wr_start r"] s
    by (simp add: e stream_bounds)
  moreover have "get_i32 12 e = wr_tail r"
    using get_i32_at [of "put_u32 write_ack_magic @ put_u16 protocol_version @ put_u16 (nat (wr_count r)) @ put_i32 (wr_start r)"
        12 "wr_tail r" "[]"] s
    by (simp add: e stream_bounds)
  moreover have "requireSafeIndex (wr_start r) = Inr ()" "requireSafeIndex (wr_tail r) = Inr ()" using s by (simp_all add: safe_index)
  moreover have "nat (wr_count r) \<le> 512" using c by linarith
  ultimately show ?thesis
    using c tail
    by (cases r) (simp add: decodeStreamWriteResult_def Let_def write_ack_bytes_def negotiated_stream_chunks_def not_less)
qed

lemma text_roundtrip [simp]: "bytes_text (text_bytes s) = s"
proof -
  have "char_of (unat (of_nat (of_char c) :: 8 word)) = c" for c
    using of_char_lt_256 [of c] by (simp add: unat_byte)
  then show ?thesis by (simp add: bytes_text_def text_bytes_def comp_def)
qed

lemma length_text [simp]: "length (text_bytes s) = length s"
  by (simp add: text_bytes_def)

lemma get_put_read_chunks:
  "n + sum_list (map length cs) \<le> max_stream_read_bytes \<Longrightarrow>
     get_read_chunks (length cs) n (put_chunks cs @ r) = Inr (cs, r)"
proof (induction cs arbitrary: n)
  case (Cons c cs)
  have "length c < 2 ^ 32" using Cons.prems by (simp add: stream_bounds)
  then show ?case using Cons by (simp add: Let_def not_less)
qed simp

lemma wire_state [simp]: "state_to_wire st < 256" "wire_to_state (state_to_wire st) = Some st"
  by (cases st; simp add: wire_to_state_def)+

lemma read_roundtrip:
  assumes "encodeStreamReadResult r = Inr e"
    and fits: "sum_list (map length (rd_chunks r)) \<le> max_stream_read_bytes"
    and err: "\<And>x. rd_error r = Some x \<Longrightarrow> sx_name x \<noteq> [] \<or> sx_message x \<noteq> []"
  shows "decodeStreamReadResult e = Inr r"
proof -
  define name where "name = (case rd_error r of Some x \<Rightarrow> text_bytes (sx_name x) | None \<Rightarrow> [])"
  define message where "message = (case rd_error r of Some x \<Rightarrow> text_bytes (sx_message x) | None \<Rightarrow> [])"
  let ?flags = "[of_nat protocol_version, of_nat (state_to_wire (rd_state r)), if rd_timed_out r then 1 else 0, 0] :: bytes"
  let ?cs = "rd_chunks r" and ?m = "put_u32 read_magic"
  have s: "-1 \<le> rd_start r" "rd_start r \<le> max_stream_index" "-1 \<le> rd_tail r" "rd_tail r \<le> max_stream_index"
    and n: "length ?cs \<le> 512" "length name + length message \<le> 16384"
    and e: "e = ?m @ ?flags @ put_i32 (rd_start r) @ put_i32 (rd_tail r) @ put_u32 (length ?cs) @
      put_u32 (length name) @ put_u32 (length message) @ put_chunks ?cs @ name @ message"
    using assms(1)
    by (auto simp: encodeStreamReadResult_def bindE_eq_Inr safe_index Let_def not_less name_def message_def stream_bounds)
  have "get_u32 0 e = read_magic" "\<not> length e < 28" by (simp_all add: e read_magic_def)
  moreover have "get_u8 4 e = protocol_version" "get_u8 5 e = state_to_wire (rd_state r)" "odd (get_u8 6 e) = rd_timed_out r"
    by (simp_all add: e get_u8_def nth_append unat_byte protocol_version_def)
  moreover have "get_i32 8 e = rd_start r"
    using get_i32_at [of "?m @ ?flags" 8 "rd_start r"] s by (simp add: e stream_bounds)
  moreover have "get_i32 12 e = rd_tail r"
    using get_i32_at [of "?m @ ?flags @ put_i32 (rd_start r)" 12 "rd_tail r"] s by (simp add: e stream_bounds)
  moreover have "get_u32 16 e = length ?cs"
    using get_u32_at [of "?m @ ?flags @ put_i32 (rd_start r) @ put_i32 (rd_tail r)" 16 "length ?cs"] n by (simp add: e)
  moreover have "get_u32 20 e = length name"
    using get_u32_at [of "?m @ ?flags @ put_i32 (rd_start r) @ put_i32 (rd_tail r) @ put_u32 (length ?cs)" 20 "length name"] n
    by (simp add: e)
  moreover have "get_u32 24 e = length message"
    using get_u32_at [of "?m @ ?flags @ put_i32 (rd_start r) @ put_i32 (rd_tail r) @ put_u32 (length ?cs) @ put_u32 (length name)"
        24 "length message"] n
    by (simp add: e)
  moreover have "drop 28 e = put_chunks ?cs @ name @ message" by (simp add: e)
  moreover have "get_read_chunks (length ?cs) 0 (put_chunks ?cs @ name @ message) = Inr (?cs, name @ message)"
    using get_put_read_chunks [of 0 ?cs "name @ message"] fits by simp
  moreover have "requireSafeIndex (rd_start r) = Inr ()" "requireSafeIndex (rd_tail r) = Inr ()" using s by (simp_all add: safe_index)
  moreover have "(if length name > 0 \<or> length message > 0
      then Some \<lparr>sx_name = bytes_text name, sx_message = bytes_text message\<rparr> else None) = rd_error r"
    using err by (cases "rd_error r") (auto simp: name_def message_def)
  ultimately show ?thesis
    using n by (cases r) (auto simp: decodeStreamReadResult_def Let_def read_header_bytes_def stream_bounds not_less split: if_splits)
qed

end
