(* ===== verification/StreamFacts.thy ===== *)
theory StreamFacts
  imports StreamCell StreamFrames
begin

text \<open>
  A stream cell holds the log of what was written to it: rows of segments (or of single chunks) whose
  contents, in the order of their keys, are the log; every step keeps that, and reads return pieces of it.
\<close>

section \<open>Keys\<close>

lemma pad_dec_value: "0 \<le> t \<Longrightarrow> digits_value (pad_dec w t) = t"
  by (simp add: pad_dec_def pad_start_def digits_value_zeros dec_int_def dec_nat_value)

lemma pad_dec_length: "0 \<le> t \<Longrightarrow> t < 10 ^ w \<Longrightarrow> 0 < w \<Longrightarrow> length (pad_dec w t) = w"
  using dec_nat_length [of "nat t" w] by (simp add: pad_dec_def pad_start_def dec_int_def nat_less_iff)

lemma pad_dec_digits: "0 \<le> t \<Longrightarrow> \<forall>c \<in> set (pad_dec w t). is_digit c"
  using dec_nat_digits [of "nat t"] by (auto simp: pad_dec_def pad_start_def dec_int_def is_digit_def)

definition in_range :: "int \<Rightarrow> bool" where "in_range i \<longleftrightarrow> 0 \<le> i \<and> i < 10 ^ 12"

lemma pad_dec_order:
  assumes "in_range i" "in_range j"
  shows "pad_dec 12 i < pad_dec 12 j \<longleftrightarrow> i < j"
proof -
  have r: "0 \<le> i" "i < 10 ^ 12" "0 \<le> j" "j < 10 ^ 12" using assms by (simp_all add: in_range_def)
  have "length (pad_dec 12 i) = length (pad_dec 12 j)"
    using pad_dec_length [OF r(1,2)] pad_dec_length [OF r(3,4)] by simp
  from digits_order [OF this pad_dec_digits [OF r(1)] pad_dec_digits [OF r(3)]] show ?thesis
    by (simp only: pad_dec_value [OF r(1)] pad_dec_value [OF r(3)])
qed

lemma pad_dec_inj:
  assumes "in_range i" "in_range j"
  shows "pad_dec 12 i = pad_dec 12 j \<longleftrightarrow> i = j"
proof
  assume "pad_dec 12 i = pad_dec 12 j"
  then have "digits_value (pad_dec 12 i) = digits_value (pad_dec 12 j)" by (rule arg_cong)
  then show "i = j" using assms by (simp only: in_range_def pad_dec_value)
qed simp

lemmas stream_key_defs = meta_key_def chunk_key_prefix_def chunk_size_key_prefix_def segment_key_prefix_def
  segment_size_key_prefix_def chunkKey_def chunkSizeKey_def segmentKey_def segmentSizeKey_def
  registry_owner_key_def registry_expired_key_def stream_registry_prefix_def

lemma row_key_simps [simp]:
  "has_prefix segment_key_prefix (segmentKey i)" "has_prefix segment_size_key_prefix (segmentSizeKey i)"
  "has_prefix chunk_key_prefix (chunkKey i)" "has_prefix chunk_size_key_prefix (chunkSizeKey i)"
  by (simp_all add: segmentKey_def segmentSizeKey_def chunkKey_def chunkSizeKey_def)

lemma row_keys_differ [simp]:
  "meta_key \<noteq> segmentKey i" "meta_key \<noteq> segmentSizeKey i" "meta_key \<noteq> chunkKey i" "meta_key \<noteq> chunkSizeKey i"
  "segmentKey i \<noteq> segmentSizeKey j" "segmentKey i \<noteq> chunkKey j" "segmentKey i \<noteq> chunkSizeKey j"
  "segmentSizeKey i \<noteq> chunkKey j" "segmentSizeKey i \<noteq> chunkSizeKey j" "chunkKey i \<noteq> chunkSizeKey j"
  by (simp_all add: stream_key_defs)

lemma row_keys_differ' [simp]:
  "segmentKey i \<noteq> meta_key" "segmentSizeKey i \<noteq> meta_key" "chunkKey i \<noteq> meta_key" "chunkSizeKey i \<noteq> meta_key"
  "segmentSizeKey j \<noteq> segmentKey i" "chunkKey j \<noteq> segmentKey i" "chunkSizeKey j \<noteq> segmentKey i"
  "chunkKey j \<noteq> segmentSizeKey i" "chunkSizeKey j \<noteq> segmentSizeKey i" "chunkSizeKey j \<noteq> chunkKey i"
  by (simp_all add: stream_key_defs)

lemma row_key_kinds [simp]:
  "\<not> has_prefix segment_key_prefix (segmentSizeKey i)" "\<not> has_prefix segment_size_key_prefix (segmentKey i)"
  "\<not> has_prefix segment_key_prefix meta_key" "\<not> has_prefix segment_size_key_prefix meta_key"
  "\<not> has_prefix segment_key_prefix (chunkKey i)" "\<not> has_prefix segment_size_key_prefix (chunkKey i)"
  "\<not> has_prefix segment_key_prefix (chunkSizeKey i)" "\<not> has_prefix segment_size_key_prefix (chunkSizeKey i)"
  "\<not> has_prefix chunk_key_prefix (chunkSizeKey i)" "\<not> has_prefix chunk_size_key_prefix (chunkKey i)"
  "\<not> has_prefix chunk_key_prefix meta_key" "\<not> has_prefix chunk_size_key_prefix meta_key"
  "\<not> has_prefix chunk_key_prefix (segmentKey i)" "\<not> has_prefix chunk_size_key_prefix (segmentKey i)"
  "\<not> has_prefix chunk_key_prefix (segmentSizeKey i)" "\<not> has_prefix chunk_size_key_prefix (segmentSizeKey i)"
  by (simp_all add: stream_key_defs has_prefix_def)

lemma row_key_inj:
  "in_range i \<Longrightarrow> in_range j \<Longrightarrow> segmentKey i = segmentKey j \<longleftrightarrow> i = j"
  "in_range i \<Longrightarrow> in_range j \<Longrightarrow> segmentSizeKey i = segmentSizeKey j \<longleftrightarrow> i = j"
  "in_range i \<Longrightarrow> in_range j \<Longrightarrow> chunkKey i = chunkKey j \<longleftrightarrow> i = j"
  "in_range i \<Longrightarrow> in_range j \<Longrightarrow> chunkSizeKey i = chunkSizeKey j \<longleftrightarrow> i = j"
  by (simp_all add: segmentKey_def segmentSizeKey_def chunkKey_def chunkSizeKey_def pad_dec_inj)

lemma row_key_order:
  "in_range i \<Longrightarrow> in_range j \<Longrightarrow> segmentSizeKey i < segmentSizeKey j \<longleftrightarrow> i < j"
  by (simp add: segmentSizeKey_def append_less_same pad_dec_order)

lemma stream_index_range: "0 \<le> i \<Longrightarrow> i \<le> max_stream_index + 1 \<Longrightarrow> in_range i"
  by (simp add: in_range_def max_stream_index_def)

lemma index_of_row:
  assumes "0 \<le> i" "i \<le> max_stream_index"
  shows "index_of_key segment_size_key_prefix (segmentSizeKey i) = Inr i"
    "index_of_key segment_key_prefix (segmentKey i) = Inr i"
    "index_of_key chunk_key_prefix (chunkKey i) = Inr i"
    "index_of_key chunk_size_key_prefix (chunkSizeKey i) = Inr i"
proof -
  have "i < 10 ^ 12" using assms by (simp add: max_stream_index_def)
  then show "index_of_key segment_size_key_prefix (segmentSizeKey i) = Inr i"
    "index_of_key segment_key_prefix (segmentKey i) = Inr i"
    "index_of_key chunk_key_prefix (chunkKey i) = Inr i"
    "index_of_key chunk_size_key_prefix (chunkSizeKey i) = Inr i"
    using assms pad_dec_digits [of i 12]
    by (simp_all add: index_of_key_def Let_def segmentSizeKey_def segmentKey_def chunkKey_def chunkSizeKey_def
        pad_dec_length pad_dec_value list_all_iff)
qed

section \<open>Segments\<close>

fun seg_rows :: "int \<Rightarrow> bytes list list \<Rightarrow> (int \<times> bytes list) list" where
  "seg_rows start [] = []"
| "seg_rows start (g # gs) = (start, g) # seg_rows (start + int (length g)) gs"

lemma seg_rows_append: "seg_rows start (gs @ hs) = seg_rows start gs @ seg_rows (start + int (length (concat gs))) hs"
  by (induction gs arbitrary: start) (simp_all add: algebra_simps)

lemma pack_rows:
  "\<exists>gs. packSegments start cur held cs = seg_rows start gs \<and> concat gs = cur @ cs \<and> [] \<notin> set gs"
proof (induction start cur held cs rule: packSegments.induct)
  case (1 start cur held)
  show ?case by (cases "cur = []") (auto intro: exI [of _ "[]"] exI [of _ "[cur]"])
next
  case (2 start cur held c cs)
  show ?case
  proof (cases "cur \<noteq> [] \<and> held + length c > max_segment_bytes")
    case True
    then obtain gs where "packSegments (start + int (length cur)) [c] (length c) cs = seg_rows (start + int (length cur)) gs"
      "concat gs = [c] @ cs" "[] \<notin> set gs" using 2(1) by blast
    then show ?thesis using True by (intro exI [of _ "cur # gs"]) auto
  next
    case False
    then show ?thesis using 2(2) by (auto simp: if_not_P)
  qed
qed

lemma seg_row_content:
  assumes "(st, g) \<in> set (seg_rows start gs)"
  shows "start \<le> st" "take (length g) (drop (nat (st - start)) (concat gs)) = g"
    "nat (st - start) + length g \<le> length (concat gs)" "g \<in> set gs"
proof -
  have "start \<le> st \<and> take (length g) (drop (nat (st - start)) (concat gs)) = g \<and>
      nat (st - start) + length g \<le> length (concat gs) \<and> g \<in> set gs"
    using assms
  proof (induction gs arbitrary: start)
    case (Cons h gs)
    show ?case
    proof (cases "(st, g) = (start, h)")
      case False
      then have ih: "start + int (length h) \<le> st" "take (length g) (drop (nat (st - (start + int (length h)))) (concat gs)) = g"
        "nat (st - (start + int (length h))) + length g \<le> length (concat gs)" "g \<in> set gs"
        using Cons by auto
      have "nat (st - start) = length h + nat (st - (start + int (length h)))" using ih(1) by simp
      then show ?thesis using ih by simp
    qed simp
  qed simp
  then show "start \<le> st" "take (length g) (drop (nat (st - start)) (concat gs)) = g"
    "nat (st - start) + length g \<le> length (concat gs)" "g \<in> set gs" by simp_all
qed

lemma seg_rows_sorted: "[] \<notin> set gs \<Longrightarrow> sorted_wrt (<) (map fst (seg_rows start gs))"
proof (induction gs arbitrary: start)
  case (Cons g gs)
  have "start < st" if "(st, h) \<in> set (seg_rows (start + int (length g)) gs)" for st h
    using seg_row_content(1) [OF that] Cons.prems by (cases g) auto
  then show ?case using Cons by auto
qed simp

lemma seg_rows_functional:
  assumes "[] \<notin> set gs" "(st, g) \<in> set (seg_rows start gs)" "(st, h) \<in> set (seg_rows start gs)"
  shows "g = h"
proof -
  have "distinct (map fst (seg_rows start gs))"
    using seg_rows_sorted [OF assms(1), of start] strict_sorted_iff by blast
  then show ?thesis using assms(2,3) by (metis eq_key_imp_eq_value)
qed

text \<open>A segment is read back as it was written.\<close>

lemma get_u32_table:
  assumes "i < length ns" "\<forall>n \<in> set ns. n < 2 ^ 32" "length pre = 4"
  shows "get_u32 (4 + 4 * i) (pre @ concat (map put_u32 ns) @ r) = ns ! i"
  using assms
proof (induction i arbitrary: ns pre)
  case 0
  then show ?case using get_u32_at [of pre 4 "hd ns"] by (cases ns) auto
next
  case (Suc i)
  obtain n ms where ns: "ns = n # ms" using Suc.prems(1) by (cases ns) auto
  have "get_u32 (4 + 4 * i) (drop 4 (pre @ put_u32 n) @ concat (map put_u32 ms) @ r) = ms ! i"
    by (rule Suc.IH) (use Suc.prems ns in auto)
  then show ?case using Suc.prems(3) by (simp add: ns get_u32_def)
qed

lemma segment_chunks_read:
  assumes "v = pre @ concat gs @ post" "\<And>i. i < length gs \<Longrightarrow> get_u32 (4 + 4 * (k + i)) v = length (gs ! i)"
  shows "segment_chunks v (length gs) k (length pre) = Inr (gs, length pre + length (concat gs))"
  using assms
proof (induction gs arbitrary: k pre)
  case (Cons g gs)
  have len: "get_u32 (4 + 4 * k) v = length g" using Cons.prems(2) [of 0] by simp
  have "segment_chunks v (length gs) (k + 1) (length (pre @ g)) = Inr (gs, length (pre @ g) + length (concat gs))"
  proof (rule Cons.IH)
    show "v = (pre @ g) @ concat gs @ post" using Cons.prems(1) by simp
    show "get_u32 (4 + 4 * (k + 1 + i)) v = length (gs ! i)" if "i < length gs" for i
      using Cons.prems(2) [of "Suc i"] that by simp
  qed
  moreover have "take (length g) (drop (length pre) v) = g" "length pre + length g \<le> length v" using Cons.prems(1) by simp_all
  ultimately show ?case by (simp add: Let_def len not_less bindE_def)
qed simp

lemma decode_encode_segment:
  assumes "length g < 2 ^ 32" "\<forall>c \<in> set g. length c < 2 ^ 32"
  shows "decodeSegment (Some (SBytes (encodeSegment g))) \<lparr>sg_count = length g, sg_bytes = sum_list (map length g)\<rparr> = Inr g"
proof -
  let ?v = "encodeSegment g" and ?table = "concat (map put_u32 (map length g))"
  have v: "?v = (put_u32 (length g) @ ?table) @ concat g @ []" by (simp add: encodeSegment_def comp_def)
  have table: "length (put_u32 (length g) @ ?table) = 4 + 4 * length g"
    by (simp add: length_concat comp_def sum_list_triv)
  have read: "get_u32 0 ?v = length g" using assms(1) by (simp add: encodeSegment_def)
  have "get_u32 (4 + 4 * (0 + i)) ?v = length (g ! i)" if "i < length g" for i
    using get_u32_table [of i "map length g" "put_u32 (length g)" "concat g"] that assms(2) by (simp add: v)
  from segment_chunks_read [OF v this]
  have "segment_chunks ?v (length g) 0 (4 + 4 * length g) = Inr (g, 4 + 4 * length g + length (concat g))"
    unfolding table .
  moreover have "length ?v = 4 + 4 * length g + length (concat g)" unfolding v by (simp add: table [simplified])
  ultimately show ?thesis using read by (simp add: decodeSegment_def Let_def length_concat bindE_def)
qed

section \<open>Batched puts\<close>

lemma put_all_some: "kv_get k (kv_put_all es kv) = Some v \<Longrightarrow> (k, v) \<in> set es \<or> (kv_get k kv = Some v \<and> k \<notin> fst ` set es)"
  by (auto simp: kv_get_put_all map_of_eq_None_iff split: option.splits dest: map_of_SomeD)

lemma put_all_other:
  assumes "k \<notin> fst ` set es"
  shows "kv_get k (kv_put_all es kv) = kv_get k kv"
proof -
  have "map_of (rev es) k = None" using assms by (simp add: map_of_eq_None_iff)
  then show ?thesis by (simp add: kv_get_put_all)
qed

lemma put_all_in:
  assumes "(k, v) \<in> set es" "\<And>w. (k, w) \<in> set es \<Longrightarrow> w = v"
  shows "kv_get k (kv_put_all es kv) = Some v"
proof -
  have "map_of (rev es) k \<noteq> None" using assms(1) by (metis image_eqI fst_conv map_of_eq_None_iff set_rev)
  then obtain w where w: "map_of (rev es) k = Some w" by blast
  then have "(k, w) \<in> set es" using map_of_SomeD [OF w] by simp
  then show ?thesis using w assms(2) by (simp add: kv_get_put_all)
qed

section \<open>What a cell holds\<close>

abbreviation seg_size :: "bytes list \<Rightarrow> segment_size" where
  "seg_size g \<equiv> \<lparr>sg_count = length g, sg_bytes = sum_list (map length g)\<rparr>"

definition seg_sound :: "bytes list \<Rightarrow> sval kv \<Rightarrow> bytes list list \<Rightarrow> bool" where
  "seg_sound l kv segs \<longleftrightarrow> concat segs = l \<and> [] \<notin> set segs \<and>
     (\<forall>k v. kv_get k kv = Some v \<longrightarrow> has_prefix segment_key_prefix k \<longrightarrow>
        (\<exists>st g. (st, g) \<in> set (seg_rows 0 segs) \<and> k = segmentKey st \<and> v = SBytes (encodeSegment g))) \<and>
     (\<forall>k v. kv_get k kv = Some v \<longrightarrow> has_prefix segment_size_key_prefix k \<longrightarrow>
        (\<exists>st g. (st, g) \<in> set (seg_rows 0 segs) \<and> k = segmentSizeKey st \<and> v = SSegment (seg_size g)))"

definition seg_complete :: "sval kv \<Rightarrow> bytes list list \<Rightarrow> bool" where
  "seg_complete kv segs \<longleftrightarrow> (\<forall>st g. (st, g) \<in> set (seg_rows 0 segs) \<longrightarrow>
     kv_get (segmentKey st) kv = Some (SBytes (encodeSegment g)) \<and> kv_get (segmentSizeKey st) kv = Some (SSegment (seg_size g)))"

definition row_sound :: "bytes list \<Rightarrow> sval kv \<Rightarrow> bool" where
  "row_sound l kv \<longleftrightarrow>
     (\<forall>k v. kv_get k kv = Some v \<longrightarrow> has_prefix chunk_key_prefix k \<longrightarrow>
        (\<exists>i < length l. k = chunkKey (int i) \<and> v = SBytes (l ! i))) \<and>
     (\<forall>k v. kv_get k kv = Some v \<longrightarrow> has_prefix chunk_size_key_prefix k \<longrightarrow>
        (\<exists>i < length l. k = chunkSizeKey (int i) \<and> v = SSize (length (l ! i))))"

definition row_complete :: "bytes list \<Rightarrow> sval kv \<Rightarrow> bool" where
  "row_complete l kv \<longleftrightarrow> (\<forall>i < length l.
     kv_get (chunkKey (int i)) kv = Some (SBytes (l ! i)) \<and> kv_get (chunkSizeKey (int i)) kv = Some (SSize (length (l ! i))))"

definition log_fits :: "bytes list \<Rightarrow> bool" where
  "log_fits l \<longleftrightarrow> int (length l) \<le> max_stream_index \<and> (\<forall>c \<in> set l. length c \<le> max_stream_chunk_bytes)"

definition rows_hold :: "bool \<Rightarrow> bool \<Rightarrow> bytes list \<Rightarrow> sval kv \<Rightarrow> bool" where
  "rows_hold segments all_there l kv \<longleftrightarrow>
     (\<exists>segs. seg_sound (if segments then l else []) kv segs \<and> (all_there \<longrightarrow> seg_complete kv segs)) \<and>
     row_sound (if segments then [] else l) kv \<and> (all_there \<longrightarrow> row_complete (if segments then [] else l) kv)"

text \<open>\<open>stream_ok l s\<close>: the cell \<open>s\<close> is one to which \<open>l\<close> was written; rows may be missing only once it expired.\<close>

definition stream_ok :: "bytes list \<Rightarrow> stream \<Rightarrow> bool" where
  "stream_ok l s \<longleftrightarrow> kv_wf (st_kv s) \<and> log_fits l \<and>
     (\<exists>m. stored_meta (st_kv s) = Inr m \<and> (\<forall>c. st_meta s = Some c \<longrightarrow> c = m) \<and>
        (me_state m \<noteq> Stream_Expired \<longrightarrow> me_count m = int (length l)) \<and>
        rows_hold (me_segments m) (me_state m \<noteq> Stream_Expired) l (st_kv s))"

definition empty_stream :: stream where
  "empty_stream = \<lparr>st_kv = [], st_meta = None, st_version = 0\<rparr>"

lemma empty_stream_ok: "stream_ok [] empty_stream"
  by (auto simp: stream_ok_def empty_stream_def stored_meta_def emptyMeta_def log_fits_def max_stream_index_def kv_wf_def
      rows_hold_def seg_sound_def seg_complete_def row_sound_def row_complete_def intro!: exI [of _ "[]"])

section \<open>Metadata\<close>

lemma stored_meta_put [simp]:
  "stored_meta (kv_put meta_key (SMeta m) kv) = validateMeta (SMeta m)"
  by (simp add: stored_meta_def)

lemma valid_meta: "validateMeta (SMeta m) = Inr m' \<longleftrightarrow> m' = m \<and> 0 \<le> me_count m \<and> me_count m \<le> max_stream_index \<and>
    (me_state m = Stream_Errored \<longleftrightarrow> me_error m \<noteq> None)"
  by (auto simp: validateMeta_def bindE_eq_Inr safe_int_def max_safe_integer_def max_stream_index_def not_less)

lemma stored_meta_valid:
  assumes "stored_meta kv = Inr m"
  shows "0 \<le> me_count m" "me_count m \<le> max_stream_index" "me_state m = Stream_Errored \<longleftrightarrow> me_error m \<noteq> None"
proof -
  have "0 \<le> me_count m \<and> me_count m \<le> max_stream_index \<and> (me_state m = Stream_Errored \<longleftrightarrow> me_error m \<noteq> None)"
  proof (cases "kv_get meta_key kv")
    case None
    then show ?thesis using assms by (auto simp: stored_meta_def emptyMeta_def max_stream_index_def)
  next
    case (Some v)
    then show ?thesis using assms valid_meta
      by (cases v) (auto simp: stored_meta_def validateMeta_def)
  qed
  then show "0 \<le> me_count m" "me_count m \<le> max_stream_index" "me_state m = Stream_Errored \<longleftrightarrow> me_error m \<noteq> None" by blast+
qed

lemma no_meta: "kv_get meta_key kv = None \<Longrightarrow> stored_meta kv = Inr emptyMeta"
  by (simp add: stored_meta_def)

definition stream_row :: "string \<Rightarrow> bool" where
  "stream_row k \<longleftrightarrow> has_prefix segment_key_prefix k \<or> has_prefix segment_size_key_prefix k \<or>
     has_prefix chunk_key_prefix k \<or> has_prefix chunk_size_key_prefix k"

lemma row_key_simps' [simp]:
  "stream_row (segmentKey i)" "stream_row (segmentSizeKey i)" "stream_row (chunkKey i)" "stream_row (chunkSizeKey i)" "\<not> stream_row meta_key"
  by (simp_all add: stream_row_def)

lemma rows_hold_keep:
  assumes same: "\<And>k. stream_row k \<Longrightarrow> kv_get k kv' = kv_get k kv" and h: "rows_hold b a l kv"
  shows "rows_hold b a l kv'"
proof -
  have e: "kv_get k kv' = kv_get k kv" if "has_prefix segment_key_prefix k \<or> has_prefix segment_size_key_prefix k \<or>
      has_prefix chunk_key_prefix k \<or> has_prefix chunk_size_key_prefix k" for k
    using same that by (simp add: stream_row_def)
  have "seg_sound l' kv' segs" if "seg_sound l' kv segs" for l' segs
    using that unfolding seg_sound_def by (metis e)
  moreover have "row_sound l' kv'" if "row_sound l' kv" for l'
    using that unfolding row_sound_def by (metis e)
  moreover have "seg_complete kv' segs \<longleftrightarrow> seg_complete kv segs" for segs by (simp add: seg_complete_def same)
  moreover have "row_complete l' kv' \<longleftrightarrow> row_complete l' kv" for l' by (simp add: row_complete_def same)
  ultimately show ?thesis using h unfolding rows_hold_def by blast
qed

lemma rows_hold_cong:
  assumes "\<And>k. stream_row k \<Longrightarrow> kv_get k kv' = kv_get k kv"
  shows "rows_hold b a l kv' \<longleftrightarrow> rows_hold b a l kv"
  using rows_hold_keep [of kv' kv b a l] rows_hold_keep [of kv kv' b a l] assms by metis

lemma rows_hold_put: "\<not> stream_row k \<Longrightarrow> rows_hold b a l (kv_put k v kv) \<longleftrightarrow> rows_hold b a l kv"
  by (rule rows_hold_cong) auto

section \<open>Writing\<close>

definition seg_entries :: "(int \<times> bytes list) list \<Rightarrow> (string \<times> sval) list" where
  "seg_entries rows = concat (map (\<lambda>(start, seg).
     [(segmentKey start, SBytes (encodeSegment seg)), (segmentSizeKey start, SSegment (seg_size seg))]) rows)"

lemma seg_entries_mem:
  "(k, v) \<in> set (seg_entries rows) \<longleftrightarrow> (\<exists>st g. (st, g) \<in> set rows \<and>
     ((k = segmentKey st \<and> v = SBytes (encodeSegment g)) \<or> (k = segmentSizeKey st \<and> v = SSegment (seg_size g))))"
  by (auto simp: seg_entries_def)

lemma seg_row_range:
  assumes "(st, g) \<in> set (seg_rows start gs)" "0 \<le> start" "start + int (length (concat gs)) \<le> max_stream_index"
  shows "in_range st" "0 \<le> st" "st + int (length g) \<le> max_stream_index"
proof -
  have "start \<le> st" "nat (st - start) + length g \<le> length (concat gs)" using seg_row_content [OF assms(1)] by simp_all
  then show "0 \<le> st" and le: "st + int (length g) \<le> max_stream_index" using assms(2,3) by linarith+
  then show "in_range st" by (simp add: stream_index_range)
qed

lemma seg_write:
  assumes snd0: "seg_sound l kv segs" and cmp: "seg_complete kv segs"
    and gs: "concat gs = cs" "[] \<notin> set gs" and fits: "int (length (l @ cs)) \<le> max_stream_index"
    and es: "es = (meta_key, SMeta m) # seg_entries (seg_rows (int (length l)) gs)"
  shows "seg_sound (l @ cs) (kv_put_all es kv) (segs @ gs)" "seg_complete (kv_put_all es kv) (segs @ gs)"
proof -
  let ?old = "seg_rows 0 segs" and ?new = "seg_rows (int (length l)) gs" and ?kv = "kv_put_all es kv"
  have cat: "concat segs = l" "[] \<notin> set segs" using snd0 by (simp_all add: seg_sound_def)
  have rows: "seg_rows 0 (segs @ gs) = ?old @ ?new" by (simp add: seg_rows_append cat)
  have ne: "[] \<notin> set (segs @ gs)" using cat(2) gs(2) by simp
  have range: "in_range st" if "(st, g) \<in> set (?old @ ?new)" for st g
    using seg_row_range(1) [of st g 0 "segs @ gs"] that fits cat(1) gs(1) by (simp add: rows)
  have fn: "g = h" if "(st, g) \<in> set (?old @ ?new)" "(st, h) \<in> set (?old @ ?new)" for st g h
    using seg_rows_functional [OF ne, of st g 0 h] that unfolding rows by blast
  have mem: "(k, v) \<in> set es \<longleftrightarrow> (k = meta_key \<and> v = SMeta m) \<or> (k, v) \<in> set (seg_entries ?new)" for k v
    by (auto simp: es)
  have new_rows: "kv_get (segmentKey st) ?kv = Some (SBytes (encodeSegment g)) \<and>
      kv_get (segmentSizeKey st) ?kv = Some (SSegment (seg_size g))" if r: "(st, g) \<in> set ?new" for st g
  proof -
    have u: "h = g" if "(st', h) \<in> set ?new" "st' = st" for st' h using fn r that by auto
    have inj: "segmentKey st = segmentKey st' \<longleftrightarrow> st' = st" "segmentSizeKey st = segmentSizeKey st' \<longleftrightarrow> st' = st"
      if "(st', h) \<in> set ?new" for st' h
      using row_key_inj(1,2) [OF range range, of st g st' h] that r by auto
    show ?thesis
      by (intro conjI put_all_in; (use r in \<open>force simp: mem seg_entries_mem\<close>)?)
        (auto simp: mem seg_entries_mem inj dest: u)
  qed
  have old_rows: "kv_get (segmentKey st) ?kv = Some (SBytes (encodeSegment g)) \<and>
      kv_get (segmentSizeKey st) ?kv = Some (SSegment (seg_size g))" if r: "(st, g) \<in> set ?old" for st g
  proof -
    have "st \<noteq> st'" if n: "(st', h) \<in> set ?new" for st' h
    proof -
      have "g \<noteq> []" using seg_row_content(4) [OF r] cat(2) by auto
      then have "st < int (length l)" using seg_row_content(1,3) [OF r] cat(1) by (cases g) auto
      then show ?thesis using seg_row_content(1) [OF n] by simp
    qed
    then have "segmentKey st \<notin> fst ` set es" "segmentSizeKey st \<notin> fst ` set es"
      using row_key_inj(1,2) [OF range range, of st g] r by (auto simp: mem seg_entries_mem image_iff) (metis Un_iff set_append)+
    then show ?thesis using cmp r by (simp add: put_all_other seg_complete_def)
  qed
  show "seg_complete ?kv (segs @ gs)" unfolding seg_complete_def rows using new_rows old_rows by auto
  have sound: "(\<exists>st g. (st, g) \<in> set (seg_rows 0 (segs @ gs)) \<and> k = segmentKey st \<and> v = SBytes (encodeSegment g)) \<or>
      (\<exists>st g. (st, g) \<in> set (seg_rows 0 (segs @ gs)) \<and> k = segmentSizeKey st \<and> v = SSegment (seg_size g)) \<or>
      (\<not> has_prefix segment_key_prefix k \<and> \<not> has_prefix segment_size_key_prefix k)" if "kv_get k ?kv = Some v" for k v
    using put_all_some [OF that] snd0 unfolding mem seg_entries_mem seg_sound_def rows by (auto; blast)
  show "seg_sound (l @ cs) ?kv (segs @ gs)"
    unfolding seg_sound_def using cat gs sound by auto (metis row_key_kinds(1,2))+
qed

end
