(* ===== verification/StreamSteps.thy ===== *)
theory StreamSteps
  imports StreamFacts
begin

text \<open>
  The requests that change a stream cell, one after the other, with the log of the chunks that were
  accepted: the cell holds that log (\<open>stream_ok\<close>), and the log of a finished stream does not grow.
\<close>

section \<open>Rows of the older layout\<close>

definition row_entries :: "nat \<Rightarrow> bytes list \<Rightarrow> (string \<times> sval) list" where
  "row_entries start chunks = concat (map (\<lambda>(index, c). [(chunkKey index, SBytes c), (chunkSizeKey index, SSize (length c))])
     (zip (map (\<lambda>n. int start + int n) [0..<length chunks]) chunks))"

lemma row_entries_mem:
  "(k, v) \<in> set (row_entries start cs) \<longleftrightarrow> (\<exists>i < length cs.
     (k = chunkKey (int (start + i)) \<and> v = SBytes (cs ! i)) \<or> (k = chunkSizeKey (int (start + i)) \<and> v = SSize (length (cs ! i))))"
  by (force simp: row_entries_def set_zip)

lemma row_write:
  assumes snd0: "row_sound l kv" and cmp: "row_complete l kv" and fits: "int (length (l @ cs)) \<le> max_stream_index"
    and es: "es = (meta_key, SMeta m) # row_entries (length l) cs"
  shows "row_sound (l @ cs) (kv_put_all es kv)" "row_complete (l @ cs) (kv_put_all es kv)"
proof -
  let ?kv = "kv_put_all es kv"
  have mem: "(k, v) \<in> set es \<longleftrightarrow> (k = meta_key \<and> v = SMeta m) \<or> (k, v) \<in> set (row_entries (length l) cs)" for k v
    by (auto simp: es)
  have inj: "chunkKey (int i) = chunkKey (int j) \<longleftrightarrow> i = j" "chunkSizeKey (int i) = chunkSizeKey (int j) \<longleftrightarrow> i = j"
    if "i < length (l @ cs)" "j < length (l @ cs)" for i j
    using row_key_inj(3,4) [OF stream_index_range stream_index_range, of "int i" "int j"] that fits by auto
  have new: "kv_get (chunkKey (int (length l + i))) ?kv = Some (SBytes (cs ! i)) \<and>
      kv_get (chunkSizeKey (int (length l + i))) ?kv = Some (SSize (length (cs ! i)))" if i: "i < length cs" for i
  proof -
    have "j = i" if "j < length cs" "chunkKey (int (length l + i)) = chunkKey (int (length l + j)) \<or>
        chunkSizeKey (int (length l + i)) = chunkSizeKey (int (length l + j))" for j
      using inj [of "length l + i" "length l + j"] that i by auto
    then show ?thesis using i
      by (intro conjI put_all_in) (auto simp: mem row_entries_mem simp del: of_nat_add)
  qed
  have old: "kv_get (chunkKey (int i)) ?kv = Some (SBytes (l ! i)) \<and>
      kv_get (chunkSizeKey (int i)) ?kv = Some (SSize (length (l ! i)))" if i: "i < length l" for i
  proof -
    have "chunkKey (int i) \<noteq> chunkKey (int (length l + j)) \<and> chunkSizeKey (int i) \<noteq> chunkSizeKey (int (length l + j))"
      if "j < length cs" for j
      using inj [of i "length l + j"] i that by simp
    then have "chunkKey (int i) \<notin> fst ` set es" "chunkSizeKey (int i) \<notin> fst ` set es"
      by (auto simp: mem row_entries_mem image_iff simp del: of_nat_add) blast+
    then show ?thesis using cmp i by (simp add: put_all_other row_complete_def)
  qed
  show "row_complete (l @ cs) ?kv"
    unfolding row_complete_def
  proof (intro allI impI)
    fix i assume i: "i < length (l @ cs)"
    show "kv_get (chunkKey (int i)) ?kv = Some (SBytes ((l @ cs) ! i)) \<and>
        kv_get (chunkSizeKey (int i)) ?kv = Some (SSize (length ((l @ cs) ! i)))"
    proof (cases "i < length l")
      case True
      then show ?thesis using old by (simp add: nth_append)
    next
      case False
      then show ?thesis using new [of "i - length l"] i by (simp add: nth_append)
    qed
  qed
  have at: "(l @ cs) ! i = l ! i" "i < length (l @ cs)" if "i < length l" for i using that by (simp_all add: nth_append)
  have at': "(l @ cs) ! (length l + i) = cs ! i" "length l + i < length (l @ cs)" if "i < length cs" for i using that by simp_all
  note before = snd0 [unfolded row_sound_def, THEN conjunct1, rule_format] snd0 [unfolded row_sound_def, THEN conjunct2, rule_format]
  have "\<exists>i < length (l @ cs). k = chunkKey (int i) \<and> v = SBytes ((l @ cs) ! i)"
    if k: "kv_get k ?kv = Some v" "has_prefix chunk_key_prefix k" for k v
  proof -
    from put_all_some [OF k(1)]
    consider i where "i < length cs" "k = chunkKey (int (length l + i))" "v = SBytes (cs ! i)"
      | i where "i < length l" "k = chunkKey (int i)" "v = SBytes (l ! i)"
      using k(2) unfolding mem row_entries_mem by (auto dest: before)
    then show ?thesis by cases (metis at' | metis at)+
  qed
  moreover have "\<exists>i < length (l @ cs). k = chunkSizeKey (int i) \<and> v = SSize (length ((l @ cs) ! i))"
    if k: "kv_get k ?kv = Some v" "has_prefix chunk_size_key_prefix k" for k v
  proof -
    from put_all_some [OF k(1)]
    consider i where "i < length cs" "k = chunkSizeKey (int (length l + i))" "v = SSize (length (cs ! i))"
      | i where "i < length l" "k = chunkSizeKey (int i)" "v = SSize (length (l ! i))"
      using k(2) unfolding mem row_entries_mem by (auto dest: before)
    then show ?thesis by cases (metis at' | metis at)+
  qed
  ultimately show "row_sound (l @ cs) ?kv" unfolding row_sound_def by blast
qed

section \<open>Writing\<close>

lemma check_chunks_bound: "check_chunks n cs = Inr m \<Longrightarrow> \<forall>c \<in> set cs. length c \<le> max_stream_chunk_bytes"
  by (induction cs arbitrary: n) (auto simp: bindE_eq_Inr)

lemma write_entries_rows: "me_segments m \<Longrightarrow> write_entries m st cs = (meta_key, SMeta m) # seg_entries (packSegments st [] 0 cs)"
  "\<not> me_segments m \<Longrightarrow> write_entries m (int n) cs = (meta_key, SMeta m) # row_entries n cs"
  by (simp_all add: write_entries_def seg_entries_def row_entries_def)

lemma entries_kinds:
  "(k, v) \<in> set (seg_entries rows) \<Longrightarrow> has_prefix segment_key_prefix k \<or> has_prefix segment_size_key_prefix k"
  "(k, v) \<in> set (row_entries n cs) \<Longrightarrow> has_prefix chunk_key_prefix k \<or> has_prefix chunk_size_key_prefix k"
  by (auto simp: seg_entries_mem row_entries_mem simp del: of_nat_add)

lemma key_kind_unique:
  "has_prefix segment_key_prefix k \<or> has_prefix segment_size_key_prefix k \<Longrightarrow>
     \<not> has_prefix chunk_key_prefix k \<and> \<not> has_prefix chunk_size_key_prefix k"
  by (auto simp: stream_key_defs has_prefix_iff)

lemma pair_rows: "(k, v) \<in> set (concat (map (\<lambda>(i, c). [(f i, a i c), (g i, b i c)]) xs)) \<Longrightarrow> \<exists>i. k = f i \<or> k = g i"
  by (induction xs) auto

lemma write_meta: "stored_meta (kv_put_all (write_entries m st cs) kv) = validateMeta (SMeta m)"
proof -
  let ?rest = "tl (write_entries m st cs)"
  have es: "write_entries m st cs = (meta_key, SMeta m) # ?rest" by (simp add: write_entries_def)
  have "(meta_key, v) \<notin> set ?rest" for v
    by (cases "me_segments m") (simp_all only: write_entries_def if_True if_False list.sel, (rule notI, drule pair_rows, simp)+)
  then have "v = SMeta m" if "(meta_key, v) \<in> set (write_entries m st cs)" for v using that es by (metis prod.inject set_ConsD)
  then have "kv_get meta_key (kv_put_all (write_entries m st cs) kv) = Some (SMeta m)"
    using es by (intro put_all_in) (metis list.set_intros(1))
  then show ?thesis by (simp add: stored_meta_def)
qed

lemma seg_sound_keep:
  assumes e: "\<And>k. has_prefix segment_key_prefix k \<or> has_prefix segment_size_key_prefix k \<Longrightarrow> kv_get k kv' = kv_get k kv"
  shows "seg_sound l kv segs \<Longrightarrow> seg_sound l kv' segs" "seg_complete kv segs \<Longrightarrow> seg_complete kv' segs"
proof -
  show "seg_sound l kv segs \<Longrightarrow> seg_sound l kv' segs" unfolding seg_sound_def using e by (elim conjE, intro conjI allI impI) auto
  show "seg_complete kv segs \<Longrightarrow> seg_complete kv' segs" by (simp add: seg_complete_def e)
qed

lemma row_sound_keep:
  assumes e: "\<And>k. has_prefix chunk_key_prefix k \<or> has_prefix chunk_size_key_prefix k \<Longrightarrow> kv_get k kv' = kv_get k kv"
  shows "row_sound l kv \<Longrightarrow> row_sound l kv'" "row_complete l kv \<Longrightarrow> row_complete l kv'"
proof -
  show "row_sound l kv \<Longrightarrow> row_sound l kv'" unfolding row_sound_def using e by (elim conjE, intro conjI allI impI) auto
  show "row_complete l kv \<Longrightarrow> row_complete l kv'" by (simp add: row_complete_def e)
qed

definition rows_kept :: "sval kv \<Rightarrow> sval kv \<Rightarrow> bool" where
  "rows_kept kv kv' \<longleftrightarrow> (\<forall>k v. stream_row k \<longrightarrow> kv_get k kv = Some v \<longrightarrow> kv_get k kv' = Some v)"

lemma kept_rows:
  assumes "seg_sound l0 kv segs" "seg_complete kv' (segs @ gs)" "row_sound l kv" "row_complete (l @ cs) kv'"
  shows "rows_kept kv kv'"
proof -
  have "seg_rows 0 (segs @ gs) = seg_rows 0 segs @ seg_rows (int (length (concat segs))) gs" by (simp add: seg_rows_append)
  then have segs: "kv_get (segmentKey st) kv' = Some (SBytes (encodeSegment g)) \<and> kv_get (segmentSizeKey st) kv' = Some (SSegment (seg_size g))"
    if "(st, g) \<in> set (seg_rows 0 segs)" for st g using assms(2) that by (simp add: seg_complete_def)
  have rows: "kv_get (chunkKey (int i)) kv' = Some (SBytes (l ! i)) \<and> kv_get (chunkSizeKey (int i)) kv' = Some (SSize (length (l ! i)))"
    if "i < length l" for i using assms(4) that by (simp add: row_complete_def nth_append)
  note before = assms(1) [unfolded seg_sound_def, THEN conjunct2, THEN conjunct2, THEN conjunct1, rule_format]
    assms(1) [unfolded seg_sound_def, THEN conjunct2, THEN conjunct2, THEN conjunct2, rule_format]
    assms(3) [unfolded row_sound_def, THEN conjunct1, rule_format] assms(3) [unfolded row_sound_def, THEN conjunct2, rule_format]
  show ?thesis unfolding rows_kept_def stream_row_def
    by (intro allI impI, elim disjE) (use segs rows in \<open>blast dest: before\<close>)+
qed

lemma write_rows:
  assumes "rows_hold b True l kv" "me_segments m = (b \<or> l = [] \<and> me_segments m)" "b \<longrightarrow> me_segments m"
    "int (length (l @ cs)) \<le> max_stream_index"
  shows "rows_hold (me_segments m) True (l @ cs) (kv_put_all (write_entries m (int (length l)) cs) kv) \<and>
    rows_kept kv (kv_put_all (write_entries m (int (length l)) cs) kv)"
proof (cases "me_segments m")
  case True
  then have here: "rows_hold True True l kv" using assms(1,2) by (auto simp: rows_hold_def)
  then obtain segs where segs: "seg_sound l kv segs" "seg_complete kv segs" "row_sound [] kv" "row_complete [] kv"
    by (auto simp: rows_hold_def)
  obtain gs where gs: "packSegments (int (length l)) [] 0 cs = seg_rows (int (length l)) gs" "concat gs = cs" "[] \<notin> set gs"
    using pack_rows [of "int (length l)" "[]" 0 cs] by auto
  let ?kv = "kv_put_all (write_entries m (int (length l)) cs) kv"
  have es: "write_entries m (int (length l)) cs = (meta_key, SMeta m) # seg_entries (seg_rows (int (length l)) gs)"
    by (simp add: write_entries_rows(1) [OF True] gs(1))
  have "kv_get k ?kv = kv_get k kv" if "has_prefix chunk_key_prefix k \<or> has_prefix chunk_size_key_prefix k" for k
  proof (rule put_all_other)
    show "k \<notin> fst ` set (write_entries m (int (length l)) cs)"
      using that key_kind_unique [of k] entries_kinds(1) [of k] unfolding es by auto
  qed
  from row_sound_keep [OF this] have rows: "row_sound [] ?kv" "row_complete [] ?kv" using segs by blast+
  note new = seg_write [OF segs(1,2) gs(2,3) assms(4) es]
  have "rows_kept kv ?kv" using kept_rows [OF segs(1) new(2) segs(3), of "[]"] rows by simp
  then show ?thesis using True new rows by (auto simp: rows_hold_def)
next
  case False
  then have here: "rows_hold False True l kv" using assms(1,3) by auto
  then obtain segs where segs: "seg_sound [] kv segs" "seg_complete kv segs" and rows: "row_sound l kv" "row_complete l kv"
    by (auto simp: rows_hold_def)
  let ?kv = "kv_put_all (write_entries m (int (length l)) cs) kv"
  note es = write_entries_rows(2) [OF False, of "length l" cs]
  have "kv_get k ?kv = kv_get k kv" if "has_prefix segment_key_prefix k \<or> has_prefix segment_size_key_prefix k" for k
  proof (rule put_all_other)
    show "k \<notin> fst ` set (write_entries m (int (length l)) cs)"
      using that key_kind_unique [of k] entries_kinds(2) [of k] unfolding es by auto
  qed
  from seg_sound_keep [OF this] have "seg_sound [] ?kv segs" "seg_complete ?kv segs" using segs by blast+
  note old = this and new = row_write [OF rows assms(4) es]
  have "rows_kept kv ?kv" using kept_rows [OF segs(1) _ rows(1) new(2), of "[]"] old by simp
  then show ?thesis using False old new by (auto simp: rows_hold_def)
qed

text \<open>What can happen to a cell and its log: the log only grows, not at all once the stream is finished, and the
  owner and (once something was written) the layout stay.\<close>

definition meta_later :: "stream_meta \<Rightarrow> bytes list \<Rightarrow> stream_meta \<Rightarrow> bytes list \<Rightarrow> bool" where
  "meta_later m l m' l' \<longleftrightarrow> (\<exists>cs. l' = l @ cs) \<and>
     (me_state m \<noteq> Stream_Open \<longrightarrow> l' = l \<and> (me_state m' = Stream_Expired \<or> (me_state m' = me_state m \<and> me_error m' = me_error m))) \<and>
     (l \<noteq> [] \<longrightarrow> me_segments m' = me_segments m) \<and> (me_owner m \<noteq> None \<longrightarrow> me_owner m' = me_owner m)"

definition cell_later :: "stream \<Rightarrow> bytes list \<Rightarrow> stream \<Rightarrow> bytes list \<Rightarrow> bool" where
  "cell_later s l s' l' \<longleftrightarrow> (\<exists>m m'. stored_meta (st_kv s) = Inr m \<and> stored_meta (st_kv s') = Inr m' \<and> meta_later m l m' l' \<and>
     (me_state m' \<noteq> Stream_Expired \<longrightarrow> rows_kept (st_kv s) (st_kv s')))"

lemma rows_kept_refl [simp]: "rows_kept kv kv"
  by (simp add: rows_kept_def)

lemma meta_later_trans: "meta_later m l m' l' \<Longrightarrow> meta_later m' l' m'' l'' \<Longrightarrow> meta_later m l m'' l''"
  unfolding meta_later_def by (elim conjE exE, intro conjI impI) auto

lemma cell_later_trans: "cell_later s l s' l' \<Longrightarrow> cell_later s' l' s'' l'' \<Longrightarrow> cell_later s l s'' l''"
proof -
  assume "cell_later s l s' l'" "cell_later s' l' s'' l''"
  then obtain m m' m'' where m: "stored_meta (st_kv s) = Inr m" "stored_meta (st_kv s') = Inr m'" "stored_meta (st_kv s'') = Inr m''"
    and later: "meta_later m l m' l'" "meta_later m' l' m'' l''"
    and kept: "me_state m' \<noteq> Stream_Expired \<longrightarrow> rows_kept (st_kv s) (st_kv s')" "me_state m'' \<noteq> Stream_Expired \<longrightarrow> rows_kept (st_kv s') (st_kv s'')"
    unfolding cell_later_def by fastforce
  have "me_state m' \<noteq> Stream_Expired" if "me_state m'' \<noteq> Stream_Expired" using that later(2) by (auto simp: meta_later_def)
  then show ?thesis using m meta_later_trans [OF later] kept by (auto simp: cell_later_def rows_kept_def)
qed

lemma meta_later_refl: "meta_later m l m l"
  by (simp add: meta_later_def)

lemma stream_ok_meta: "stream_ok l s \<Longrightarrow> \<exists>m. stored_meta (st_kv s) = Inr m"
  by (auto simp: stream_ok_def)

lemma cell_later_refl: "stream_ok l s \<Longrightarrow> cell_later s l s l"
  using stream_ok_meta [of l s] by (auto simp: cell_later_def meta_later_refl)

lemma write_ok:
  assumes ok: "stream_ok l s" and w: "writeChunks runId cs s = Inr (r, s')"
  shows "stream_ok (l @ cs) s'" "wr_start r = int (length l)" "wr_count r = int (length cs)" "wr_tail r = int (length (l @ cs)) - 1"
    "cell_later s l s' (l @ cs)"
proof -
  obtain m where m: "stored_meta (st_kv s) = Inr m" "me_state m \<noteq> Stream_Expired \<Longrightarrow> me_count m = int (length l)"
    "rows_hold (me_segments m) (me_state m \<noteq> Stream_Expired) l (st_kv s)" and wf: "kv_wf (st_kv s)" and fits: "log_fits l"
    using ok unfolding stream_ok_def by blast
  from w obtain bytes0 where v: "validateStreamWriteChunks cs = Inr bytes0" and t: "mutate (writeTxn runId cs) s = Inr (r, s')"
    unfolding writeChunks_def by (auto simp: bindE_eq_Inr)
  have small: "\<forall>c \<in> set cs. length c \<le> max_stream_chunk_bytes"
    using v check_chunks_bound unfolding validateStreamWriteChunks_def by (auto simp: bindE_eq_Inr)
  define b where "b = (if kv_get meta_key (st_kv s) = None then True else me_segments m)"
  define m' where "m' = emptyMeta\<lparr>me_count := me_count m + int (length cs), me_owner := Some runId, me_segments := b\<rparr>"
  let ?es = "write_entries m' (me_count m) cs"
  from t have open0: "me_state m = Stream_Open" and own: "me_owner m = None \<or> me_owner m = Some runId" and lim: "me_count m + int (length cs) \<le> max_stream_index"
    and r: "r = \<lparr>wr_start = me_count m, wr_count = int (length cs), wr_tail = me_count m' - 1\<rparr>"
    and s': "s' = s\<lparr>st_kv := kv_put_all ?es (st_kv s), st_meta := Some m', st_version := st_version s + 1\<rparr>"
    by (auto simp: mutate_def writeTxn_def m(1) bindE_eq_Inr assertWritable_def assertOwner_def Let_def b_def m'_def
        intro: stream_state.exhaust [of "me_state m"])
  have count: "me_count m = int (length l)" using m(2) open0 by simp
  have "0 \<le> me_count m" using stored_meta_valid(1) [OF m(1)] .
  then have m'_ok: "validateMeta (SMeta m') = Inr m'" using lim by (simp add: valid_meta) (simp add: m'_def emptyMeta_def)
  have layout: "me_segments m' = (me_segments m \<or> l = [] \<and> me_segments m')" "me_segments m \<longrightarrow> me_segments m'"
    using m(1) count by (auto simp: m'_def b_def no_meta emptyMeta_def)
  have rows: "rows_hold (me_segments m') True (l @ cs) (kv_put_all ?es (st_kv s)) \<and> rows_kept (st_kv s) (kv_put_all ?es (st_kv s))"
    unfolding count by (rule write_rows [OF _ layout]) (use m(3) open0 lim count in auto)
  have "log_fits (l @ cs)" using fits small lim count by (auto simp: log_fits_def)
  moreover have "me_state m' = Stream_Open" "me_count m' = int (length (l @ cs))" "me_owner m' = Some runId" by (simp_all add: m'_def emptyMeta_def count)
  ultimately show "stream_ok (l @ cs) s'" using rows wf m'_ok by (simp add: stream_ok_def s' kv_wf_put_all write_meta)
  show "wr_start r = int (length l)" "wr_count r = int (length cs)" "wr_tail r = int (length (l @ cs)) - 1"
    by (simp_all add: r count m'_def emptyMeta_def)
  show "cell_later s l s' (l @ cs)"
    unfolding cell_later_def meta_later_def using m(1) m'_ok open0 own layout rows by (auto simp: s' write_meta m'_def emptyMeta_def)
qed

section \<open>The other requests\<close>

text \<open>A change that writes metadata \<open>m'\<close> and at most deletes rows.\<close>

lemma rows_hold_del: "rows_hold b a l kv \<Longrightarrow> rows_hold b False l (kv_del_all ks kv)"
  by (auto simp: rows_hold_def seg_sound_def row_sound_def split: if_splits)

lemma end_ok:
  assumes ok: "stream_ok l s" and e: "mutate (endTxn runId st err) s = Inr (r, s')"
    and st: "st = Stream_Closed \<and> err = None \<or> st = Stream_Errored \<and> err \<noteq> None"
  shows "stream_ok l s'" "cell_later s l s' l"
proof -
  obtain m where m: "stored_meta (st_kv s) = Inr m" "me_state m \<noteq> Stream_Expired \<Longrightarrow> me_count m = int (length l)"
    "rows_hold (me_segments m) (me_state m \<noteq> Stream_Expired) l (st_kv s)" and wf: "kv_wf (st_kv s)" and fits: "log_fits l"
    using ok unfolding stream_ok_def by blast
  let ?m = "m\<lparr>me_owner := Some runId, me_state := st, me_error := (if err = None then me_error m else err)\<rparr>"
  from e have own: "me_owner m = None \<or> me_owner m = Some runId" and live: "me_state m \<noteq> Stream_Expired"
    and s': "s' = (if me_state m \<noteq> Stream_Open then s\<lparr>st_meta := Some m, st_version := st_version s + 1\<rparr>
           else s\<lparr>st_kv := kv_put meta_key (SMeta ?m) (st_kv s), st_meta := Some ?m, st_version := st_version s + 1\<rparr>)"
    by (auto simp: mutate_def endTxn_def m(1) bindE_eq_Inr assertOwner_def Let_def split: if_splits)
  have "stream_ok l s' \<and> cell_later s l s' l"
  proof (cases "me_state m = Stream_Open")
    case False
    then show ?thesis using s' m wf fits by (auto simp: stream_ok_def cell_later_def meta_later_refl)
  next
    case True
    have v: "validateMeta (SMeta ?m) = Inr ?m" using stored_meta_valid [OF m(1)] True st by (auto simp: valid_meta)
    have "stream_ok l s'" using s' True m wf fits st v by (auto simp: stream_ok_def kv_wf_put rows_hold_put)
    moreover have "cell_later s l s' l" using s' True m(1) v own by (auto simp: cell_later_def meta_later_def rows_kept_def)
    ultimately show ?thesis by blast
  qed
  then show "stream_ok l s'" "cell_later s l s' l" by blast+
qed

lemma chunk_page_keys:
  assumes "expireChunkPage limit byteLimit kv = Inr (x, kv')"
  shows "\<exists>ks. kv' = kv_del_all ks kv \<and> list_all stream_row ks"
proof -
  from assms obtain page where "kv' = kv_del_all (concat (map (\<lambda>i. [chunkKey i, chunkSizeKey i]) page)) kv"
    unfolding expireChunkPage_def by (auto simp: Let_def bindE_eq_Inr)
  then show ?thesis by (intro exI conjI) (auto simp: list_all_iff)
qed

lemma segment_page_keys:
  assumes "expireSegmentPage limit byteLimit kv = Inr (x, kv')"
  shows "\<exists>ks. kv' = kv_del_all ks kv \<and> list_all stream_row ks"
proof -
  from assms obtain page where "kv' = kv_del_all (concat (map (\<lambda>i. [segmentKey i, segmentSizeKey i]) page)) kv"
    unfolding expireSegmentPage_def by (auto simp: Let_def bindE_eq_Inr)
  then show ?thesis by (intro exI conjI) (auto simp: list_all_iff)
qed

lemma mutate_result: "mutate f s = Inr (r, s') \<longleftrightarrow>
    (\<exists>m kv. f (st_kv s) = Inr (m, r, kv) \<and> s' = s\<lparr>st_kv := kv, st_meta := Some m, st_version := st_version s + 1\<rparr>)"
  by (auto simp: mutate_def bindE_eq_Inr)

lemma expire_result:
  assumes m: "stored_meta kv = Inr m" and e: "expireTxn runId t limit byteLimit kv = Inr (m', r, kv'')"
  shows "\<exists>ks. list_all stream_row ks \<and> (me_owner m = None \<or> me_owner m = Some runId) \<and>
    ((m' = m \<and> kv'' = kv_del_all ks kv \<and> me_state m = Stream_Expired) \<or>
     (kv'' = kv_put meta_key (SMeta m') (kv_del_all ks kv) \<and> me_state m' = Stream_Expired \<and> me_error m' = None \<and> me_owner m' = Some runId \<and>
         me_segments m' = me_segments m \<and> (me_count m' = 0 \<or> me_count m' = me_count m)))"
proof -
  let ?page = "if me_segments m then expireSegmentPage limit byteLimit kv else expireChunkPage limit byteLimit kv"
  from e obtain pg where page: "?page = Inr pg" and own: "assertOwner m runId = Inr ()"
    unfolding expireTxn_def m bindE_simps bindE_eq_Inr [of "assertOwner m runId"] bindE_eq_Inr [of ?page]
    by (elim exE conjE) simp
  obtain chunks bytes1 finished kv' where pg: "pg = ((chunks, bytes1, finished), kv')" by (cases pg) auto
  obtain ks where ks: "kv' = kv_del_all ks kv" "list_all stream_row ks"
    using page chunk_page_keys segment_page_keys unfolding pg by (metis (full_types))
  show ?thesis
  proof (cases "finished \<and> chunks = 0 \<and> me_state m = Stream_Expired \<and> me_deleted m = Some True")
    case True
    then have "m' = m \<and> kv'' = kv'" using e by (simp only: expireTxn_def m bindE_simps own page pg prod.case) simp
    then show ?thesis using True ks own by (auto simp: assertOwner_def bindE_eq_Inr)
  next
    case False
    let ?m = "m\<lparr>me_count := (if finished then 0 else me_count m), me_owner := Some runId,
                     me_state := Stream_Expired, me_error := None,
                     me_expired_at := (if me_expired_at m = None then Some t else me_expired_at m),
                     me_expired_count := (if me_expired_count m = None then Some (me_count m) else me_expired_count m),
                     me_deleted := Some finished\<rparr>"
    have "m' = ?m \<and> kv'' = kv_put meta_key (SMeta ?m) kv'"
      using e by (simp only: expireTxn_def m bindE_simps own page pg prod.case if_not_P [OF False] Let_def sum.inject prod.inject) (elim conjE, simp)
    then show ?thesis using ks own by (auto simp: assertOwner_def bindE_eq_Inr)
  qed
qed

lemma expire_ok:
  assumes ok: "stream_ok l s" and e: "expireStream runId t limit byteLimit s = Inr (r, s')"
  shows "stream_ok l s'" "cell_later s l s' l"
proof -
  obtain m where m: "stored_meta (st_kv s) = Inr m"
    "rows_hold (me_segments m) (me_state m \<noteq> Stream_Expired) l (st_kv s)" and wf: "kv_wf (st_kv s)" and fits: "log_fits l"
    using ok unfolding stream_ok_def by blast
  from e obtain m' kv'' where
      t: "expireTxn runId t (boundedLimit limit default_expire_chunk_limit max_expire_chunk_limit)
          (boundedLimit byteLimit default_expire_byte_limit default_expire_byte_limit) (st_kv s) = Inr (m', r, kv'')"
    and s': "s' = s\<lparr>st_kv := kv'', st_meta := Some m', st_version := st_version s + 1\<rparr>"
    unfolding expireStream_def mutate_result by blast
  from expire_result [OF m(1) t] obtain ks kv' where ks: "kv' = kv_del_all ks (st_kv s)" "list_all stream_row ks"
    and own: "me_owner m = None \<or> me_owner m = Some runId"
    and cases: "(m' = m \<and> kv'' = kv' \<and> me_state m = Stream_Expired) \<or>
        (kv'' = kv_put meta_key (SMeta m') kv' \<and> me_state m' = Stream_Expired \<and> me_error m' = None \<and> me_owner m' = Some runId \<and>
         me_segments m' = me_segments m \<and> (me_count m' = 0 \<or> me_count m' = me_count m))" by blast
  have "meta_key \<notin> set ks" using ks(2) by (auto simp: list_all_iff)
  then have kept: "stored_meta kv' = Inr m" using m(1) by (simp add: stored_meta_def ks(1))
  have rows: "rows_hold (me_segments m) False l kv'" using rows_hold_del [OF m(2)] by (simp add: ks(1))
  have "kv_wf kv'" using wf by (simp add: ks(1) kv_wf_del_all)
  have "stored_meta kv'' = Inr m'" using cases
  proof
    assume c: "kv'' = kv_put meta_key (SMeta m') kv' \<and> me_state m' = Stream_Expired \<and> me_error m' = None \<and> me_owner m' = Some runId \<and>
         me_segments m' = me_segments m \<and> (me_count m' = 0 \<or> me_count m' = me_count m)"
    then show ?thesis using stored_meta_valid [OF m(1)] by (auto simp: valid_meta max_stream_index_def)
  qed (simp add: kept)
  moreover have "rows_hold (me_segments m') False l kv''" "kv_wf kv''" "me_state m' = Stream_Expired"
    using cases rows \<open>kv_wf kv'\<close> by (auto simp: rows_hold_put kv_wf_put)
  ultimately show "stream_ok l s'" using fits by (simp add: stream_ok_def s')
  show "cell_later s l s' l" using \<open>stored_meta kv'' = Inr m'\<close> m(1) cases own by (auto simp: cell_later_def meta_later_def s')
qed

lemma unrelated_ok:
  assumes ok: "stream_ok l s" and wf: "kv_wf kv'" and same: "\<And>k. stream_row k \<or> k = meta_key \<Longrightarrow> kv_get k kv' = kv_get k (st_kv s)"
  shows "stream_ok l (s\<lparr>st_kv := kv'\<rparr>)" "cell_later s l (s\<lparr>st_kv := kv'\<rparr>) l"
proof -
  have meta: "stored_meta kv' = stored_meta (st_kv s)" by (simp add: stored_meta_def same)
  have "rows_hold b a l kv' \<longleftrightarrow> rows_hold b a l (st_kv s)" for b a by (rule rows_hold_cong) (simp add: same)
  then show "stream_ok l (s\<lparr>st_kv := kv'\<rparr>)" using ok wf by (simp add: stream_ok_def meta)
  show "cell_later s l (s\<lparr>st_kv := kv'\<rparr>) l" using stream_ok_meta [OF ok] by (auto simp: cell_later_def meta meta_later_refl rows_kept_def same)
qed

lemma registry_keys [simp]:
  "\<not> stream_row (stream_registry_prefix @ name)" "\<not> stream_row registry_owner_key" "\<not> stream_row registry_expired_key"
  "meta_key \<noteq> stream_registry_prefix @ name" "meta_key \<noteq> registry_owner_key" "meta_key \<noteq> registry_expired_key"
  "stream_registry_prefix @ name \<noteq> meta_key" "registry_owner_key \<noteq> meta_key" "registry_expired_key \<noteq> meta_key"
  by (auto simp: stream_row_def stream_key_defs has_prefix_iff)

section \<open>The requests that change a cell\<close>

text \<open>\<open>Load_Meta\<close>: the metadata is read into memory; \<open>Evict\<close>: the object leaves memory.\<close>

datatype stream_request =
    Write_Chunks string "bytes list"
  | Close_Stream string
  | Fail_Stream string thrown
  | Expire_Stream string int "int option" "int option"
  | Register_Stream string string
  | Expire_Registry string int "int option"
  | Finalize_Registry string "string list"
  | Load_Meta
  | Evict

fun stream_op :: "stream_request \<Rightarrow> stream \<Rightarrow> stream_exn + stream" where
  "stream_op (Write_Chunks r cs) s = map_sum id snd (writeChunks r cs s)"
| "stream_op (Close_Stream r) s = map_sum id snd (closeStream r s)"
| "stream_op (Fail_Stream r e) s = map_sum id snd (failStream r e s)"
| "stream_op (Expire_Stream r t limit byteLimit) s = map_sum id snd (expireStream r t limit byteLimit s)"
| "stream_op (Register_Stream r name) s = map_sum id snd (registerStream r name s)"
| "stream_op (Expire_Registry r t limit) s = map_sum id snd (expireRegistry r t limit s)"
| "stream_op (Finalize_Registry r names) s = map_sum id snd (finalizeRegistry r names s)"
| "stream_op Load_Meta s = Inr (snd (getMeta s))"
| "stream_op Evict s = Inr (s\<lparr>st_meta := None, st_version := 0\<rparr>)"

fun accepted :: "stream_request \<Rightarrow> bytes list" where
  "accepted (Write_Chunks r cs) = cs"
| "accepted _ = []"

text \<open>A request that throws changes nothing.\<close>

fun stream_serve :: "stream_request \<Rightarrow> stream \<times> bytes list \<Rightarrow> stream \<times> bytes list" where
  "stream_serve rq (s, l) = (case stream_op rq s of Inl e \<Rightarrow> (s, l) | Inr s' \<Rightarrow> (s', l @ accepted rq))"

definition stream_serves :: "stream_request list \<Rightarrow> stream \<times> bytes list \<Rightarrow> stream \<times> bytes list" where
  "stream_serves rqs y = fold stream_serve rqs y"

lemma map_sum_Inr: "map_sum f g x = Inr y \<longleftrightarrow> (\<exists>z. x = Inr z \<and> y = g z)"
  by (cases x) auto

lemma registry_ok:
  assumes ok: "stream_ok l s"
  shows "registerStream r name s = Inr (u, s') \<Longrightarrow> stream_ok l s' \<and> cell_later s l s' l"
    "expireRegistry r t limit s = Inr (names, s') \<Longrightarrow> stream_ok l s' \<and> cell_later s l s' l"
    "finalizeRegistry r names s = Inr (x, s') \<Longrightarrow> stream_ok l s' \<and> cell_later s l s' l"
proof -
  have wf: "kv_wf (st_kv s)" using ok by (simp add: stream_ok_def)
  have two: "stream_ok l (s\<lparr>st_kv := kv_put k v (kv_put k' v' (st_kv s))\<rparr>) \<and> cell_later s l (s\<lparr>st_kv := kv_put k v (kv_put k' v' (st_kv s))\<rparr>) l"
    if "\<not> stream_row k \<and> k \<noteq> meta_key" "\<not> stream_row k' \<and> k' \<noteq> meta_key" for k k' v v'
    using that by (intro conjI unrelated_ok [OF ok] kv_wf_intros wf) auto
  show "registerStream r name s = Inr (u, s') \<Longrightarrow> stream_ok l s' \<and> cell_later s l s' l"
    using two [of "stream_registry_prefix @ name" registry_owner_key SMark "SOwner r"]
    by (simp add: registerStream_def bindE_eq_Inr)
  show "stream_ok l s' \<and> cell_later s l s' l" if e: "expireRegistry r t limit s = Inr (names, s')"
  proof -
    from e obtain v where "s' = s\<lparr>st_kv := kv_put registry_expired_key v (kv_put registry_owner_key (SOwner r) (st_kv s))\<rparr>"
      unfolding expireRegistry_def Let_def bindE_eq_Inr by blast
    then show ?thesis using two [of registry_expired_key registry_owner_key v "SOwner r"] registry_keys by metis
  qed
  show "stream_ok l s' \<and> cell_later s l s' l" if f: "finalizeRegistry r names s = Inr (x, s')"
  proof -
    let ?keys = "map (\<lambda>name. stream_registry_prefix @ name) (remdups names)"
    from f obtain v where s': "s' = s\<lparr>st_kv := kv_put registry_expired_key v (kv_del_all ?keys (st_kv s))\<rparr>"
      by (auto simp: finalizeRegistry_def Let_def split: option.splits bool.splits)
    have "k \<notin> set ?keys" if "stream_row k \<or> k = meta_key" for k using that registry_keys by auto
    then have "kv_get k (kv_put registry_expired_key v (kv_del_all ?keys (st_kv s))) = kv_get k (st_kv s)" if "stream_row k \<or> k = meta_key" for k
      using that by auto
    then show ?thesis unfolding s' by (intro conjI unrelated_ok [OF ok] kv_wf_intros wf)
  qed
qed

lemma getMeta_meta:
  assumes "stream_ok l s" "stored_meta (st_kv s) = Inr m"
  shows "getMeta s = (Inr m, s\<lparr>st_meta := Some m\<rparr>)"
  using assms by (cases s) (auto simp: getMeta_def stream_ok_def split: option.splits)

lemma cached_ok: "stream_ok l s \<Longrightarrow> stored_meta (st_kv s) = Inr m \<Longrightarrow> stream_ok l (s\<lparr>st_meta := Some m, st_version := v\<rparr>)"
  "stream_ok l s \<Longrightarrow> stream_ok l (s\<lparr>st_meta := None, st_version := v\<rparr>)"
  by (auto simp: stream_ok_def)

lemma cell_later_kv: "cell_later s l s' l' \<Longrightarrow> st_kv s'' = st_kv s' \<Longrightarrow> cell_later s l s'' l'"
  by (simp add: cell_later_def)

lemma serve_ok:
  assumes ok: "stream_ok l s" and y: "stream_serve rq (s, l) = (s', l')"
  shows "stream_ok l' s' \<and> cell_later s l s' l'"
proof (cases "stream_op rq s")
  case (Inl e)
  then show ?thesis using y ok by (simp add: cell_later_refl)
next
  case (Inr s1)
  then have s1: "s1 = s'" "l' = l @ accepted rq" using y by simp_all
  show ?thesis
  proof (cases rq)
    case (Write_Chunks r cs)
    then show ?thesis using write_ok(1,5) [OF ok] Inr s1 by (auto simp: map_sum_Inr)
  next
    case (Close_Stream r)
    then show ?thesis using end_ok [OF ok] Inr s1 by (auto simp: map_sum_Inr closeStream_def)
  next
    case (Fail_Stream r e)
    then show ?thesis using end_ok [OF ok] Inr s1 by (auto simp: map_sum_Inr failStream_def)
  next
    case (Expire_Stream r t limit byteLimit)
    then show ?thesis using expire_ok [OF ok] Inr s1 by (auto simp: map_sum_Inr)
  next
    case (Register_Stream r name)
    then show ?thesis using registry_ok [OF ok] Inr s1 by (auto simp: map_sum_Inr)
  next
    case (Expire_Registry r t limit)
    then show ?thesis using registry_ok [OF ok] Inr s1 by (auto simp: map_sum_Inr)
  next
    case (Finalize_Registry r names)
    then show ?thesis using registry_ok [OF ok] Inr s1 by (auto simp: map_sum_Inr)
  next
    case Load_Meta
    obtain m where m: "stored_meta (st_kv s) = Inr m" using stream_ok_meta [OF ok] by blast
    then have "s' = s\<lparr>st_meta := Some m\<rparr>" using Load_Meta Inr s1 getMeta_meta [OF ok m] by simp
    then show ?thesis using Load_Meta s1 cached_ok(1) [OF ok m, of "st_version s"] cell_later_refl [OF ok] by (simp add: cell_later_def)
  next
    case Evict
    then show ?thesis using Inr s1 cached_ok(2) [OF ok] cell_later_refl [OF ok] by (auto simp: cell_later_def)
  qed
qed

lemma serves_ok:
  "stream_ok l s \<Longrightarrow> stream_serves rqs (s, l) = (s', l') \<Longrightarrow> stream_ok l' s' \<and> cell_later s l s' l'"
proof (induction rqs arbitrary: s l)
  case Nil
  then show ?case by (simp add: stream_serves_def cell_later_refl)
next
  case (Cons rq rqs)
  obtain s1 l1 where y: "stream_serve rq (s, l) = (s1, l1)" by (metis prod.exhaust)
  note one = serve_ok [OF Cons.prems(1) y]
  have "stream_serves rqs (s1, l1) = (s', l')" using Cons.prems(2) y by (simp add: stream_serves_def)
  then show ?case using Cons.IH [of l1 s1] one cell_later_trans by blast
qed

end
