(* ===== verification/StreamReads.thy ===== *)
theory StreamReads
  imports StreamSteps
begin

text \<open>
  What a read of a stream returns, with other requests between its pieces: a piece of the log from the
  requested offset on, within the limits of the request; and it does return one as long as the stream
  has not expired.
\<close>

section \<open>What is loaded is in the log\<close>

lemma decode_segment_only:
  assumes "decodeSegment (Some (SBytes (encodeSegment g))) z = Inr seg" "length g < 2 ^ 32" "\<forall>c \<in> set g. length c < 2 ^ 32"
  shows "seg = g"
proof -
  have read: "get_u32 0 (encodeSegment g) = length g" using assms(2) by (simp add: encodeSegment_def)
  have len: "length (encodeSegment g) = 4 + 4 * length g + sum_list (map length g)"
    by (simp add: encodeSegment_def length_concat comp_def sum_list_triv)
  have "sg_count z = length g" "sg_bytes z = sum_list (map length g)"
    using assms(1) by (auto simp: decodeSegment_def Let_def bindE_eq_Inr read len)
  then have "z = seg_size g" by (cases z) simp
  then show ?thesis using assms(1) decode_encode_segment [OF assms(2,3)] by simp
qed

lemma take_chunks_prefix:
  assumes "take_chunks endIndex maxBytes expected held cs = (taken, e, b, full)"
  shows "taken = take (length taken) cs" "e = expected + int (length taken)" "b = held + sum_list (map length taken)"
    "held \<le> maxBytes \<Longrightarrow> b \<le> maxBytes" "expected \<le> endIndex \<Longrightarrow> e \<le> endIndex" "\<not> full \<Longrightarrow> taken = cs"
    "cs \<noteq> [] \<Longrightarrow> expected < endIndex \<Longrightarrow> held + length (hd cs) \<le> maxBytes \<Longrightarrow> taken \<noteq> []"
proof -
  have "taken = take (length taken) cs \<and> e = expected + int (length taken) \<and> b = held + sum_list (map length taken) \<and>
    (held \<le> maxBytes \<longrightarrow> b \<le> maxBytes) \<and> (expected \<le> endIndex \<longrightarrow> e \<le> endIndex) \<and> (\<not> full \<longrightarrow> taken = cs) \<and>
    (cs \<noteq> [] \<longrightarrow> expected < endIndex \<longrightarrow> held + length (hd cs) \<le> maxBytes \<longrightarrow> taken \<noteq> [])"
    using assms
  proof (induction cs arbitrary: expected held taken)
    case (Cons c cs)
    show ?case
    proof (cases "expected \<ge> endIndex \<or> held + length c > maxBytes")
      case False
      obtain t e' b' f where t: "take_chunks endIndex maxBytes (expected + 1) (held + length c) cs = (t, e', b', f)" by (metis prod.exhaust)
      then have "taken = c # t" "e = e'" "b = b'" "full = f" using False Cons.prems by auto
      then show ?thesis using Cons.IH [of "expected + 1" "held + length c" t] t False by auto
    qed (use Cons.prems in auto)
  qed auto
  then show "taken = take (length taken) cs" "e = expected + int (length taken)" "b = held + sum_list (map length taken)"
    "held \<le> maxBytes \<Longrightarrow> b \<le> maxBytes" "expected \<le> endIndex \<Longrightarrow> e \<le> endIndex" "\<not> full \<Longrightarrow> taken = cs"
    "cs \<noteq> [] \<Longrightarrow> expected < endIndex \<Longrightarrow> held + length (hd cs) \<le> maxBytes \<Longrightarrow> taken \<noteq> []" by auto
qed

text \<open>\<open>piece l i cs\<close>: the chunks \<open>cs\<close> are those of the log from \<open>i\<close> on.\<close>

definition piece :: "bytes list \<Rightarrow> nat \<Rightarrow> bytes list \<Rightarrow> bool" where
  "piece l i cs \<longleftrightarrow> cs = take (length cs) (drop i l)"

lemma piece_append: "piece l i cs \<Longrightarrow> piece l (i + length cs) ds \<Longrightarrow> piece l i (cs @ ds)"
proof -
  assume c: "piece l i cs" and d: "piece l (i + length cs) ds"
  have "take (length cs + length ds) (drop i l) = take (length cs) (drop i l) @ take (length ds) (drop (i + length cs) l)"
    by (simp add: take_add add.commute)
  then show ?thesis using c d by (simp add: piece_def)
qed

lemma piece_Nil [simp]: "piece l i []"
  by (simp add: piece_def)

lemma piece_drop: "piece l i cs \<Longrightarrow> piece l (i + k) (drop k cs)"
  unfolding piece_def by (metis drop_drop drop_take length_drop add.commute)

lemma piece_take: "piece l i cs \<Longrightarrow> piece l i (take k cs)"
  unfolding piece_def by (metis length_take min.commute take_take)

lemma piece_bound: "piece l i cs \<Longrightarrow> cs \<noteq> [] \<Longrightarrow> i + length cs \<le> length l"
proof -
  assume p: "piece l i cs" and ne: "cs \<noteq> []"
  have "length cs = min (length cs) (length l - i)" using arg_cong [OF p [unfolded piece_def], of length] by simp
  moreover have "0 < length cs" using ne by simp
  ultimately show ?thesis by linarith
qed

lemma piece_prefix: "piece (l @ l') i cs \<Longrightarrow> i + length cs \<le> length l \<Longrightarrow> piece l i cs"
  by (simp add: piece_def)

definition row_starts :: "(int \<times> segment_size) list \<Rightarrow> bool" where
  "row_starts rows \<longleftrightarrow> (\<forall>(st, z) \<in> set rows. 0 \<le> st \<and> st \<le> max_stream_index)"

lemma load_segments_sound:
  assumes rows: "rows_hold b a l kv" and fits: "log_fits l"
    and stored: "\<And>k v. map_of stored k = Some v \<Longrightarrow> kv_get k kv = Some v"
  shows "row_starts selected \<Longrightarrow> 0 \<le> expected \<Longrightarrow> load_segments stored endIndex maxBytes expected held selected = Inr cs \<Longrightarrow>
    piece l (nat expected) cs \<and> (held \<le> maxBytes \<longrightarrow> held + sum_list (map length cs) \<le> maxBytes) \<and>
    (expected \<le> endIndex \<longrightarrow> expected + int (length cs) \<le> endIndex)"
proof (induction selected arbitrary: expected held cs)
  case (Cons r rest)
  obtain st z where r: "r = (st, z)" by (cases r)
  from Cons.prems(3) obtain seg where le: "st \<le> expected" and seg: "decodeSegment (map_of stored (segmentKey st)) z = Inr seg"
    and body: "(case take_chunks endIndex maxBytes expected held (drop (nat (expected - st)) seg) of
         (taken, e, b, full) \<Rightarrow>
           if full then Inr taken
           else bindE (load_segments stored endIndex maxBytes e b rest) (\<lambda>cs. Inr (taken @ cs))) = Inr cs"
    unfolding r by (auto simp: bindE_eq_Inr)
  obtain taken e bt full where t: "take_chunks endIndex maxBytes expected held (drop (nat (expected - st)) seg) = (taken, e, bt, full)"
    by (metis prod.exhaust)
  note tk = take_chunks_prefix [OF t]
  obtain v where v: "map_of stored (segmentKey st) = Some v" using seg by (cases "map_of stored (segmentKey st)") (auto simp: decodeSegment_def)
  from rows obtain segs where segs: "seg_sound (if b then l else []) kv segs" unfolding rows_hold_def by blast
  from segs stored [OF v] obtain st' g where g: "(st', g) \<in> set (seg_rows 0 segs)" "segmentKey st = segmentKey st'" "v = SBytes (encodeSegment g)"
    unfolding seg_sound_def using row_key_simps(1) by blast
  have cat: "concat segs = (if b then l else [])" using segs by (simp add: seg_sound_def)
  have all: "set (concat segs) \<subseteq> set l" "length (concat segs) \<le> length l" unfolding cat by auto
  have "in_range st'" using seg_row_range(1) [OF g(1)] all(2) fits by (simp add: log_fits_def)
  moreover have "in_range st" using Cons.prems(1) by (auto simp: row_starts_def r intro!: stream_index_range)
  ultimately have st: "st' = st" using row_key_inj(1) g(2) by blast
  note content = seg_row_content [OF g(1) [unfolded st]]
  have "length g \<le> length l" using content(3) all(2) by linarith
  then have "length g < 2 ^ 32" using fits by (simp add: log_fits_def max_stream_index_def)
  moreover have "length c < 2 ^ 32" if "c \<in> set g" for c
  proof -
    have "c \<in> set l" using that content(4) all(1) by auto
    then show ?thesis using fits by (auto simp: log_fits_def max_stream_chunk_bytes_def)
  qed
  ultimately have "seg = g" using decode_segment_only seg unfolding v g(3) by blast
  have b: "b" using content(3,4) g(1) segs by (cases b) (auto simp: seg_sound_def cat)
  then have "piece l (nat st) g" using content(2) by (simp add: piece_def cat)
  then have "piece l (nat st + nat (expected - st)) (drop (nat (expected - st)) seg)" by (simp add: piece_drop \<open>seg = g\<close>)
  then have "piece l (nat expected) (drop (nat (expected - st)) seg)" using le content(1) by (simp add: nat_diff_distrib)
  then have here: "piece l (nat expected) taken" using tk(1) piece_take by metis
  show ?case
  proof (cases full)
    case True
    then show ?thesis using body t here tk(2-5) by auto
  next
    case False
    then obtain ds where ds: "load_segments stored endIndex maxBytes e bt rest = Inr ds" "cs = taken @ ds"
      using body t by (auto simp: bindE_eq_Inr)
    have "row_starts rest" "0 \<le> e" using Cons.prems(1,2) tk(2) by (simp_all add: row_starts_def)
    note ih = Cons.IH [OF this ds(1)]
    have "piece l (nat expected + length taken) ds" using ih tk(2) Cons.prems(2) by (simp add: nat_add_distrib)
    then show ?thesis using ih piece_append [OF here] tk(2-5) ds(2) by auto
  qed
qed simp

lemma load_rows_each:
  "load_rows stored selected = Inr cs \<Longrightarrow> length cs = length selected \<and>
     (\<forall>i < length cs. map_of stored (chunkKey (fst (selected ! i))) = Some (SBytes (cs ! i)) \<and> length (cs ! i) = snd (selected ! i))"
proof (induction selected arbitrary: cs)
  case (Cons r rest)
  obtain i z where r: "r = (i, z)" by (cases r)
  from Cons.prems obtain c ds where c: "Option.bind (map_of stored (chunkKey i)) as_bytes = Some c" "length c = z"
    and ds: "load_rows stored rest = Inr ds" "cs = c # ds"
    by (auto simp: r bindE_eq_Inr split: option.splits)
  have "map_of stored (chunkKey i) = Some (SBytes c)" using c(1) by (auto simp: Option.bind_eq_Some_conv elim: as_bytes.elims)
  then show ?case using Cons.IH [OF ds(1)] c(2) ds(2) by (auto simp: r nth_Cons split: nat.splits)
qed simp

lemma plan_rows_prefix:
  "plan_rows sizes maxBytes held is = Inr sel \<Longrightarrow> map fst sel = take (length sel) is \<and>
     (held \<le> maxBytes \<longrightarrow> held + sum_list (map snd sel) \<le> maxBytes)"
proof (induction "is" arbitrary: held sel)
  case (Cons i rest)
  then show ?case by (fastforce simp: bindE_eq_Inr split: if_splits)
qed simp

lemma load_rows_sound:
  assumes rows: "rows_hold b a l kv" and fits: "log_fits l"
    and stored: "\<And>k v. map_of stored k = Some v \<Longrightarrow> kv_get k kv = Some v"
    and sel: "map fst selected = map (\<lambda>n. int start + int n) [0..<length selected]"
    and lim: "int start + int (length selected) \<le> max_stream_index"
    and load: "load_rows stored selected = Inr cs"
  shows "piece l start cs" "length cs = length selected" "map length cs = map snd selected"
proof -
  note each = load_rows_each [OF load]
  then show len: "length cs = length selected" and "map length cs = map snd selected" by (auto intro: nth_equalityI)
  have "start + i < length l \<and> l ! (start + i) = cs ! i" if i: "i < length cs" for i
  proof -
    have "fst (selected ! i) = int start + int i" using arg_cong [OF sel, of "\<lambda>xs. xs ! i"] i len by simp
    then have k: "kv_get (chunkKey (int (start + i))) kv = Some (SBytes (cs ! i))"
      using each [THEN conjunct2, rule_format, OF i] stored by auto
    have "row_sound (if b then [] else l) kv" using rows by (simp add: rows_hold_def)
    from this [unfolded row_sound_def, THEN conjunct1, rule_format, OF k row_key_simps(3)]
    obtain j where j: "j < length (if b then [] else l)" "chunkKey (int (start + i)) = chunkKey (int j)" "cs ! i = (if b then [] else l) ! j"
      by auto
    have "in_range (int (start + i))" "in_range (int j)" using lim i len j(1) fits
      by (auto intro!: stream_index_range simp: log_fits_def split: if_splits)
    then have "start + i = j" using row_key_inj(3) j(2) by (simp only: of_nat_eq_iff)
    then show ?thesis using j by (auto split: if_splits)
  qed
  then show "piece l start cs" unfolding piece_def
  proof (cases "cs = []")
    case False
    assume each': "\<And>i. i < length cs \<Longrightarrow> start + i < length l \<and> l ! (start + i) = cs ! i"
    have "start + (length cs - 1) < length l" using False each' [of "length cs - 1"] by simp
    then have "start + length cs \<le> length l" using False by (cases cs) simp_all
    then show "cs = take (length cs) (drop start l)" using each' by (auto intro: nth_equalityI)
  qed simp
qed

section \<open>What is planned\<close>

lemma index_of_key_range: "index_of_key p k = Inr i \<Longrightarrow> 0 \<le> i \<and> i \<le> max_stream_index"
  using digits_value_bounds [of "drop (length p) k"] by (auto simp: index_of_key_def Let_def bindE_eq_Inr list_all_iff)

lemma plan_segments_starts: "plan_segments listed = Inr ps \<Longrightarrow> row_starts ps"
proof (induction listed arbitrary: ps)
  case (Cons r rest)
  then show ?case by (cases r) (auto simp: bindE_eq_Inr row_starts_def dest: index_of_key_range)
qed (simp add: row_starts_def)

lemma containing_segment_start: "containing_segment i kv = Inr p \<Longrightarrow> row_starts [p]"
  by (auto simp: containing_segment_def bindE_eq_Inr row_starts_def dest: index_of_key_range split: list.splits)

lemma select_segments_subset: "set (select_segments maxBytes first held ps) \<subseteq> set ps"
  by (induction maxBytes first held ps rule: select_segments.induct) auto

fun plan_fits :: "nat \<Rightarrow> stream_read_request \<Rightarrow> read_plan \<Rightarrow> bool" where
  "plan_fits available rq No_Chunks = True"
| "plan_fits available rq (Chunk_Rows sel) =
     (map fst sel = map (\<lambda>n. rr_start rq + int n) [0..<length sel] \<and> length sel \<le> available \<and> sum_list (map snd sel) \<le> nat (rr_max_bytes rq))"
| "plan_fits available rq (Segment_Rows e sel) = (e = rr_start rq + int available \<and> row_starts sel)"

lemma plan_sound:
  assumes "planRead meta rq kv = Inr plan"
  shows "plan_fits (available_chunks meta rq) rq plan"
proof -
  let ?n = "available_chunks meta rq"
  from assms consider "plan = No_Chunks" | "planSegmentRows (rr_start rq) ?n (nat (rr_max_bytes rq)) kv = Inr plan"
    | "planChunkRows (rr_start rq) ?n (nat (rr_max_bytes rq)) kv = Inr plan"
    unfolding planRead_def Let_def bindE_eq_Inr
    by (cases "?n = 0"; cases "me_segments meta") simp_all
  then show ?thesis
  proof cases
    case 2
    then obtain listed planned where listed: "row_starts listed"
      and planned: "(case listed of
                  (start, z) # _ \<Rightarrow> if start = rr_start rq then Inr listed
                                 else bindE (containing_segment (rr_start rq) kv) (\<lambda>p. Inr (p # listed))
                | [] \<Rightarrow> bindE (containing_segment (rr_start rq) kv) (\<lambda>p. Inr (p # listed))) = Inr planned"
      and plan: "plan = Segment_Rows (rr_start rq + int ?n) (select_segments (nat (rr_max_bytes rq)) True 0 planned)"
      unfolding planSegmentRows_def Let_def bindE_eq_Inr
      by (elim exE conjE) (drule plan_segments_starts, simp)
    have "planned = listed \<or> (\<exists>p. planned = p # listed \<and> row_starts [p])"
      using planned containing_segment_start by (auto simp: bindE_eq_Inr split: list.splits if_splits)
    then have "row_starts planned" using listed by (auto simp: row_starts_def)
    then show ?thesis using select_segments_subset [of "nat (rr_max_bytes rq)" True 0 planned] by (auto simp: plan row_starts_def)
  next
    case 3
    then obtain sel where sel: "plan = Chunk_Rows sel" and r: "plan_rows (getMany (map chunkSizeKey (map (\<lambda>n. rr_start rq + int n) [0..<?n])) kv)
        (nat (rr_max_bytes rq)) 0 (map (\<lambda>n. rr_start rq + int n) [0..<?n]) = Inr sel"
      by (auto simp: planChunkRows_def Let_def bindE_eq_Inr)
    have m: "map fst sel = take (length sel) (map (\<lambda>n. rr_start rq + int n) [0..<?n])" "sum_list (map snd sel) \<le> nat (rr_max_bytes rq)"
      using plan_rows_prefix [OF r] by simp_all
    have "length sel \<le> ?n" using arg_cong [OF m(1), of length] by simp
    then show ?thesis using m by (simp add: sel take_map)
  qed simp
qed

lemma getMany_stored: "map_of (getMany ks kv) k = Some v \<Longrightarrow> kv_get k kv = Some v"
  by (simp add: getMany_lookup split: if_splits)

lemma load_sound:
  assumes rows: "rows_hold b a l kv" and fits: "log_fits l" and plan: "plan_fits n rq plan"
    and start: "0 \<le> rr_start rq" "rr_start rq + int n \<le> max_stream_index"
    and load: "loadRead rq plan kv = Inr cs"
  shows "piece l (nat (rr_start rq)) cs" "length cs \<le> n" "sum_list (map length cs) \<le> nat (rr_max_bytes rq)"
proof -
  have "piece l (nat (rr_start rq)) cs \<and> length cs \<le> n \<and> sum_list (map length cs) \<le> nat (rr_max_bytes rq)"
  proof (cases plan)
    case No_Chunks
    then show ?thesis using load by (simp add: loadRead_def)
  next
    case (Chunk_Rows sel)
    have load': "load_rows (getMany (map (chunkKey \<circ> fst) sel) kv) sel = Inr cs" using load by (simp add: loadRead_def Chunk_Rows)
    note s = load_rows_sound [OF rows fits getMany_stored _ _ load', where start = "nat (rr_start rq)"]
    show ?thesis using s plan start by (simp add: Chunk_Rows)
  next
    case (Segment_Rows e sel)
    have load': "load_segments (getMany (map (segmentKey \<circ> fst) sel) kv) e (nat (rr_max_bytes rq)) (rr_start rq) 0 sel = Inr cs"
      using load by (simp add: loadRead_def Segment_Rows)
    note s = load_segments_sound [OF rows fits getMany_stored _ start(1) load']
    show ?thesis using s plan by (simp add: Segment_Rows)
  qed
  then show "piece l (nat (rr_start rq)) cs" "length cs \<le> n" "sum_list (map length cs) \<le> nat (rr_max_bytes rq)" by blast+
qed

section \<open>A read between other requests\<close>

text \<open>Before each piece of the read, and before each answer it waits for, the given requests are served. The
  handlers of the stream do not look at the clock.\<close>

type_synonym read_script = "(stream_request list \<times> wait_answer) list"

fun serve_read :: "read_script \<Rightarrow> 'r stream_handler \<Rightarrow> stream \<times> bytes list \<Rightarrow> 'r stream_handler \<times> stream \<times> bytes list" where
  "serve_read ((rqs, a) # rest) (Act g) y =
     (case stream_serves rqs y of (s, l) \<Rightarrow> case g 0 s of (p, s') \<Rightarrow> serve_read rest p (s', l))"
| "serve_read ((rqs, a) # rest) (Ask q k) y = serve_read rest (k a) (stream_serves rqs y)"
| "serve_read _ p y = (p, y)"

definition result_sound :: "stream_read_request \<Rightarrow> stream_read_result \<Rightarrow> bytes list \<Rightarrow> bool" where
  "result_sound rq r l \<longleftrightarrow> rd_start r = rr_start rq \<and> piece l (nat (rr_start rq)) (rd_chunks r) \<and>
     int (length (rd_chunks r)) \<le> rr_max_chunks rq \<and> int (sum_list (map length (rd_chunks r))) \<le> rr_max_bytes rq \<and>
     (rd_chunks r \<noteq> [] \<longrightarrow> rr_start rq + int (length (rd_chunks r)) \<le> rd_tail r + 1) \<and>
     (rd_state r \<noteq> Stream_Expired \<longrightarrow> rd_tail r + 1 \<le> int (length l)) \<and>
     (rd_state r = Stream_Closed \<or> rd_state r = Stream_Errored \<longrightarrow> rd_tail r + 1 = int (length l))"

lemma available_limit:
  "0 \<le> rr_max_chunks rq \<Longrightarrow> int (available_chunks m rq) \<le> rr_max_chunks rq"
  "available_chunks m rq \<noteq> 0 \<Longrightarrow> rr_start rq + int (available_chunks m rq) \<le> me_count m \<and> me_state m \<noteq> Stream_Expired"
  by (auto simp: available_chunks_def split: if_splits)

lemma result_of_read:
  assumes ok1: "stream_ok l1 s1" and m: "stored_meta (st_kv s1) = Inr m" and ok3: "stream_ok l3 s3" and later: "cell_later s1 l1 s3 l3"
    and rq: "0 \<le> rr_start rq" "rr_start rq \<le> max_stream_index" "0 \<le> rr_max_chunks rq" "0 \<le> rr_max_bytes rq"
    and plan: "planRead m rq kv2 = Inr plan" and load: "loadRead rq plan (st_kv s3) = Inr cs"
  shows "result_sound rq (readResult m rq timedOut cs) l3"
proof -
  let ?n = "available_chunks m rq"
  have count: "me_state m \<noteq> Stream_Expired \<Longrightarrow> me_count m = int (length l1)" using ok1 m by (auto simp: stream_ok_def)
  have fits1: "log_fits l1" using ok1 by (simp add: stream_ok_def)
  obtain b a where rows: "rows_hold b a l3 (st_kv s3)" and fits: "log_fits l3" using ok3 by (auto simp: stream_ok_def)
  have end1: "rr_start rq + int ?n \<le> max_stream_index"
    using available_limit(2) [of m rq] count fits1 rq(2) by (cases "?n = 0") (auto simp: log_fits_def)
  note s = load_sound [OF rows fits plan_sound [OF plan] rq(1) end1 load]
  have "int (length cs) \<le> rr_max_chunks rq" using s(2) available_limit(1) [OF rq(3), of m] by linarith
  moreover have "int (sum_list (map length cs)) \<le> rr_max_bytes rq" using s(3) rq(4) by linarith
  moreover have "rr_start rq + int (length cs) \<le> me_count m" if "cs \<noteq> []" using available_limit(2) [of m rq] s(2) that by (cases cs) auto
  moreover have "me_count m \<le> int (length l3)" if "me_state m \<noteq> Stream_Expired"
    using later count [OF that] m by (auto simp: cell_later_def meta_later_def)
  moreover have "me_count m = int (length l3)" if "me_state m = Stream_Closed \<or> me_state m = Stream_Errored"
    using later count m that by (auto simp: cell_later_def meta_later_def)
  ultimately show ?thesis using s(1) by (auto simp: result_sound_def readResult_def)
qed

lemma request_valid:
  "validateStreamReadRequest rq = Inr u \<Longrightarrow> 0 \<le> rr_start rq \<and> rr_start rq \<le> max_stream_index \<and> 0 \<le> rr_max_chunks rq \<and>
     int max_stream_chunk_bytes \<le> rr_max_bytes rq"
  by (auto simp: validateStreamReadRequest_def bindE_eq_Inr not_less)

lemma serve_read_ask:
  "serve_read sc (Ask q k) y = (Return r, y') \<Longrightarrow> \<exists>rqs a rest. sc = (rqs, a) # rest \<and>
     serve_read rest (k a) (stream_serves rqs y) = (Return r, y')"
  by (cases sc) auto

lemma serve_read_end [simp]: "serve_read sc (Return x) y = (Return x, y)" "serve_read sc (Throw e) y = (Throw e, y)"
  by (cases sc; simp)+

lemma bindP_assoc: "bindP (bindP p f) g = bindP p (\<lambda>x. bindP (f x) g)"
  by (induction p) (simp_all add: map_prod_def split_def comp_def)

lemma bindP_Return: "bindP p Return = p"
  by (induction p) (simp_all add: map_prod_def split_def comp_def)

lemma serve_read_txn:
  assumes "serve_read sc (bindP (txn h) f) y = (Return r, y')"
  shows "\<exists>rqs a rest s l x s'. sc = (rqs, a) # rest \<and> stream_serves rqs y = (s, l) \<and> h 0 s = Inr (x, s') \<and>
     serve_read rest (f x) (s', l) = (Return r, y')"
proof (cases sc)
  case Nil
  then show ?thesis using assms by (simp add: txn_def)
next
  case (Cons b rest)
  obtain rqs a s l where b: "b = (rqs, a)" and y: "stream_serves rqs y = (s, l)" by (metis prod.exhaust)
  show ?thesis
  proof (cases "h 0 s")
    case (Inl e)
    then show ?thesis using assms by (simp add: txn_def Cons b y)
  next
    case (Inr z)
    obtain x s' where "z = (x, s')" by (cases z)
    then show ?thesis using assms by (intro exI conjI) (auto simp: txn_def Cons b y Inr)
  qed
qed

lemma serve_read_meta:
  assumes rd: "serve_read sc (bindP (Act (\<lambda>now s. case getMeta s of (Inl e, s') \<Rightarrow> (Throw e, s') | (Inr m, s') \<Rightarrow> (Return m, s'))) f) (s, l) = (Return r, y')"
    and ok: "stream_ok l s"
  shows "\<exists>rqs a rest s1 l1 m. sc = (rqs, a) # rest \<and> stream_serves rqs (s, l) = (s1, l1) \<and> stored_meta (st_kv s1) = Inr m \<and>
     stream_ok l1 (s1\<lparr>st_meta := Some m\<rparr>) \<and> serve_read rest (f m) (s1\<lparr>st_meta := Some m\<rparr>, l1) = (Return r, y')"
proof (cases sc)
  case Nil
  then show ?thesis using rd by simp
next
  case (Cons b rest)
  obtain rqs a s1 l1 where b: "b = (rqs, a)" and y: "stream_serves rqs (s, l) = (s1, l1)" by (metis prod.exhaust)
  have ok1: "stream_ok l1 s1" using serves_ok [OF ok y] by blast
  then obtain m where m: "stored_meta (st_kv s1) = Inr m" using stream_ok_meta by blast
  have "stream_ok l1 (s1\<lparr>st_meta := Some m\<rparr>)" using cached_ok(1) [OF ok1 m, of "st_version s1"] by simp
  then show ?thesis using rd m getMeta_meta [OF ok1 m] by (intro exI conjI) (auto simp: Cons b y)
qed

lemma snapshot_steps:
  assumes rd: "serve_read sc (bindP (readSnapshot rq t) f) (s, l) = (Return r, y')" and ok: "stream_ok l s"
    and rq: "validateStreamReadRequest rq = Inr u"
  shows "\<exists>sc' x s' l'. stream_ok l' s' \<and> result_sound rq x l' \<and> serve_read sc' (f x) (s', l') = (Return r, y')"
proof -
  obtain rqs1 a1 rest1 s1 l1 m where m: "stored_meta (st_kv s1) = Inr m"
    and ok1: "stream_ok l1 (s1\<lparr>st_meta := Some m\<rparr>)"
    and r1: "serve_read rest1 (bindP (txn (\<lambda>now s. bindE (planRead m rq (st_kv s)) (\<lambda>x. Inr (x, s)))) (\<lambda>plan.
       bindP (txn (\<lambda>now s. bindE (loadRead rq plan (st_kv s)) (\<lambda>x. Inr (x, s)))) (\<lambda>chunks.
       f (readResult m rq t chunks)))) (s1\<lparr>st_meta := Some m\<rparr>, l1) = (Return r, y')"
    using serve_read_meta [OF rd [unfolded readSnapshot_def bindP_assoc bindP.simps(1)] ok] by (auto simp: bindP_assoc)
  from serve_read_txn [OF r1] obtain rqs2 rest2 s2 l2 plan where y2: "stream_serves rqs2 (s1\<lparr>st_meta := Some m\<rparr>, l1) = (s2, l2)"
    and plan: "planRead m rq (st_kv s2) = Inr plan"
    and r2: "serve_read rest2 (bindP (txn (\<lambda>now s. bindE (loadRead rq plan (st_kv s)) (\<lambda>x. Inr (x, s)))) (\<lambda>chunks.
       f (readResult m rq t chunks))) (s2, l2) = (Return r, y')"
    by (auto simp: bindE_eq_Inr)
  from serve_read_txn [OF r2] obtain rqs3 rest3 s3 l3 cs where y3: "stream_serves rqs3 (s2, l2) = (s3, l3)"
    and load: "loadRead rq plan (st_kv s3) = Inr cs"
    and r3: "serve_read rest3 (f (readResult m rq t cs)) (s3, l3) = (Return r, y')"
    by (auto simp: bindE_eq_Inr)
  note two = serves_ok [OF ok1 y2]
  note three = serves_ok [OF conjunct1 [OF two] y3]
  have later: "cell_later (s1\<lparr>st_meta := Some m\<rparr>) l1 s3 l3" using two three cell_later_trans by blast
  note v = request_valid [OF rq]
  have "result_sound rq (readResult m rq t cs) l3"
    by (rule result_of_read [OF ok1 _ conjunct1 [OF three] later _ _ _ _ plan load]) (use m v in auto)
  then show ?thesis using three r3 by blast
qed

lemma reads_sound:
  assumes rd: "serve_read sc (readChunks rq) (s, l) = (Return r, y')" and ok: "stream_ok l s"
  shows "result_sound rq r (snd y') \<and> stream_ok (snd y') (fst y')"
proof -
  obtain u where rq: "validateStreamReadRequest rq = Inr u"
    using rd by (cases "validateStreamReadRequest rq") (auto simp: readChunks_def)
  have last: "result_sound rq r (snd y') \<and> stream_ok (snd y') (fst y')"
    if "serve_read sc' (readSnapshot rq t) (s', l') = (Return r, y')" "stream_ok l' s'" for sc' t s' l'
  proof -
    show ?thesis using snapshot_steps [of sc' rq t Return s' l' r y' u] that rq by (auto simp: bindP_Return)
  qed
  from rd rq have "serve_read sc (bindP (txn (\<lambda>now s. Inr (st_version s, s))) (\<lambda>observed.
          bindP (readSnapshot rq False) (\<lambda>immediate.
            if rd_chunks immediate \<noteq> [] \<or> rd_state immediate \<noteq> Stream_Open \<or> rr_wait_ms rq = 0 \<or> rr_max_chunks rq = 0
            then Return immediate
            else Ask (Wait_Change observed (rr_wait_ms rq)) (\<lambda>a.
              if a = Aborted then Throw Read_Aborted else readSnapshot rq (a = Timed_Out))))) (s, l) = (Return r, y')"
    by (simp add: readChunks_def look_def txn_def)
  from serve_read_txn [OF this] obtain rqs0 rest0 s0 l0 where y0: "stream_serves rqs0 (s, l) = (s0, l0)"
    and r0: "serve_read rest0 (bindP (readSnapshot rq False) (\<lambda>immediate.
            if rd_chunks immediate \<noteq> [] \<or> rd_state immediate \<noteq> Stream_Open \<or> rr_wait_ms rq = 0 \<or> rr_max_chunks rq = 0
            then Return immediate
            else Ask (Wait_Change (st_version s0) (rr_wait_ms rq)) (\<lambda>a.
              if a = Aborted then Throw Read_Aborted else readSnapshot rq (a = Timed_Out)))) (s0, l0) = (Return r, y')"
    by auto
  have ok0: "stream_ok l0 s0" using serves_ok [OF ok y0] by blast
  from snapshot_steps [OF r0 ok0 rq] obtain sc1 x s1 l1 where ok1: "stream_ok l1 s1" and x: "result_sound rq x l1"
    and r1: "serve_read sc1 (if rd_chunks x \<noteq> [] \<or> rd_state x \<noteq> Stream_Open \<or> rr_wait_ms rq = 0 \<or> rr_max_chunks rq = 0
            then Return x
            else Ask (Wait_Change (st_version s0) (rr_wait_ms rq)) (\<lambda>a.
              if a = Aborted then Throw Read_Aborted else readSnapshot rq (a = Timed_Out))) (s1, l1) = (Return r, y')" by blast
  show ?thesis
  proof (cases "rd_chunks x \<noteq> [] \<or> rd_state x \<noteq> Stream_Open \<or> rr_wait_ms rq = 0 \<or> rr_max_chunks rq = 0")
    case True
    then show ?thesis using r1 x ok1 by auto
  next
    case False
    from serve_read_ask [OF r1 [unfolded if_not_P [OF False]]] obtain rqs a rest s2 l2 where
        y2: "stream_serves rqs (s1, l1) = (s2, l2)"
      and r2: "serve_read rest (if a = Aborted then Throw Read_Aborted else readSnapshot rq (a = Timed_Out)) (s2, l2) = (Return r, y')"
      by (metis prod.exhaust)
    have "stream_ok l2 s2" using serves_ok [OF ok1 y2] by blast
    then show ?thesis using last r2 by (auto split: if_splits)
  qed
qed

end
