(* ===== verification/StreamProgress.thy ===== *)
theory StreamProgress
  imports StreamReads
begin

text \<open>
  Reads of a stream that has not expired succeed, and return at least one chunk when the log holds one at
  the requested offset: the size rows are all there and in order, so the plan covers the range, and the
  planned rows are still there when they are loaded.
\<close>

section \<open>The size rows of a complete log\<close>

lemma same_rows:
  fixes xs ys :: "(string \<times> 'v) list"
  assumes "sorted_wrt (<) (map fst xs)" "sorted_wrt (<) (map fst ys)" "set xs = set ys"
  shows "xs = ys"
  using assms map_sorted_distinct_set_unique [of fst xs ys] by (simp add: strict_sorted_iff distinct_map)

abbreviation size_row :: "int \<times> bytes list \<Rightarrow> string \<times> sval" where
  "size_row \<equiv> \<lambda>(st, g). (segmentSizeKey st, SSegment (seg_size g))"

abbreviation planned_row :: "int \<times> bytes list \<Rightarrow> int \<times> segment_size" where
  "planned_row \<equiv> \<lambda>(st, g). (st, seg_size g)"

lemma seg_rows_range:
  assumes "(st, g) \<in> set (seg_rows 0 segs)" "log_fits (concat segs)"
  shows "0 \<le> st" "st + int (length g) \<le> max_stream_index" "in_range st"
  using seg_row_range [OF assms(1)] assms(2) by (simp_all add: log_fits_def)

lemma size_rows_listed:
  assumes wf: "kv_wf kv" and snd0: "seg_sound l kv segs" and cmp: "seg_complete kv segs" and fits: "log_fits l"
    and q: "\<And>k. in_query q k \<Longrightarrow> has_prefix segment_size_key_prefix k"
    and P: "\<And>st. in_range st \<Longrightarrow> in_query q (segmentSizeKey st) \<longleftrightarrow> P st"
  shows "filter (\<lambda>(k, _). in_query q k) kv = map size_row (filter (\<lambda>(st, g). P st) (seg_rows 0 segs))"
proof (rule same_rows)
  have cat: "concat segs = l" "[] \<notin> set segs" using snd0 by (simp_all add: seg_sound_def)
  note range = seg_rows_range(3) [of _ _ segs, unfolded cat(1), OF _ fits]
  show "sorted_wrt (<) (map fst (filter (\<lambda>(k, _). in_query q k) kv))"
    using kv_wf_filter [OF wf] by (simp add: kv_wf_def)
  have "sorted_wrt (\<lambda>a b. fst a < fst b) (filter (\<lambda>(st, g). P st) (seg_rows 0 segs))"
    using seg_rows_sorted [OF cat(2), of 0] by (simp add: sorted_wrt_map sorted_wrt_filter)
  then show "sorted_wrt (<) (map fst (map size_row (filter (\<lambda>(st, g). P st) (seg_rows 0 segs))))"
    unfolding sorted_wrt_map by (rule sorted_wrt_mono_rel [rotated]) (auto simp: row_key_order range)
  show "set (filter (\<lambda>(k, _). in_query q k) kv) = set (map size_row (filter (\<lambda>(st, g). P st) (seg_rows 0 segs)))" (is "?L = ?R")
  proof
    show "?L \<subseteq> ?R"
    proof
      fix x assume x: "x \<in> ?L"
      obtain k v where kv: "x = (k, v)" by (cases x)
      have "in_query q k" "(k, v) \<in> set kv" using x kv by auto
      then have kv: "x = (k, v)" "in_query q k" "kv_get k kv = Some v" using kv wf by (simp_all add: kv_get_iff_mem)
      then obtain st g where r: "(st, g) \<in> set (seg_rows 0 segs)" "k = segmentSizeKey st" "v = SSegment (seg_size g)"
        using snd0 q unfolding seg_sound_def by blast
      then have "P st" using P [OF range [OF r(1)]] kv(2) by simp
      then show "x \<in> ?R" using r kv(1) by force
    qed
    show "?R \<subseteq> ?L"
    proof
      fix x assume x: "x \<in> ?R"
      then obtain st g where r: "(st, g) \<in> set (seg_rows 0 segs)" "P st" "x = (segmentSizeKey st, SSegment (seg_size g))" by auto
      then have "kv_get (segmentSizeKey st) kv = Some (SSegment (seg_size g))" using cmp by (auto simp: seg_complete_def)
      then show "x \<in> ?L" using r P [OF range [OF r(1)]] wf by (simp add: kv_get_iff_mem)
    qed
  qed
qed

lemma valid_segment_size:
  assumes "(st, g) \<in> set (seg_rows 0 segs)" "log_fits (concat segs)" "[] \<notin> set segs"
  shows "validateSegmentSize (Some (SSegment (seg_size g))) = Inr (seg_size g)"
proof -
  have g: "g \<in> set segs" using seg_row_content(4) [OF assms(1)] .
  have "length g \<le> length (concat segs)" using seg_row_content(3) [OF assms(1)] by linarith
  then have n: "length g \<le> 2 ^ 31" using assms(2) by (simp add: log_fits_def max_stream_index_def)
  have "\<forall>c \<in> set g. length c \<le> 2 ^ 20"
    using assms(2) g by (force simp: log_fits_def max_stream_chunk_bytes_def)
  then have "sum_list (map length g) \<le> length g * 2 ^ 20" by (induction g) simp_all
  also have "\<dots> \<le> 2 ^ 31 * 2 ^ 20" using n by (rule mult_right_mono) simp
  finally have "int (sum_list (map length g)) \<le> 2 ^ 31 * 2 ^ 20" by simp
  moreover have "g \<noteq> []" using g assms(3) by auto
  ultimately show ?thesis using n
    by (auto simp: validateSegmentSize_def bindE_eq_Inr safe_int_def max_safe_integer_def Suc_le_eq)
qed

lemma plan_segments_rows:
  assumes "set rows \<subseteq> set (seg_rows 0 segs)" "log_fits (concat segs)" "[] \<notin> set segs"
  shows "plan_segments (map size_row rows) = Inr (map planned_row rows)"
  using assms(1)
proof (induction rows)
  case (Cons r rows)
  obtain st g where r: "r = (st, g)" by (cases r)
  have mem: "(st, g) \<in> set (seg_rows 0 segs)" using Cons.prems by (simp add: r)
  have "index_of_key segment_size_key_prefix (segmentSizeKey st) = Inr st"
    using seg_rows_range(1,2) [OF mem assms(2)] by (intro index_of_row) simp_all
  then show ?case using Cons valid_segment_size [OF mem assms(2,3)] by (simp add: r)
qed simp

lemma split_at_chunk:
  "i < length (concat segs) \<Longrightarrow> \<exists>A g B. segs = A @ g # B \<and> length (concat A) \<le> i \<and> i < length (concat A) + length g"
proof (induction segs arbitrary: i)
  case (Cons h segs)
  show ?case
  proof (cases "i < length h")
    case True
    then show ?thesis by (intro exI [of _ "[]"] exI [of _ h] exI [of _ segs]) simp
  next
    case False
    then have "i - length h < length (concat segs)" using Cons.prems by simp
    from Cons.IH [OF this] obtain A g B where "segs = A @ g # B" "length (concat A) \<le> i - length h" "i - length h < length (concat A) + length g"
      by blast
    then show ?thesis using False by (intro exI [of _ "h # A"] exI [of _ g] exI [of _ B]) auto
  qed
qed simp

lemma rows_before: "(st, h) \<in> set (seg_rows x gs) \<Longrightarrow> [] \<notin> set gs \<Longrightarrow> x \<le> st \<and> st < x + int (length (concat gs))"
proof -
  assume r: "(st, h) \<in> set (seg_rows x gs)" and ne: "[] \<notin> set gs"
  have "h \<noteq> []" using seg_row_content(4) [OF r] ne by auto
  then have "0 < length h" by simp
  then show ?thesis using seg_row_content(1,3) [OF r] by linarith
qed

lemma filter_rows_take:
  "[] \<notin> set gs \<Longrightarrow> \<exists>j. filter (\<lambda>(st, g). st < e) (seg_rows x gs) = take j (seg_rows x gs) \<and>
     (e \<le> x + int (length (concat gs)) \<longrightarrow> (\<exists>c. covers False x (map planned_row (take j (seg_rows x gs))) = Inr c \<and> e \<le> c))"
proof (induction gs arbitrary: x)
  case (Cons g gs)
  show ?case
  proof (cases "x < e")
    case True
    obtain j where j: "filter (\<lambda>(st, g). st < e) (seg_rows (x + int (length g)) gs) = take j (seg_rows (x + int (length g)) gs)"
      "e \<le> x + int (length g) + int (length (concat gs)) \<longrightarrow>
        (\<exists>c. covers False (x + int (length g)) (map planned_row (take j (seg_rows (x + int (length g)) gs))) = Inr c \<and> e \<le> c)"
      using Cons.IH [of "x + int (length g)"] Cons.prems by auto
    have "0 < length g" using Cons.prems by auto
    then show ?thesis using j True by (intro exI [of _ "Suc j"]) (auto simp: add.assoc)
  next
    case False
    have "\<not> (case r of (st, g) \<Rightarrow> st < e)" if "r \<in> set (seg_rows x (g # gs))" for r
      using rows_before [of "fst r" "snd r" x "g # gs"] Cons.prems False that by (cases r) (simp del: seg_rows.simps)
    then have "filter (\<lambda>(st, g). st < e) (seg_rows x (g # gs)) = []" by (intro filter_False) blast
    then show ?thesis using False by (intro exI [of _ 0]) simp
  qed
qed auto

section \<open>The plan\<close>

lemma strict_ints_length:
  assumes "sorted_wrt (<) (xs :: int list)" "set xs \<subseteq> {a..<b}"
  shows "length xs \<le> nat (b - a)"
proof -
  have "distinct xs" using assms(1) strict_sorted_iff by blast
  then have "length xs = card (set xs)" by (simp add: distinct_card)
  then show ?thesis using card_mono [OF _ assms(2)] by simp
qed

lemma key_between:
  assumes "in_range st" "in_range i"
  shows "segmentSizeKey i \<le> segmentSizeKey st \<longleftrightarrow> i \<le> st" "segmentSizeKey st < segmentSizeKey i \<longleftrightarrow> st < i"
  using row_key_order [OF assms] by (simp_all add: not_less [symmetric])

text \<open>The rows around an offset that the log holds: those before it, the one it is in, those after it.\<close>

lemma split_rows:
  assumes "[] \<notin> set segs" "i < length (concat segs)"
  obtains A g B where "segs = A @ g # B" "length (concat A) \<le> i" "i < length (concat A) + length g"
    "seg_rows 0 segs = seg_rows 0 A @ (int (length (concat A)), g) # seg_rows (int (length (concat A)) + int (length g)) B"
    "\<forall>(st, h) \<in> set (seg_rows 0 A). st < int i" "\<forall>(st, h) \<in> set (seg_rows 0 A). st < int (length (concat A))"
    "\<forall>(st, h) \<in> set (seg_rows (int (length (concat A)) + int (length g)) B). int i < st"
proof -
  from split_at_chunk [OF assms(2)] obtain A g B where s: "segs = A @ g # B" "length (concat A) \<le> i" "i < length (concat A) + length g" by blast
  have ne: "[] \<notin> set A" "[] \<notin> set B" using assms(1) s(1) by simp_all
  show ?thesis
  proof (rule that [OF s])
    show "seg_rows 0 segs = seg_rows 0 A @ (int (length (concat A)), g) # seg_rows (int (length (concat A)) + int (length g)) B"
      by (simp add: s(1) seg_rows_append)
    show "\<forall>(st, h) \<in> set (seg_rows 0 A). st < int (length (concat A))"
      using rows_before [OF _ ne(1), of _ _ 0] by auto
    then show "\<forall>(st, h) \<in> set (seg_rows 0 A). st < int i" using s(2) by fastforce
    show "\<forall>(st, h) \<in> set (seg_rows (int (length (concat A)) + int (length g)) B). int i < st"
    proof safe
      fix st h assume "(st, h) \<in> set (seg_rows (int (length (concat A)) + int (length g)) B)"
      then show "int i < st" using seg_row_content(1) s(3) by fastforce
    qed
  qed
qed

lemma containing_found:
  assumes wf: "kv_wf kv" and snd0: "seg_sound l kv segs" and cmp: "seg_complete kv segs" and fits: "log_fits l"
    and rows: "seg_rows 0 segs = ra @ (x, g) # rb" and i: "x \<le> i" "0 \<le> i" "i < max_stream_index"
    and before: "\<forall>(st, h) \<in> set ra. st < i" and after: "\<forall>(st, h) \<in> set rb. i < st"
  shows "containing_segment i kv = Inr (x, seg_size g)"
proof -
  let ?q = "(prefix_query segment_size_key_prefix)\<lparr>q_end := Some (segmentSizeKey (i + 1)), q_reverse := True, q_limit := Some 1\<rparr>"
  have cat: "concat segs = l" "[] \<notin> set segs" using snd0 by (simp_all add: seg_sound_def)
  have mem: "(x, g) \<in> set (seg_rows 0 segs)" by (simp add: rows)
  have r: "0 \<le> x" "x + int (length g) \<le> max_stream_index" using seg_rows_range [OF mem] fits by (simp_all add: cat)
  have "filter (\<lambda>(k, _). in_query ?q k) kv = map size_row (filter (\<lambda>(st, g). st < i + 1) (seg_rows 0 segs))"
  proof (rule size_rows_listed [OF wf snd0 cmp fits])
    have "in_range (i + 1)" using i by (intro stream_index_range) auto
    then show "in_query ?q (segmentSizeKey st) \<longleftrightarrow> st < i + 1" if "in_range st" for st
      using key_between [OF that] by (simp add: in_query_def prefix_query_def)
  qed (simp add: in_query_def prefix_query_def)
  moreover have "filter (\<lambda>(st, g). st < i + 1) ra = ra" using before by (auto simp: filter_id_conv)
  moreover have "filter (\<lambda>(st, g). st < i + 1) rb = []" using after by (auto simp: filter_empty_conv)
  ultimately have f: "filter (\<lambda>(k, _). in_query ?q k) kv = map size_row ra @ [size_row (x, g)]" using i(1) by (simp add: rows)
  have "kv_list ?q kv = [size_row (x, g)]"
    unfolding kv_list_def Let_def f by (simp add: prefix_query_def take_limit_def)
  moreover have "index_of_key segment_size_key_prefix (segmentSizeKey x) = Inr x" using r by (intro index_of_row) auto
  moreover have "validateSegmentSize (Some (SSegment (seg_size g))) = Inr (seg_size g)"
    by (rule valid_segment_size [OF mem]) (simp_all add: cat fits)
  ultimately show ?thesis by (simp add: containing_segment_def)
qed

lemma plan_segments_ok:
  assumes wf: "kv_wf kv" and snd0: "seg_sound l kv segs" and cmp: "seg_complete kv segs" and fits: "log_fits l"
    and n: "0 < n" "i + n \<le> length l"
  shows "\<exists>A g B j. segs = A @ g # B \<and> length (concat A) \<le> i \<and> i < length (concat A) + length g \<and>
    planSegmentRows (int i) n maxBytes kv = Inr (Segment_Rows (int i + int n)
      (select_segments maxBytes True 0 (map planned_row (take (Suc j) (seg_rows (int (length (concat A))) (g # B))))))"
proof -
  have cat: "concat segs = l" "[] \<notin> set segs" using snd0 by (simp_all add: seg_sound_def)
  have "i < length (concat segs)" using n cat by simp
  from split_rows [OF cat(2) this] obtain A g B where s: "segs = A @ g # B" "length (concat A) \<le> i" "i < length (concat A) + length g"
    and rows: "seg_rows 0 segs = seg_rows 0 A @ (int (length (concat A)), g) # seg_rows (int (length (concat A)) + int (length g)) B"
    and before: "\<forall>(st, h) \<in> set (seg_rows 0 A). st < int i"
    and after: "\<forall>(st, h) \<in> set (seg_rows (int (length (concat A)) + int (length g)) B). int i < st" by metis
  let ?x = "int (length (concat A))" and ?e = "int i + int n"
  let ?rb = "seg_rows (?x + int (length g)) B"
  let ?q = "(prefix_query segment_size_key_prefix)\<lparr>q_start := Some (segmentSizeKey (int i)), q_end := Some (segmentSizeKey ?e), q_limit := Some n\<rparr>"
  have lim: "int i < max_stream_index" "?e \<le> max_stream_index" using n fits by (auto simp: log_fits_def)
  have "[] \<notin> set B" using cat(2) s(1) by simp
  from filter_rows_take [OF this, of ?e "?x + int (length g)"] obtain j where
      j: "filter (\<lambda>(st, g). st < ?e) ?rb = take j ?rb"
    and cov: "\<exists>c. covers False (?x + int (length g)) (map planned_row (take j ?rb)) = Inr c \<and> ?e \<le> c"
    using n(2) s(1) cat(1) by auto
  let ?F = "(if ?x = int i then [(?x, g)] else []) @ take j ?rb"
  have "filter (\<lambda>(st, g). int i \<le> st \<and> st < ?e) (seg_rows 0 A) = []" using before by (auto simp: filter_empty_conv)
  moreover have "filter (\<lambda>(st, g). int i \<le> st \<and> st < ?e) ?rb = filter (\<lambda>(st, g). st < ?e) ?rb"
    by (rule filter_cong) (use after in auto)
  ultimately have F: "filter (\<lambda>(st, g). int i \<le> st \<and> st < ?e) (seg_rows 0 segs) = ?F" using s(2) n(1) by (auto simp: rows j)
  have f: "filter (\<lambda>(k, _). in_query ?q k) kv = map size_row ?F"
    unfolding F [symmetric]
  proof (rule size_rows_listed [OF wf snd0 cmp fits])
    have "in_range (int i)" "in_range ?e" using lim by (auto intro!: stream_index_range)
    then show "in_query ?q (segmentSizeKey st) \<longleftrightarrow> int i \<le> st \<and> st < ?e" if "in_range st" for st
      using key_between [OF that] by (simp add: in_query_def prefix_query_def)
  qed (simp add: in_query_def prefix_query_def)
  have "length (map fst ?F) \<le> nat (?e - int i)"
  proof (rule strict_ints_length)
    show "sorted_wrt (<) (map fst ?F)"
      unfolding F [symmetric] using seg_rows_sorted [OF cat(2), of 0] by (simp add: sorted_wrt_map sorted_wrt_filter)
    show "set (map fst ?F) \<subseteq> {int i..<?e}" unfolding F [symmetric] by auto
  qed
  then have listed: "kv_list ?q kv = map size_row ?F" unfolding kv_list_def Let_def f by (simp add: prefix_query_def take_limit_def)
  have "set ?F \<subseteq> set (seg_rows 0 segs)" unfolding F [symmetric] by auto
  from plan_segments_rows [OF this] have planned: "plan_segments (kv_list ?q kv) = Inr (map planned_row ?F)"
    unfolding listed using fits cat by simp
  have found: "containing_segment (int i) kv = Inr (planned_row (?x, g))"
    using containing_found [OF wf snd0 cmp fits rows _ _ lim(1) before after] s(2) by simp
  let ?planned = "planned_row (?x, g) # map planned_row (take j ?rb)"
  have ne: "take j ?rb = (st, h) # rest \<Longrightarrow> st \<noteq> int i" for st h rest using after in_set_takeD [of "(st, h)" j ?rb] by auto
  have whole: "(case map planned_row ?F of
                  (start, z) # _ \<Rightarrow> if start = int i then Inr (map planned_row ?F)
                                 else bindE (containing_segment (int i) kv) (\<lambda>p. Inr (p # map planned_row ?F))
                | [] \<Rightarrow> bindE (containing_segment (int i) kv) (\<lambda>p. Inr (p # map planned_row ?F))) = (Inr ?planned :: stream_exn + _)"
    using found by (cases "take j ?rb") (auto dest: ne)
  obtain c where c: "covers True (int i) ?planned = Inr c" "?e \<le> c" using cov s(2,3) by auto
  have "planSegmentRows (int i) n maxBytes kv = Inr (Segment_Rows ?e (select_segments maxBytes True 0 ?planned))"
    unfolding planSegmentRows_def Let_def planned bindE_simps whole c(1) using c(2) by simp
  moreover have "map planned_row (take (Suc j) (seg_rows ?x (g # B))) = ?planned" by simp
  ultimately have "segs = A @ g # B \<and> length (concat A) \<le> i \<and> i < length (concat A) + length g \<and>
    planSegmentRows (int i) n maxBytes kv = Inr (Segment_Rows ?e
      (select_segments maxBytes True 0 (map planned_row (take (Suc j) (seg_rows ?x (g # B))))))" using s by presburger
  then show ?thesis by blast
qed

section \<open>The load\<close>

lemma select_take: "\<exists>k. select_segments maxBytes first held ps = take k ps \<and> (first \<longrightarrow> 0 < k)"
proof (induction maxBytes first held ps rule: select_segments.induct)
  case (2 maxBytes first held start z rest)
  show ?case
  proof (cases "\<not> first \<and> maxBytes \<le> held")
    case False
    then obtain k where "select_segments maxBytes False (held + sg_bytes z) rest = take k rest" using 2 by blast
    then show ?thesis using False by (intro exI [of _ "Suc k"]) auto
  qed (auto intro: exI [of _ 0])
qed auto

lemma load_segments_ok:
  assumes "\<forall>g \<in> set gs. length g < 2 ^ 32 \<and> (\<forall>c \<in> set g. length c < 2 ^ 32)"
    "\<And>st g. (st, g) \<in> set (take k (seg_rows x gs)) \<Longrightarrow> map_of stored (segmentKey st) = Some (SBytes (encodeSegment g))"
    "x \<le> expected" "gs \<noteq> [] \<Longrightarrow> expected \<le> x + int (length (hd gs))"
  shows "\<exists>cs. load_segments stored e maxBytes expected held (map planned_row (take k (seg_rows x gs))) = Inr cs \<and>
    (0 < k \<longrightarrow> gs \<noteq> [] \<longrightarrow> expected < x + int (length (hd gs)) \<longrightarrow> expected < e \<longrightarrow>
       held + length (hd gs ! nat (expected - x)) \<le> maxBytes \<longrightarrow> cs \<noteq> [])"
  using assms
proof (induction gs arbitrary: k x expected held)
  case (Cons g gs)
  show ?case
  proof (cases k)
    case (Suc j)
    have here: "map_of stored (segmentKey x) = Some (SBytes (encodeSegment g))" using Cons.prems(2) [of x g] Suc by simp
    have dec: "decodeSegment (map_of stored (segmentKey x)) (seg_size g) = Inr g"
      unfolding here using Cons.prems(1) by (intro decode_encode_segment) auto
    let ?d = "drop (nat (expected - x)) g"
    obtain taken e' b full where t: "take_chunks e maxBytes expected held ?d = (taken, e', b, full)" by (metis prod.exhaust)
    note tk = take_chunks_prefix [OF t]
    have hd: "?d \<noteq> [] \<and> hd ?d = g ! nat (expected - x)" if "expected < x + int (length g)"
      using that Cons.prems(3) by (auto simp: hd_drop_conv_nth)
    have some: "expected < x + int (length g) \<Longrightarrow> expected < e \<Longrightarrow> held + length (g ! nat (expected - x)) \<le> maxBytes \<Longrightarrow> taken \<noteq> []"
      using tk(7) hd by auto
    show ?thesis
    proof (cases full)
      case True
      then show ?thesis using Cons.prems(3) dec t some by (auto simp: Suc)
    next
      case False
      have e': "e' = x + int (length g)" using tk(2,6) False Cons.prems(3,4) by auto
      have "\<exists>cs. load_segments stored e maxBytes e' b (map planned_row (take j (seg_rows (x + int (length g)) gs))) = Inr cs"
        using Cons.IH [of j "x + int (length g)" e' b] Cons.prems(1,2) by (auto simp: e' Suc)
      then obtain ds where "load_segments stored e maxBytes e' b (map planned_row (take j (seg_rows (x + int (length g)) gs))) = Inr ds" ..
      then show ?thesis using Cons.prems(3) dec t some False by (auto simp: Suc)
    qed
  qed simp
qed simp

lemma plan_rows_ok:
  assumes "\<And>i. i \<in> set is \<Longrightarrow> map_of sizes (chunkSizeKey i) = Some (SSize (f i)) \<and> f i \<le> max_stream_chunk_bytes"
  shows "\<exists>sel. plan_rows sizes maxBytes held is = Inr sel \<and> (\<forall>(i, z) \<in> set sel. i \<in> set is \<and> z = f i) \<and>
    (is \<noteq> [] \<longrightarrow> held + f (hd is) \<le> maxBytes \<longrightarrow> sel \<noteq> [])"
  using assms
proof (induction "is" arbitrary: held)
  case (Cons i rest)
  have "validateChunkSize (map_of sizes (chunkSizeKey i)) = Inr (f i)" using Cons.prems [of i] by (simp add: validateChunkSize_def)
  moreover have "\<And>i. i \<in> set rest \<Longrightarrow> map_of sizes (chunkSizeKey i) = Some (SSize (f i)) \<and> f i \<le> max_stream_chunk_bytes"
    using Cons.prems by simp
  from Cons.IH [OF this, of "held + f i"]
  obtain sel where "plan_rows sizes maxBytes (held + f i) rest = Inr sel" "\<forall>(i, z) \<in> set sel. i \<in> set rest \<and> z = f i" by blast
  ultimately show ?case by auto
qed simp

lemma load_rows_ok:
  assumes "\<And>i z. (i, z) \<in> set sel \<Longrightarrow> \<exists>c. map_of stored (chunkKey i) = Some (SBytes c) \<and> length c = z"
  shows "\<exists>cs. load_rows stored sel = Inr cs \<and> length cs = length sel"
  using assms
proof (induction sel)
  case (Cons r sel)
  obtain i z where r: "r = (i, z)" by (cases r)
  obtain c where "map_of stored (chunkKey i) = Some (SBytes c)" "length c = z" using Cons.prems [of i z] r by auto
  then show ?case using Cons by (auto simp: r)
qed simp

section \<open>A live read\<close>

definition loads :: "stream_read_request \<Rightarrow> read_plan \<Rightarrow> sval kv \<Rightarrow> bool \<Rightarrow> bool" where
  "loads rq plan kv some \<longleftrightarrow> (\<forall>kv'. rows_kept kv kv' \<longrightarrow> (\<exists>cs. loadRead rq plan kv' = Inr cs \<and> (some \<longrightarrow> cs \<noteq> [])))"

lemma segment_loads:
  assumes wf: "kv_wf kv" and snd0: "seg_sound l kv segs" and cmp: "seg_complete kv segs" and fits: "log_fits l"
    and rq: "0 \<le> rr_start rq" "int max_stream_chunk_bytes \<le> rr_max_bytes rq"
    and n: "0 < n" "rr_start rq + int n \<le> int (length l)"
  shows "\<exists>plan. planSegmentRows (rr_start rq) n (nat (rr_max_bytes rq)) kv = Inr plan \<and> loads rq plan kv True"
proof -
  let ?i = "nat (rr_start rq)" and ?mb = "nat (rr_max_bytes rq)"
  have cat: "concat segs = l" using snd0 by (simp add: seg_sound_def)
  have "?i + n \<le> length l" using n rq by simp
  from plan_segments_ok [OF wf snd0 cmp fits n(1) this, of ?mb] obtain A g B j where
      s: "segs = A @ g # B" "length (concat A) \<le> ?i" "?i < length (concat A) + length g"
    and plan: "planSegmentRows (int ?i) n ?mb kv = Inr (Segment_Rows (int ?i + int n)
      (select_segments ?mb True 0 (map planned_row (take (Suc j) (seg_rows (int (length (concat A))) (g # B))))))" by blast
  let ?x = "int (length (concat A))"
  obtain k where k: "select_segments ?mb True 0 (map planned_row (take (Suc j) (seg_rows ?x (g # B)))) =
      take k (map planned_row (take (Suc j) (seg_rows ?x (g # B))))" "0 < k"
    using select_take [of ?mb True 0 "map planned_row (take (Suc j) (seg_rows ?x (g # B)))"] by (elim exE conjE) simp
  define k' where "k' = min k (Suc j)"
  have sel: "select_segments ?mb True 0 (map planned_row (take (Suc j) (seg_rows ?x (g # B)))) = map planned_row (take k' (seg_rows ?x (g # B)))"
    unfolding k(1) k'_def by (simp only: take_map take_take)
  let ?sel = "map planned_row (take k' (seg_rows ?x (g # B)))"
  let ?plan = "Segment_Rows (int ?i + int n) ?sel"
  have "\<exists>cs. loadRead rq ?plan kv' = Inr cs \<and> cs \<noteq> []" if kept: "rows_kept kv kv'" for kv'
  proof -
    let ?stored = "getMany (map (segmentKey \<circ> fst) ?sel) kv'"
    have "map_of ?stored (segmentKey st) = Some (SBytes (encodeSegment h))" if r: "(st, h) \<in> set (take k' (seg_rows ?x (g # B)))" for st h
    proof -
      have "(st, h) \<in> set (seg_rows 0 segs)" using in_set_takeD [OF r] by (auto simp: s(1) seg_rows_append)
      then have "kv_get (segmentKey st) kv' = Some (SBytes (encodeSegment h))" using cmp kept by (simp add: seg_complete_def rows_kept_def)
      moreover have "segmentKey st \<in> set (map (segmentKey \<circ> fst) ?sel)" using r by force
      ultimately show ?thesis by (simp only: getMany_lookup if_True)
    qed
    moreover have small: "\<forall>h \<in> set (g # B). length h < 2 ^ 32 \<and> (\<forall>c \<in> set h. length c < 2 ^ 32)"
    proof
      fix h assume h: "h \<in> set (g # B)"
      then have "length h \<le> length l" "set h \<subseteq> set l" using cat s(1) by (auto simp: in_set_conv_decomp)
      then show "length h < 2 ^ 32 \<and> (\<forall>c \<in> set h. length c < 2 ^ 32)"
        using fits by (force simp: log_fits_def max_stream_index_def max_stream_chunk_bytes_def)
    qed
    moreover have "?x \<le> rr_start rq" "rr_start rq \<le> ?x + int (length (hd (g # B)))" using s(2,3) rq(1) by simp_all
    ultimately obtain cs where cs: "load_segments ?stored (int ?i + int n) ?mb (rr_start rq) 0 ?sel = Inr cs"
      "rr_start rq < ?x + int (length g) \<Longrightarrow> rr_start rq < int ?i + int n \<Longrightarrow> length (g ! nat (rr_start rq - ?x)) \<le> ?mb \<Longrightarrow> cs \<noteq> []"
      using load_segments_ok [of "g # B" k' ?x ?stored "rr_start rq" "int ?i + int n" ?mb 0] k(2) by (auto simp: k'_def)
    have "nat (rr_start rq - ?x) < length g" using s(2,3) by simp
    then have "g ! nat (rr_start rq - ?x) \<in> set l" using cat s(1) by (auto intro!: nth_mem)
    then have "length (g ! nat (rr_start rq - ?x)) \<le> ?mb" using fits rq(2) by (force simp: log_fits_def)
    moreover have "rr_start rq < ?x + int (length g)" "rr_start rq < int ?i + int n" using s(2,3) rq(1) n(1) by simp_all
    ultimately have "cs \<noteq> []" using cs(2) by blast
    then show ?thesis using cs(1) by (simp add: loadRead_def)
  qed
  then have "loads rq ?plan kv True" by (simp add: loads_def)
  moreover have "planSegmentRows (int ?i) n ?mb kv = Inr ?plan" using plan unfolding sel .
  ultimately have both: "planSegmentRows (int ?i) n ?mb kv = Inr ?plan \<and> loads rq ?plan kv True" by (intro conjI)
  have "int ?i = rr_start rq" using rq(1) by simp
  then show ?thesis using both by (intro exI [of _ ?plan]) (simp only:)
qed

lemma row_loads:
  assumes cmp: "row_complete l kv" and fits: "log_fits l"
    and rq: "0 \<le> rr_start rq" "int max_stream_chunk_bytes \<le> rr_max_bytes rq"
    and n: "0 < n" "rr_start rq + int n \<le> int (length l)"
  shows "\<exists>plan. planChunkRows (rr_start rq) n (nat (rr_max_bytes rq)) kv = Inr plan \<and> loads rq plan kv True"
proof -
  let ?is = "map (\<lambda>k. rr_start rq + int k) [0..<n]" and ?f = "\<lambda>i. length (l ! nat i)"
  have row: "kv_get (chunkKey i) kv = Some (SBytes (l ! nat i)) \<and> kv_get (chunkSizeKey i) kv = Some (SSize (?f i)) \<and> ?f i \<le> max_stream_chunk_bytes"
    if "i \<in> set ?is" for i
  proof -
    have i: "0 \<le> i" "nat i < length l" using that n rq(1) by auto
    then have "l ! nat i \<in> set l" by simp
    then show ?thesis using cmp fits i unfolding row_complete_def log_fits_def by (metis int_nat_eq)
  qed
  have "\<And>i. i \<in> set ?is \<Longrightarrow> map_of (getMany (map chunkSizeKey ?is) kv) (chunkSizeKey i) = Some (SSize (?f i)) \<and> ?f i \<le> max_stream_chunk_bytes"
    using row by (simp only: getMany_lookup set_map image_eqI if_True)
  from plan_rows_ok [OF this, where maxBytes = "nat (rr_max_bytes rq)" and held = 0] obtain sel where
      sel: "plan_rows (getMany (map chunkSizeKey ?is) kv) (nat (rr_max_bytes rq)) 0 ?is = Inr sel" "\<forall>(i, z) \<in> set sel. i \<in> set ?is \<and> z = ?f i"
    and some: "?is \<noteq> [] \<longrightarrow> 0 + ?f (hd ?is) \<le> nat (rr_max_bytes rq) \<longrightarrow> sel \<noteq> []" by blast
  have "sel \<noteq> []"
  proof -
    have "hd ?is \<in> set ?is" using n(1) by (intro hd_in_set) simp
    then have "?f (hd ?is) \<le> nat (rr_max_bytes rq)" using row rq(2) by fastforce
    then show ?thesis using some n(1) by simp
  qed
  have "\<exists>cs. loadRead rq (Chunk_Rows sel) kv' = Inr cs \<and> cs \<noteq> []" if kept: "rows_kept kv kv'" for kv'
  proof -
    have "\<exists>c. map_of (getMany (map (chunkKey \<circ> fst) sel) kv') (chunkKey i) = Some (SBytes c) \<and> length c = z" if r: "(i, z) \<in> set sel" for i z
    proof -
      have "kv_get (chunkKey i) kv' = Some (SBytes (l ! nat i))" using row sel(2) r kept by (auto simp: rows_kept_def)
      moreover have "chunkKey i \<in> set (map (chunkKey \<circ> fst) sel)" using r by force
      moreover have "z = ?f i" using sel(2) r by auto
      ultimately show ?thesis by (simp only: getMany_lookup if_True) simp
    qed
    from load_rows_ok [OF this] obtain cs where "load_rows (getMany (map (chunkKey \<circ> fst) sel) kv') sel = Inr cs" "length cs = length sel" by blast
    then show ?thesis using \<open>sel \<noteq> []\<close> by (auto simp: loadRead_def)
  qed
  then have "loads rq (Chunk_Rows sel) kv True" by (simp add: loads_def)
  then show ?thesis using sel(1) by (simp add: planChunkRows_def Let_def)
qed

lemma plan_live:
  assumes ok: "stream_ok l2 s2" and m2: "stored_meta (st_kv s2) = Inr m2" "me_state m2 \<noteq> Stream_Expired"
    and later: "meta_later m l m2 l2" and count: "me_count m = int (length l)"
    and owner: "rr_run rq \<noteq> []" "me_owner m = None \<or> me_owner m = Some (rr_run rq)"
    and rq: "0 \<le> rr_start rq" "int max_stream_chunk_bytes \<le> rr_max_bytes rq"
  shows "\<exists>plan. planRead m rq (st_kv s2) = Inr plan \<and>
     loads rq plan (st_kv s2) (rr_start rq < int (length l) \<and> 0 < rr_max_chunks rq)"
proof -
  let ?n = "available_chunks m rq" and ?kv = "st_kv s2"
  have own: "assertOwner m (rr_run rq) = Inr ()" using owner by (auto simp: assertOwner_def)
  have live: "me_state m \<noteq> Stream_Expired" using later m2(2) by (auto simp: meta_later_def)
  show ?thesis
  proof (cases "?n = 0")
    case True
    then have "\<not> (rr_start rq < int (length l) \<and> 0 < rr_max_chunks rq)"
      using live count by (auto simp: available_chunks_def)
    moreover have "loads rq No_Chunks ?kv False" by (simp add: loads_def loadRead_def)
    moreover have "planRead m rq ?kv = Inr No_Chunks" by (simp add: planRead_def own True)
    ultimately show ?thesis by auto
  next
    case False
    have within: "rr_start rq + int ?n \<le> int (length l2)" using available_limit(2) [OF False] count later by (auto simp: meta_later_def)
    have "l \<noteq> []" using False count rq(1) by (auto simp: available_chunks_def split: if_splits)
    then have layout: "me_segments m2 = me_segments m" using later by (simp add: meta_later_def)
    obtain segs where wf: "kv_wf ?kv" and fits: "log_fits l2"
      and segs: "seg_sound (if me_segments m then l2 else []) ?kv segs" "seg_complete ?kv segs"
      and rows: "row_complete (if me_segments m then [] else l2) ?kv"
      using ok m2 layout unfolding stream_ok_def rows_hold_def by auto
    have "\<exists>plan. (if me_segments m then planSegmentRows else planChunkRows) (rr_start rq) ?n (nat (rr_max_bytes rq)) ?kv = Inr plan \<and> loads rq plan ?kv True"
    proof (cases "me_segments m")
      case True
      then show ?thesis using segment_loads [OF wf _ segs(2) fits rq _ within] segs(1) False by simp
    next
      case f: False
      then show ?thesis using row_loads [OF _ fits rq _ within] rows False by simp
    qed
    then obtain plan where plan: "(if me_segments m then planSegmentRows else planChunkRows) (rr_start rq) ?n (nat (rr_max_bytes rq)) ?kv = Inr plan"
      "loads rq plan ?kv True" by blast
    have "planRead m rq ?kv = Inr plan" using plan(1) False by (simp add: planRead_def own split: if_splits)
    moreover have "loads rq plan ?kv b" for b using plan(2) by (auto simp: loads_def)
    ultimately show ?thesis by blast
  qed
qed

section \<open>Handlers that only read\<close>

inductive reads_only :: "'r stream_handler \<Rightarrow> bool" where
  "reads_only (Return x)"
| "reads_only (Throw e)"
| "(\<And>now s. reads_only (fst (g now s))) \<Longrightarrow>
     (\<And>now s l. stream_ok l s \<Longrightarrow> stream_ok l (snd (g now s)) \<and> st_kv (snd (g now s)) = st_kv s) \<Longrightarrow> reads_only (Act g)"
| "(\<And>a. reads_only (k a)) \<Longrightarrow> reads_only (Ask q k)"

inductive_cases reads_only_ActE: "reads_only (Act g)"
inductive_cases reads_only_AskE: "reads_only (Ask q k)"

lemma reads_only_bind: "reads_only p \<Longrightarrow> (\<And>x. reads_only (f x)) \<Longrightarrow> reads_only (bindP p f)"
  by (induction rule: reads_only.induct) (auto intro!: reads_only.intros)

lemma reads_only_txn: "reads_only (txn (\<lambda>now s. bindE (h s) (\<lambda>x. Inr (x, s))))"
  unfolding txn_def by (rule reads_only.intros) (auto simp: bindE_def split: sum.splits intro: reads_only.intros)

lemma reads_only_snapshot: "reads_only (readSnapshot rq t)"
proof -
  let ?g = "\<lambda>(now :: int) s. case getMeta s of (Inl e, s') \<Rightarrow> (Throw e :: stream_meta stream_handler, s') | (Inr m, s') \<Rightarrow> (Return m, s')"
  have "reads_only (Act ?g)"
  proof (rule reads_only.intros)
    show "reads_only (fst (?g now s))" for now s by (auto split: prod.splits sum.splits intro: reads_only.intros)
    show "stream_ok l (snd (?g now s)) \<and> st_kv (snd (?g now s)) = st_kv s" if ok: "stream_ok l s" for now s l
    proof -
      obtain m where m: "stored_meta (st_kv s) = Inr m" using stream_ok_meta [OF ok] by blast
      show ?thesis using getMeta_meta [OF ok m] cached_ok(1) [OF ok m, of "st_version s"] by simp
    qed
  qed
  then show ?thesis unfolding readSnapshot_def
    by (intro reads_only_bind reads_only_txn reads_only.intros(1))
qed

lemma reads_only_read: "reads_only (readChunks rq)"
proof (cases "validateStreamReadRequest rq")
  case (Inr u)
  have look0: "reads_only (look (\<lambda>now s. st_version s))"
    unfolding look_def by (rule reads_only.intros) (auto intro: reads_only.intros)
  show ?thesis unfolding readChunks_def Inr sum.case
    by (intro reads_only_bind look0 reads_only_snapshot) (auto intro!: reads_only.intros reads_only_snapshot)
qed (simp add: readChunks_def reads_only.intros)

lemma reads_only_later:
  "reads_only p \<Longrightarrow> stream_ok l s \<Longrightarrow> serve_read sc p (s, l) = (p', s', l') \<Longrightarrow> stream_ok l' s' \<and> cell_later s l s' l'"
proof (induction sc arbitrary: p s l)
  case Nil
  then show ?case by (simp add: cell_later_refl)
next
  case (Cons e rest)
  obtain rqs a where e: "e = (rqs, a)" by (cases e)
  obtain s1 l1 where y: "stream_serves rqs (s, l) = (s1, l1)" by (metis prod.exhaust)
  note ok1 = serves_ok [OF Cons.prems(2) y]
  show ?case
  proof (cases p)
    case (Act g)
    obtain p1 s2 where g: "g 0 s1 = (p1, s2)" by (cases "g 0 s1")
    have "reads_only p1" "stream_ok l1 s2" "st_kv s2 = st_kv s1"
      using Cons.prems(1) ok1 g unfolding Act by (auto elim!: reads_only_ActE) (metis fst_conv snd_conv)+
    moreover have "serve_read rest p1 (s2, l1) = (p', s', l')" using Cons.prems(3) by (simp add: e Act y g)
    ultimately have "stream_ok l' s' \<and> cell_later s2 l1 s' l'" using Cons.IH by blast
    then show ?thesis using ok1 cell_later_trans \<open>st_kv s2 = st_kv s1\<close> by (metis cell_later_kv)
  next
    case (Ask q k)
    have "reads_only (k a)" using Cons.prems(1) unfolding Ask by (auto elim: reads_only_AskE)
    moreover have "serve_read rest (k a) (s1, l1) = (p', s', l')" using Cons.prems(3) by (simp add: e Ask y)
    ultimately show ?thesis using Cons.IH ok1 cell_later_trans by blast
  qed (use Cons.prems in \<open>auto simp: cell_later_refl\<close>)
qed

text \<open>The cell has not expired and belongs to the run (or to nobody yet).\<close>

definition readable :: "string \<Rightarrow> stream \<Rightarrow> bool" where
  "readable run s \<longleftrightarrow> (\<exists>m. stored_meta (st_kv s) = Inr m \<and> me_state m \<noteq> Stream_Expired \<and> (me_owner m = None \<or> me_owner m = Some run))"

lemma readable_before: "cell_later s l s' l' \<Longrightarrow> readable run s' \<Longrightarrow> readable run s"
  unfolding cell_later_def readable_def meta_later_def by auto

lemma act_readable:
  assumes ro: "reads_only (Act g)" and ok: "stream_ok l s" and rd: "serve_read ((rqs, a) # rest) (Act g) (s, l) = (p, s', l')"
    and fin: "readable run s'" and y: "stream_serves rqs (s, l) = (s1, l1)"
  shows "stream_ok l1 s1" "cell_later s l s1 l1" "readable run s1"
    "serve_read rest (fst (g 0 s1)) (snd (g 0 s1), l1) = (p, s', l')" "stream_ok l1 (snd (g 0 s1))" "st_kv (snd (g 0 s1)) = st_kv s1"
proof -
  note one = serves_ok [OF ok y]
  then show ok1: "stream_ok l1 s1" and "cell_later s l s1 l1" by blast+
  show r: "serve_read rest (fst (g 0 s1)) (snd (g 0 s1), l1) = (p, s', l')" using rd y by (simp add: split_def)
  have g: "reads_only (fst (g 0 s1))" "stream_ok l1 (snd (g 0 s1)) \<and> st_kv (snd (g 0 s1)) = st_kv s1"
    using ro ok1 by (auto elim!: reads_only_ActE)
  then show "stream_ok l1 (snd (g 0 s1))" "st_kv (snd (g 0 s1)) = st_kv s1" by blast+
  have "cell_later (snd (g 0 s1)) l1 s' l'" using reads_only_later [OF g(1) conjunct1 [OF g(2)] r] by blast
  from readable_before [OF this fin] show "readable run s1" using g(2) by (simp add: readable_def)
qed

section \<open>A live read succeeds\<close>

lemma snapshot_live:
  assumes rd: "serve_read (e1 # e2 # e3 # rest) (bindP (readSnapshot rq t) f) (s, l) = (p, s', l')" and ok: "stream_ok l s"
    and ro: "\<And>x. reads_only (f x)" and rq: "validateStreamReadRequest rq = Inr u" and fin: "readable (rr_run rq) s'"
  shows "\<exists>x s3 l3. stream_ok l3 s3 \<and> serve_read rest (f x) (s3, l3) = (p, s', l') \<and>
    (rr_start rq < int (length l) \<and> 0 < rr_max_chunks rq \<longrightarrow> rd_chunks x \<noteq> [])"
proof -
  obtain rqs1 a1 rqs2 a2 rqs3 a3 where e: "e1 = (rqs1, a1)" "e2 = (rqs2, a2)" "e3 = (rqs3, a3)" by (metis prod.exhaust)
  note v = request_valid [OF rq]
  have run: "rr_run rq \<noteq> []" using rq by (auto simp: validateStreamReadRequest_def bindE_eq_Inr)
  let ?load = "\<lambda>m plan. bindP (txn (\<lambda>now s. bindE (loadRead rq plan (st_kv s)) (\<lambda>x. Inr (x, s)))) (\<lambda>chunks. f (readResult m rq t chunks))"
  let ?plan = "\<lambda>m. bindP (txn (\<lambda>now s. bindE (planRead m rq (st_kv s)) (\<lambda>x. Inr (x, s)))) (?load m)"
  have ro3: "reads_only (?load m plan)" for m plan by (intro reads_only_bind reads_only_txn ro)
  have ro2: "reads_only (?plan m)" for m by (intro reads_only_bind reads_only_txn ro3)
  have ro1: "reads_only (bindP (readSnapshot rq t) f)" by (intro reads_only_bind reads_only_snapshot ro)
  obtain s1 l1 where y1: "stream_serves rqs1 (s, l) = (s1, l1)" by (metis prod.exhaust)
  have act1: "\<exists>g. bindP (readSnapshot rq t) f = Act g \<and> (\<forall>s m. getMeta s = (Inr m, s\<lparr>st_meta := Some m\<rparr>) \<longrightarrow> g 0 s = (?plan m, s\<lparr>st_meta := Some m\<rparr>))"
    by (simp add: readSnapshot_def bindP_assoc)
  then obtain g1 where g1: "bindP (readSnapshot rq t) f = Act g1"
    "\<And>s m. getMeta s = (Inr m, s\<lparr>st_meta := Some m\<rparr>) \<Longrightarrow> g1 0 s = (?plan m, s\<lparr>st_meta := Some m\<rparr>)" by blast
  note a1 = act_readable [OF ro1 [unfolded g1(1)] ok rd [unfolded e(1) g1(1)] fin y1]
  obtain m where m: "stored_meta (st_kv s1) = Inr m" "me_state m \<noteq> Stream_Expired" "me_owner m = None \<or> me_owner m = Some (rr_run rq)"
    using a1(3) by (auto simp: readable_def)
  have count: "me_count m = int (length l1)" using a1(1) m by (auto simp: stream_ok_def)
  let ?s1 = "s1\<lparr>st_meta := Some m\<rparr>"
  have g1': "g1 0 s1 = (?plan m, ?s1)" using g1(2) getMeta_meta [OF a1(1) m(1)] by blast
  obtain g2 where g2: "?plan m = Act g2" "\<And>s plan. planRead m rq (st_kv s) = Inr plan \<Longrightarrow> g2 0 s = (?load m plan, s)"
    by (simp add: txn_def)
  obtain s2 l2 where y2: "stream_serves rqs2 (?s1, l1) = (s2, l2)" by (metis prod.exhaust)
  have r2: "serve_read ((rqs2, a2) # e3 # rest) (Act g2) (?s1, l1) = (p, s', l')" using a1(4) by (simp only: g1' fst_conv snd_conv e g2(1))
  have ok1': "stream_ok l1 ?s1" using a1(5) by (simp only: g1' snd_conv)
  note a2 = act_readable [OF ro2 [of m, unfolded g2(1)] ok1' r2 fin y2]
  obtain m2 where m2: "stored_meta (st_kv s2) = Inr m2" "me_state m2 \<noteq> Stream_Expired" using a2(3) by (auto simp: readable_def)
  have later: "meta_later m l1 m2 l2" using a2(2) m m2 by (simp add: cell_later_def)
  from plan_live [OF a2(1) m2 later count run m(3)] v obtain plan where plan: "planRead m rq (st_kv s2) = Inr plan"
    and loads: "loads rq plan (st_kv s2) (rr_start rq < int (length l1) \<and> 0 < rr_max_chunks rq)" by blast
  have g2': "g2 0 s2 = (?load m plan, s2)" using g2(2) [OF plan] .
  obtain g3 where g3: "?load m plan = Act g3" "\<And>s cs. loadRead rq plan (st_kv s) = Inr cs \<Longrightarrow> g3 0 s = (f (readResult m rq t cs), s)"
    by (simp add: txn_def)
  obtain s3 l3 where y3: "stream_serves rqs3 (s2, l2) = (s3, l3)" by (metis prod.exhaust)
  have r3: "serve_read ((rqs3, a3) # rest) (Act g3) (s2, l2) = (p, s', l')" using a2(4) by (simp only: g2' fst_conv snd_conv e g3(1))
  have ro_g3: "reads_only (Act g3)" using ro3 unfolding g3(1) [symmetric] .
  note a3 = act_readable [OF ro_g3 a2(1) r3 fin y3]
  have "rows_kept (st_kv s2) (st_kv s3)" using a3(2,3) by (auto simp: cell_later_def readable_def)
  then obtain cs where cs: "loadRead rq plan (st_kv s3) = Inr cs" "rr_start rq < int (length l1) \<and> 0 < rr_max_chunks rq \<longrightarrow> cs \<noteq> []"
    using loads unfolding loads_def by blast
  have "serve_read rest (f (readResult m rq t cs)) (s3, l3) = (p, s', l')" using a3(4) by (simp only: g3(2) [OF cs(1)] fst_conv snd_conv)
  moreover have "length l \<le> length l1" using a1(2) by (auto simp: cell_later_def meta_later_def)
  ultimately show ?thesis using a3(1) cs(2) by (intro exI [of _ "readResult m rq t cs"] exI [of _ s3] exI [of _ l3]) (auto simp: readResult_def)
qed

lemma reads_live:
  assumes rd: "serve_read sc (readChunks rq) (s, l) = (p, s', l')" and ok: "stream_ok l s" and enough: "8 \<le> length sc"
    and kept: "\<forall>(rqs, a) \<in> set sc. a \<noteq> Aborted" and rq: "validateStreamReadRequest rq = Inr u" and fin: "readable (rr_run rq) s'"
  shows "\<exists>r. p = Return r \<and> (rr_start rq < int (length l) \<and> 0 < rr_max_chunks rq \<longrightarrow> rd_chunks r \<noteq> [])"
proof -
  obtain e0 e1 e2 e3 e4 e5 e6 e7 rest where sc: "sc = e0 # e1 # e2 # e3 # e4 # e5 # e6 # e7 # rest"
    using enough by (auto simp: numeral_eq_Suc Suc_le_length_iff)
  obtain rqs0 a0 rqs4 a4 where e: "e0 = (rqs0, a0)" "e4 = (rqs4, a4)" by (metis prod.exhaust)
  have a4: "a4 \<noteq> Aborted" using kept by (auto simp: sc e)
  let ?wait = "\<lambda>observed immediate. if rd_chunks immediate \<noteq> [] \<or> rd_state immediate \<noteq> Stream_Open \<or> rr_wait_ms rq = 0 \<or> rr_max_chunks rq = 0
            then Return immediate
            else Ask (Wait_Change observed (rr_wait_ms rq)) (\<lambda>a.
              if a = Aborted then Throw Read_Aborted else readSnapshot rq (a = Timed_Out))"
  have ro: "reads_only (?wait v x)" for v x by (auto intro!: reads_only.intros reads_only_snapshot)
  obtain s0 l0 where y0: "stream_serves rqs0 (s, l) = (s0, l0)" by (metis prod.exhaust)
  note ok0 = serves_ok [OF ok y0]
  have longer: "length l \<le> length l0" using ok0 by (auto simp: cell_later_def meta_later_def)
  have r0: "serve_read (e1 # e2 # e3 # e4 # e5 # e6 # e7 # rest) (bindP (readSnapshot rq False) (?wait (st_version s0))) (s0, l0) = (p, s', l')"
    using rd rq by (simp add: sc e readChunks_def look_def y0)
  from snapshot_live [OF r0 conjunct1 [OF ok0] ro rq fin] obtain x s3 l3 where ok3: "stream_ok l3 s3"
    and r3: "serve_read (e4 # e5 # e6 # e7 # rest) (?wait (st_version s0) x) (s3, l3) = (p, s', l')"
    and some: "rr_start rq < int (length l0) \<and> 0 < rr_max_chunks rq \<longrightarrow> rd_chunks x \<noteq> []" by blast
  show ?thesis
  proof (cases "rd_chunks x \<noteq> [] \<or> rd_state x \<noteq> Stream_Open \<or> rr_wait_ms rq = 0 \<or> rr_max_chunks rq = 0")
    case True
    then show ?thesis using r3 some longer by (intro exI [of _ x]) auto
  next
    case False
    obtain s4 l4 where y4: "stream_serves rqs4 (s3, l3) = (s4, l4)" by (metis prod.exhaust)
    note ok4 = serves_ok [OF ok3 y4]
    have "serve_read (e5 # e6 # e7 # rest) (bindP (readSnapshot rq (a4 = Timed_Out)) Return) (s4, l4) = (p, s', l')"
      using r3 a4 unfolding if_not_P [OF False] by (simp add: e y4 bindP_Return)
    from snapshot_live [OF this conjunct1 [OF ok4] reads_only.intros(1) rq fin] obtain x' where "p = Return x'" by auto
    moreover have "\<not> (rr_start rq < int (length l) \<and> 0 < rr_max_chunks rq)" using False some longer by auto
    ultimately show ?thesis by blast
  qed
qed

end
