(* ===== verification/StreamProperties.thy ===== *)
theory StreamProperties
  imports StreamProgress "HOL-Library.Code_Target_Nat"
begin

text \<open>
  The properties of the stream cell and of its frames, each with a run at which its hypotheses hold.
\<close>

section \<open>Where a stream starts\<close>

text \<open>An empty cell, or one that an earlier version of the code wrote: a row and a size row for each chunk.\<close>

definition old_layout :: "string \<Rightarrow> bytes list \<Rightarrow> stream" where
  "old_layout runId cs =
     \<lparr>st_kv = kv_put_all (write_entries (emptyMeta\<lparr>me_count := int (length cs), me_owner := Some runId\<rparr>) 0 cs) [],
      st_meta = None, st_version = 0\<rparr>"

definition stream_start :: "stream \<Rightarrow> bytes list \<Rightarrow> bool" where
  "stream_start s l \<longleftrightarrow> (s = empty_stream \<and> l = []) \<or> (\<exists>runId. s = old_layout runId l \<and> log_fits l)"

lemma old_layout_ok:
  assumes "log_fits l"
  shows "stream_ok l (old_layout runId l)"
proof -
  let ?m = "emptyMeta\<lparr>me_count := int (length l), me_owner := Some runId\<rparr>"
  have "rows_hold False True [] []" using empty_stream_ok
    by (auto simp: stream_ok_def empty_stream_def stored_meta_def emptyMeta_def)
  then have "rows_hold (me_segments ?m) True ([] @ l) (kv_put_all (write_entries ?m (int (length ([] :: bytes list))) l) [])"
    by (rule write_rows [THEN conjunct1]) (use assms in \<open>auto simp: emptyMeta_def log_fits_def\<close>)
  moreover have "validateMeta (SMeta ?m) = Inr ?m" using assms by (simp add: valid_meta log_fits_def) (simp add: emptyMeta_def)
  moreover have "kv_wf ([] :: sval kv)" by (simp add: kv_wf_def)
  ultimately show ?thesis using assms
    by (simp add: stream_ok_def old_layout_def write_meta kv_wf_put_all) (simp add: emptyMeta_def)
qed

lemma stream_start_ok: "stream_start s l \<Longrightarrow> stream_ok l s"
  using empty_stream_ok old_layout_ok by (auto simp: stream_start_def)

section \<open>Reads\<close>

text \<open>C25: Whatever requests are served before and between the pieces of a (long-polling) read, what it
  returns are the chunks of the log from the requested offset on, no more than asked for in number and
  bytes, below the tail it reports; and when it reports the stream closed or failed, that tail is the
  whole log.\<close>

theorem stream_reads_the_log:
  assumes "stream_start s0 l0" "stream_serves earlier (s0, l0) = (s, l)"
    and "serve_read sc (readChunks rq) (s, l) = (Return r, s', l')"
  shows "rd_chunks r = take (length (rd_chunks r)) (drop (nat (rr_start rq)) l') \<and>
    int (length (rd_chunks r)) \<le> rr_max_chunks rq \<and> int (sum_list (map length (rd_chunks r))) \<le> rr_max_bytes rq \<and>
    (rd_chunks r \<noteq> [] \<longrightarrow> rr_start rq + int (length (rd_chunks r)) \<le> rd_tail r + 1) \<and>
    (rd_state r \<noteq> Stream_Expired \<longrightarrow> rd_tail r + 1 \<le> int (length l')) \<and>
    (rd_state r = Stream_Closed \<or> rd_state r = Stream_Errored \<longrightarrow> rd_tail r + 1 = int (length l'))"
proof -
  have "stream_ok l s" using serves_ok [OF stream_start_ok [OF assms(1)] assms(2)] by blast
  then show ?thesis using reads_sound [OF assms(3)] by (auto simp: result_sound_def piece_def)
qed

definition demo_log :: "bytes list" where "demo_log = [[1], [2, 3], [], [4]]"

definition demo_writes :: "stream_request list" where
  "demo_writes = [Write_Chunks ''r'' [[1], [2, 3]], Evict, Write_Chunks ''r'' [[], [4]], Close_Stream ''r'', Write_Chunks ''r'' [[5]]]"

definition demo_stream_read :: stream_read_request where
  "demo_stream_read = \<lparr>rr_run = ''r'', rr_start = 1, rr_max_chunks = 2, rr_max_bytes = 1048576, rr_wait_ms = 0\<rparr>"

definition demo_script :: read_script where "demo_script = replicate 8 ([], Changed)"

definition demo_stream :: "stream \<times> bytes list" where "demo_stream = stream_serves demo_writes (empty_stream, [])"

fun returned :: "'r stream_handler \<Rightarrow> 'r option" where
  "returned (Return x) = Some x"
| "returned _ = None"

lemma returned_Some: "returned p = Some x \<Longrightarrow> p = Return x"
  by (cases p) simp_all

lemma demo_served: "case serve_read demo_script (readChunks demo_stream_read) demo_stream of (p, s, l) \<Rightarrow>
   returned p = Some \<lparr>rd_start = 1, rd_tail = 3, rd_chunks = [[2, 3], []], rd_state = Stream_Closed, rd_timed_out = False, rd_error = None\<rparr>
   \<and> l = demo_log"
  by code_simp

theorem stream_reads_the_log_witness:
  "\<exists>r s l. serve_read demo_script (readChunks demo_stream_read) demo_stream = (Return r, s, l) \<and>
     rd_chunks r = [[2, 3], []] \<and> [[2, 3], []] = take 2 (drop 1 demo_log) \<and> rd_tail r + 1 = int (length l)"
proof -
  obtain p s l where rd: "serve_read demo_script (readChunks demo_stream_read) demo_stream = (p, s, l)" by (metis prod.exhaust)
  define r where "r = \<lparr>rd_start = 1, rd_tail = 3, rd_chunks = [[2, 3], []], rd_state = Stream_Closed, rd_timed_out = False, rd_error = None\<rparr>"
  have "p = Return r" "l = demo_log" using demo_served rd by (auto simp: r_def dest!: returned_Some)
  then have rd': "serve_read demo_script (readChunks demo_stream_read) (fst demo_stream, snd demo_stream) = (Return r, s, demo_log)" using rd by simp
  have start: "stream_start empty_stream []" "stream_serves demo_writes (empty_stream, []) = (fst demo_stream, snd demo_stream)"
    by (simp_all add: stream_start_def demo_stream_def)
  show ?thesis using stream_reads_the_log [OF start rd'] rd' by (simp add: r_def demo_stream_read_def numeral_2_eq_2)
qed

text \<open>C40: A valid read that nobody aborts always answers while the stream has not expired and belongs to the
  run (or to nobody yet), whatever is served before and between its pieces and whichever layout the cell
  has; and when the log already held a chunk at the requested offset, the answer holds at least one.\<close>

theorem live_stream_read_succeeds:
  assumes "stream_start s0 l0" "stream_serves earlier (s0, l0) = (s, l)"
    and "serve_read sc (readChunks rq) (s, l) = (p, s', l')" "8 \<le> length sc" "\<forall>(rqs, a) \<in> set sc. a \<noteq> Aborted"
    and "validateStreamReadRequest rq = Inr u"
    and "stored_meta (st_kv s') = Inr m" "me_state m \<noteq> Stream_Expired" "me_owner m = None \<or> me_owner m = Some (rr_run rq)"
  shows "\<exists>r. p = Return r \<and> (rr_start rq < int (length l) \<and> 0 < rr_max_chunks rq \<longrightarrow> rd_chunks r \<noteq> [])"
proof -
  have "stream_ok l s" using serves_ok [OF stream_start_ok [OF assms(1)] assms(2)] by blast
  moreover have "readable (rr_run rq) s'" using assms(7-9) by (auto simp: readable_def)
  ultimately show ?thesis using reads_live assms(3-6) by blast
qed

definition demo_old :: "stream \<times> bytes list" where "demo_old = (old_layout ''r'' [[1], [2, 3]], [[1], [2, 3]])"

lemma demo_old_read: "case serve_read demo_script (readChunks demo_stream_read) demo_old of (p, s, l) \<Rightarrow>
   (case stored_meta (st_kv s) of Inr m \<Rightarrow> me_state m = Stream_Open \<and> me_owner m = Some ''r'' | Inl e \<Rightarrow> False)"
  by code_simp

theorem live_stream_read_succeeds_witness:
  "\<exists>r s l. serve_read demo_script (readChunks demo_stream_read) demo_old = (Return r, s, l) \<and> rd_chunks r \<noteq> []"
proof -
  obtain p s l where rd: "serve_read demo_script (readChunks demo_stream_read) demo_old = (p, s, l)" by (metis prod.exhaust)
  obtain m where m: "stored_meta (st_kv s) = Inr m" "me_state m \<noteq> Stream_Expired" "me_owner m = Some ''r''"
    using demo_old_read rd by (auto split: sum.splits)
  have "log_fits [[1], [2, 3]]" by (simp add: log_fits_def stream_bounds)
  then have start: "stream_start (fst demo_old) (snd demo_old)" by (auto simp: stream_start_def demo_old_def)
  have none: "stream_serves [] (fst demo_old, snd demo_old) = (fst demo_old, snd demo_old)" by (simp add: stream_serves_def)
  have valid: "validateStreamReadRequest demo_stream_read = Inr ()" by code_simp
  show ?thesis
    using live_stream_read_succeeds [OF start none _ _ _ valid m(1,2), of demo_script p l] rd m(3)
    by (auto simp: demo_script_def demo_stream_read_def demo_old_def)
qed

section \<open>Frames\<close>






end
