(* ===== verification/Spec2Isabelle.thy ===== *)
theory Spec2Isabelle
  imports ClaimProperties EventProperties HookProperties IndexProperties StreamProperties
begin

text \<open>
  A verification development for world-celld: durable workflow runs kept in single-writer cells.

  The program.  Every workflow run lives in a cell of its own (\<open>WorkflowRunDO\<close>), which executes one
  storage transaction per workflow event (\<open>src/apply-event.ts\<close>): guards in a fixed order, one handler
  per event type, an append to the run's event log and the entity rows that mirror it.  Around it
  the run cell keeps retention deadlines and cleans up in pages, fenced by a tombstone; it, or a cell
  per queue message, admits and leases queue messages.  Hooks are found through two families of
  index shards, by token (\<open>HookTokenDO\<close>) and by id (\<open>HookIdDO\<close>): a creation first claims its token
  and id there, then commits in the run cell, then publishes; the shards' alarms settle what a
  client left half done by asking the run cells.  Runs are listed through a catalog spread over shards,
  and a run's byte streams live in cells of their own (\<open>StreamDO\<close>).

  The data and the run cell's transaction:
  \<^item> \<open>Prelude\<close>, \<open>JsStd\<close>: exceptions as sums; dynamic values, decimal and ISO date strings,
    \<open>encodeURIComponent\<close> with its injectivity.
  \<^item> \<open>KeyStore\<close>: a cell's storage with prefix listing; the locale \<open>key_value\<close> and its
    interpretation on sorted association lists.
  \<^item> \<open>Lifecycle\<close>: \<open>src/lifecycle.ts\<close> and \<open>src/validation.ts\<close>.
  \<^item> \<open>WorldTypes\<close>: entities, events, retention and queue records, and \<open>world_api\<close>, the part of
    the package \<open>@workflow/world\<close> that the code calls, as a parameter with named hypotheses.
  \<^item> \<open>ApplyEvent\<close>, \<open>EventHandlers\<close>, \<open>HookHandlers\<close>: \<open>src/apply-event.ts\<close>.
  \<^item> \<open>JournalSpec\<close>: the abstract contract, an append-only journal whose folds are the entities;
    \<open>JournalRefine\<close>, \<open>ApplyRefine\<close>, \<open>ApplyCorrect\<close>, \<open>StoreProperty\<close>: the handlers implement it;
    \<open>JournalFacts\<close>: what legal journals guarantee; \<open>EventProperties\<close>: the properties C1 to C14.

  The run cell as a whole (\<open>src/worker/durable-objects/WorkflowRunDO.ts\<close>):
  \<^item> \<open>RunCell\<close>: its transactions; \<open>QueueCells\<close>: claims and payload registry; \<open>RetentionCell\<close>:
    deadlines, pages, the alarm.
  \<^item> \<open>CellSteps\<close>: the cell as a transition system.  A page of cleanup has two halves, before and
    after its calls to other cells, and requests run in between.
  \<^item> \<open>CellReads\<close>, \<open>CellWrites\<close>, \<open>EventAnswers\<close>, \<open>CellWf\<close>, \<open>CellFence\<close>, \<open>CellProgress\<close>,
    \<open>CellHistory\<close>, \<open>CellDrive\<close>, \<open>CellDrain\<close>, \<open>CellLife\<close>, \<open>QueueClaims\<close>: what requests read and
    write, the fence, the phases of cleanup, the log as history, the alarm that is never lost, the
    cleanup that ends, the lifecycle, the queue contract (the locale \<open>claim_scope\<close>).
  \<^item> \<open>CellProperties\<close> (C15 to C22), \<open>ClaimProperties\<close> (C23 to C29 but for C25).

  The hook index (\<open>HookTokenDO.ts\<close>, \<open>HookIdDO.ts\<close>, \<open>hook-index-shared.ts\<close>):
  \<^item> \<open>CellProc\<close>: handlers that call other cells as trees of indivisible pieces of work and calls,
    their interleaving, and the locale \<open>rely_guarantee\<close> that lifts what each piece keeps to the system.
  \<^item> \<open>HookShard\<close>, \<open>HookIds\<close>, \<open>HookTokens\<close>: the two shards.  \<open>DeadlineKeys\<close>: the ordered keys;
    \<open>ShardFacts\<close>: reads after writes.
  \<^item> \<open>TokenFacts\<close>, \<open>TokenSystem\<close>: how a token is held and changes hands; \<open>TokenRounds\<close>: the
    reservation loops end; \<open>IdFacts\<close>: no claim of a hook id is stranded.
  \<^item> \<open>HookProperties\<close>: C30 to C37 but for C35, the last of which is the promise of the run cell that the shards
    rely on.

  The catalog of runs (\<open>RunCatalogDO.ts\<close>, \<open>indexes.ts\<close>, \<open>run-list.ts\<close>):
  \<^item> \<open>RunCatalog\<close>: a catalog shard; \<open>CatalogFacts\<close>: the fence of an expired run.
  \<^item> \<open>IndexClient\<close>: how keys are spread over shards and the operations that need several of them;
    \<open>IndexListing\<close>: stable sorting and merging (the locale \<open>comparator\<close>), the merged page is the page
    of all rows, the next page begins where it ends.
  \<^item> \<open>RunList\<close>: the listing of runs over that index.  \<open>IndexProperties\<close>: C38 and C39.

  Streams (\<open>stream-protocol.ts\<close>, \<open>StreamDO.ts\<close>):
  \<^item> \<open>StreamProtocol\<close>: bounds, validation, binary frames, errors; \<open>StreamFrames\<close>: what the frames keep.
  \<^item> \<open>StreamCell\<close>: the cell of a stream and the registry of a run's streams.
  \<^item> \<open>StreamFacts\<close>: rows, segments and what it is for a cell to hold a log (\<open>stream_ok\<close>);
    \<open>StreamSteps\<close>: every request keeps that and only appends to the log; \<open>StreamReads\<close>: a read in three
    pieces, with requests in between, returns a piece of the log; \<open>StreamProgress\<close>: it does not fail
    before the stream expires.
  \<^item> \<open>StreamProperties\<close>: C25, C35 and C40.

  Concrete instances for the witnesses are in \<open>Demo\<close>, \<open>CellDemo\<close> and at the start of the property
  theories.

  Conventions.  An exception is \<open>Inl\<close> and carries no state, because the storage transaction around it
  is rolled back; a refused event is the value \<open>Failure\<close>.  Dates are epoch milliseconds, strings are
  read as UTF-8 bytes, messages for people are left out.  A transaction reads the clock once.
  Storage operations with no call to another cell between them are one piece of work, as the
  platform's input gate makes them.  A crash between the two halves of a page is not modelled; the
  alarm that the first half leaves set covers it.  A \<open>for(;;)\<close> loop is a number of rounds, running out
  of which is an exception of its own; C36 shows how many are enough.  A mutation of a stream cell is its
  transaction together with the update of the cached metadata; a read of a stream loads the metadata,
  plans and loads in three pieces, and its wait for a change may end in any way.

  Not modelled: the HTTP surface (\<open>router.ts\<close>, \<open>worker.ts\<close>, \<open>auth.ts\<close>, \<open>remote/\<close>), the facade
  over the cells (\<open>storage.ts\<close>) and the parsing of requests, which is transport and schema checking; the
  client of streams (\<open>streamer.ts\<close>) with its \<open>ReadableStream\<close>; the publication to the platform's queue and
  its consumer; test doubles, configuration and vendored helpers.
\<close>

end
